(* ===== verification/OS_Prelude.thy ===== *)
theory OS_Prelude
  imports Main "HOL-Library.Word"
begin

unbundle bit_operations_syntax

text \<open>
  Shared vocabulary of the development: the fixed-width integers of types.h, the memory that C
  pointers address, the result type for accesses outside an array, the counted loop of C, and the
  lemmas on words, lists and memory that every component uses.

  Memory is a collection of blocks, as in the usual memory model of C: \<open>Flat\<close> is the low address
  space the kernel maps one to one (the boot module with the file system, the video page and its
  back-up pages), \<open>User i\<close> is the 4 MB program page of process slot \<open>i\<close>, and \<open>Obj n\<close> is a named
  array of the C program.  A pointer is a block with a 32-bit offset, so offset arithmetic wraps
  like machine addresses do.
\<close>

type_synonym u8 = "8 word"
type_synonym u16 = "16 word"
type_synonym u32 = "32 word"

datatype block = Flat | User nat | Obj string

type_synonym ptr = "block \<times> u32"
type_synonym mem = "block \<Rightarrow> u32 \<Rightarrow> u8"

text \<open>\<open>ld m p i\<close> is the C expression \<open>p[i]\<close> on bytes, \<open>st m p i v\<close> the assignment \<open>p[i] = v\<close>.\<close>

definition ld :: "mem \<Rightarrow> ptr \<Rightarrow> u32 \<Rightarrow> u8" where
  "ld m p i = m (fst p) (snd p + i)"

definition st :: "mem \<Rightarrow> ptr \<Rightarrow> u32 \<Rightarrow> u8 \<Rightarrow> mem" where
  "st m p i v = m(fst p := (m (fst p))(snd p + i := v))"

definition padd :: "ptr \<Rightarrow> u32 \<Rightarrow> ptr" where
  "padd p n = (fst p, snd p + n)"

text \<open>The little-endian 32-bit load \<open>((uint32_t*)p)[0]\<close> at byte pointer \<open>p\<close>.\<close>

definition ld32 :: "mem \<Rightarrow> ptr \<Rightarrow> u32" where
  "ld32 m p = ucast (ld m p 0) OR push_bit 8 (ucast (ld m p 1))
      OR push_bit 16 (ucast (ld m p 2)) OR push_bit 24 (ucast (ld m p 3))"

text \<open>The first \<open>n\<close> bytes at a pointer, and the part of them before the first NUL.\<close>

definition bytes :: "mem \<Rightarrow> ptr \<Rightarrow> nat \<Rightarrow> u8 list" where
  "bytes m p n = map (\<lambda>i. ld m p (of_nat i)) [0..<n]"

definition cview :: "mem \<Rightarrow> ptr \<Rightarrow> nat \<Rightarrow> u8 list" where
  "cview m p n = takeWhile (\<lambda>b. b \<noteq> 0) (bytes m p n)"

text \<open>The NUL-terminated C string at a pointer has the bytes \<open>xs\<close>.\<close>

definition cstr :: "mem \<Rightarrow> ptr \<Rightarrow> u8 list \<Rightarrow> bool" where
  "cstr m p xs \<longleftrightarrow> length xs < 2 ^ 32 \<and> 0 \<notin> set xs \<and> bytes m p (length xs) = xs \<and>
     ld m p (of_nat (length xs)) = 0"

text \<open>The addresses of the \<open>n\<close> bytes at a pointer.\<close>

definition region :: "ptr \<Rightarrow> nat \<Rightarrow> ptr set" where
  "region p n = {(fst p, snd p + of_nat i) | i. i < n}"

subsection \<open>Results: a value, or an access outside an array\<close>

datatype fault = Bad_index string int | Divide_error

type_synonym 'a res = "fault + 'a"

definition rbind :: "'a res \<Rightarrow> ('a \<Rightarrow> 'b res) \<Rightarrow> 'b res" where
  "rbind r f = (case r of Inl e \<Rightarrow> Inl e | Inr x \<Rightarrow> f x)"

text \<open>Reading and writing a C array held as a list: out of range is a fault that names the array.\<close>

definition aget :: "string \<Rightarrow> 'a list \<Rightarrow> int \<Rightarrow> 'a res" where
  "aget nm xs i = (if 0 \<le> i \<and> i < int (length xs) then Inr (xs ! nat i) else Inl (Bad_index nm i))"

definition aset :: "string \<Rightarrow> 'a list \<Rightarrow> int \<Rightarrow> 'a \<Rightarrow> 'a list res" where
  "aset nm xs i v =
     (if 0 \<le> i \<and> i < int (length xs) then Inr (xs[nat i := v]) else Inl (Bad_index nm i))"

subsection \<open>The counted loop \<open>for (i = lo; i < hi; i++)\<close>\<close>

definition for_loop :: "nat \<Rightarrow> nat \<Rightarrow> (nat \<Rightarrow> 's \<Rightarrow> 's) \<Rightarrow> 's \<Rightarrow> 's" where
  "for_loop lo hi body s = fold body [lo..<hi] s"

fun for_each_res :: "'i list \<Rightarrow> ('i \<Rightarrow> 's \<Rightarrow> 's res) \<Rightarrow> 's \<Rightarrow> 's res" where
  "for_each_res [] body s = Inr s"
| "for_each_res (i # is) body s = rbind (body i s) (for_each_res is body)"

text \<open>The search \<open>for (i = lo; i < hi; i++) if (P(i)) break;\<close>, with the value of \<open>i\<close> after it.\<close>

function scan :: "(nat \<Rightarrow> bool) \<Rightarrow> nat \<Rightarrow> nat \<Rightarrow> nat" where
  "scan P lo hi = (if lo < hi \<and> \<not> P lo then scan P (Suc lo) hi else lo)"
  by pat_completeness auto
termination
  by (relation "measure (\<lambda>(P, lo, hi). hi - lo)") auto

declare scan.simps [simp del]

named_theorems mem_simps \<open>loads after stores, pointer arithmetic, views of memory\<close>
named_theorems res_simps \<open>results and checked array accesses\<close>

subsection \<open>Results\<close>

lemma rbind_Inr [simp, res_simps]: "rbind (Inr x) f = f x"
  by (simp add: rbind_def)

lemma rbind_Inl [simp, res_simps]: "rbind (Inl e) f = Inl e"
  by (simp add: rbind_def)

lemma rbind_eq_Inr [res_simps]: "rbind r f = Inr y \<longleftrightarrow> (\<exists>x. r = Inr x \<and> f x = Inr y)"
  by (cases r) auto

lemma rbind_assoc [res_simps]: "rbind (rbind r f) g = rbind r (\<lambda>x. rbind (f x) g)"
  by (cases r) auto

lemma aget_in [simp, res_simps]:
  "0 \<le> i \<Longrightarrow> i < int (length xs) \<Longrightarrow> aget nm xs i = Inr (xs ! nat i)"
  by (simp add: aget_def)

lemma aset_in [simp, res_simps]:
  "0 \<le> i \<Longrightarrow> i < int (length xs) \<Longrightarrow> aset nm xs i v = Inr (xs[nat i := v])"
  by (simp add: aset_def)

lemma aget_eq_Inr [res_simps]:
  "aget nm xs i = Inr v \<longleftrightarrow> 0 \<le> i \<and> i < int (length xs) \<and> v = xs ! nat i"
  by (auto simp: aget_def)

lemma aset_eq_Inr [res_simps]:
  "aset nm xs i v = Inr ys \<longleftrightarrow> 0 \<le> i \<and> i < int (length xs) \<and> ys = xs[nat i := v]"
  by (auto simp: aset_def)

lemma for_each_res_inv:
  assumes "\<And>i s s'. i \<in> set is \<Longrightarrow> I s \<Longrightarrow> body i s = Inr s' \<Longrightarrow> I s'"
    and "I s" and "for_each_res is body s = Inr s'"
  shows "I s'"
  using assms
proof (induction "is" arbitrary: s)
  case Nil
  then show ?case by simp
next
  case (Cons i "is")
  then obtain t where t: "body i s = Inr t" and rest: "for_each_res is body t = Inr s'"
    by (auto simp: rbind_eq_Inr)
  have "I t" using Cons.prems(1) [OF _ Cons.prems(2) t] by simp
  with Cons.IH [of t] Cons.prems(1) rest show ?case by auto
qed

lemma for_each_res_total:
  assumes "\<And>i s. i \<in> set is \<Longrightarrow> I s \<Longrightarrow> \<exists>s'. body i s = Inr s' \<and> I s'" and "I s"
  shows "\<exists>s'. for_each_res is body s = Inr s' \<and> I s'"
  using assms
proof (induction "is" arbitrary: s)
  case Nil
  then show ?case by simp
next
  case (Cons i "is")
  then obtain t where "body i s = Inr t" and "I t" by force
  with Cons.IH [of t] Cons.prems(1) show ?case by auto
qed

lemma for_each_res_append:
  "for_each_res (xs @ ys) body s = rbind (for_each_res xs body s) (for_each_res ys body)"
proof (induction xs arbitrary: s)
  case (Cons x xs)
  have "for_each_res (xs @ ys) body = (\<lambda>s. rbind (for_each_res xs body s) (for_each_res ys body))"
    by (rule ext) (rule Cons.IH)
  then show ?case by (simp add: rbind_assoc)
qed simp

subsection \<open>Counted loops\<close>

lemma for_loop_inv:
  assumes "\<And>i s. lo \<le> i \<Longrightarrow> i < hi \<Longrightarrow> I s \<Longrightarrow> I (body i s)" and "I s"
  shows "I (for_loop lo hi body s)"
  unfolding for_loop_def using assms
  by (rule_tac fold_invariant [where Q = "\<lambda>i. lo \<le> i \<and> i < hi"]) auto

lemma for_loop_upd:
  "for_loop lo hi (\<lambda>i f. f(i := g i)) f = (\<lambda>i. if lo \<le> i \<and> i < hi then g i else f i)"
proof (cases "lo \<le> hi")
  case True
  then show ?thesis
  proof (induction hi rule: dec_induct)
    case base
    then show ?case by (auto simp: for_loop_def fun_eq_iff)
  next
    case (step n)
    then show ?case by (auto simp: for_loop_def fun_eq_iff)
  qed
next
  case False
  then show ?thesis by (auto simp: for_loop_def fun_eq_iff)
qed

lemma scan_cong: "(\<And>i. lo \<le> i \<Longrightarrow> i < hi \<Longrightarrow> P i = Q i) \<Longrightarrow> scan P lo hi = scan Q lo hi"
proof (induction P lo hi rule: scan.induct)
  case (1 P lo hi)
  then show ?case by (subst (1 2) scan.simps) auto
qed

lemma scan_ge: "lo \<le> scan P lo hi"
proof (induction P lo hi rule: scan.induct)
  case (1 P lo hi)
  then show ?case by (subst scan.simps) auto
qed

lemma scan_le: "lo \<le> hi \<Longrightarrow> scan P lo hi \<le> hi"
proof (induction P lo hi rule: scan.induct)
  case (1 P lo hi)
  then show ?case by (subst scan.simps) auto
qed

lemma scan_hit: "scan P lo hi < hi \<Longrightarrow> P (scan P lo hi)"
proof (induction P lo hi rule: scan.induct)
  case (1 P lo hi)
  show ?case
  proof (cases "lo < hi \<and> \<not> P lo")
    case True
    then show ?thesis using 1 by (simp add: scan.simps [of P lo hi])
  next
    case False
    then show ?thesis using "1.prems" by (auto simp: scan.simps [of P lo hi])
  qed
qed

lemma scan_before: "lo \<le> j \<Longrightarrow> j < scan P lo hi \<Longrightarrow> \<not> P j"
proof (induction P lo hi rule: scan.induct)
  case (1 P lo hi)
  show ?case
  proof (cases "lo < hi \<and> \<not> P lo")
    case True
    then show ?thesis using 1 by (cases "j = lo") (auto simp: scan.simps [of P lo hi])
  next
    case False
    then show ?thesis using "1.prems" by (auto simp: scan.simps [of P lo hi])
  qed
qed

lemma scan_eqI:
  assumes "lo \<le> k" and "k < hi" and "P k" and "\<And>j. lo \<le> j \<Longrightarrow> j < k \<Longrightarrow> \<not> P j"
  shows "scan P lo hi = k"
proof (rule antisym)
  show "scan P lo hi \<le> k" using scan_before [of lo k P hi] assms(1,3) by (auto simp: not_less [symmetric])
  show "k \<le> scan P lo hi"
  proof (rule ccontr)
    assume "\<not> k \<le> scan P lo hi"
    then have "scan P lo hi < k" by simp
    moreover from this have "P (scan P lo hi)" using assms(2) scan_hit [of P lo hi] by simp
    ultimately show False using assms(4) [OF scan_ge] by blast
  qed
qed

lemma scan_none: "lo \<le> hi \<Longrightarrow> (\<And>j. lo \<le> j \<Longrightarrow> j < hi \<Longrightarrow> \<not> P j) \<Longrightarrow> scan P lo hi = hi"
  using scan_hit [of P lo hi] scan_ge [of lo P hi] scan_le [of lo hi P] by (metis le_neq_implies_less)

subsection \<open>Words\<close>

lemma of_nat_u32_inj: "i < 2 ^ 32 \<Longrightarrow> j < 2 ^ 32 \<Longrightarrow> (of_nat i :: u32) = of_nat j \<longleftrightarrow> i = j"
  by (auto simp: of_nat_inverse dest!: arg_cong [where f = unat] simp: unat_of_nat)

lemma unat_u32_of_nat: "n < 2 ^ 32 \<Longrightarrow> unat (of_nat n :: u32) = n"
  by (simp add: unat_of_nat)

lemma unat_eq_iff_of_nat: "n < 2 ^ 32 \<Longrightarrow> unat (w :: u32) = n \<longleftrightarrow> w = of_nat n"
  by (auto simp: unat_u32_of_nat)

lemma unat_u32_lt: "unat (x :: u32) < 2 ^ 32"
  using unsigned_less [of x, where ?'a = nat] by simp

lemma unat_Suc_u32: "(i :: u32) < n \<Longrightarrow> unat (i + 1) = Suc (unat i)"
proof -
  assume lt: "i < n"
  have "i + 1 \<noteq> 0"
  proof
    assume "i + 1 = 0"
    then have "i = - 1" by (simp add: eq_neg_iff_add_eq_0)
    with lt show False by simp
  qed
  then show ?thesis using unatSuc [of i] by (simp add: add.commute)
qed

lemma u32_count_down: "(i :: u32) < n \<Longrightarrow> unat (n - (i + 1)) < unat (n - i)"
proof -
  assume lt: "i < n"
  then have "unat i < unat n" by (simp add: word_less_nat_alt)
  moreover have "i + 1 \<le> n" using lt by (simp add: inc_le)
  ultimately show ?thesis
    using lt by (simp add: unat_sub order_less_imp_le unat_Suc_u32)
qed

lemma sint_u32_add:
  "- (2 ^ 31) \<le> sint a + sint b \<Longrightarrow> sint a + sint b < 2 ^ 31 \<Longrightarrow>
     sint (a + b :: u32) = sint a + sint b"
  by (simp add: sint_word_add signed_take_bit_int_eq_self)

lemma sint_u32_diff:
  "- (2 ^ 31) \<le> sint a - sint b \<Longrightarrow> sint a - sint b < 2 ^ 31 \<Longrightarrow>
     sint (a - b :: u32) = sint a - sint b"
  by (simp add: sint_word_diff signed_take_bit_int_eq_self)

lemma sint_u32_range: "- (2 ^ 31) \<le> sint (a :: u32)" "sint (a :: u32) < 2 ^ 31"
  using sint_range_size [of a] by (auto simp: word_size)

lemma sint_u8_range: "- 128 \<le> sint (a :: u8)" "sint (a :: u8) < 128"
  using sint_range_size [of a] by (auto simp: word_size)

lemma sint_scast_u8 [simp]: "sint (scast (a :: u8) :: u32) = sint a"
  by (rule sint_up_scast) (simp add: is_up)

lemma sint_u32_small: "unat (w :: u32) < 2 ^ 31 \<Longrightarrow> sint w = int (unat w)"
proof -
  assume "unat w < 2 ^ 31"
  then have "int (unat w) < int (2 ^ 31)" by (simp only: of_nat_less_iff)
  then have "int (unat w) < 2 ^ 31" by (simp only: of_nat_power of_nat_numeral)
  moreover have u: "uint w = int (unat w)" by simp
  ultimately have "uint w < 2 ^ 31" by (simp only:)
  moreover have "- (2 ^ 31) \<le> uint w" using uint_ge_0 [of w] by (rule order_trans [rotated]) simp
  ultimately have "signed_take_bit 31 (uint w) = uint w"
    by (intro signed_take_bit_int_eq_self)
  moreover have "sint w = signed_take_bit 31 (uint w)" unfolding sint_uint by simp
  ultimately show ?thesis using u by (simp only:)
qed

subsection \<open>Memory\<close>

lemma ld_st [mem_simps]:
  "ld (st m p i v) q j = (if fst q = fst p \<and> snd q + j = snd p + i then v else ld m q j)"
  by (simp add: ld_def st_def)

lemma ld_st_same [simp, mem_simps]: "ld (st m p i v) p j = (if j = i then v else ld m p j)"
  by (simp add: ld_st)

lemma ld_padd [simp, mem_simps]: "ld m (padd p n) i = ld m p (n + i)"
  by (simp add: ld_def padd_def add.assoc)

lemma st_padd [simp, mem_simps]: "st m (padd p n) i v = st m p (n + i) v"
  by (simp add: st_def padd_def add.assoc)

lemma fst_padd [simp]: "fst (padd p n) = fst p"
  by (simp add: padd_def)

lemma snd_padd [simp]: "snd (padd p n) = snd p + n"
  by (simp add: padd_def)

lemma length_bytes [simp]: "length (bytes m p n) = n"
  by (simp add: bytes_def)

lemma nth_bytes [simp]: "i < n \<Longrightarrow> bytes m p n ! i = ld m p (of_nat i)"
  by (simp add: bytes_def)

lemma bytes_0 [simp]: "bytes m p 0 = []"
  by (simp add: bytes_def)

lemma bytes_Suc: "bytes m p (Suc n) = bytes m p n @ [ld m p (of_nat n)]"
  by (simp add: bytes_def)

lemma bytes_eq_iff:
  "bytes m p n = bytes m' q n \<longleftrightarrow> (\<forall>i<n. ld m p (of_nat i) = ld m' q (of_nat i))"
  by (auto simp: list_eq_iff_nth_eq)

lemma take_bytes: "k \<le> n \<Longrightarrow> take k (bytes m p n) = bytes m p k"
  by (rule nth_equalityI) auto

lemma drop_bytes: "drop k (bytes m p n) = bytes m (padd p (of_nat k)) (n - k)"
  by (rule nth_equalityI) auto

lemma region_iff: "q \<in> region p n \<longleftrightarrow> (\<exists>i<n. fst q = fst p \<and> snd q = snd p + of_nat i)"
  by (cases q) (auto simp: region_def)

lemma mem_eq_bytes:
  assumes "\<And>q. q \<in> region p n \<Longrightarrow> m (fst q) (snd q) = m' (fst q) (snd q)"
  shows "bytes m p n = bytes m' p n"
proof (rule nth_equalityI)
  fix i assume i: "i < length (bytes m p n)"
  then have "(fst p, snd p + of_nat i) \<in> region p n" by (auto simp: region_iff)
  from assms [OF this] i show "bytes m p n ! i = bytes m' p n ! i" by (simp add: ld_def)
qed simp

lemma cview_length: "length (cview m p n) \<le> n"
  using length_takeWhile_le [of "\<lambda>b. b \<noteq> 0" "bytes m p n"] by (simp add: cview_def)

lemma cview_no_nul: "0 \<notin> set (cview m p n)"
  by (auto simp: cview_def dest: set_takeWhileD)

lemma cstr_cview:
  assumes "cstr m p xs" and "length xs < n"
  shows "cview m p n = xs"
proof -
  have len: "length xs < n" by fact
  let ?d = "drop (length xs) (bytes m p n)"
  have t: "take (length xs) (bytes m p n) = xs"
    using len assms(1) by (simp add: take_bytes cstr_def)
  have d: "?d = 0 # drop (Suc (length xs)) (bytes m p n)"
    using len assms(1) by (subst Cons_nth_drop_Suc [symmetric]) (auto simp: cstr_def)
  have "bytes m p n = xs @ 0 # drop (Suc (length xs)) (bytes m p n)"
    using append_take_drop_id [of "length xs" "bytes m p n"] unfolding t d by (rule sym)
  moreover have "\<forall>b\<in>set xs. b \<noteq> 0" using assms(1) by (auto simp: cstr_def)
  ultimately show ?thesis
    unfolding cview_def by (metis (mono_tags, lifting) append_Nil2 takeWhile_append2 takeWhile.simps(2))
qed

subsection \<open>Writing a run of bytes\<close>

text \<open>
  \<open>stores m p xs\<close> is \<open>m\<close> with the bytes \<open>xs\<close> written at \<open>p\<close>: the closed form that the
  copying loops of the kernel are proved equal to.
\<close>

definition stores :: "mem \<Rightarrow> ptr \<Rightarrow> u8 list \<Rightarrow> mem" where
  "stores m p xs = (\<lambda>b a. if b = fst p \<and> unat (a - snd p) < length xs
      then xs ! unat (a - snd p) else m b a)"

lemma stores_Nil [simp]: "stores m p [] = m"
  by (simp add: stores_def fun_eq_iff)

lemma stores_snoc:
  assumes "length xs < 2 ^ 32"
  shows "st (stores m p xs) p (of_nat (length xs)) v = stores m p (xs @ [v])"
proof (intro ext)
  fix b a
  have "unat (a - snd p) = length xs \<longleftrightarrow> a = snd p + of_nat (length xs)"
    by (simp add: unat_eq_iff_of_nat [OF assms] diff_eq_eq add.commute)
  then show "st (stores m p xs) p (of_nat (length xs)) v b a = stores m p (xs @ [v]) b a"
    by (auto simp: st_def stores_def nth_append less_Suc_eq)
qed

lemma ld_stores:
  "ld (stores m p xs) q i =
     (if fst q = fst p \<and> unat (snd q + i - snd p) < length xs
      then xs ! unat (snd q + i - snd p) else ld m q i)"
  by (simp add: ld_def stores_def)

lemma ld_stores_same [mem_simps]:
  "ld (stores m p xs) p i = (if unat i < length xs then xs ! unat i else ld m p i)"
  by (simp add: ld_stores)

lemma stores_outside:
  assumes "(b, a) \<notin> region p (length xs)"
  shows "stores m p xs b a = m b a"
proof (cases "b = fst p \<and> unat (a - snd p) < length xs")
  case True
  then have "(b, a) \<in> region p (length xs)"
    by (auto simp: region_iff intro!: exI [of _ "unat (a - snd p)"])
  with assms show ?thesis by simp
next
  case False
  then show ?thesis by (auto simp: stores_def)
qed

lemma ld_stores_disj:
  assumes "region p n \<inter> region q k = {}" and "length xs \<le> n" and "i < k"
  shows "ld (stores m p xs) q (of_nat i) = ld m q (of_nat i)"
proof -
  have "(fst q, snd q + of_nat i) \<in> region q k" using assms(3) by (auto simp: region_iff)
  then have "(fst q, snd q + of_nat i) \<notin> region p n" using assms(1) by blast
  then have "(fst q, snd q + of_nat i) \<notin> region p (length xs)"
    using assms(2) by (auto simp: region_iff)
  then show ?thesis using stores_outside [of "fst q" "snd q + of_nat i" p xs m] by (simp add: ld_def)
qed

lemma bytes_stores_disj:
  "region p n \<inter> region q k = {} \<Longrightarrow> length xs \<le> n \<Longrightarrow> bytes (stores m p xs) q k = bytes m q k"
  by (rule nth_equalityI) (auto simp: ld_stores_disj)

lemma bytes_stores_same:
  assumes "length xs \<le> 2 ^ 32"
  shows "bytes (stores m p xs) p (length xs) = xs"
proof (rule nth_equalityI)
  fix i assume "i < length (bytes (stores m p xs) p (length xs))"
  with assms show "bytes (stores m p xs) p (length xs) ! i = xs ! i"
    by (simp add: ld_stores_same unat_u32_of_nat)
qed simp

lemma bytes_stores_take:
  "length xs \<le> 2 ^ 32 \<Longrightarrow> k \<le> length xs \<Longrightarrow> bytes (stores m p xs) p k = take k xs"
  using take_bytes [of k "length xs" "stores m p xs" p] bytes_stores_same [of xs m p] by simp

lemma stores_stores_le: "length xs \<le> length ys \<Longrightarrow> stores (stores m p xs) p ys = stores m p ys"
  by (auto simp: stores_def fun_eq_iff)

lemma cstr_stores:
  assumes "length xs < 2 ^ 32" and "0 \<notin> set xs"
  shows "cstr (stores m p (xs @ [0])) p xs"
proof -
  have "bytes (stores m p (xs @ [0])) p (length xs) = xs"
    by (rule nth_equalityI) (use assms in \<open>auto simp: ld_stores_same unat_u32_of_nat nth_append\<close>)
  then show ?thesis using assms by (simp add: cstr_def ld_stores_same unat_u32_of_nat)
qed

lemma st_stores_update:
  assumes "i < length xs" and "length xs \<le> 2 ^ 32"
  shows "st (stores m p xs) p (of_nat i) v = stores m p (xs[i := v])"
proof (intro ext)
  fix b a
  have "unat (a - snd p) = i \<longleftrightarrow> a = snd p + of_nat i"
    using assms by (subst unat_eq_iff_of_nat) (auto simp: diff_eq_eq add.commute)
  then show "st (stores m p xs) p (of_nat i) v b a = stores m p (xs[i := v]) b a"
    using assms(1) by (auto simp: st_def stores_def nth_list_update)
qed

lemma stores_bytes:
  assumes "n \<le> 2 ^ 32"
  shows "stores m p (bytes m p n) = m"
  by (intro ext) (auto simp: stores_def ld_def)

lemma stores_cstr: "cstr m p xs \<Longrightarrow> stores m p xs = m"
  using stores_bytes [of "length xs" m p] by (simp add: cstr_def)

lemma ld_stores_nth: "i < length xs \<Longrightarrow> length xs \<le> 2 ^ 32 \<Longrightarrow> ld (stores m p xs) p (of_nat i) = xs ! i"
  by (simp add: ld_stores_same unat_u32_of_nat)

lemma stores_append_same:
  "length ys \<le> length xs \<Longrightarrow> stores (stores m p xs) p ys = stores m p (ys @ drop (length ys) xs)"
  by (intro ext) (auto simp: stores_def nth_append)

end
