(* ===== verification/Lib_String.thy ===== *)
theory Lib_String
  imports OS_Prelude
begin

text \<open>
  The string routines of student-distrib/lib.c: \<open>strlen\<close>, \<open>strncmp\<close>, \<open>strcpy\<close>, \<open>strncpy\<close>,
  \<open>strrev\<close> and \<open>itoa\<close>.  A loop that only a NUL byte stops is a \<open>partial_function (option)\<close>, so
  that running for ever is the value \<open>None\<close>; a loop with a bound is total.  Each copying routine
  is proved equal to one \<open>stores\<close>, and the numeric conversion is proved against a reference
  conversion with its inverse.
\<close>

subsection \<open>strlen\<close>

partial_function (option) strlen_loop :: "mem \<Rightarrow> ptr \<Rightarrow> u32 \<Rightarrow> u32 option" where
  "strlen_loop m s len = (if ld m s len \<noteq> 0 then strlen_loop m s (len + 1) else Some len)"

definition strlen :: "mem \<Rightarrow> ptr \<Rightarrow> u32 option" where
  "strlen m s = strlen_loop m s 0"

subsection \<open>strncmp\<close>

function strncmp_loop :: "mem \<Rightarrow> ptr \<Rightarrow> ptr \<Rightarrow> u32 \<Rightarrow> u32 \<Rightarrow> u32" where
  "strncmp_loop m s1 s2 n i =
     (if i < n then
        if ld m s1 i \<noteq> ld m s2 i \<or> ld m s1 i = 0
        then scast (ld m s1 i) - scast (ld m s2 i)
        else strncmp_loop m s1 s2 n (i + 1)
      else 0)"
  by pat_completeness auto
termination
  by (relation "measure (\<lambda>(m, s1, s2, n, i). unat (n - i))") (auto simp: u32_count_down)

definition strncmp :: "mem \<Rightarrow> ptr \<Rightarrow> ptr \<Rightarrow> u32 \<Rightarrow> u32" where
  "strncmp m s1 s2 n = strncmp_loop m s1 s2 n 0"

subsection \<open>strcpy and strncpy\<close>

partial_function (option) strcpy_loop :: "mem \<Rightarrow> ptr \<Rightarrow> ptr \<Rightarrow> u32 \<Rightarrow> mem option" where
  "strcpy_loop m dest src i =
     (if ld m src i \<noteq> 0 then strcpy_loop (st m dest i (ld m src i)) dest src (i + 1)
      else Some (st m dest i 0))"

definition strcpy :: "mem \<Rightarrow> ptr \<Rightarrow> ptr \<Rightarrow> mem option" where
  "strcpy m dest src = strcpy_loop m dest src 0"

function strncpy_copy :: "mem \<Rightarrow> ptr \<Rightarrow> ptr \<Rightarrow> u32 \<Rightarrow> u32 \<Rightarrow> mem \<times> u32" where
  "strncpy_copy m dest src n i =
     (if ld m src i \<noteq> 0 \<and> i < n then strncpy_copy (st m dest i (ld m src i)) dest src n (i + 1)
      else (m, i))"
  by pat_completeness auto
termination
  by (relation "measure (\<lambda>(m, dest, src, n, i). unat (n - i))") (auto simp: u32_count_down)

function strncpy_pad :: "mem \<Rightarrow> ptr \<Rightarrow> u32 \<Rightarrow> u32 \<Rightarrow> mem" where
  "strncpy_pad m dest n i =
     (if i < n then strncpy_pad (st m dest i 0) dest n (i + 1) else m)"
  by pat_completeness auto
termination
  by (relation "measure (\<lambda>(m, dest, n, i). unat (n - i))") (auto simp: u32_count_down)

definition strncpy :: "mem \<Rightarrow> ptr \<Rightarrow> ptr \<Rightarrow> u32 \<Rightarrow> mem" where
  "strncpy m dest src n =
     (case strncpy_copy m dest src n 0 of (m', i) \<Rightarrow> strncpy_pad m' dest n i)"

declare strncmp_loop.simps [simp del] strncpy_copy.simps [simp del] strncpy_pad.simps [simp del]

subsection \<open>Correctness of strlen\<close>

lemma strlen_loop_found:
  assumes "k \<le> n" and "\<And>j. k \<le> j \<Longrightarrow> j < n \<Longrightarrow> ld m s (of_nat j) \<noteq> 0"
    and "ld m s (of_nat n) = 0"
  shows "strlen_loop m s (of_nat k) = Some (of_nat n)"
  using assms
proof (induction rule: inc_induct)
  case base
  then show ?case by (simp add: strlen_loop.simps)
next
  case (step j)
  then have "strlen_loop m s (of_nat (Suc j)) = Some (of_nat n)" by simp
  moreover have "ld m s (of_nat j) \<noteq> 0" using step by simp
  ultimately show ?case by (subst strlen_loop.simps) (simp add: add.commute)
qed

lemma strlen_loop_nul: "strlen_loop m s i = Some n \<Longrightarrow> ld m s n = 0"
proof -
  assume ret: "strlen_loop m s i = Some n"
  show ?thesis
  proof (rule strlen_loop.raw_induct [where P = "\<lambda>m s i n. ld m s n = 0", OF _ ret])
    fix f m s i n
    assume IH: "\<And>m s i n. f m s i = Some n \<Longrightarrow> ld m s n = 0"
      and "(if ld m s i \<noteq> 0 then f m s (i + 1) else Some i) = Some n"
    then show "ld m s n = 0" by (auto split: if_splits)
  qed
qed

lemma first_nul:
  assumes "ld m s i = 0"
  obtains n where "n \<le> unat i" and "cstr m s (bytes m s n)"
proof
  define n where "n = (LEAST j. ld m s (of_nat j) = 0)"
  have z: "ld m s (of_nat (unat i)) = 0" using assms by simp
  show le: "n \<le> unat i" unfolding n_def by (rule Least_le) (rule z)
  have "ld m s (of_nat n) = 0" unfolding n_def by (rule LeastI) (rule z)
  moreover have "\<And>j. j < n \<Longrightarrow> ld m s (of_nat j) \<noteq> 0" unfolding n_def by (rule not_less_Least)
  moreover have "n < 2 ^ 32" using le unat_u32_lt [of i] by simp
  ultimately show "cstr m s (bytes m s n)"
    by (auto simp: cstr_def set_conv_nth)
qed

lemma cstr_nz: "cstr m s xs \<Longrightarrow> j < length xs \<Longrightarrow> ld m s (of_nat j) \<noteq> 0"
  by (metis cstr_def nth_bytes nth_mem)

lemma cstr_ld: "cstr m s xs \<Longrightarrow> j < length xs \<Longrightarrow> ld m s (of_nat j) = xs ! j"
  by (metis cstr_def nth_bytes)

lemma strlen_cstr: "cstr m s xs \<Longrightarrow> strlen m s = Some (of_nat (length xs))"
  unfolding strlen_def
  using strlen_loop_found [of 0 "length xs" m s] by (simp add: cstr_nz) (simp add: cstr_def)

lemma cstr_unique: "cstr m s xs \<Longrightarrow> cstr m s ys \<Longrightarrow> xs = ys"
proof -
  assume a: "cstr m s xs" "cstr m s ys"
  then have "(of_nat (length xs) :: u32) = of_nat (length ys)"
    using strlen_cstr [of m s xs] strlen_cstr [of m s ys] by simp
  moreover have "length xs < 2 ^ 32" "length ys < 2 ^ 32" using a unfolding cstr_def by blast+
  ultimately have "length xs = length ys" by (simp only: of_nat_u32_inj)
  then show ?thesis using a by (metis cstr_def)
qed

lemma strlen_SomeD:
  assumes "strlen m s = Some n"
  shows "cstr m s (bytes m s (unat n))"
proof -
  have "ld m s n = 0" using assms unfolding strlen_def by (rule strlen_loop_nul)
  then obtain k where k: "k \<le> unat n" "cstr m s (bytes m s k)" by (rule first_nul)
  then have "strlen m s = Some (of_nat k)" using strlen_cstr [OF k(2)] by simp
  then have "unat n = k" using assms k unat_u32_lt [of n] by (simp add: unat_u32_of_nat)
  then show ?thesis using k by simp
qed

lemma strlen_None_iff: "strlen m s = None \<longleftrightarrow> (\<forall>i. ld m s i \<noteq> 0)"
proof
  assume none: "strlen m s = None"
  show "\<forall>i. ld m s i \<noteq> 0"
  proof (rule ccontr)
    assume "\<not> (\<forall>i. ld m s i \<noteq> 0)"
    then obtain i where "ld m s i = 0" by blast
    then obtain k where "cstr m s (bytes m s k)" by (rule first_nul)
    then show False using none by (simp add: strlen_cstr)
  qed
next
  assume "\<forall>i. ld m s i \<noteq> 0"
  then show "strlen m s = None"
    by (metis not_Some_eq strlen_def strlen_loop_nul)
qed

subsection \<open>Correctness of strncmp\<close>

lemma sint_scast_diff: "sint ((scast (a :: u8) :: u32) - scast (b :: u8)) = sint a - sint b"
  using sint_u8_range [of a] sint_u8_range [of b] by (simp add: sint_u32_diff)

lemma scast_diff_zero_iff: "(scast (a :: u8) :: u32) - scast (b :: u8) = 0 \<longleftrightarrow> a = b"
proof
  assume "(scast a :: u32) - scast b = 0"
  then have "sint a = sint b" using sint_scast_diff [of a b] by simp
  then show "a = b" by (simp add: signed_word_eqI)
qed simp

lemmas scast_u8_eq_iff = scast_diff_zero_iff [unfolded right_minus_eq]

lemma scast_u8_eq_0_iff: "(scast (a :: u8) :: u32) = 0 \<longleftrightarrow> a = 0"
  using scast_u8_eq_iff [of a 0] by simp

lemma strncmp_loop_0_iff:
  "i \<le> n \<Longrightarrow> strncmp_loop m s1 s2 n i = 0 \<longleftrightarrow>
     takeWhile (\<lambda>b. b \<noteq> 0) (map (\<lambda>j. ld m s1 (of_nat j)) [unat i..<unat n]) =
     takeWhile (\<lambda>b. b \<noteq> 0) (map (\<lambda>j. ld m s2 (of_nat j)) [unat i..<unat n])"
proof (induction m s1 s2 n i rule: strncmp_loop.induct)
  case (1 m s1 s2 n i)
  show ?case
  proof (cases "i < n")
    case True
    then have lt: "unat i < unat n" by (simp add: word_less_nat_alt)
    have le: "i + 1 \<le> n" using True by (rule inc_le)
    show ?thesis
    proof (cases "ld m s1 i \<noteq> ld m s2 i \<or> ld m s1 i = 0")
      case stop: True
      then show ?thesis
        by (subst strncmp_loop.simps)
          (use True lt in \<open>auto simp: upt_rec [of "unat i"] scast_u8_eq_iff scast_u8_eq_0_iff\<close>)
    next
      case False
      with 1 True le show ?thesis
        by (subst strncmp_loop.simps)
          (use lt in \<open>auto simp: upt_rec [of "unat i"] unat_Suc_u32 [OF True]\<close>)
    qed
  next
    case False
    then show ?thesis by (subst strncmp_loop.simps) (auto simp: word_less_nat_alt)
  qed
qed

lemma strncmp_0_iff: "strncmp m s1 s2 n = 0 \<longleftrightarrow> cview m s1 (unat n) = cview m s2 (unat n)"
  by (simp add: strncmp_def strncmp_loop_0_iff cview_def bytes_def)

lemma strncmp_loop_skip:
  assumes "i \<le> k" and "k < unat n"
    and "\<And>j. i \<le> j \<Longrightarrow> j < k \<Longrightarrow> ld m s1 (of_nat j) = ld m s2 (of_nat j)"
    and "\<And>j. i \<le> j \<Longrightarrow> j < k \<Longrightarrow> ld m s2 (of_nat j) \<noteq> 0"
  shows "strncmp_loop m s1 s2 n (of_nat i) = strncmp_loop m s1 s2 n (of_nat k)"
  using assms
proof (induction rule: inc_induct)
  case (step j)
  have "(of_nat j :: u32) < n"
    using step unat_u32_lt [of n] by (simp add: word_less_nat_alt unat_u32_of_nat)
  moreover have "ld m s1 (of_nat j) = ld m s2 (of_nat j)" "ld m s2 (of_nat j) \<noteq> 0"
    using step by simp_all
  moreover have "strncmp_loop m s1 s2 n (of_nat (Suc j)) = strncmp_loop m s1 s2 n (of_nat k)"
    using step by simp
  ultimately show ?case by (subst strncmp_loop.simps) (simp add: add.commute)
qed simp

lemma strncmp_first_difference:
  assumes "k < unat n" and "ld m s1 (of_nat k) \<noteq> ld m s2 (of_nat k)"
    and "\<And>j. j < k \<Longrightarrow> ld m s1 (of_nat j) = ld m s2 (of_nat j)"
    and "\<And>j. j < k \<Longrightarrow> ld m s2 (of_nat j) \<noteq> 0"
  shows "sint (strncmp m s1 s2 n) = sint (ld m s1 (of_nat k)) - sint (ld m s2 (of_nat k))"
proof -
  have lt: "(of_nat k :: u32) < n"
    using assms(1) unat_u32_lt [of n] by (simp add: word_less_nat_alt unat_u32_of_nat)
  have "strncmp_loop m s1 s2 n (of_nat 0) = strncmp_loop m s1 s2 n (of_nat k)"
    by (rule strncmp_loop_skip) (use assms(1,3,4) in simp_all)
  then have "strncmp m s1 s2 n = strncmp_loop m s1 s2 n (of_nat k)" by (simp add: strncmp_def)
  also have "\<dots> = scast (ld m s1 (of_nat k)) - scast (ld m s2 (of_nat k))"
    using lt assms(2) by (subst strncmp_loop.simps) simp
  finally show ?thesis by (simp only: sint_scast_diff)
qed

subsection \<open>Correctness of strcpy and strncpy\<close>

lemma strcpy_loop_stores:
  assumes src: "cstr m src xs" and dis: "region dest (Suc (length xs)) \<inter> region src (Suc (length xs)) = {}"
    and "k \<le> length xs"
  shows "strcpy_loop (stores m dest (take k xs)) dest src (of_nat k) = Some (stores m dest (xs @ [0]))"
  using assms(3)
proof (induction rule: inc_induct)
  case base
  have "ld (stores m dest xs) src (of_nat (length xs)) = 0"
    using ld_stores_disj [OF dis, of xs "length xs" m] src by (simp add: cstr_def)
  then show ?case
    by (subst strcpy_loop.simps) (use src in \<open>simp add: stores_snoc cstr_def\<close>)
next
  case (step j)
  have "ld (stores m dest (take j xs)) src (of_nat j) = xs ! j"
    using ld_stores_disj [OF dis, of "take j xs" j m] step.hyps cstr_ld [OF src] by simp
  moreover have "xs ! j \<noteq> 0" using cstr_nz [OF src] cstr_ld [OF src] step.hyps by metis
  moreover have "st (stores m dest (take j xs)) dest (of_nat j) (xs ! j) = stores m dest (take (Suc j) xs)"
    using stores_snoc [of "take j xs" m dest "xs ! j"] step.hyps src
    by (simp add: take_Suc_conv_app_nth cstr_def)
  ultimately show ?case
    by (subst strcpy_loop.simps) (use step.IH in \<open>simp add: add.commute\<close>)
qed

lemma strcpy_stores:
  assumes "cstr m src xs" and "region dest (Suc (length xs)) \<inter> region src (Suc (length xs)) = {}"
  shows "strcpy m dest src = Some (stores m dest (xs @ [0]))"
  using strcpy_loop_stores [OF assms, of 0] by (simp add: strcpy_def)

lemma strncpy_pad_stores:
  assumes "length ys \<le> unat n"
  shows "strncpy_pad (stores m dest ys) dest n (of_nat (length ys)) =
     stores m dest (ys @ replicate (unat n - length ys) 0)"
  using assms
proof (induction "unat n - length ys" arbitrary: ys)
  case 0
  have "\<not> (of_nat (length ys) :: u32) < n"
    using 0 unat_u32_lt [of n] by (simp add: word_less_nat_alt unat_u32_of_nat)
  with 0 show ?case by (subst strncpy_pad.simps) simp
next
  case (Suc d)
  have lt: "length ys < unat n" using Suc by simp
  have "(of_nat (length ys) :: u32) < n"
    using lt unat_u32_lt [of n] by (simp add: word_less_nat_alt unat_u32_of_nat)
  moreover have "st (stores m dest ys) dest (of_nat (length ys)) 0 = stores m dest (ys @ [0])"
    using lt unat_u32_lt [of n] by (simp add: stores_snoc)
  moreover have "strncpy_pad (stores m dest (ys @ [0])) dest n (of_nat (length (ys @ [0]))) =
      stores m dest ((ys @ [0]) @ replicate (unat n - length (ys @ [0])) 0)"
    by (rule Suc.hyps(1)) (use Suc.hyps(2) lt in simp_all)
  moreover have "replicate (unat n - length ys) (0 :: u8) = 0 # replicate (unat n - length (ys @ [0])) 0"
    using lt by (simp add: Suc_diff_Suc flip: replicate_Suc)
  ultimately show ?case by (subst strncpy_pad.simps) (simp add: add.commute)
qed

lemma cview_Suc_nz:
  "length (cview m p k) = k \<Longrightarrow> k < n \<Longrightarrow> ld m p (of_nat k) \<noteq> 0 \<Longrightarrow>
     cview m p (Suc k) = cview m p k @ [ld m p (of_nat k)]"
proof -
  assume a: "length (cview m p k) = k" "ld m p (of_nat k) \<noteq> 0"
  have "cview m p k = bytes m p k"
    using a(1) by (metis cview_def length_bytes takeWhile_eq_take take_all le_refl)
  then have "\<And>b. b \<in> set (bytes m p k) \<Longrightarrow> b \<noteq> 0" by (metis cview_no_nul)
  then show ?thesis using a(2) by (simp add: cview_def bytes_Suc takeWhile_append2 takeWhile_eq_all_conv [THEN iffD2])
qed

lemma cview_stop:
  assumes "length (cview m p k) = k" and "k \<le> n" and "ld m p (of_nat k) = 0 \<or> k = n"
  shows "cview m p n = cview m p k"
proof (cases "k = n")
  case False
  with assms have k: "k < n" "ld m p (of_nat k) = 0" by auto
  have b: "cview m p k = bytes m p k"
    using assms(1) by (metis cview_def length_bytes takeWhile_eq_take take_all le_refl)
  have "bytes m p n = bytes m p k @ 0 # drop (Suc k) (bytes m p n)"
    using id_take_nth_drop [of k "bytes m p n"] k by (simp add: take_bytes)
  then show ?thesis
    using b cview_no_nul [of m p k] unfolding cview_def
    by (metis (mono_tags, lifting) append_Nil2 takeWhile_append2 takeWhile.simps(2))
qed simp

lemma strncpy_copy_stores:
  assumes dis: "region dest (unat n) \<inter> region src (unat n) = {}"
    and "k \<le> unat n" and "length (cview m src k) = k"
  shows "strncpy_copy (stores m dest (cview m src k)) dest src n (of_nat k) =
     (stores m dest (cview m src (unat n)), of_nat (length (cview m src (unat n))))"
  using assms(2,3)
proof (induction "unat n - k" arbitrary: k)
  case 0
  then have "k = unat n" by simp
  with 0 show ?case by (subst strncpy_copy.simps) simp
next
  case (Suc d)
  have lt: "k < unat n" using Suc by simp
  have wlt: "(of_nat k :: u32) < n"
    using lt unat_u32_lt [of n] by (simp add: word_less_nat_alt unat_u32_of_nat)
  have l: "ld (stores m dest (cview m src k)) src (of_nat k) = ld m src (of_nat k)"
    using ld_stores_disj [OF dis, of "cview m src k" k m] lt Suc.prems by simp
  show ?case
  proof (cases "ld m src (of_nat k) = 0")
    case True
    then show ?thesis
      using cview_stop [OF Suc.prems(2,1)] Suc.prems(2) l by (subst strncpy_copy.simps) simp
  next
    case False
    have cv: "cview m src (Suc k) = cview m src k @ [ld m src (of_nat k)]"
      using cview_Suc_nz [OF Suc.prems(2) lt False] .
    have "st (stores m dest (cview m src k)) dest (of_nat k) (ld m src (of_nat k)) =
        stores m dest (cview m src (Suc k))"
      using stores_snoc [of "cview m src k" m dest] lt unat_u32_lt [of n] Suc.prems(2) by (simp add: cv)
    moreover have "strncpy_copy (stores m dest (cview m src (Suc k))) dest src n (of_nat (Suc k)) =
        (stores m dest (cview m src (unat n)), of_nat (length (cview m src (unat n))))"
      by (rule Suc.hyps(1)) (use Suc.hyps(2) lt Suc.prems(2) in \<open>simp_all add: cv\<close>)
    ultimately show ?thesis
      using False wlt l by (subst strncpy_copy.simps) (simp add: add.commute)
  qed
qed

lemma strncpy_stores:
  assumes "region dest (unat n) \<inter> region src (unat n) = {}"
  shows "strncpy m dest src n =
     stores m dest (cview m src (unat n) @ replicate (unat n - length (cview m src (unat n))) 0)"
proof -
  have "cview m src 0 = []" by (simp add: cview_def)
  then have "strncpy_copy m dest src n 0 =
      (stores m dest (cview m src (unat n)), of_nat (length (cview m src (unat n))))"
    using strncpy_copy_stores [OF assms, of 0 m] by simp
  then show ?thesis by (simp add: strncpy_def strncpy_pad_stores cview_length)
qed

end
