(* ===== verification/Lib_Itoa.thy ===== *)
theory Lib_Itoa
  imports Lib_String
begin

text \<open>
  \<open>strrev\<close> and \<open>itoa\<close> of student-distrib/lib.c.  \<open>strrev\<close> swaps bytes from both ends with signed
  indices; \<open>itoa\<close> writes digits from the lowest place up and reverses the string in place.  The
  reference is the digit list of a natural number in a base, and reading the produced string back
  in that base returns the number.
\<close>

subsection \<open>Definitions\<close>

lemma sint_step:
  fixes a b :: u32
  assumes "sint a < sint b"
  shows "sint (a + 1) = sint a + 1" and "sint (b - 1) = sint b - 1"
  using assms sint_u32_range [of a] sint_u32_range [of b]
  by (auto simp: sint_u32_add sint_u32_diff)

function strrev_loop :: "mem \<Rightarrow> ptr \<Rightarrow> u32 \<Rightarrow> u32 \<Rightarrow> mem" where
  "strrev_loop m s beg end =
     (if sint beg < sint end then
        strrev_loop (st (st m s end (ld m s beg)) s beg (ld m s end)) s (beg + 1) (end - 1)
      else m)"
  by pat_completeness auto
termination
  by (relation "measure (\<lambda>(m, s, beg, end). nat (sint end - sint beg))")
    (auto simp: sint_step)

declare strrev_loop.simps [simp del]

definition strrev :: "mem \<Rightarrow> ptr \<Rightarrow> mem option" where
  "strrev m s = map_option (\<lambda>len. strrev_loop m s 0 (len - 1)) (strlen m s)"

text \<open>The 37 bytes of the static array \<open>lookup\<close>: the digits, the capital letters and the NUL.\<close>

definition lookup :: "u8 list" where
  "lookup = map of_nat ([48..<58] @ [65..<91] @ [0])"

partial_function (option) itoa_loop ::
  "mem \<Rightarrow> ptr \<Rightarrow> u32 \<Rightarrow> u32 \<Rightarrow> u32 \<Rightarrow> (mem \<times> u32) res option" where
  "itoa_loop m buf k newval radix =
     (if newval > 0 then
        if radix = 0 then Some (Inl Divide_error)
        else let i = sint (newval mod radix) in
          if 0 \<le> i \<and> i < 37
          then itoa_loop (st m buf k (lookup ! nat i)) buf (k + 1) (newval div radix) radix
          else Some (Inl (Bad_index ''lookup'' i))
      else Some (Inr (m, k)))"

definition itoa :: "mem \<Rightarrow> u32 \<Rightarrow> ptr \<Rightarrow> u32 \<Rightarrow> mem res option" where
  "itoa m val buf radix =
     (if val = 0 then Some (Inr (st (st m buf 0 48) buf 1 0))
      else case itoa_loop m buf 0 val radix of
        None \<Rightarrow> None
      | Some (Inl e) \<Rightarrow> Some (Inl e)
      | Some (Inr (m', k)) \<Rightarrow> map_option Inr (strrev (st m' buf k 0) buf))"

subsection \<open>The reference conversion\<close>

fun rdigits :: "nat \<Rightarrow> nat \<Rightarrow> nat list" where
  "rdigits b v = (if v = 0 \<or> b < 2 then [] else v mod b # rdigits b (v div b))"

declare rdigits.simps [simp del]

definition itoa_string :: "nat \<Rightarrow> nat \<Rightarrow> u8 list" where
  "itoa_string b v = (if v = 0 then [48] else map (\<lambda>d. lookup ! d) (rev (rdigits b v)))"

definition digit_val :: "u8 \<Rightarrow> nat" where
  "digit_val c = (if unat c < 58 then unat c - 48 else unat c - 55)"

definition from_radix :: "nat \<Rightarrow> u8 list \<Rightarrow> nat" where
  "from_radix b cs = foldl (\<lambda>acc c. acc * b + digit_val c) 0 cs"

subsection \<open>strrev reverses a string in place\<close>

definition half_rev :: "'a list \<Rightarrow> nat \<Rightarrow> 'a list" where
  "half_rev xs b = map (\<lambda>i. if i < b \<or> length xs - b \<le> i then xs ! (length xs - 1 - i) else xs ! i)
     [0..<length xs]"

lemma length_half_rev [simp]: "length (half_rev xs b) = length xs"
  by (simp add: half_rev_def)

lemma nth_half_rev: "i < length xs \<Longrightarrow> half_rev xs b ! i =
    (if i < b \<or> length xs - b \<le> i then xs ! (length xs - 1 - i) else xs ! i)"
  by (simp add: half_rev_def)

lemma half_rev_0: "half_rev xs 0 = xs"
  by (rule nth_equalityI) (auto simp: nth_half_rev)

lemma half_rev_done: "length xs \<le> 2 * b + 1 \<Longrightarrow> half_rev xs b = rev xs"
  by (rule nth_equalityI) (auto simp: nth_half_rev rev_nth intro!: arg_cong [where f = "(!) xs"])

lemma half_rev_step:
  assumes "Suc (2 * b) < length xs"
  shows "(half_rev xs b)[length xs - 1 - b := half_rev xs b ! b,
           b := half_rev xs b ! (length xs - 1 - b)] = half_rev xs (Suc b)"
  by (rule nth_equalityI)
    (use assms in \<open>auto simp: nth_half_rev nth_list_update intro!: arg_cong [where f = "(!) xs"]\<close>)

lemma strrev_loop_half:
  assumes "length xs \<le> 2 ^ 31" and "2 * b \<le> length xs" and "xs \<noteq> []"
  shows "strrev_loop (stores m s (half_rev xs b)) s (of_nat b) (of_nat (length xs - 1 - b)) =
     stores m s (rev xs)"
  using assms(2)
proof (induction "length xs - 2 * b" arbitrary: b rule: less_induct)
  case less
  let ?e = "length xs - 1 - b" and ?h = "half_rev xs b"
  have ne: "0 < length xs" using assms(3) by simp
  have sb: "sint (of_nat b :: u32) = int b" and se: "sint (of_nat ?e :: u32) = int ?e"
    using assms(1) less.prems ne by (auto simp: sint_u32_small unat_u32_of_nat)
  show ?case
  proof (cases "b < ?e")
    case True
    let ?m1 = "st (stores m s ?h) s (of_nat ?e) (?h ! b)"
    have sm: "st ?m1 s (of_nat b) (?h ! ?e) = stores m s (half_rev xs (Suc b))"
    proof -
      have m1: "?m1 = stores m s (?h[?e := ?h ! b])"
        by (rule st_stores_update) (use True assms(1) in auto)
      have "st ?m1 s (of_nat b) (?h ! ?e) = stores m s (?h[?e := ?h ! b, b := ?h ! ?e])"
        unfolding m1 by (rule st_stores_update) (use True assms(1) in auto)
      also have "?h[?e := ?h ! b, b := ?h ! ?e] = half_rev xs (Suc b)"
        by (rule half_rev_step) (use True in simp)
      finally show ?thesis .
    qed
    have "strrev_loop (stores m s (half_rev xs (Suc b))) s (of_nat (Suc b)) (of_nat (length xs - 1 - Suc b)) =
        stores m s (rev xs)"
      by (rule less.hyps) (use True in auto)
    moreover have "(of_nat ?e :: u32) - 1 = of_nat (length xs - 1 - Suc b)"
      using True by (simp add: of_nat_diff)
    moreover have "ld (stores m s ?h) s (of_nat b) = ?h ! b"
      by (rule ld_stores_nth) (use True assms(1) in auto)
    moreover have "ld (stores m s ?h) s (of_nat ?e) = ?h ! ?e"
      by (rule ld_stores_nth) (use True assms(1) in auto)
    ultimately show ?thesis
      using True by (subst strrev_loop.simps)
        (simp only: sb se sm of_nat_less_iff if_True of_nat_Suc add.commute)
  next
    case False
    then have "length xs \<le> 2 * b + 1" by simp
    then show ?thesis using False by (subst strrev_loop.simps) (simp only: sb se of_nat_less_iff if_False half_rev_done)
  qed
qed

lemma strrev_stores:
  assumes "cstr m s xs" and "length xs \<le> 2 ^ 31"
  shows "strrev m s = Some (stores m s (rev xs))"
proof (cases "xs = []")
  case True
  have "strrev_loop m s 0 (- 1) = m" by (subst strrev_loop.simps) simp
  then show ?thesis using strlen_cstr [OF assms(1)] True by (simp add: strrev_def)
next
  case False
  have "(of_nat (length xs) :: u32) - 1 = of_nat (length xs - 1)"
    using False by (simp add: of_nat_diff Suc_leI)
  then show ?thesis
    using strrev_loop_half [OF assms(2) _ False, of 0 m s] stores_cstr [OF assms(1)]
      strlen_cstr [OF assms(1)]
    by (simp add: strrev_def half_rev_0)
qed

subsection \<open>itoa writes the digits of the number\<close>

lemma lookup_length [simp]: "length lookup = 37"
  by (simp add: lookup_def)

lemma lookup_digits: "\<forall>d \<in> set [0..<36]. digit_val (lookup ! d) = d \<and> lookup ! d \<noteq> 0"
  by code_simp

lemma digit_val_lookup: "d < 36 \<Longrightarrow> digit_val (lookup ! d) = d"
  and lookup_nz: "d < 36 \<Longrightarrow> lookup ! d \<noteq> 0"
  using lookup_digits by simp_all

lemma rdigits_less: "2 \<le> b \<Longrightarrow> d \<in> set (rdigits b v) \<Longrightarrow> d < b"
proof (induction b v rule: rdigits.induct)
  case (1 b v)
  then show ?case by (subst (asm) (2) rdigits.simps) (auto split: if_splits)
qed

lemma rdigits_length: "2 \<le> b \<Longrightarrow> v < 2 ^ n \<Longrightarrow> length (rdigits b v) \<le> n"
proof (induction n arbitrary: v)
  case (Suc n)
  show ?case
  proof (cases "v = 0")
    case False
    have "v div b \<le> v div 2" using Suc.prems(1) by (intro div_le_mono2) auto
    also have "v div 2 < 2 ^ n" using Suc.prems(2) by auto
    finally have "length (rdigits b (v div b)) \<le> n" using Suc.IH Suc.prems(1) by simp
    then show ?thesis by (subst rdigits.simps) simp
  qed (simp add: rdigits.simps)
qed (simp add: rdigits.simps)

lemma rdigits_value: "2 \<le> b \<Longrightarrow> foldr (\<lambda>d acc. acc * b + d) (rdigits b v) 0 = v"
proof (induction b v rule: rdigits.induct)
  case (1 b v)
  then show ?case by (subst rdigits.simps) (auto simp: div_mult_mod_eq)
qed

lemma itoa_string_value:
  assumes "2 \<le> b" and "b \<le> 36"
  shows "from_radix b (itoa_string b v) = v"
proof (cases "v = 0")
  case True
  then show ?thesis by (simp add: from_radix_def itoa_string_def digit_val_def)
next
  case False
  have "foldr (\<lambda>d acc. acc * b + digit_val (lookup ! d)) (rdigits b v) 0 =
      foldr (\<lambda>d acc. acc * b + d) (rdigits b v) 0"
    using rdigits_less [OF assms(1)] assms(2)
    by (intro foldr_cong) (auto simp: digit_val_lookup dest!: rdigits_less [OF assms(1)])
  then show ?thesis
    using False rdigits_value [OF assms(1), of v]
    by (simp add: from_radix_def itoa_string_def foldl_conv_foldr rev_map foldr_map comp_def)
qed

lemma itoa_string_no_nul:
  assumes "2 \<le> b" and "b \<le> 36"
  shows "0 \<notin> set (itoa_string b v)"
proof -
  have "lookup ! d \<noteq> 0" if "d \<in> set (rdigits b v)" for d
    using rdigits_less [OF assms(1) that] assms(2) by (intro lookup_nz) simp
  then have "0 \<notin> (\<lambda>d. lookup ! d) ` set (rdigits b v)" by (metis imageE)
  then show ?thesis by (simp add: itoa_string_def)
qed

lemma itoa_string_length: "2 \<le> b \<Longrightarrow> v < 2 ^ 32 \<Longrightarrow> length (itoa_string b v) \<le> 32"
  using rdigits_length [of b v 32] by (simp add: itoa_string_def)

lemma itoa_loop_stores:
  fixes radix :: u32
  assumes r: "2 \<le> unat radix" "unat radix \<le> 36"
  shows "length ds + length (rdigits (unat radix) (unat newval)) < 2 ^ 32 \<Longrightarrow>
    itoa_loop (stores m buf ds) buf (of_nat (length ds)) newval radix =
      Some (Inr (let ds' = ds @ map ((!) lookup) (rdigits (unat radix) (unat newval))
                 in (stores m buf ds', of_nat (length ds'))))"
proof (induction "unat newval" arbitrary: newval ds rule: less_induct)
  case less
  show ?case
  proof (cases "newval = 0")
    case True
    then show ?thesis by (subst itoa_loop.simps) (simp add: rdigits.simps)
  next
    case False
    let ?d = "unat newval mod unat radix" and ?q = "newval div radix"
    have pos: "unat newval \<noteq> 0" using False by (simp add: unat_eq_0)
    have dig: "rdigits (unat radix) (unat newval) = ?d # rdigits (unat radix) (unat ?q)"
      using r pos by (subst rdigits.simps) (simp add: unat_div)
    have ud: "unat (newval mod radix) = ?d" by (simp add: unat_mod)
    have dr: "?d < unat radix" using r by simp
    have "unat (newval mod radix) < 2 ^ 31" unfolding ud
      by (rule less_trans [OF dr]) (use r in simp)
    then have si: "sint (newval mod radix) = int ?d" by (simp only: sint_u32_small ud)
    have "itoa_loop (stores m buf (ds @ [lookup ! ?d])) buf (of_nat (length (ds @ [lookup ! ?d]))) ?q radix =
      Some (Inr (let ds' = (ds @ [lookup ! ?d]) @ map ((!) lookup) (rdigits (unat radix) (unat ?q))
                 in (stores m buf ds', of_nat (length ds'))))"
    proof (rule less.hyps)
      show "unat ?q < unat newval" using r pos by (simp add: unat_div)
      show "length (ds @ [lookup ! ?d]) + length (rdigits (unat radix) (unat ?q)) < 2 ^ 32"
        using less.prems dig by simp
    qed
    moreover have "st (stores m buf ds) buf (of_nat (length ds)) (lookup ! ?d) = stores m buf (ds @ [lookup ! ?d])"
      using less.prems by (simp add: stores_snoc)
    moreover have "radix \<noteq> 0" using r by auto
    moreover have "?d < 37" by (rule less_le_trans [OF dr]) (use r in simp)
    ultimately show ?thesis
      using False by (subst itoa_loop.simps)
        (simp add: si dig word_gt_0 Let_def add.commute)
  qed
qed

lemma itoa_stores:
  assumes "2 \<le> unat radix" and "unat radix \<le> 36"
  shows "itoa m val buf radix =
     Some (Inr (stores m buf (itoa_string (unat radix) (unat val) @ [0])))"
proof (cases "val = 0")
  case True
  have "st (st m buf 0 48) buf 1 0 = stores m buf [48, 0]"
    using stores_snoc [of "[]" m buf 48] stores_snoc [of "[48]" m buf 0] by simp
  then show ?thesis using True by (simp add: itoa_def itoa_string_def)
next
  case False
  let ?ds = "map ((!) lookup) (rdigits (unat radix) (unat val))"
  have len: "length ?ds \<le> 32"
    using rdigits_length [OF assms(1), of "unat val" 32] unat_u32_lt [of val] by simp
  have loop: "itoa_loop m buf 0 val radix = Some (Inr (stores m buf ?ds, of_nat (length ?ds)))"
    using itoa_loop_stores [OF assms, where ds = "[]" and newval = val and m = m and buf = buf] len by simp
  have nul: "st (stores m buf ?ds) buf (of_nat (length ?ds)) 0 = stores m buf (?ds @ [0])"
    using len by (intro stores_snoc) simp
  have str: "itoa_string (unat radix) (unat val) = rev ?ds"
    using False by (simp add: itoa_string_def rev_map unat_eq_0)
  then have "0 \<notin> set ?ds" using itoa_string_no_nul [OF assms, of "unat val"] by simp
  then have "cstr (stores m buf (?ds @ [0])) buf ?ds" using len by (intro cstr_stores) simp_all
  then have "strrev (stores m buf (?ds @ [0])) buf = Some (stores (stores m buf (?ds @ [0])) buf (rev ?ds))"
    using len by (intro strrev_stores) simp_all
  also have "stores (stores m buf (?ds @ [0])) buf (rev ?ds) = stores m buf (rev ?ds @ [0])"
    by (subst stores_append_same) simp_all
  finally show ?thesis using False loop nul str by (simp add: itoa_def)
qed

end
