(* ===== verification/Lib_Memory.thy ===== *)
theory Lib_Memory
  imports OS_Prelude
begin

text \<open>
  The assembly routines of student-distrib/lib.c on the flat address space: \<open>memset\<close>,
  \<open>memset_word\<close>, \<open>memset_dword\<close>, \<open>memcpy\<close> and \<open>memmove\<close>.  Each label of the assembly is one
  function over the registers it uses; \<open>rep stosl\<close>, \<open>rep stosw\<close>, \<open>rep movsl\<close> and \<open>rep movsb\<close>
  count \<open>ecx\<close> down.  The reference is \<open>fwrite\<close>, one overwrite of a run of bytes.
\<close>

type_synonym fmem = "u32 \<Rightarrow> u8"

definition fwrite :: "fmem \<Rightarrow> u32 \<Rightarrow> u8 list \<Rightarrow> fmem" where
  "fwrite m d xs = (\<lambda>a. if unat (a - d) < length xs then xs ! unat (a - d) else m a)"

definition fbytes :: "fmem \<Rightarrow> u32 \<Rightarrow> nat \<Rightarrow> u8 list" where
  "fbytes m s n = map (\<lambda>i. m (s + of_nat i)) [0..<n]"

definition store16 :: "fmem \<Rightarrow> u32 \<Rightarrow> u32 \<Rightarrow> fmem" where
  "store16 m a v = m(a := ucast v, a + 1 := ucast (drop_bit 8 v))"

definition store32 :: "fmem \<Rightarrow> u32 \<Rightarrow> u32 \<Rightarrow> fmem" where
  "store32 m a v = m(a := ucast v, a + 1 := ucast (drop_bit 8 v),
     a + 2 := ucast (drop_bit 16 v), a + 3 := ucast (drop_bit 24 v))"

subsection \<open>memset\<close>

function memset_top :: "fmem \<Rightarrow> u32 \<Rightarrow> u32 \<Rightarrow> u8 \<Rightarrow> fmem \<times> u32 \<times> u32" where
  "memset_top m edi ecx al =
     (if ecx = 0 then (m, edi, ecx)
      else if edi AND 3 = 0 then (m, edi, ecx)
      else memset_top (m(edi := al)) (edi + 1) (ecx - 1) al)"
  by pat_completeness auto
termination
  by (relation "measure (\<lambda>(m, edi, ecx, al). unat ecx)") (auto simp: word_gt_0 unat_gt_0 unat_minus_one)

function rep_stosl :: "fmem \<Rightarrow> u32 \<Rightarrow> u32 \<Rightarrow> u32 \<Rightarrow> fmem \<times> u32" where
  "rep_stosl m edi ecx eax =
     (if ecx = 0 then (m, edi) else rep_stosl (store32 m edi eax) (edi + 4) (ecx - 1) eax)"
  by pat_completeness auto
termination
  by (relation "measure (\<lambda>(m, edi, ecx, eax). unat ecx)") (auto simp: unat_gt_0 unat_minus_one)

function rep_stosw :: "fmem \<Rightarrow> u32 \<Rightarrow> u32 \<Rightarrow> u32 \<Rightarrow> fmem \<times> u32" where
  "rep_stosw m edi ecx eax =
     (if ecx = 0 then (m, edi) else rep_stosw (store16 m edi eax) (edi + 2) (ecx - 1) eax)"
  by pat_completeness auto
termination
  by (relation "measure (\<lambda>(m, edi, ecx, eax). unat ecx)") (auto simp: unat_gt_0 unat_minus_one)

function memset_bottom :: "fmem \<Rightarrow> u32 \<Rightarrow> u32 \<Rightarrow> u8 \<Rightarrow> fmem" where
  "memset_bottom m edi edx al =
     (if edx = 0 then m else memset_bottom (m(edi := al)) (edi + 1) (edx - 1) al)"
  by pat_completeness auto
termination
  by (relation "measure (\<lambda>(m, edi, edx, al). unat edx)") (auto simp: unat_gt_0 unat_minus_one)

text \<open>The assembly block of \<open>memset\<close>, with its inputs \<open>edi\<close>, \<open>ecx\<close> and \<open>eax\<close>.\<close>

definition memset_asm :: "fmem \<Rightarrow> u32 \<Rightarrow> u32 \<Rightarrow> u32 \<Rightarrow> fmem" where
  "memset_asm m s n eax =
     (case memset_top m s n (ucast eax) of (m1, edi, ecx) \<Rightarrow>
        if ecx = 0 then m1
        else let edx = ecx AND 3
          in case rep_stosl m1 edi (drop_bit 2 ecx) eax of
               (m2, edi') \<Rightarrow> memset_bottom m2 edi' edx (ucast eax))"

definition memset :: "fmem \<Rightarrow> u32 \<Rightarrow> u32 \<Rightarrow> u32 \<Rightarrow> fmem" where
  "memset m s c0 n =
     (let c = c0 AND 0xFF
      in memset_asm m s n (push_bit 24 c OR push_bit 16 c OR push_bit 8 c OR c))"

definition memset_word :: "fmem \<Rightarrow> u32 \<Rightarrow> u32 \<Rightarrow> u32 \<Rightarrow> fmem" where
  "memset_word m s c n = fst (rep_stosw m s n c)"

definition memset_dword :: "fmem \<Rightarrow> u32 \<Rightarrow> u32 \<Rightarrow> u32 \<Rightarrow> fmem" where
  "memset_dword m s c n = fst (rep_stosl m s n c)"

subsection \<open>memcpy and memmove\<close>

function memcpy_top :: "fmem \<Rightarrow> u32 \<Rightarrow> u32 \<Rightarrow> u32 \<Rightarrow> fmem \<times> u32 \<times> u32 \<times> u32" where
  "memcpy_top m edi esi ecx =
     (if ecx = 0 then (m, edi, esi, ecx)
      else if edi AND 3 = 0 then (m, edi, esi, ecx)
      else memcpy_top (m(edi := m esi)) (edi + 1) (esi + 1) (ecx - 1))"
  by pat_completeness auto
termination
  by (relation "measure (\<lambda>(m, edi, esi, ecx). unat ecx)") (auto simp: unat_gt_0 unat_minus_one)

function rep_movsl :: "fmem \<Rightarrow> u32 \<Rightarrow> u32 \<Rightarrow> u32 \<Rightarrow> fmem \<times> u32 \<times> u32" where
  "rep_movsl m edi esi ecx =
     (if ecx = 0 then (m, edi, esi)
      else rep_movsl (m(edi := m esi, edi + 1 := m (esi + 1), edi + 2 := m (esi + 2),
             edi + 3 := m (esi + 3))) (edi + 4) (esi + 4) (ecx - 1))"
  by pat_completeness auto
termination
  by (relation "measure (\<lambda>(m, edi, esi, ecx). unat ecx)") (auto simp: unat_gt_0 unat_minus_one)

function memcpy_bottom :: "fmem \<Rightarrow> u32 \<Rightarrow> u32 \<Rightarrow> u32 \<Rightarrow> fmem" where
  "memcpy_bottom m edi esi edx =
     (if edx = 0 then m else memcpy_bottom (m(edi := m esi)) (edi + 1) (esi + 1) (edx - 1))"
  by pat_completeness auto
termination
  by (relation "measure (\<lambda>(m, edi, esi, edx). unat edx)") (auto simp: unat_gt_0 unat_minus_one)

definition memcpy :: "fmem \<Rightarrow> u32 \<Rightarrow> u32 \<Rightarrow> u32 \<Rightarrow> fmem" where
  "memcpy m dest src n =
     (case memcpy_top m dest src n of (m1, edi, esi, ecx) \<Rightarrow>
        if ecx = 0 then m1
        else let edx = ecx AND 3
          in case rep_movsl m1 edi esi (drop_bit 2 ecx) of (m2, edi', esi') \<Rightarrow>
               memcpy_bottom m2 edi' esi' edx)"

text \<open>\<open>rep movsb\<close> moves by 1, or by \<open>-1\<close> when the direction flag is set.\<close>

function rep_movsb :: "bool \<Rightarrow> fmem \<Rightarrow> u32 \<Rightarrow> u32 \<Rightarrow> u32 \<Rightarrow> fmem" where
  "rep_movsb df m edi esi ecx =
     (if ecx = 0 then m
      else rep_movsb df (m(edi := m esi)) (if df then edi - 1 else edi + 1)
             (if df then esi - 1 else esi + 1) (ecx - 1))"
  by pat_completeness auto
termination
  by (relation "measure (\<lambda>(df, m, edi, esi, ecx). unat ecx)") (auto simp: unat_gt_0 unat_minus_one)

text \<open>The memory after \<open>memmove\<close>, and the direction flag it leaves.\<close>

definition memmove :: "fmem \<Rightarrow> u32 \<Rightarrow> u32 \<Rightarrow> u32 \<Rightarrow> fmem \<times> bool" where
  "memmove m dest src n =
     (if dest \<le> src then (rep_movsb False m dest src n, False)
      else (rep_movsb True m (dest + n - 1) (src + n - 1) n, True))"

declare memset_top.simps [simp del] rep_stosl.simps [simp del] rep_stosw.simps [simp del]
  memset_bottom.simps [simp del] memcpy_top.simps [simp del] rep_movsl.simps [simp del]
  memcpy_bottom.simps [simp del] rep_movsb.simps [simp del]

subsection \<open>Overwriting a run of bytes\<close>

lemma fwrite_Nil [simp]: "fwrite m d [] = m"
  by (simp add: fwrite_def)

lemma length_fbytes [simp]: "length (fbytes m s n) = n"
  by (simp add: fbytes_def)

lemma nth_fbytes [simp]: "i < n \<Longrightarrow> fbytes m s n ! i = m (s + of_nat i)"
  by (simp add: fbytes_def)

lemma fbytes_add: "fbytes m s (j + k) = fbytes m s j @ fbytes m (s + of_nat j) k"
  by (rule nth_equalityI) (auto simp: nth_append add.assoc simp flip: of_nat_add)

lemma fwrite_append:
  assumes "length xs + length ys \<le> 2 ^ 32"
  shows "fwrite (fwrite m d xs) (d + of_nat (length xs)) ys = fwrite m d (xs @ ys)"
proof (cases "ys = []")
  case False
  then have lt: "length xs < 2 ^ 32" using assms by (cases ys) auto
  show ?thesis
  proof
    fix a
    let ?w = "a - d"
    have sub: "a - (d + of_nat (length xs)) = ?w - of_nat (length xs)" by simp
    show "fwrite (fwrite m d xs) (d + of_nat (length xs)) ys a = fwrite m d (xs @ ys) a"
    proof (cases "unat ?w < length xs")
      case True
      then have "unat (?w - of_nat (length xs)) = 2 ^ 32 + unat ?w - length xs"
        using lt by (simp add: unat_sub_if' unat_u32_of_nat)
      then show ?thesis using True assms by (auto simp: fwrite_def sub nth_append)
    next
      case False
      then have "unat (?w - of_nat (length xs)) = unat ?w - length xs"
        using lt by (simp add: unat_sub_if' unat_u32_of_nat)
      then show ?thesis using False by (auto simp: fwrite_def sub nth_append)
    qed
  qed
qed simp

lemma fwrite_single: "m(d := v) = fwrite m d [v]"
  by (auto simp: fwrite_def unat_eq_0)

lemma fwrite_snoc:
  "length xs < 2 ^ 32 \<Longrightarrow> (fwrite m d xs)(d + of_nat (length xs) := v) = fwrite m d (xs @ [v])"
  using fwrite_append [of xs "[v]" m d] by (simp add: fwrite_single)

lemma fwrite_Cons:
  "Suc (length xs) \<le> 2 ^ 32 \<Longrightarrow> fwrite (m(d := v)) (d + 1) xs = fwrite m d (v # xs)"
  using fwrite_append [of "[v]" xs m d] by (simp add: fwrite_single)

lemma fwrite_push:
  assumes "Suc (length xs) \<le> 2 ^ 32"
  shows "(fwrite m (a + 1) xs)(a := v) = fwrite m a (v # xs)"
proof -
  have "unat (a - (a + 1)) = 2 ^ 32 - 1" by (simp add: unsigned_minus_1_eq_mask mask_eq_exp_minus_1)
  then have "fwrite (m(a := v)) (a + 1) xs = (fwrite m (a + 1) xs)(a := v)"
    using assms by (auto simp: fwrite_def fun_eq_iff)
  then show ?thesis using fwrite_Cons [OF assms, of m a v] by simp
qed

lemma fwrite_read:
  "i < length xs \<Longrightarrow> length xs \<le> 2 ^ 32 \<Longrightarrow> fwrite m d xs (d + of_nat i) = xs ! i"
  by (simp add: fwrite_def unat_u32_of_nat)

lemma fwrite_outside:
  assumes "\<And>i. i < length xs \<Longrightarrow> a \<noteq> d + of_nat i"
  shows "fwrite m d xs a = m a"
  using assms [of "unat (a - d)"] by (auto simp: fwrite_def)

lemma upd4_fwrite:
  "m(a := v0, a + 1 := v1, a + 2 := v2, a + 3 := v3) = fwrite m a [v0, v1, v2, v3]"
proof -
  have "fwrite m a [v0, v1, v2, v3] =
      (fwrite m a [v0, v1, v2])(a + of_nat (length [v0, v1, v2]) := v3)"
    by (subst fwrite_snoc) simp_all
  also have "fwrite m a [v0, v1, v2] = (fwrite m a [v0, v1])(a + of_nat (length [v0, v1]) := v2)"
    by (subst fwrite_snoc) simp_all
  also have "fwrite m a [v0, v1] = (fwrite m a [v0])(a + of_nat (length [v0]) := v1)"
    by (subst fwrite_snoc) simp_all
  finally show ?thesis by (simp add: fwrite_single)
qed

subsection \<open>memset fills a run of bytes\<close>

lemma unat_pred_u32: "(x :: u32) \<noteq> 0 \<Longrightarrow> unat (x - 1) = unat x - 1"
  by (simp add: unat_minus_one)

lemma unat_pos_u32: "(x :: u32) \<noteq> 0 \<Longrightarrow> 0 < unat x"
  by (simp add: unat_gt_0)

lemma unat_and_3: "unat (e AND 3 :: u32) = unat e mod 4"
proof -
  have "e AND 3 = take_bit 2 e" by (simp add: take_bit_eq_mask mask_numeral)
  then show ?thesis by (simp add: take_bit_eq_mod unat_mod)
qed

lemma unat_shr_2: "unat (drop_bit 2 e :: u32) = unat e div 4"
  by (simp add: drop_bit_eq_div unat_div)

lemma memset_top_fwrite:
  "\<exists>k \<le> unat ecx. memset_top m edi ecx al =
     (fwrite m edi (replicate k al), edi + of_nat k, ecx - of_nat k)"
proof (induction m edi ecx al rule: memset_top.induct)
  case (1 m edi ecx al)
  show ?case
  proof (cases "ecx = 0 \<or> edi AND 3 = 0")
    case True
    then show ?thesis by (subst memset_top.simps) (auto intro!: exI [of _ 0])
  next
    case False
    then obtain k where k: "k \<le> unat (ecx - 1)" and eq: "memset_top (m(edi := al)) (edi + 1) (ecx - 1) al =
        (fwrite (m(edi := al)) (edi + 1) (replicate k al), edi + 1 + of_nat k, ecx - 1 - of_nat k)"
      using 1 by blast
    have le: "Suc k \<le> unat ecx" using k False unat_pos_u32 [of ecx] by (simp add: unat_pred_u32)
    then have "fwrite (m(edi := al)) (edi + 1) (replicate k al) = fwrite m edi (replicate (Suc k) al)"
      using unat_u32_lt [of ecx] by (subst fwrite_Cons) simp_all
    with False eq le show ?thesis
      by (subst memset_top.simps) (auto intro!: exI [of _ "Suc k"] simp: algebra_simps)
  qed
qed

definition le32 :: "u32 \<Rightarrow> u8 list" where
  "le32 v = [ucast v, ucast (drop_bit 8 v), ucast (drop_bit 16 v), ucast (drop_bit 24 v)]"

lemma length_le32 [simp]: "length (le32 v) = 4"
  by (simp add: le32_def)

lemma rep_stosl_fwrite:
  "4 * unat ecx \<le> 2 ^ 32 \<Longrightarrow> rep_stosl m edi ecx eax =
     (fwrite m edi (concat (replicate (unat ecx) (le32 eax))), edi + 4 * ecx)"
proof (induction m edi ecx eax rule: rep_stosl.induct)
  case (1 m edi ecx eax)
  show ?case
  proof (cases "ecx = 0")
    case True
    then show ?thesis by (subst rep_stosl.simps) simp
  next
    case False
    let ?r = "concat (replicate (unat (ecx - 1)) (le32 eax))"
    have u: "unat ecx = Suc (unat (ecx - 1))" using False by (simp add: unat_pred_u32 unat_pos_u32)
    have len: "length ?r = 4 * unat (ecx - 1)"
      by (simp add: length_concat sum_list_replicate)
    have st: "store32 m edi eax = fwrite m edi (le32 eax)"
      by (simp add: store32_def le32_def upd4_fwrite)
    have "length (le32 eax) + length ?r \<le> 2 ^ 32"
      using "1.prems" u by (simp add: len)
    from fwrite_append [OF this, of m edi]
    have "fwrite (fwrite m edi (le32 eax)) (edi + 4) ?r = fwrite m edi (le32 eax @ ?r)"
      by simp
    moreover have "rep_stosl (store32 m edi eax) (edi + 4) (ecx - 1) eax =
        (fwrite (store32 m edi eax) (edi + 4) ?r, edi + 4 + 4 * (ecx - 1))"
      by (rule "1.IH" [OF False]) (use "1.prems" u in simp)
    ultimately show ?thesis
      using False by (subst rep_stosl.simps) (simp add: u st algebra_simps)
  qed
qed

lemma memset_bottom_fwrite: "memset_bottom m edi edx al = fwrite m edi (replicate (unat edx) al)"
proof (induction m edi edx al rule: memset_bottom.induct)
  case (1 m edi edx al)
  show ?case
  proof (cases "edx = 0")
    case True
    then show ?thesis by (subst memset_bottom.simps) simp
  next
    case False
    have u: "unat edx = Suc (unat (edx - 1))" using False by (simp add: unat_pred_u32 unat_pos_u32)
    have "Suc (length (replicate (unat (edx - 1)) al)) \<le> 2 ^ 32"
      using u unat_u32_lt [of edx] by simp
    from fwrite_Cons [OF this, of m edi al] "1.IH" [OF False]
    have "memset_bottom (m(edi := al)) (edi + 1) (edx - 1) al = fwrite m edi (replicate (unat edx) al)"
      unfolding u by (simp only: replicate_Suc)
    then show ?thesis using False by (subst memset_bottom.simps) simp
  qed
qed

lemma le32_fill:
  fixes c0 :: u32
  defines "c \<equiv> c0 AND 0xFF"
  shows "le32 (push_bit 24 c OR push_bit 16 c OR push_bit 8 c OR c) = replicate 4 (ucast c0)"
proof -
  let ?e = "push_bit 24 c OR push_bit 16 c OR push_bit 8 c OR c"
  have c: "bit c i \<longleftrightarrow> i < 8 \<and> bit c0 i" for i
  proof -
    have "c = take_bit 8 c0" by (simp add: c_def take_bit_eq_mask mask_numeral)
    then show ?thesis by (simp add: bit_take_bit_iff)
  qed
  have "bit (ucast (drop_bit k ?e) :: u8) i = bit (ucast c0 :: u8) i"
    if "k \<in> {0, 8, 16, 24}" and "i < 8" for k i
    using that
    by (elim insertE emptyE) (simp_all only: bit_ucast_iff bit_drop_bit_eq bit_or_iff bit_push_bit_iff
        c comp_def, simp_all)
  then have "(ucast (drop_bit k ?e) :: u8) = ucast c0" if "k \<in> {0, 8, 16, 24}" for k
    using that by (intro bit_word_eqI) simp
  from this [of 0] this [of 8] this [of 16] this [of 24] show ?thesis
    by (simp add: le32_def numeral_eq_Suc)
qed

lemma memset_asm_fwrite:
  assumes le: "le32 eax = replicate 4 v"
  shows "memset_asm m s n eax = fwrite m s (replicate (unat n) v)"
proof -
  have al: "(ucast eax :: u8) = v" using le by (simp add: le32_def numeral_eq_Suc)
  obtain k where k: "k \<le> unat n" and top: "memset_top m s n v =
      (fwrite m s (replicate k v), s + of_nat k, n - of_nat k)"
    using memset_top_fwrite by blast
  let ?e = "n - of_nat k" and ?p = "s + of_nat k"
  have ue: "unat ?e = unat n - k"
    using k unat_u32_lt [of n] by (subst unat_sub) (auto simp: word_le_nat_alt unat_u32_of_nat)
  show ?thesis
  proof (cases "?e = 0")
    case True
    then have "k = unat n" using ue k by simp
    then show ?thesis using True top by (simp add: memset_asm_def Let_def al)
  next
    case False
    let ?q = "drop_bit 2 ?e" and ?r = "?e AND 3"
    have uq: "unat ?q = unat ?e div 4" by (rule unat_shr_2)
    have ur: "unat ?r = unat ?e mod 4" by (rule unat_and_3)
    have q4: "(4 * ?q :: u32) = of_nat (4 * (unat ?e div 4))" by (simp flip: uq)
    have cr: "concat (replicate j (replicate 4 v)) = replicate (4 * j) v" for j
      by (induction j) (simp_all add: replicate_add)
    have "4 * unat ?q \<le> 2 ^ 32" using uq unat_u32_lt [of ?e] by simp
    then have mid: "rep_stosl (fwrite m s (replicate k v)) ?p ?q eax =
        (fwrite m s (replicate (k + 4 * (unat ?e div 4)) v), ?p + 4 * ?q)"
      using fwrite_append [of "replicate k v" "replicate (4 * (unat ?e div 4)) v" m s] k ue unat_u32_lt [of n]
      by (simp add: rep_stosl_fwrite le cr uq replicate_add)
    have "fwrite (fwrite m s (replicate (k + 4 * (unat ?e div 4)) v)) (?p + 4 * ?q) (replicate (unat ?r) v) =
        fwrite m s (replicate (k + 4 * (unat ?e div 4)) v @ replicate (unat ?r) v)"
      using fwrite_append [of "replicate (k + 4 * (unat ?e div 4)) v" "replicate (unat ?r) v" m s]
        k ue ur unat_u32_lt [of n]
      by (simp add: q4 add.assoc)
    also have "\<dots> = fwrite m s (replicate (unat n) v)"
      using k ue ur by (simp flip: replicate_add)
    finally show ?thesis
      using False top mid by (simp add: memset_asm_def Let_def al memset_bottom_fwrite)
  qed
qed

lemma memset_fwrite: "memset m s c n = fwrite m s (replicate (unat n) (ucast c))"
  unfolding memset_def Let_def by (rule memset_asm_fwrite) (rule le32_fill)

subsection \<open>memcpy copies between separate regions\<close>

definition fsep :: "u32 \<Rightarrow> u32 \<Rightarrow> nat \<Rightarrow> bool" where
  "fsep d s n \<longleftrightarrow> (\<forall>i<n. \<forall>j<n. d + of_nat i \<noteq> s + of_nat j)"

lemma copied_read:
  assumes "fsep d s n" and "k \<le> n" and "j < n"
  shows "fwrite m d (fbytes m s k) (s + of_nat j) = m (s + of_nat j)"
  by (rule fwrite_outside) (use assms in \<open>auto simp: fsep_def eq_commute\<close>)

lemma copied_extend:
  assumes sep: "fsep d s n" and "k + c \<le> n" and "n \<le> 2 ^ 32"
  shows "fwrite (fwrite m d (fbytes m s k)) (d + of_nat k)
      (fbytes (fwrite m d (fbytes m s k)) (s + of_nat k) c) = fwrite m d (fbytes m s (k + c))"
proof -
  have "fbytes (fwrite m d (fbytes m s k)) (s + of_nat k) c = fbytes m (s + of_nat k) c"
  proof (rule nth_equalityI)
    fix i assume "i < length (fbytes (fwrite m d (fbytes m s k)) (s + of_nat k) c)"
    with assms copied_read [OF sep, of k "k + i" m]
    show "fbytes (fwrite m d (fbytes m s k)) (s + of_nat k) c ! i = fbytes m (s + of_nat k) c ! i"
      by (simp add: add.assoc)
  qed simp
  then show ?thesis
    using fwrite_append [of "fbytes m s k" "fbytes m (s + of_nat k) c" m d] assms
    by (simp add: fbytes_add)
qed

lemma fbytes_4: "fbytes m s 4 = [m s, m (s + 1), m (s + 2), m (s + 3)]"
  by (simp add: fbytes_def upt_rec)

lemma fbytes_1: "fbytes m s (Suc 0) = [m s]"
  by (simp add: fbytes_def)

lemma copied_byte:
  assumes "fsep d s n" and "k < n" and "n \<le> 2 ^ 32" and "F = fwrite m d (fbytes m s k)"
  shows "F(d + of_nat k := F (s + of_nat k)) = fwrite m d (fbytes m s (Suc k))"
  using copied_extend [of d s n k 1 m] assms by (simp add: fwrite_single fbytes_1)

lemma memcpy_top_copied:
  assumes sep: "fsep d s n" and n: "n \<le> 2 ^ 32"
  shows "k + unat ecx = n \<Longrightarrow> \<exists>k' ecx'. k' + unat ecx' = n \<and>
    memcpy_top (fwrite m d (fbytes m s k)) (d + of_nat k) (s + of_nat k) ecx =
      (fwrite m d (fbytes m s k'), d + of_nat k', s + of_nat k', ecx')"
proof (induction "unat ecx" arbitrary: k ecx)
  case 0
  then show ?case by (subst memcpy_top.simps) (auto simp: unat_eq_0)
next
  case (Suc x)
  let ?F = "fwrite m d (fbytes m s k)"
  have nz: "ecx \<noteq> 0" and k: "k < n" using Suc by auto
  show ?case
  proof (cases "(d + of_nat k) AND 3 = 0")
    case True
    then show ?thesis using Suc.prems nz by (subst memcpy_top.simps) auto
  next
    case False
    have ih: "\<exists>k' ecx'. k' + unat ecx' = n \<and>
        memcpy_top (fwrite m d (fbytes m s (Suc k))) (d + of_nat (Suc k)) (s + of_nat (Suc k)) (ecx - 1) =
        (fwrite m d (fbytes m s k'), d + of_nat k', s + of_nat k', ecx')"
      using Suc nz by (intro Suc.hyps(1)) (simp_all add: unat_pred_u32)
    have "memcpy_top ?F (d + of_nat k) (s + of_nat k) ecx =
        memcpy_top (fwrite m d (fbytes m s (Suc k))) (d + of_nat (Suc k)) (s + of_nat (Suc k)) (ecx - 1)"
      using nz False copied_byte [OF sep k n refl]
      by (subst memcpy_top.simps) (simp add: algebra_simps)
    then show ?thesis using ih by simp
  qed
qed

lemma rep_movsl_copied:
  assumes sep: "fsep d s n" and n: "n \<le> 2 ^ 32"
  shows "k + 4 * unat ecx \<le> n \<Longrightarrow>
    rep_movsl (fwrite m d (fbytes m s k)) (d + of_nat k) (s + of_nat k) ecx =
      (fwrite m d (fbytes m s (k + 4 * unat ecx)), d + of_nat (k + 4 * unat ecx), s + of_nat (k + 4 * unat ecx))"
proof (induction "unat ecx" arbitrary: k ecx)
  case 0
  then show ?case by (subst rep_movsl.simps) (auto simp: unat_eq_0)
next
  case (Suc x)
  let ?F = "fwrite m d (fbytes m s k)" and ?a = "d + of_nat k" and ?b = "s + of_nat k"
  have nz: "ecx \<noteq> 0" using Suc by auto
  have four: "?F(?a := ?F ?b, ?a + 1 := ?F (?b + 1), ?a + 2 := ?F (?b + 2), ?a + 3 := ?F (?b + 3)) =
      fwrite m d (fbytes m s (k + 4))"
    using copied_extend [OF sep, of k 4 m] Suc n by (simp add: upd4_fwrite fbytes_4)
  have x: "x = unat (ecx - 1)" using Suc nz by (simp add: unat_pred_u32)
  have "rep_movsl (fwrite m d (fbytes m s (k + 4))) (d + of_nat (k + 4)) (s + of_nat (k + 4)) (ecx - 1) =
      (fwrite m d (fbytes m s (k + 4 + 4 * unat (ecx - 1))), d + of_nat (k + 4 + 4 * unat (ecx - 1)),
       s + of_nat (k + 4 + 4 * unat (ecx - 1)))"
    by (rule Suc.hyps(1) [OF x]) (use Suc.hyps(2) Suc.prems x in simp)
  moreover have "k + 4 + 4 * unat (ecx - 1) = k + 4 * unat ecx" using Suc.hyps(2) x by simp
  ultimately show ?case
    using nz four by (subst rep_movsl.simps) (simp add: algebra_simps)
qed

lemma memcpy_bottom_copied:
  assumes sep: "fsep d s n" and n: "n \<le> 2 ^ 32"
  shows "k + unat edx = n \<Longrightarrow>
    memcpy_bottom (fwrite m d (fbytes m s k)) (d + of_nat k) (s + of_nat k) edx = fwrite m d (fbytes m s n)"
proof (induction "unat edx" arbitrary: k edx)
  case 0
  then show ?case by (subst memcpy_bottom.simps) (auto simp: unat_eq_0)
next
  case (Suc x)
  have nz: "edx \<noteq> 0" and k: "k < n" using Suc by auto
  have "memcpy_bottom (fwrite m d (fbytes m s (Suc k))) (d + of_nat (Suc k)) (s + of_nat (Suc k)) (edx - 1) =
      fwrite m d (fbytes m s n)"
    using Suc nz by (intro Suc.hyps(1)) (simp_all add: unat_pred_u32)
  then show ?case
    using nz copied_byte [OF sep k n refl] by (subst memcpy_bottom.simps) (simp add: algebra_simps)
qed

lemma memcpy_fwrite:
  assumes sep: "fsep d s (unat n)"
  shows "memcpy m d s n = fwrite m d (fbytes m s (unat n))"
proof -
  have n: "unat n \<le> 2 ^ 32" using unat_u32_lt [of n] by simp
  obtain k e where ke: "k + unat e = unat n" and top: "memcpy_top m d s n =
      (fwrite m d (fbytes m s k), d + of_nat k, s + of_nat k, e)"
    using memcpy_top_copied [OF sep n, of 0 n m] by (auto simp: fbytes_def)
  have ur: "unat (e AND 3) = unat e mod 4" by (rule unat_and_3)
  have uq: "unat (drop_bit 2 e) = unat e div 4" by (rule unat_shr_2)
  show ?thesis
  proof (cases "e = 0")
    case True
    then show ?thesis using ke top by (simp add: memcpy_def)
  next
    case False
    have "k + 4 * unat (drop_bit 2 e) \<le> unat n" using uq ke by simp
    note mid = rep_movsl_copied [OF sep n this, of m]
    have "k + 4 * unat (drop_bit 2 e) + unat (e AND 3) = unat n" using uq ur ke by simp
    note bot = memcpy_bottom_copied [OF sep n this, of m]
    show ?thesis using False top mid bot by (simp add: memcpy_def Let_def)
  qed
qed

subsection \<open>memmove copies between overlapping regions\<close>

lemma u32_add_of_nat_eq_iff:
  assumes "unat a + i < 2 ^ 32" and "unat b + j < 2 ^ 32"
  shows "(a :: u32) + of_nat i = b + of_nat j \<longleftrightarrow> unat a + i = unat b + j"
proof -
  have "unat (a + of_nat i) = unat a + i" "unat (b + of_nat j) = unat b + j"
    using assms by (simp_all add: unat_word_ariths unat_u32_of_nat)
  then show ?thesis by (metis word_unat_eq_iff)
qed

lemma rep_movsb_forward:
  assumes le: "unat d \<le> unat s" and fit: "unat s + n \<le> 2 ^ 32"
  shows "k + unat ecx = n \<Longrightarrow>
    rep_movsb False (fwrite m d (fbytes m s k)) (d + of_nat k) (s + of_nat k) ecx = fwrite m d (fbytes m s n)"
proof (induction "unat ecx" arbitrary: k ecx)
  case 0
  then show ?case by (subst rep_movsb.simps) (auto simp: unat_eq_0)
next
  case (Suc x)
  let ?F = "fwrite m d (fbytes m s k)"
  have nz: "ecx \<noteq> 0" and k: "k < n" using Suc by auto
  have "?F (s + of_nat k) = m (s + of_nat k)"
    by (rule fwrite_outside) (use k le fit in \<open>simp add: u32_add_of_nat_eq_iff\<close>)
  then have "?F(d + of_nat k := ?F (s + of_nat k)) = fwrite m d (fbytes m s (Suc k))"
    using fwrite_snoc [of "fbytes m s k" m d "m (s + of_nat k)"] k fit by (simp add: fbytes_def)
  moreover have "rep_movsb False (fwrite m d (fbytes m s (Suc k))) (d + of_nat (Suc k)) (s + of_nat (Suc k)) (ecx - 1) =
      fwrite m d (fbytes m s n)"
    using Suc nz by (intro Suc.hyps(1)) (simp_all add: unat_pred_u32)
  ultimately show ?case using nz by (subst rep_movsb.simps) (simp add: algebra_simps)
qed

lemma rep_movsb_backward:
  assumes lt: "unat s < unat d" and fit: "unat d + n \<le> 2 ^ 32"
  shows "unat ecx \<le> n \<Longrightarrow>
    rep_movsb True (fwrite m (d + of_nat (unat ecx)) (drop (unat ecx) (fbytes m s n)))
      (d + ecx - 1) (s + ecx - 1) ecx = fwrite m d (fbytes m s n)"
proof (induction "unat ecx" arbitrary: ecx)
  case 0
  then show ?case by (subst rep_movsb.simps) (auto simp: unat_eq_0)
next
  case (Suc x)
  let ?F = "\<lambda>k. fwrite m (d + of_nat k) (drop k (fbytes m s n))"
  have nz: "ecx \<noteq> 0" using Suc by auto
  have x: "x = unat (ecx - 1)" using Suc nz by (simp add: unat_pred_u32)
  have xn: "x < n" using Suc by simp
  have e: "ecx = of_nat (Suc x)" using Suc.hyps(2) by (metis unat_eq_iff_of_nat unat_u32_lt)
  have da: "d + ecx - 1 = d + of_nat x" "s + ecx - 1 = s + of_nat x" by (simp_all add: e)
  have rd: "?F (Suc x) (s + of_nat x) = m (s + of_nat x)"
  proof (rule fwrite_outside)
    fix i assume "i < length (drop (Suc x) (fbytes m s n))"
    then show "s + of_nat x \<noteq> d + of_nat (Suc x) + of_nat i"
      using lt fit u32_add_of_nat_eq_iff [of s x d "Suc x + i"] by (simp add: add.assoc)
  qed
  have "drop x (fbytes m s n) = m (s + of_nat x) # drop (Suc x) (fbytes m s n)"
    using xn by (simp add: Cons_nth_drop_Suc [symmetric])
  then have "(?F (Suc x))(d + of_nat x := m (s + of_nat x)) = ?F x"
    using fwrite_push [of "drop (Suc x) (fbytes m s n)" m "d + of_nat x" "m (s + of_nat x)"] xn fit
    by (simp add: algebra_simps)
  moreover have "rep_movsb True (?F (unat (ecx - 1))) (d + (ecx - 1) - 1) (s + (ecx - 1) - 1) (ecx - 1) =
      fwrite m d (fbytes m s n)"
    by (rule Suc.hyps(1)) (use x Suc.prems xn in simp_all)
  moreover have "ecx - 1 = of_nat x" "unat (of_nat x :: u32) = x"
    using x e by (simp, metis unat_u32_lt unat_u32_of_nat)
  ultimately have "rep_movsb True ((?F (Suc x))(d + of_nat x := ?F (Suc x) (s + of_nat x)))
      (d + of_nat x - 1) (s + of_nat x - 1) (ecx - 1) = fwrite m d (fbytes m s n)"
    by (simp only: rd)
  then show ?case
    using nz by (subst rep_movsb.simps) (simp only: da Suc.hyps(2) [symmetric] if_False if_True)
qed

lemma memmove_fwrite:
  assumes "unat s + unat n \<le> 2 ^ 32" and "unat d + unat n \<le> 2 ^ 32"
  shows "memmove m d s n = (fwrite m d (fbytes m s (unat n)), s < d)"
proof (cases "d \<le> s")
  case True
  then show ?thesis
    using rep_movsb_forward [of d s "unat n" 0 n m] assms
    by (auto simp: memmove_def word_le_nat_alt word_less_nat_alt fbytes_def)
next
  case False
  have e: "drop (unat n) (fbytes m s (unat n)) = []" by simp
  show ?thesis
    using rep_movsb_backward [of s d "unat n" n m] assms False
    unfolding e by (simp add: memmove_def not_le word_less_nat_alt)
qed

end
