(* ===== verification/Kernel_State.thy ===== *)
theory Kernel_State
  imports OS_Prelude
begin

text \<open>
  The global variables of the kernel, one record per C file, each extending the one before it, so
  that an operation of a component works on any later state and the components compose as the C
  files do.  The first record is the part of the machine the code touches with inline assembly:
  the port accesses (in order), the interrupt flag, the control registers, the stack registers and
  the fields of the TSS that are written.

  \<open>cr3\<close> holds the number of the row of \<open>PDE\<close> whose address was loaded.  \<open>PTE_base\<close> is the
  (4 KB aligned) address the linker gives to the page table \<open>PTE\<close>.
\<close>

datatype io_event = Out u16 u8 | In u16 u8

record machine =
  io :: "io_event list"
  iflag :: bool
  cr0 :: u32
  cr3 :: int
  cr4 :: u32
  esp :: u32
  ebp :: u32
  tss_ss0 :: u16
  tss_esp0 :: u32
  tss_esp :: u32
  tss_ebp :: u32

text \<open>paging.h and paging.c: the page directories, the page table, the slot array.\<close>

record paging = machine +
  PDE :: "nat \<Rightarrow> nat \<Rightarrow> u32"
  PTE :: "nat \<Rightarrow> u32"
  PTE_base :: u32
  proc :: "u8 list"

text \<open>i8259.c: the two mask bytes.\<close>

record pic = paging +
  master_mask :: u8
  slave_mask :: u8

text \<open>sched.h: terminals and the process each one runs.\<close>

record sched = pic +
  cursor_pos :: "(int \<times> int) list"
  active_term :: int
  term_init :: "int list"
  proc_active :: "int list"
  bg_term :: int
  fake_sti :: bool
  proc_esp :: "u32 list"
  proc_ebp :: "u32 list"

text \<open>
  lib.c: the cursor, the text copy of each terminal and the bytes of the page frames below 1 MB
  (video memory is frame \<open>0xb8\<close>, the saved screens are frames 1 to 4).
\<close>

record console = sched +
  screen_x :: int
  screen_y :: int
  scr_buf :: "u8 list list"
  frames :: "u32 \<Rightarrow> u8 list"

text \<open>keyboard.h: the modifier keys and the line buffers of the six terminals.\<close>

record keyboard = console +
  capson :: bool
  ctrl_on :: bool
  shift_on :: bool
  alt_on :: bool
  fflag :: bool
  kbuf :: "u8 list list"
  buf_index :: "int list"
  ind_entered :: "int list"

text \<open>rtc.c.\<close>

record rtc = keyboard +
  interrupt_count :: bool

text \<open>Port input and output.  \<open>hw\<close> is the device side: the byte a port gives after the accesses so far.\<close>

type_synonym hardware = "io_event list \<Rightarrow> u16 \<Rightarrow> u8"

definition outb :: "u8 \<Rightarrow> u16 \<Rightarrow> 'a machine_scheme \<Rightarrow> 'a machine_scheme" where
  "outb data port s = s\<lparr>io := io s @ [Out port data]\<rparr>"

definition inb :: "hardware \<Rightarrow> u16 \<Rightarrow> 'a machine_scheme \<Rightarrow> u8 \<times> 'a machine_scheme" where
  "inb hw port s = (let v = hw (io s) port in (v, s\<lparr>io := io s @ [In port v]\<rparr>))"

definition cli :: "'a machine_scheme \<Rightarrow> 'a machine_scheme" where
  "cli s = s\<lparr>iflag := False\<rparr>"

definition sti :: "'a machine_scheme \<Rightarrow> 'a machine_scheme" where
  "sti s = s\<lparr>iflag := True\<rparr>"

text \<open>The last byte written to a port.\<close>

fun last_out :: "u16 \<Rightarrow> io_event list \<Rightarrow> u8 option" where
  "last_out p [] = None"
| "last_out p (e # es) =
     (case last_out p es of
        Some v \<Rightarrow> Some v
      | None \<Rightarrow> (case e of Out q v \<Rightarrow> if q = p then Some v else None | In q v \<Rightarrow> None))"

lemma last_out_append [simp]:
  "last_out p (xs @ ys) = (case last_out p ys of Some v \<Rightarrow> Some v | None \<Rightarrow> last_out p xs)"
  by (induction xs) (auto split: option.splits)

lemma outb_fields [simp]:
  "io (outb d p s) = io s @ [Out p d]"
  "iflag (outb d p s) = iflag s"
  "machine.more (outb d p s) = machine.more s"
  by (simp_all add: outb_def)

end
