(* ===== verification/Stream_Reader.thy ===== *)
theory Stream_Reader
  imports OS_Prelude
begin

text \<open>
  The contract of sequential reading: a reader in a good state has a remaining sequence; one read
  gives its first \<open>chunk\<close> elements, and a read that gave something leaves the rest.  The kernel has
  two such readers, a file behind a descriptor and the directory.  The client reads until a read
  gives nothing, the loop that user programs such as cat and ls consist of.
\<close>

fun drain :: "('s \<Rightarrow> 'e list \<times> 's) \<Rightarrow> nat \<Rightarrow> 's \<Rightarrow> 'e list \<times> 's" where
  "drain rd 0 s = ([], s)"
| "drain rd (Suc fuel) s =
     (let (xs, s1) = rd s
      in if xs = [] then ([], s1) else let (ys, s2) = drain rd fuel s1 in (xs @ ys, s2))"

locale stream_reader =
  fixes good :: "'s \<Rightarrow> bool"
    and rest :: "'s \<Rightarrow> 'e list"
    and chunk :: nat
    and rd :: "'s \<Rightarrow> 'e list \<times> 's"
  assumes chunk_pos: "good s \<Longrightarrow> 0 < chunk"
    and rd_good: "good s \<Longrightarrow> rd s = (xs, s') \<Longrightarrow> good s'"
    and rd_prefix: "good s \<Longrightarrow> rd s = (xs, s') \<Longrightarrow> xs = take chunk (rest s)"
    and rd_rest: "good s \<Longrightarrow> rd s = (xs, s') \<Longrightarrow> rest s \<noteq> [] \<Longrightarrow> rest s' = drop chunk (rest s)"
begin

text \<open>\<open>length (rest s) + 1\<close> reads are always enough.\<close>

lemma drain_all: "good s \<Longrightarrow> length (rest s) < fuel \<Longrightarrow> fst (drain rd fuel s) = rest s"
proof (induction fuel arbitrary: s)
  case (Suc fuel)
  obtain xs s1 where r: "rd s = (xs, s1)" by fastforce
  have xs: "xs = take chunk (rest s)" using rd_prefix [OF Suc.prems(1) r] .
  show ?case
  proof (cases "rest s = []")
    case True
    then show ?thesis using r xs by simp
  next
    case False
    then have ne: "xs \<noteq> []" using xs chunk_pos [OF Suc.prems(1)] by simp
    have r1: "rest s1 = drop chunk (rest s)" using rd_rest [OF Suc.prems(1) r False] .
    then have "length (rest s1) < fuel" using Suc.prems(2) False chunk_pos [OF Suc.prems(1)]
      by (metis (no_types, lifting) diff_less length_drop length_greater_0_conv less_Suc_eq_le order_less_le_trans)
    from Suc.IH [OF rd_good [OF Suc.prems(1) r] this] have "fst (drain rd fuel s1) = drop chunk (rest s)" using r1 by simp
    then show ?thesis using r ne xs by (simp add: split_def)
  qed
qed simp

lemma read_nothing_iff: "good s \<Longrightarrow> fst (rd s) = [] \<longleftrightarrow> rest s = []"
  using rd_prefix [of s "fst (rd s)" "snd (rd s)"] chunk_pos [of s] by auto

end

end
