(* ===== verification/Filesys.thy ===== *)
theory Filesys
  imports Kernel_State Lib_String Stream_Reader
begin

text \<open>
  student-distrib/filesys.c: the read-only file system in the boot module.  The image is read from
  memory (boot block, directory entries of 64 bytes, inodes and data blocks of 4096 bytes), so the
  operations are pointer programs; a \<open>dentry_t\<close> is 64 bytes of memory with the name at offset 0,
  the type at 32 and the inode number at 36.  \<open>dirents\<close> and \<open>content\<close> are what the image means:
  the directory as a list and a file as a list of bytes.  The lemmas relate every operation to them.

  A local variable that C leaves uninitialised (\<open>check\<close>) is a parameter.
\<close>

record filesys = rtc +
  num_de :: u32
  N :: u32
  D :: u32
  bbp :: ptr
  de_ptr :: ptr
  inode_ptr :: ptr
  db_ptr :: ptr
  dir_index :: u32

text \<open>A 32-bit field of a structure in memory.\<close>

definition st32 :: "mem \<Rightarrow> ptr \<Rightarrow> u32 \<Rightarrow> mem" where
  "st32 m p v = st (st (st (st m p 0 (ucast v)) p 1 (ucast (drop_bit 8 v)))
      p 2 (ucast (drop_bit 16 v))) p 3 (ucast (drop_bit 24 v))"

abbreviation size_block :: u32 where "size_block \<equiv> 4096"
abbreviation max_str_length :: u32 where "max_str_length \<equiv> 32"

definition set_filesys_meta :: "mem \<Rightarrow> ptr \<Rightarrow> 'a filesys_scheme \<Rightarrow> 'a filesys_scheme" where
  "set_filesys_meta m boot_block_ptr s =
     (let n = ld32 m (padd boot_block_ptr 4)
      in s\<lparr>num_de := ld32 m boot_block_ptr, N := n, D := ld32 m (padd boot_block_ptr 8),
           dir_index := 0, bbp := boot_block_ptr,
           de_ptr := padd boot_block_ptr 64,
           inode_ptr := padd boot_block_ptr size_block,
           db_ptr := padd boot_block_ptr (size_block + n * size_block)\<rparr>)"

text \<open>The address of \<open>de_ptr[i]\<close> and of the inode with a given number.\<close>

definition de_at :: "'a filesys_scheme \<Rightarrow> u32 \<Rightarrow> ptr" where
  "de_at s i = padd (de_ptr s) (64 * i)"

definition inode_at :: "'a filesys_scheme \<Rightarrow> u32 \<Rightarrow> ptr" where
  "inode_at s inode = padd (inode_ptr s) (size_block * inode)"

function read_dentry_loop :: "mem \<Rightarrow> 'a filesys_scheme \<Rightarrow> ptr \<Rightarrow> ptr \<Rightarrow> u32 \<Rightarrow> u32 \<Rightarrow> u32 \<times> mem" where
  "read_dentry_loop m s fname dentry check i =
     (if sint i < sint (num_de s) then
        let check = strncmp m fname (de_at s i) max_str_length
        in if check = 0 then
             let m = strncpy m dentry (de_at s i) max_str_length;
                 m = st32 m (padd dentry 32) (ld32 m (padd (de_at s i) 32));
                 m = st32 m (padd dentry 36) (ld32 m (padd (de_at s i) 36))
             in (0, m)
           else read_dentry_loop m s fname dentry check (i + 1)
      else (check, m))"
  by pat_completeness auto
termination
proof (relation "measure (\<lambda>(m, s, f, d, c, i). nat (sint (num_de s) - sint i))")
  fix s :: "'a filesys_scheme" and i :: u32
  assume lt: "sint i < sint (num_de s)"
  have "sint (num_de s) < 2 ^ 31" by (rule sint_u32_range)
  moreover have "- (2 ^ 31) \<le> sint i" by (rule sint_u32_range)
  ultimately have "sint (i + 1) = sint i + 1" using lt by (subst sint_u32_add) auto
  then show "((m, s, f, d, c', i + 1), (m, s, f, d, c, i)) \<in>
      measure (\<lambda>(m, s, f, d, c, i). nat (sint (num_de s) - sint i))" for m f d c c'
    using lt by simp
qed simp

declare read_dentry_loop.simps [simp del]

definition read_dentry_by_name ::
  "mem \<Rightarrow> 'a filesys_scheme \<Rightarrow> u32 \<Rightarrow> ptr \<Rightarrow> ptr \<Rightarrow> (u32 \<times> mem) option" where
  "read_dentry_by_name m s check fname dentry =
     (case strlen m fname of
        None \<Rightarrow> None
      | Some len \<Rightarrow>
          if sint len > sint (max_str_length - 1) then Some (- 1, m)
          else (case read_dentry_loop m s fname dentry check 0 of (check, m) \<Rightarrow>
            if check \<noteq> 0 then Some (- 1, m)
            else Some (ld32 m (inode_at s (ld32 m (padd dentry 36))), m)))"

definition read_dentry_by_index ::
  "mem \<Rightarrow> 'a filesys_scheme \<Rightarrow> u32 \<Rightarrow> ptr \<Rightarrow> u32 \<times> mem" where
  "read_dentry_by_index m s index dentry =
     (if index \<ge> num_de s then (- 1, m)
      else
        let m = for_loop 0 32 (\<lambda>i m. st m dentry (of_nat i) (ld m (de_at s index) (of_nat i))) m;
            m = st32 m (padd dentry 32) (ld32 m (padd (de_at s index) 32));
            m = st32 m (padd dentry 36) (ld32 m (padd (de_at s index) 36))
        in (0, m))"

function read_data_loop :: "mem \<Rightarrow> 'a filesys_scheme \<Rightarrow> ptr \<Rightarrow> u32 \<Rightarrow> u32 \<Rightarrow> ptr \<Rightarrow> u32 \<Rightarrow> u32 \<Rightarrow> u32 \<times> mem" where
  "read_data_loop m s curr_inode_ptr B offset buf_rd len i =
     (if i < len then
        let block_offset = (offset + i) div size_block;
            offset_in_block = (offset + i) mod size_block
        in if i + offset \<ge> B then (i, m)
           else read_data_loop (st m buf_rd i
                  (ld m (db_ptr s) (size_block * ld32 m (padd curr_inode_ptr (4 * (block_offset + 1)))
                     + offset_in_block)))
                  s curr_inode_ptr B offset buf_rd len (i + 1)
      else (i, m))"
  by pat_completeness auto
termination
  by (relation "measure (\<lambda>(m, s, c, B, off, b, len, i). unat (len - i))") (auto simp: u32_count_down)

declare read_data_loop.simps [simp del]

definition read_data :: "mem \<Rightarrow> 'a filesys_scheme \<Rightarrow> u32 \<Rightarrow> u32 \<Rightarrow> ptr \<Rightarrow> u32 \<Rightarrow> u32 \<times> mem" where
  "read_data m s inode offset buf_rd len =
     (let curr_inode_ptr = inode_at s inode;
          B = ld32 m curr_inode_ptr
      in if inode \<ge> N s then (- 1, m)
         else read_data_loop m s curr_inode_ptr B offset buf_rd len 0)"

definition file_write :: u32 where
  "file_write = - 1"

definition file_close :: u32 where
  "file_close = 0"

text \<open>The local \<open>dentry_t\<close> of \<open>dir_read\<close>.\<close>

abbreviation dir_dentry :: ptr where "dir_dentry \<equiv> (Obj ''dir_read.dentry'', 0)"

definition dir_read :: "mem \<Rightarrow> ptr \<Rightarrow> 'a filesys_scheme \<Rightarrow> u32 \<times> mem \<times> 'a filesys_scheme" where
  "dir_read m buff s =
     (case read_dentry_by_index m s (dir_index s) dir_dentry of (retval, m) \<Rightarrow>
        let s = s\<lparr>dir_index := dir_index s + 1\<rparr>
        in if retval = - 1 then (0, m, s\<lparr>dir_index := 0\<rparr>)
           else (max_str_length, strncpy m buff dir_dentry max_str_length, s))"

subsection \<open>What the image means\<close>

text \<open>One directory entry: the name up to its NUL (at most 32 bytes), the type, the inode number.\<close>

definition dirent :: "mem \<Rightarrow> 'a filesys_scheme \<Rightarrow> u32 \<Rightarrow> u8 list \<times> u32 \<times> u32" where
  "dirent m s i = (cview m (de_at s i) 32, ld32 m (padd (de_at s i) 32), ld32 m (padd (de_at s i) 36))"

definition dirents :: "mem \<Rightarrow> 'a filesys_scheme \<Rightarrow> (u8 list \<times> u32 \<times> u32) list" where
  "dirents m s = map (\<lambda>i. dirent m s (of_nat i)) [0..<unat (num_de s)]"

definition file_size :: "mem \<Rightarrow> 'a filesys_scheme \<Rightarrow> u32 \<Rightarrow> u32" where
  "file_size m s inode = ld32 m (inode_at s inode)"

definition file_byte :: "mem \<Rightarrow> 'a filesys_scheme \<Rightarrow> u32 \<Rightarrow> nat \<Rightarrow> u8" where
  "file_byte m s inode k =
     (let blk = ld32 m (padd (inode_at s inode) (4 * (of_nat (k div 4096) + 1)))
      in ld m (db_ptr s) (4096 * blk + of_nat (k mod 4096)))"

definition content :: "mem \<Rightarrow> 'a filesys_scheme \<Rightarrow> u32 \<Rightarrow> u8 list" where
  "content m s inode = map (file_byte m s inode) [0..<unat (file_size m s inode)]"

text \<open>
  The pointers set by \<open>set_filesys_meta\<close> stay in the block of the boot module; \<open>same_fs\<close> says
  two memories agree on that block.
\<close>

definition fs_ok :: "'a filesys_scheme \<Rightarrow> bool" where
  "fs_ok s \<longleftrightarrow> de_ptr s = padd (bbp s) 64 \<and> inode_ptr s = padd (bbp s) size_block \<and>
     db_ptr s = padd (bbp s) (size_block + N s * size_block) \<and> unat (num_de s) < 2 ^ 31"

lemma set_filesys_meta_ok:
  "unat (ld32 m p) < 2 ^ 31 \<Longrightarrow> fs_ok (set_filesys_meta m p s)"
  by (simp add: fs_ok_def set_filesys_meta_def Let_def)

lemma fs_ok_blocks:
  assumes "fs_ok s"
  shows "fst (de_at s i) = fst (bbp s)" "fst (inode_at s n) = fst (bbp s)" "fst (db_ptr s) = fst (bbp s)"
  using assms by (simp_all add: fs_ok_def de_at_def inode_at_def)

subsection \<open>Fields in memory\<close>

lemma ld_other_block: "fst q \<noteq> fst p \<Longrightarrow> ld (st m p i v) q j = ld m q j"
  by (simp add: ld_st)

lemma st32_other_block: "b \<noteq> fst p \<Longrightarrow> st32 m p v b = m b"
  by (simp add: st32_def st_def)

lemma stores_other_block: "b \<noteq> fst p \<Longrightarrow> stores m p xs b = m b"
  by (simp add: stores_def fun_eq_iff)

lemma ld32_block: "m (fst p) = m' (fst p) \<Longrightarrow> ld32 m p = ld32 m' p"
  by (simp add: ld32_def ld_def)

lemma ld32_st32_same: "ld32 (st32 m p v) p = v"
proof (rule bit_word_eqI)
  fix n assume "n < LENGTH(32)"
  then show "bit (ld32 (st32 m p v) p) n = bit v n"
    by (cases "24 \<le> n"; cases "16 \<le> n"; auto simp: ld32_def st32_def bit_simps)
qed

lemma ld_st32_apart:
  "\<lbrakk> k \<noteq> j; k + 1 \<noteq> j; k + 2 \<noteq> j; k + 3 \<noteq> j \<rbrakk> \<Longrightarrow> ld (st32 m (padd p k) v) p j = ld m p j"
  by (auto simp: st32_def)

subsection \<open>Reading data\<close>

lemma same_block_file:
  assumes "fs_ok s" and "m (fst (bbp s)) = m' (fst (bbp s))"
  shows "file_byte m s = file_byte m' s" "file_size m s = file_size m' s" "content m s = content m' s"
proof -
  note b = fs_ok_blocks [OF assms(1)]
  have l: "ld32 m (padd (inode_at s n) k) = ld32 m' (padd (inode_at s n) k)" for n k
    using assms(2) by (intro ld32_block) (simp add: b)
  have l0: "ld32 m (inode_at s n) = ld32 m' (inode_at s n)" for n
    using assms(2) by (intro ld32_block) (simp add: b)
  have "file_byte m s n k = file_byte m' s n k" for n k
    using assms(2) by (simp add: file_byte_def l Let_def ld_def b)
  then show fb: "file_byte m s = file_byte m' s" by (intro ext)
  show "file_size m s = file_size m' s" by (intro ext) (simp add: file_size_def l0)
  then show "content m s = content m' s" by (intro ext) (simp add: content_def fb)
qed

text \<open>After \<open>i\<close> bytes the loop has stored exactly the first \<open>i\<close> bytes from the offset.\<close>

lemma read_data_loop_stores:
  assumes ok: "fs_ok s" and blk: "fst buf \<noteq> fst (bbp s)"
    and B: "B = file_size m s inode"
    and i: "i \<le> unat len" "unat off + i \<le> unat B \<or> i = 0"
  shows "read_data_loop (stores m buf (take i (drop (unat off) (content m s inode))))
      s (inode_at s inode) B off buf len (of_nat i) =
    (let r = take (unat len) (drop (unat off) (content m s inode)) in (of_nat (length r), stores m buf r))"
  using i
proof (induction "unat len - i" arbitrary: i)
  case 0
  then have i: "i = unat len" by simp
  moreover from this have "of_nat i = len" by simp
  moreover have "length (take i (drop (unat off) (content m s inode))) = i"
    using 0 by (auto simp: content_def B)
  ultimately show ?case by (subst read_data_loop.simps) (simp add: Let_def)
next
  case (Suc n)
  let ?c = "content m s inode" and ?m = "stores m buf (take i (drop (unat off) (content m s inode)))"
  have lt: "i < unat len" using Suc.hyps(2) by simp
  then have ilt: "(of_nat i :: u32) < len"
    using unat_u32_lt [of len] by (simp add: word_less_nat_alt unat_u32_of_nat)
  have lc: "length ?c = unat B" by (simp add: content_def B)
  have "off + of_nat i = of_nat (unat off + i)" by simp
  moreover have "unat off + i < 2 ^ 32" using Suc.prems(2) unat_u32_lt [of B] unat_u32_lt [of off] by auto
  ultimately have u: "unat (off + of_nat i) = unat off + i" by (metis unat_u32_of_nat)
  show ?case
  proof (cases "B \<le> of_nat i + off")
    case True
    then have "unat B \<le> unat off + i" using u by (simp add: word_le_nat_alt add.commute)
    then have "take (unat len) (drop (unat off) ?c) = take i (drop (unat off) ?c)"
      and "length (take i (drop (unat off) ?c)) = i" using lt lc Suc.prems(2) by auto
    then show ?thesis using True ilt by (subst read_data_loop.simps) (simp add: Let_def)
  next
    case False
    then have k: "unat off + i < unat B" using u by (simp add: word_le_nat_alt add.commute)
    let ?k = "unat off + i"
    have mb: "?m (fst (bbp s)) = m (fst (bbp s))" using blk by (simp add: stores_other_block)
    have "(off + of_nat i) div size_block = of_nat (?k div 4096)"
      "(off + of_nat i) mod size_block = of_nat (?k mod 4096)"
      using u by (simp_all add: word_arith_nat_div word_arith_nat_mod)
    then have "ld ?m (db_ptr s) (size_block * ld32 ?m (padd (inode_at s inode) (4 * ((off + of_nat i) div size_block + 1)))
         + (off + of_nat i) mod size_block) = file_byte ?m s inode ?k"
      by (simp add: file_byte_def Let_def)
    also have "\<dots> = ?c ! ?k" using k same_block_file(1) [where s = s and m = ?m and m' = m, OF ok mb] by (simp add: content_def B)
    finally have byte: "ld ?m (db_ptr s) (size_block * ld32 ?m (padd (inode_at s inode) (4 * ((off + of_nat i) div size_block + 1)))
         + (off + of_nat i) mod size_block) = ?c ! ?k" .
    have len: "length (take i (drop (unat off) ?c)) = i" using k lc by simp
    have tk: "take i (drop (unat off) ?c) @ [?c ! ?k] = take (Suc i) (drop (unat off) ?c)"
      using k lc by (simp add: take_Suc_conv_app_nth)
    have "st ?m buf (of_nat i) (?c ! ?k) = stores m buf (take (Suc i) (drop (unat off) ?c))"
      using stores_snoc [of "take i (drop (unat off) ?c)" m buf "?c ! ?k"] len tk lt unat_u32_lt [of len] by simp
    moreover have "n = unat len - Suc i" using Suc.hyps(2) by simp
    moreover have "(of_nat i :: u32) + 1 = of_nat (Suc i)" by simp
    ultimately show ?thesis
      using Suc.hyps(1) [of "Suc i"] lt k ilt False byte
      by (subst read_data_loop.simps) (simp add: Let_def add.commute)
  qed
qed

theorem read_data_slice:
  assumes "fs_ok s" and "fst buf \<noteq> fst (bbp s)" and "inode < N s"
  shows "read_data m s inode off buf len =
    (let r = take (unat len) (drop (unat off) (content m s inode)) in (of_nat (length r), stores m buf r))"
  using read_data_loop_stores [OF assms(1,2) refl, of 0 len off m inode] assms(3)
  by (simp add: read_data_def Let_def file_size_def)

lemma read_data_bad_inode: "N s \<le> inode \<Longrightarrow> read_data m s inode off buf len = (- 1, m)"
  by (simp add: read_data_def Let_def)

subsection \<open>Looking up names\<close>

text \<open>What a successful lookup leaves in the caller's \<open>dentry_t\<close>.\<close>

definition dentry_is :: "mem \<Rightarrow> ptr \<Rightarrow> u8 list \<times> u32 \<times> u32 \<Rightarrow> bool" where
  "dentry_is m p d \<longleftrightarrow> cview m p 32 = fst d \<and> ld32 m (padd p 32) = fst (snd d) \<and> ld32 m (padd p 36) = snd (snd d)"

lemma bytes_st32_apart:
  assumes "n \<le> unat k" and "unat k + 3 < 2 ^ 32"
  shows "bytes (st32 m (padd p k) v) p n = bytes m p n"
proof (rule nth_equalityI)
  fix i assume "i < length (bytes (st32 m (padd p k) v) p n)"
  then have i: "i < n" by simp
  have u: "unat (of_nat i :: u32) = i" using i assms by (intro unat_u32_of_nat) simp
  have "unat (k + of_nat j) = unat k + j" if "j \<le> 3" for j
  proof -
    have "unat (of_nat (unat k + j) :: u32) = unat k + j"
      using that assms(2) by (intro unat_u32_of_nat) simp
    then show ?thesis by simp
  qed
  then have ne: "k + of_nat j \<noteq> (of_nat i :: u32)" if "j \<le> 3" for j
    using that u i assms(1) by fastforce
  show "bytes (st32 m (padd p k) v) p n ! i = bytes m p n ! i"
    using i ne [of 0] ne [of 1] ne [of 2] ne [of 3] by (simp add: ld_st32_apart)
qed simp

lemma ld32_st32_fields: "ld32 (st32 m (padd p 36) v) (padd p 32) = ld32 m (padd p 32)"
  by (simp add: ld32_def ld_st32_apart)

text \<open>Both lookups end by copying the name and the two fields of one entry.\<close>

lemma dentry_copied:
  assumes "fst dentry \<noteq> fst e" and "m (fst e) = m0 (fst e)"
    and "takeWhile (\<lambda>b. b \<noteq> 0) (bytes m dentry 32) = cview m0 e 32"
  defines "m' \<equiv> st32 (st32 m (padd dentry 32) (ld32 m (padd e 32))) (padd dentry 36)
      (ld32 (st32 m (padd dentry 32) (ld32 m (padd e 32))) (padd e 36))"
  shows "dentry_is m' dentry (cview m0 e 32, ld32 m0 (padd e 32), ld32 m0 (padd e 36))"
    and "b \<noteq> fst dentry \<Longrightarrow> m' b = m b"
proof -
  have l: "ld32 m (padd e k) = ld32 m0 (padd e k)" for k using assms(2) by (intro ld32_block) simp
  have "ld32 (st32 m (padd dentry 32) (ld32 m (padd e 32))) (padd e 36) = ld32 m (padd e 36)"
    using assms(1) by (intro ld32_block) (simp add: st32_other_block)
  then have m': "m' = st32 (st32 m (padd dentry 32) (ld32 m0 (padd e 32))) (padd dentry 36) (ld32 m0 (padd e 36))"
    by (simp add: m'_def l)
  have "bytes m' dentry 32 = bytes m dentry 32" by (simp add: m' bytes_st32_apart)
  then show "dentry_is m' dentry (cview m0 e 32, ld32 m0 (padd e 32), ld32 m0 (padd e 36))"
    using assms(3) by (simp add: dentry_is_def cview_def) (simp add: m' ld32_st32_fields ld32_st32_same)
  show "b \<noteq> fst dentry \<Longrightarrow> m' b = m b" by (simp add: m' st32_other_block)
qed

lemma region_blocks: "fst p \<noteq> fst q \<Longrightarrow> region p n \<inter> region q k = {}"
  by (auto simp: region_def)

lemma takeWhile_pad: "0 \<notin> set xs \<Longrightarrow> takeWhile (\<lambda>b. b \<noteq> 0) (xs @ replicate n 0) = (xs :: u8 list)"
  by (induction xs) (auto simp: takeWhile_replicate)

lemma name_copied:
  assumes "fst dentry \<noteq> fst e"
  shows "takeWhile (\<lambda>b. b \<noteq> 0) (bytes (strncpy m dentry e 32) dentry 32) = cview m e 32"
proof -
  let ?xs = "cview m e 32 @ replicate (32 - length (cview m e 32)) 0"
  have "strncpy m dentry e 32 = stores m dentry ?xs"
    using strncpy_stores [of dentry 32 e m] region_blocks [OF assms] by simp
  moreover have "length ?xs = 32" using cview_length [of m e 32] by simp
  ultimately have "bytes (strncpy m dentry e 32) dentry 32 = ?xs"
    using bytes_stores_same [of ?xs m dentry] by simp
  then show ?thesis by (simp add: takeWhile_pad cview_no_nul)
qed

lemma strncpy_other_block:
  "fst dest \<noteq> fst src \<Longrightarrow> b \<noteq> fst dest \<Longrightarrow> strncpy m dest src n b = m b"
  by (simp add: strncpy_stores region_blocks stores_other_block)

lemma num_de_sint: "fs_ok s \<Longrightarrow> sint (num_de s) = int (unat (num_de s))"
  by (rule sint_u32_small) (simp add: fs_ok_def)

definition lookup_name :: "u8 list \<Rightarrow> (u8 list \<times> u32 \<times> u32) list \<Rightarrow> (u8 list \<times> u32 \<times> u32) option" where
  "lookup_name name ds = find (\<lambda>d. fst d = name) ds"

lemma drop_dirents:
  "i < unat (num_de s) \<Longrightarrow> drop i (dirents m s) = dirent m s (of_nat i) # drop (Suc i) (dirents m s)"
  by (subst Cons_nth_drop_Suc [symmetric]) (auto simp: dirents_def)

lemma read_dentry_loop_spec:
  assumes ok: "fs_ok s" and blk: "fst dentry \<noteq> fst (bbp s)" and i: "i \<le> unat (num_de s)"
  shows "case lookup_name (cview m fname 32) (drop i (dirents m s)) of
      None \<Rightarrow> \<exists>c. read_dentry_loop m s fname dentry check (of_nat i) = (c, m) \<and>
         (c = 0 \<longrightarrow> i = unat (num_de s) \<and> check = 0)
    | Some d \<Rightarrow> \<exists>m'. read_dentry_loop m s fname dentry check (of_nat i) = (0, m') \<and>
         dentry_is m' dentry d \<and> (\<forall>b. b \<noteq> fst dentry \<longrightarrow> m' b = m b)"
  using i
proof (induction "unat (num_de s) - i" arbitrary: i check)
  case 0
  then have "i = unat (num_de s)" by simp
  then show ?case by (subst read_dentry_loop.simps) (simp add: dirents_def lookup_name_def)
next
  case (Suc n)
  then have i: "i < unat (num_de s)" by simp
  have "unat (num_de s) < 2 ^ 31" using ok by (simp add: fs_ok_def)
  then have "unat (of_nat i :: u32) = i" "i < 2 ^ 31" using i by (auto intro!: unat_u32_of_nat)
  then have lt: "sint (of_nat i :: u32) < sint (num_de s)"
    using i by (metis num_de_sint [OF ok] sint_u32_small of_nat_less_iff)
  let ?e = "de_at s (of_nat i)"
  have be: "fst dentry \<noteq> fst ?e" using blk fs_ok_blocks(1) [OF ok] by simp
  show ?case
  proof (cases "strncmp m fname ?e 32 = 0")
    case True
    then have nm: "cview m ?e 32 = cview m fname 32" by (simp add: strncmp_0_iff)
    have "strncpy m dentry ?e 32 (fst ?e) = m (fst ?e)"
      by (rule strncpy_other_block) (use be in auto)
    note dc = dentry_copied [OF be this name_copied [OF be]]
    obtain m' where step: "read_dentry_loop m s fname dentry check (of_nat i) = (0, m')"
      and "dentry_is m' dentry (dirent m s (of_nat i))" "\<forall>b. b \<noteq> fst dentry \<longrightarrow> m' b = m b"
    proof
      show "read_dentry_loop m s fname dentry check (of_nat i) = (0,
          st32 (st32 (strncpy m dentry ?e 32) (padd dentry 32) (ld32 (strncpy m dentry ?e 32) (padd ?e 32))) (padd dentry 36)
           (ld32 (st32 (strncpy m dentry ?e 32) (padd dentry 32) (ld32 (strncpy m dentry ?e 32) (padd ?e 32))) (padd ?e 36)))"
        using lt True by (subst read_dentry_loop.simps) (simp add: Let_def)
    qed (use dc be in \<open>auto simp: dirent_def strncpy_other_block\<close>)
    moreover have "lookup_name (cview m fname 32) (drop i (dirents m s)) = Some (dirent m s (of_nat i))"
      using i nm by (simp add: lookup_name_def drop_dirents dirent_def)
    ultimately show ?thesis by simp
  next
    case False
    then have nm: "cview m ?e 32 \<noteq> cview m fname 32"
      using strncmp_0_iff [of m fname ?e 32] by auto
    have step: "read_dentry_loop m s fname dentry check (of_nat i) =
        read_dentry_loop m s fname dentry (strncmp m fname ?e 32) (of_nat (Suc i))"
      using lt False by (subst read_dentry_loop.simps) (simp add: Let_def add.commute)
    have lk: "lookup_name (cview m fname 32) (drop i (dirents m s)) = lookup_name (cview m fname 32) (drop (Suc i) (dirents m s))"
      using i nm by (simp add: lookup_name_def drop_dirents dirent_def)
    have "n = unat (num_de s) - Suc i" using Suc.hyps(2) by simp
    from Suc.hyps(1) [OF this, of "strncmp m fname ?e 32"] show ?thesis
      using i False unfolding step lk by (auto split: option.splits)
  qed
qed

theorem read_dentry_by_name_spec:
  assumes "fs_ok s" and "fst dentry \<noteq> fst (bbp s)" and "fst dentry \<noteq> fst fname"
    and "cstr m fname name" and "length name \<le> 31" and "num_de s \<noteq> 0"
  shows "case lookup_name name (dirents m s) of
      None \<Rightarrow> read_dentry_by_name m s check fname dentry = Some (- 1, m)
    | Some d \<Rightarrow> \<exists>m'. read_dentry_by_name m s check fname dentry = Some (file_size m s (snd (snd d)), m') \<and>
         dentry_is m' dentry d \<and> (\<forall>b. b \<noteq> fst dentry \<longrightarrow> m' b = m b)"
proof -
  have len: "strlen m fname = Some (of_nat (length name))" using assms(4) by (rule strlen_cstr)
  have u: "unat (of_nat (length name) :: u32) = length name" using assms(5) by (intro unat_u32_of_nat) simp
  have "sint (of_nat (length name) :: u32) = int (length name)"
    using sint_u32_small [of "of_nat (length name)"] assms(5) unfolding u by simp
  moreover have "sint (max_str_length - 1) = 31" by simp
  ultimately have short: "\<not> sint (of_nat (length name) :: u32) > sint (max_str_length - 1)"
    using assms(5) by simp
  have nm: "cview m fname 32 = name" using cstr_cview [OF assms(4), of 32] assms(5) by simp
  have nz: "unat (num_de s) \<noteq> 0" using assms(6) by (metis unat_eq_zero)
  note spec = read_dentry_loop_spec [OF assms(1,2), of 0 m fname check, unfolded nm]
  show ?thesis
  proof (cases "lookup_name name (dirents m s)")
    case None
    then show ?thesis using spec nz by (auto simp: read_dentry_by_name_def len short [simplified])
  next
    case (Some d)
    then obtain m' where m': "read_dentry_loop m s fname dentry check 0 = (0, m')" "dentry_is m' dentry d"
      "\<forall>b. b \<noteq> fst dentry \<longrightarrow> m' b = m b" using spec by auto
    have "m' (fst (bbp s)) = m (fst (bbp s))" using m'(3) assms(2) by (metis)
    from same_block_file(2) [where s = s and m = m' and m' = m, OF assms(1) this]
    have "ld32 m' (inode_at s (snd (snd d))) = file_size m s (snd (snd d))"
      by (metis file_size_def)
    then show ?thesis using Some m' by (auto simp: read_dentry_by_name_def len short [simplified] dentry_is_def)
  qed
qed

text \<open>A name of 32 bytes or more is refused before the directory is looked at.\<close>

lemma read_dentry_by_name_long:
  assumes "cstr m fname name" and "32 \<le> length name" and "length name < 2 ^ 31"
  shows "read_dentry_by_name m s check fname dentry = Some (- 1, m)"
proof -
  have u: "unat (of_nat (length name) :: u32) = length name" using assms(3) by (intro unat_u32_of_nat) simp
  have "sint (of_nat (length name) :: u32) = int (length name)"
    using sint_u32_small [of "of_nat (length name)"] assms(3) unfolding u by simp
  then have "sint (of_nat (length name) :: u32) > sint (max_str_length - 1)" using assms(2) by simp
  then show ?thesis using strlen_cstr [OF assms(1)] by (simp add: read_dentry_by_name_def)
qed

subsection \<open>Reading the directory\<close>

lemma copy_name_loop:
  assumes "fst dentry \<noteq> fst e" and "n \<le> 32"
  shows "for_loop 0 n (\<lambda>i m. st m dentry (of_nat i) (ld m e (of_nat i))) m = stores m dentry (bytes m e n)"
  using assms(2)
proof (induction n)
  case (Suc n)
  have "ld (stores m dentry (bytes m e n)) e (of_nat n) = ld m e (of_nat n)"
    using assms(1) by (simp add: ld_def stores_other_block)
  moreover have "st (stores m dentry (bytes m e n)) dentry (of_nat n) v = stores m dentry (bytes m e n @ [v])" for v
    using stores_snoc [of "bytes m e n" m dentry v] Suc.prems by simp
  ultimately show ?case using Suc by (simp add: for_loop_def bytes_Suc)
qed (simp add: for_loop_def)

theorem read_dentry_by_index_spec:
  assumes ok: "fs_ok s" and blk: "fst dentry \<noteq> fst (bbp s)"
  shows "if unat i < length (dirents m s)
    then \<exists>m'. read_dentry_by_index m s i dentry = (0, m') \<and> dentry_is m' dentry (dirents m s ! unat i) \<and>
       (\<forall>b. b \<noteq> fst dentry \<longrightarrow> m' b = m b)
    else read_dentry_by_index m s i dentry = (- 1, m)"
proof (cases "i < num_de s")
  case True
  let ?e = "de_at s i"
  have be: "fst dentry \<noteq> fst ?e" using blk fs_ok_blocks(1) [OF ok] by simp
  let ?m = "stores m dentry (bytes m ?e 32)"
  have cp: "for_loop 0 32 (\<lambda>i m. st m dentry (of_nat i) (ld m ?e (of_nat i))) m = ?m"
    using copy_name_loop [OF be] by simp
  have "?m (fst ?e) = m (fst ?e)" using be by (metis stores_other_block)
  moreover have "takeWhile (\<lambda>b. b \<noteq> 0) (bytes ?m dentry 32) = cview m ?e 32"
    using bytes_stores_same [of "bytes m ?e 32" m dentry] by (simp add: cview_def)
  ultimately have "\<exists>m'. read_dentry_by_index m s i dentry = (0, m') \<and> dentry_is m' dentry (dirent m s i) \<and>
     (\<forall>b. b \<noteq> fst dentry \<longrightarrow> m' b = m b)"
    using dentry_copied [OF be, of ?m m] True
    by (auto simp: read_dentry_by_index_def cp Let_def dirent_def stores_other_block)
  moreover have "unat i < unat (num_de s)" using True by (simp add: word_less_nat_alt)
  ultimately show ?thesis by (simp add: dirents_def)
next
  case False
  then have "unat (num_de s) \<le> unat i" by (simp add: word_less_nat_alt)
  with False show ?thesis by (simp add: dirents_def read_dentry_by_index_def not_less)
qed

text \<open>The contract of \<open>dir_read\<close>: the name at the position goes out, zero-padded to 32 bytes.\<close>

definition dir_names :: "mem \<Rightarrow> 'a filesys_scheme \<Rightarrow> u8 list list" where
  "dir_names m s = map fst (dirents m s)"

definition pad32 :: "u8 list \<Rightarrow> u8 list" where
  "pad32 xs = xs @ replicate (32 - length xs) 0"

theorem dir_read_spec:
  assumes ok: "fs_ok s" and blk: "fst buff \<noteq> fst (bbp s)" "fst buff \<noteq> fst dir_dentry" "fst (bbp s) \<noteq> fst dir_dentry"
  shows "if unat (dir_index s) < length (dir_names m s)
    then \<exists>m'. dir_read m buff s = (32, m', s\<lparr>dir_index := dir_index s + 1\<rparr>) \<and>
       bytes m' buff 32 = pad32 (dir_names m s ! unat (dir_index s)) \<and>
       m' (fst buff) = stores m buff (pad32 (dir_names m s ! unat (dir_index s))) (fst buff) \<and>
       (\<forall>b. b \<notin> {fst buff, fst dir_dentry} \<longrightarrow> m' b = m b)
    else dir_read m buff s = (0, m, s\<lparr>dir_index := 0\<rparr>)"
proof -
  let ?i = "dir_index s"
  have spec: "if unat ?i < length (dirents m s)
    then \<exists>m'. read_dentry_by_index m s ?i dir_dentry = (0, m') \<and> dentry_is m' dir_dentry (dirents m s ! unat ?i) \<and>
       (\<forall>b. b \<noteq> fst dir_dentry \<longrightarrow> m' b = m b)
    else read_dentry_by_index m s ?i dir_dentry = (- 1, m)"
    by (rule read_dentry_by_index_spec [OF ok]) (use blk in auto)
  have ln: "length (dir_names m s) = length (dirents m s)" by (simp add: dir_names_def)
  show ?thesis
  proof (cases "unat ?i < length (dirents m s)")
    case True
    then obtain m1 where m1: "read_dentry_by_index m s ?i dir_dentry = (0, m1)"
      "dentry_is m1 dir_dentry (dirents m s ! unat ?i)" "\<forall>b. b \<noteq> fst dir_dentry \<longrightarrow> m1 b = m b"
      using spec by auto
    let ?n = "cview m1 dir_dentry 32"
    have nm: "?n = dir_names m s ! unat ?i" using m1(2) True by (simp add: dentry_is_def dir_names_def)
    have st: "strncpy m1 buff dir_dentry 32 = stores m1 buff (pad32 ?n)"
      using strncpy_stores [of buff 32 dir_dentry m1] region_blocks [of buff dir_dentry] blk by (simp add: pad32_def)
    have l32: "length (pad32 ?n) = 32" using cview_length [of m1 dir_dentry 32] by (simp add: pad32_def)
    have "bytes (stores m1 buff (pad32 ?n)) buff 32 = pad32 ?n"
      using bytes_stores_same [of "pad32 ?n" m1 buff] l32 by simp
    moreover have "\<forall>b. b \<notin> {fst buff, fst dir_dentry} \<longrightarrow> stores m1 buff (pad32 ?n) b = m b"
      using m1(3) by (auto simp: stores_other_block)
    moreover have "stores m1 buff (pad32 ?n) (fst buff) = stores m buff (pad32 ?n) (fst buff)"
      using m1(3) blk(2) by (auto simp: stores_def fun_eq_iff)
    ultimately show ?thesis using True m1(1) st ln nm by (simp add: dir_read_def Let_def)
  next
    case False
    then show ?thesis using spec ln by (simp add: dir_read_def Let_def)
  qed
qed

lemma same_block_dirents:
  assumes "fs_ok s" and "m (fst (bbp s)) = m' (fst (bbp s))"
  shows "dirents m s = dirents m' s"
proof -
  note b = fs_ok_blocks(1) [OF assms(1)]
  have "ld32 m (padd (de_at s i) k) = ld32 m' (padd (de_at s i) k)" for i k
    using assms(2) by (intro ld32_block) (simp add: b)
  moreover have "cview m (de_at s i) 32 = cview m' (de_at s i) 32" for i
    using assms(2) by (simp add: cview_def bytes_def ld_def b)
  ultimately show ?thesis by (simp add: dirents_def dirent_def)
qed

text \<open>The directory as a stream of names, one per read.\<close>

definition dir_good :: "ptr \<Rightarrow> mem \<times> 'a filesys_scheme \<Rightarrow> bool" where
  "dir_good buff = (\<lambda>(m, s). fs_ok s \<and> fst buff \<noteq> fst (bbp s) \<and> fst buff \<noteq> fst dir_dentry \<and>
     fst (bbp s) \<noteq> fst dir_dentry \<and> unat (dir_index s) \<le> length (dir_names m s))"

definition dir_rest :: "mem \<times> 'a filesys_scheme \<Rightarrow> u8 list list" where
  "dir_rest = (\<lambda>(m, s). map pad32 (drop (unat (dir_index s)) (dir_names m s)))"

definition dir_rd :: "ptr \<Rightarrow> mem \<times> 'a filesys_scheme \<Rightarrow> u8 list list \<times> (mem \<times> 'a filesys_scheme)" where
  "dir_rd buff = (\<lambda>(m, s). case dir_read m buff s of (r, m', s') \<Rightarrow>
     (if r = 0 then [] else [bytes m' buff (unat r)], (m', s')))"

lemma dir_names_index [simp]: "dir_names m (s\<lparr>dir_index := k\<rparr>) = dir_names m s"
  by (simp add: dir_names_def dirents_def dirent_def de_at_def)

lemma fs_ok_index [simp]: "fs_ok (s\<lparr>dir_index := k\<rparr>) = fs_ok s"
  by (simp add: fs_ok_def)

lemma dir_rd_step:
  assumes g: "dir_good buff (m, s)"
  shows "\<exists>ms'. dir_rd buff (m, s) = (take 1 (dir_rest (m, s)), ms') \<and> dir_good buff ms' \<and>
    (dir_rest (m, s) \<noteq> [] \<longrightarrow> dir_rest ms' = drop 1 (dir_rest (m, s)))"
proof -
  note gd = g [unfolded dir_good_def prod.case]
  let ?i = "unat (dir_index s)" and ?ns = "dir_names m s"
  have spec: "if ?i < length ?ns
    then \<exists>m'. dir_read m buff s = (32, m', s\<lparr>dir_index := dir_index s + 1\<rparr>) \<and>
       bytes m' buff 32 = pad32 (?ns ! ?i) \<and> m' (fst buff) = stores m buff (pad32 (?ns ! ?i)) (fst buff) \<and>
       (\<forall>b. b \<notin> {fst buff, fst dir_dentry} \<longrightarrow> m' b = m b)
    else dir_read m buff s = (0, m, s\<lparr>dir_index := 0\<rparr>)"
    by (rule dir_read_spec) (use gd in auto)
  show ?thesis
  proof (cases "?i < length ?ns")
    case True
    then obtain m' where m': "dir_read m buff s = (32, m', s\<lparr>dir_index := dir_index s + 1\<rparr>)"
      "bytes m' buff 32 = pad32 (?ns ! ?i)" "\<forall>b. b \<notin> {fst buff, fst dir_dentry} \<longrightarrow> m' b = m b"
      using spec by auto
    have "m' (fst (bbp s)) = m (fst (bbp s))" using m'(3) gd by (metis insertE singletonD)
    from same_block_dirents [where s = s and m = m' and m' = m, OF _ this] gd
    have nm: "dir_names m' s = ?ns" by (simp add: dir_names_def)
    have "unat (num_de s) < 2 ^ 31" using gd by (simp add: fs_ok_def)
    then have "Suc ?i < 2 ^ 32" using True by (simp add: dir_names_def dirents_def)
    then have "unat (of_nat (Suc ?i) :: u32) = Suc ?i" by (rule unat_u32_of_nat)
    then have ix: "unat (dir_index s + 1) = Suc ?i" by (simp add: add.commute)
    have "drop ?i ?ns = ?ns ! ?i # drop (Suc ?i) ?ns" using True by (simp add: Cons_nth_drop_Suc)
    then show ?thesis using m' nm ix gd True by (auto simp: dir_rd_def dir_rest_def dir_good_def)
  next
    case False
    then have "dir_rest (m, s) = []" by (simp add: dir_rest_def)
    then show ?thesis using False spec gd by (auto simp: dir_rd_def dir_good_def)
  qed
qed

interpretation dir_stream: stream_reader "dir_good buff" dir_rest 1 "dir_rd buff" for buff
proof
  fix ms :: "mem \<times> 'a filesys_scheme" and xs ms' assume "dir_good buff ms" "dir_rd buff ms = (xs, ms')"
  then show "dir_good buff ms'" "xs = take 1 (dir_rest ms)" "dir_rest ms \<noteq> [] \<Longrightarrow> dir_rest ms' = drop 1 (dir_rest ms)"
    using dir_rd_step [of buff "fst ms" "snd ms"] by auto
qed simp

end
