(* ===== verification/Slot_Alloc.thy ===== *)
theory Slot_Alloc
  imports OS_Prelude
begin

text \<open>
  The contract of a first-fit slot allocator.  The kernel has two: the process slots of paging.c
  (\<open>new_pde\<close>, \<open>remove_page\<close>) and the file descriptors of sys_call.c (\<open>sys_open\<close>,
  \<open>sys_close\<close>).  The provider states what one allocation and one release do to the set of used
  slots; the client lemmas describe any number of allocations.
\<close>

text \<open>A number of allocations in a row: the results and the state after them.\<close>

fun run_alloc :: "('s \<Rightarrow> nat option \<times> 's) \<Rightarrow> nat \<Rightarrow> 's \<Rightarrow> nat option list \<times> 's" where
  "run_alloc alloc 0 s = ([], s)"
| "run_alloc alloc (Suc n) s =
     (let (r, s1) = alloc s; (rs, s2) = run_alloc alloc n s1 in (r # rs, s2))"

definition free_slots :: "('s \<Rightarrow> nat \<Rightarrow> bool) \<Rightarrow> nat \<Rightarrow> nat \<Rightarrow> 's \<Rightarrow> nat list" where
  "free_slots used lo hi s = filter (\<lambda>j. \<not> used s j) [lo..<hi]"

lemma free_slots_first:
  assumes "lo \<le> i" and "i < hi" and "\<not> used s i" and "\<And>j. lo \<le> j \<Longrightarrow> j < i \<Longrightarrow> used s j"
    and "\<And>j. lo \<le> j \<Longrightarrow> j < hi \<Longrightarrow> used s' j \<longleftrightarrow> j = i \<or> used s j"
  shows "free_slots used lo hi s = i # free_slots used lo hi s'"
proof -
  have split: "[lo..<hi] = [lo..<i] @ i # [Suc i..<hi]"
    using assms(1,2) by (metis le_add_diff_inverse less_imp_le upt_add_eq_append upt_conv_Cons)
  have "filter (\<lambda>j. \<not> used s j) [lo..<i] = []" using assms(4) by (auto simp: filter_empty_conv)
  moreover have "filter (\<lambda>j. \<not> used s' j) [lo..<i] = []"
    using assms(2,4,5) by (auto simp: filter_empty_conv)
  moreover have "filter (\<lambda>j. \<not> used s j) [Suc i..<hi] = filter (\<lambda>j. \<not> used s' j) [Suc i..<hi]"
    using assms(1,5) by (intro filter_cong) auto
  moreover have "used s' i" using assms(1,2,5) by auto
  ultimately show ?thesis using assms(3) by (simp add: free_slots_def split)
qed

locale slot_allocator =
  fixes used :: "'s \<Rightarrow> nat \<Rightarrow> bool"
    and inv :: "'s \<Rightarrow> bool"
    and lo :: nat
    and hi :: nat
    and alloc :: "'s \<Rightarrow> nat option \<times> 's"
    and release :: "nat \<Rightarrow> 's \<Rightarrow> 's"
  assumes alloc_inv: "inv s \<Longrightarrow> alloc s = (r, s') \<Longrightarrow> inv s'"
    and alloc_Some: "inv s \<Longrightarrow> alloc s = (Some i, s') \<Longrightarrow>
      lo \<le> i \<and> i < hi \<and> \<not> used s i \<and> (\<forall>j. lo \<le> j \<longrightarrow> j < i \<longrightarrow> used s j) \<and>
      (\<forall>j. lo \<le> j \<longrightarrow> j < hi \<longrightarrow> (used s' j \<longleftrightarrow> j = i \<or> used s j))"
    and alloc_None: "inv s \<Longrightarrow> alloc s = (None, s') \<Longrightarrow>
      (\<forall>j. lo \<le> j \<longrightarrow> j < hi \<longrightarrow> used s j) \<and>
      (\<forall>j. lo \<le> j \<longrightarrow> j < hi \<longrightarrow> (used s' j \<longleftrightarrow> used s j))"
    and release_inv: "inv s \<Longrightarrow> lo \<le> i \<Longrightarrow> i < hi \<Longrightarrow> used s i \<Longrightarrow> inv (release i s)"
    and release_used: "inv s \<Longrightarrow> lo \<le> i \<Longrightarrow> i < hi \<Longrightarrow> used s i \<Longrightarrow> lo \<le> j \<Longrightarrow> j < hi \<Longrightarrow>
      used (release i s) j \<longleftrightarrow> j \<noteq> i \<and> used s j"
begin

abbreviation frees :: "'s \<Rightarrow> nat list" where
  "frees \<equiv> free_slots used lo hi"

lemma alloc_pops:
  assumes "inv s" and "alloc s = (r, s')"
  shows "frees s = (case r of None \<Rightarrow> [] | Some i \<Rightarrow> i # frees s')" and "r = None \<Longrightarrow> frees s' = []"
proof -
  show "frees s = (case r of None \<Rightarrow> [] | Some i \<Rightarrow> i # frees s')"
  proof (cases r)
    case None
    then show ?thesis using alloc_None [of s s'] assms by (auto simp: free_slots_def filter_empty_conv)
  next
    case (Some i)
    then have "frees s = i # frees s'"
      using alloc_Some [of s i s'] assms by (intro free_slots_first) auto
    then show ?thesis using Some by simp
  qed
  show "r = None \<Longrightarrow> frees s' = []"
    using alloc_None [of s s'] assms by (auto simp: free_slots_def filter_empty_conv)
qed

lemma run_alloc_inv: "inv s \<Longrightarrow> run_alloc alloc n s = (rs, s') \<Longrightarrow> inv s'"
  by (induction n arbitrary: s rs) (auto simp: Let_def split: prod.splits dest: alloc_inv)

lemma run_alloc_results:
  "inv s \<Longrightarrow> run_alloc alloc n s = (rs, s') \<Longrightarrow>
     rs = map Some (take n (frees s)) @ replicate (n - length (frees s)) None"
proof (induction n arbitrary: s rs)
  case (Suc n)
  obtain r s1 where a: "alloc s = (r, s1)" by fastforce
  obtain rs1 where b: "run_alloc alloc n s1 = (rs1, s')" and rs: "rs = r # rs1"
    using Suc.prems(2) a by (auto simp: Let_def split: prod.splits)
  have "inv s1" using alloc_inv [OF Suc.prems(1) a] .
  from Suc.IH [OF this b] have ih: "rs1 = map Some (take n (frees s1)) @ replicate (n - length (frees s1)) None" .
  show ?case
  proof (cases r)
    case None
    then show ?thesis using alloc_pops [OF Suc.prems(1) a] ih rs by simp
  next
    case (Some i)
    then have "frees s = i # frees s1" using alloc_pops(1) [OF Suc.prems(1) a] by simp
    then show ?thesis using Some ih rs by simp
  qed
qed simp

lemma alloc_after_release:
  assumes "inv s" and "lo \<le> i" "i < hi" "used s i" and "\<And>j. lo \<le> j \<Longrightarrow> j < i \<Longrightarrow> used s j"
    and "alloc (release i s) = (r, s')"
  shows "r = Some i"
proof -
  have fi: "frees (release i s) = i # filter (\<lambda>j. \<not> used (release i s) j) [Suc i..<hi]"
  proof -
    have split: "[lo..<hi] = [lo..<i] @ i # [Suc i..<hi]"
      using assms(2,3) by (metis le_add_diff_inverse less_imp_le upt_add_eq_append upt_conv_Cons)
    have "filter (\<lambda>j. \<not> used (release i s) j) [lo..<i] = []"
      using assms(1-5) by (auto simp: filter_empty_conv release_used)
    then show ?thesis using assms(1-4) by (simp add: free_slots_def split release_used)
  qed
  have "inv (release i s)" using assms(1-4) by (rule release_inv)
  from alloc_pops(1) [OF this assms(6)] fi show ?thesis by (auto split: option.splits)
qed

end

end
