(* ===== verification/Paging.thy ===== *)
theory Paging
  imports Kernel_State Slot_Alloc
begin

text \<open>
  student-distrib/paging.c: building the kernel's and the processes' page directories, handing out
  process slots, loading CR3 and rewriting one page-table entry.  \<open>translate\<close> is the address
  translation of the processor (two levels, 4 MB pages) under the current CR3; the properties say
  which addresses a directory built by the code maps where.
\<close>

definition pde_set :: "nat \<Rightarrow> nat \<Rightarrow> u32 \<Rightarrow> 'a paging_scheme \<Rightarrow> 'a paging_scheme" where
  "pde_set j i v s = s\<lparr>PDE := (PDE s)(j := (PDE s j)(i := v))\<rparr>"

definition pte_set :: "nat \<Rightarrow> u32 \<Rightarrow> 'a paging_scheme \<Rightarrow> 'a paging_scheme" where
  "pte_set i v s = s\<lparr>PTE := (PTE s)(i := v)\<rparr>"

abbreviation CTRL_PTE :: u32 where "CTRL_PTE \<equiv> 0x01"
abbreviation CTRL_PTE_USR :: u32 where "CTRL_PTE_USR \<equiv> 0x07"
abbreviation CTRL_VIDEO :: u32 where "CTRL_VIDEO \<equiv> 0x01"
abbreviation CTRL_VIDEO_USR :: u32 where "CTRL_VIDEO_USR \<equiv> 0x07"
abbreviation CTRL_KERNEL :: u32 where "CTRL_KERNEL \<equiv> 0x183"
abbreviation CTRL_EMPTY :: u32 where "CTRL_EMPTY \<equiv> 0x83"
abbreviation CTRL_EMPTY_USR :: u32 where "CTRL_EMPTY_USR \<equiv> 0x87"

definition remove_page :: "int \<Rightarrow> 'a paging_scheme \<Rightarrow> 'a paging_scheme res" where
  "remove_page proc_id s = rbind (aset ''proc'' (proc s) proc_id 0) (\<lambda>p. Inr (s\<lparr>proc := p\<rparr>))"

definition init_paging :: "'a paging_scheme \<Rightarrow> 'a paging_scheme" where
  "init_paging s0 =
     (let s = pde_set 0 0 (PTE_base s0) s0;
          s = pde_set 0 0 (PDE s 0 0 AND 0xFFFFF000) s;
          s = pde_set 0 0 (PDE s 0 0 OR CTRL_VIDEO) s;
          s = pde_set 0 1 (push_bit 22 1) s;
          s = pde_set 0 1 (PDE s 0 1 OR CTRL_KERNEL) s;
          s = s\<lparr>PDE := (PDE s)(0 :=
                for_loop 2 1024 (\<lambda>i d. d(i := push_bit 22 (of_nat i) OR CTRL_EMPTY)) (PDE s 0))\<rparr>;
          s = s\<lparr>PTE := for_loop 0 1024 (\<lambda>i t. t(i := push_bit 12 (of_nat i) OR CTRL_PTE)) (PTE s)\<rparr>;
          s = s\<lparr>PDE := for_loop 1 8 (\<lambda>j d. d(j :=
                for_loop 0 1024 (\<lambda>i r. r(i := CTRL_EMPTY_USR)) (PDE s j))) (PDE s)\<rparr>;
          s = pte_set 0 (PTE s 0 AND 0xFFFFFFE) s;
          s = s\<lparr>cr3 := 0\<rparr>;
          s = s\<lparr>cr4 := cr4 s OR 0x00000090\<rparr>
      in s\<lparr>cr0 := cr0 s OR 0x80000000\<rparr>)"

definition new_pde :: "u32 \<Rightarrow> 'a paging_scheme \<Rightarrow> (int \<times> 'a paging_scheme) res" where
  "new_pde v_entry s0 =
     (let i = scan (\<lambda>i. proc s0 ! i = 0) 0 8
      in if i = 7 then Inr (- 1, s0)
      else rbind (aset ''proc'' (proc s0) (int i) 1) (\<lambda>p.
        if 8 \<le> i + 1 then Inl (Bad_index ''PDE'' (int (i + 1)))
        else let s = s0\<lparr>proc := p\<rparr>;
          s = pde_set (i + 1) 0 (PTE_base s) s;
          s = pde_set (i + 1) 0 (PDE s (i + 1) 0 AND 0xFFFFF000) s;
          s = pde_set (i + 1) 0 (PDE s (i + 1) 0 OR CTRL_VIDEO) s;
          s = pde_set (i + 1) 1 (push_bit 22 1) s;
          s = pde_set (i + 1) 1 (PDE s (i + 1) 1 OR CTRL_KERNEL) s;
          s = s\<lparr>cr4 := cr4 s OR 0x00000090\<rparr>;
          s = s\<lparr>cr0 := cr0 s OR 0x80000000\<rparr>;
          temp = (0x400000 * of_nat i + 0x800000) AND 0xFFC00000;
          v = unat (drop_bit 22 v_entry)
        in Inr (int i, pde_set (i + 1) v (PDE s (i + 1) v OR (temp OR 0x87)) s)))"

definition change_cr3 :: "int \<Rightarrow> 'a paging_scheme \<Rightarrow> int \<times> 'a paging_scheme" where
  "change_cr3 process_id s =
     (if process_id < 0 \<or> process_id > 7 then (- 1, s)
      else (0, s\<lparr>cr3 := process_id + 1\<rparr>))"

definition change_pte :: "nat \<Rightarrow> u32 \<Rightarrow> 'a paging_scheme \<Rightarrow> 'a paging_scheme" where
  "change_pte i val s =
     (let s = pte_set i (push_bit 12 val) s in pte_set i (PTE s i OR CTRL_PTE) s)"

text \<open>
  The processor's translation of a virtual address: the physical address, whether user code may
  use it, whether user code may write it.  A directory entry with bit 7 set maps 4 MB; the only
  page table of the kernel is \<open>PTE\<close>.
\<close>

definition translate :: "'a paging_scheme \<Rightarrow> u32 \<Rightarrow> (u32 \<times> bool \<times> bool) option" where
  "translate s v =
     (let e = PDE s (nat (cr3 s)) (unat (drop_bit 22 v))
      in if cr3 s < 0 \<or> 8 \<le> cr3 s \<or> \<not> bit e 0 then None
      else if bit e 7 then Some ((e AND 0xFFC00000) OR (v AND 0x3FFFFF), bit e 2, bit e 1)
      else if e AND 0xFFFFF000 = PTE_base s then
        let t = PTE s (unat (drop_bit 12 v AND 0x3FF))
        in if bit t 0
           then Some ((t AND 0xFFFFF000) OR (v AND 0xFFF), bit e 2 \<and> bit t 2, bit e 1 \<and> bit t 1)
           else None
      else None)"

lemma translate_cong:
  "\<lbrakk> PDE s = PDE s'; PTE s = PTE s'; PTE_base s = PTE_base s'; cr3 s = cr3 s' \<rbrakk> \<Longrightarrow> translate s v = translate s' v"
  unfolding translate_def by (simp only:)

subsection \<open>Bits of addresses and entries\<close>

lemma masks_u32:
  "(0xFFC00000 :: u32) = NOT (mask 22)" "(0x3FFFFF :: u32) = mask 22"
  "(0xFFFFF000 :: u32) = NOT (mask 12)" "(0xFFF :: u32) = mask 12" "(0x3FF :: u32) = mask 10"
  by (simp_all add: mask_numeral)

lemma frame_of_entry:
  "c AND NOT (mask n) = 0 \<Longrightarrow> (push_bit n k OR c) AND NOT (mask n) = (push_bit n k :: u32)"
  by (auto simp: bit_eq_iff bit_simps)

lemma split_address: "push_bit n (drop_bit n v) OR (v AND mask n) = (v :: u32)"
  by (auto simp: bit_eq_iff bit_simps)

lemma of_nat_unat_u32 [simp]: "(of_nat (unat (w :: u32)) :: u32) = w"
  by simp

lemma unat_drop_22: "unat (drop_bit 22 (v :: u32)) < 1024"
  using unat_u32_lt [of v] by (simp add: drop_bit_eq_div unat_div)

lemma unat_page_index: "unat (drop_bit 12 (v :: u32) AND 0x3FF) < 1024"
proof -
  have "drop_bit 12 v AND 0x3FF = take_bit 10 (drop_bit 12 v)" by (simp add: masks_u32 take_bit_eq_mask)
  then show ?thesis by (simp add: take_bit_eq_mod unat_mod)
qed

lemma unat_page_index_low: "unat (v :: u32) < 2 ^ 22 \<Longrightarrow> drop_bit 12 v AND 0x3FF = drop_bit 12 v"
proof -
  assume "unat v < 2 ^ 22"
  then have "unat (drop_bit 12 v) < 1024" by (simp add: drop_bit_eq_div unat_div)
  then have "unat (drop_bit 12 v AND 0x3FF) = unat (drop_bit 12 v)"
    by (simp add: masks_u32 unat_mod take_bit_eq_mod flip: take_bit_eq_mask)
  then show ?thesis by (rule unsigned_word_eqI)
qed

subsection \<open>The kernel's own directory\<close>

lemma init_paging_PDE0:
  "PDE (init_paging s) 0 = (\<lambda>i. if i = 0 then (PTE_base s AND 0xFFFFF000) OR CTRL_VIDEO
     else if i = 1 then push_bit 22 1 OR CTRL_KERNEL
     else if i < 1024 then push_bit 22 (of_nat i) OR CTRL_EMPTY else PDE s 0 i)"
  by (auto simp: init_paging_def pde_set_def pte_set_def Let_def for_loop_upd fun_eq_iff)

lemma init_paging_PDE_proc:
  "1 \<le> j \<Longrightarrow> j < 8 \<Longrightarrow> i < 1024 \<Longrightarrow> PDE (init_paging s) j i = CTRL_EMPTY_USR"
  by (auto simp: init_paging_def pde_set_def pte_set_def Let_def for_loop_upd fun_eq_iff)

lemma init_paging_PTE:
  "i < 1024 \<Longrightarrow> PTE (init_paging s) i = (if i = 0 then 0 else push_bit 12 (of_nat i) OR CTRL_PTE)"
  by (auto simp: init_paging_def pde_set_def pte_set_def Let_def for_loop_upd fun_eq_iff)

lemma init_paging_fields [simp]:
  "PTE_base (init_paging s) = PTE_base s" "cr3 (init_paging s) = 0" "proc (init_paging s) = proc s"
  by (simp_all add: init_paging_def pde_set_def pte_set_def Let_def)

lemma translate_big:
  assumes "PDE s (nat (cr3 s)) (unat (drop_bit 22 v)) = push_bit 22 k OR c"
    and "0 \<le> cr3 s" "cr3 s < 8" and "bit c 0" "bit c 7" and "c AND NOT (mask 22) = 0"
  shows "translate s v = Some (push_bit 22 k OR (v AND mask 22), bit c 2, bit c 1)"
proof -
  let ?e = "push_bit 22 k OR c"
  have b: "bit ?e j = bit c j" if "j < 22" for j using that by (simp add: bit_simps)
  have fr: "?e AND NOT (mask 22) = push_bit 22 k" using frame_of_entry [OF assms(6)] .
  have bits: "bit ?e 0" "bit ?e 7" "bit ?e 2 = bit c 2" "bit ?e 1 = bit c 1"
    using assms(4,5) by (simp_all add: b)
  show ?thesis
    unfolding translate_def Let_def assms(1) masks_u32 fr
    using assms(2,3) bits by simp
qed

lemma ctrl_bits [simp]:
  "bit CTRL_EMPTY 0" "bit CTRL_EMPTY 7" "\<not> bit CTRL_EMPTY 2" "bit CTRL_EMPTY (Suc 0)" "CTRL_EMPTY AND NOT (mask 22) = 0"
  "bit CTRL_EMPTY_USR 0" "bit CTRL_EMPTY_USR 7" "bit CTRL_EMPTY_USR 2" "bit CTRL_EMPTY_USR (Suc 0)"
  "CTRL_EMPTY_USR AND NOT (mask 22) = 0"
  "bit CTRL_KERNEL 0" "bit CTRL_KERNEL 7" "\<not> bit CTRL_KERNEL 2" "bit CTRL_KERNEL (Suc 0)" "CTRL_KERNEL AND NOT (mask 22) = 0"
  by (simp_all add: mask_numeral)

lemma translate_table:
  assumes "PDE s (nat (cr3 s)) (unat (drop_bit 22 v)) = (PTE_base s AND 0xFFFFF000) OR c"
    and "0 \<le> cr3 s" "cr3 s < 8" and "bit c 0" "\<not> bit c 7" and "c AND NOT (mask 12) = 0"
    and "PTE_base s AND 0xFFFFF000 = PTE_base s"
  shows "translate s v = (let t = PTE s (unat (drop_bit 12 v AND 0x3FF)) in
     if bit t 0 then Some ((t AND 0xFFFFF000) OR (v AND 0xFFF), bit c 2 \<and> bit t 2, bit c 1 \<and> bit t 1)
     else None)"
proof -
  let ?e = "(PTE_base s AND 0xFFFFF000) OR c"
  have b: "bit ?e j = bit c j" if "j < 12" for j
    using that by (simp add: masks_u32 bit_simps)
  have "?e AND 0xFFFFF000 = PTE_base s AND 0xFFFFF000"
    using assms(6) by (auto simp: masks_u32 bit_eq_iff bit_simps)
  then have fr: "?e AND 0xFFFFF000 = PTE_base s" using assms(7) by simp
  have bits: "bit ?e 0" "\<not> bit ?e 7" "bit ?e 2 = bit c 2" "bit ?e 1 = bit c 1"
    using assms(4,5) by (simp_all add: b)
  show ?thesis
    unfolding translate_def Let_def assms(1) fr
    using assms(2,3) bits by simp
qed

lemma kernel_identity_map:
  assumes al: "PTE_base s AND 0xFFFFF000 = PTE_base s"
  shows "translate (init_paging s) v =
    (if unat v < 2 ^ 12 then None
     else if unat v < 2 ^ 22 then Some (v, False, False)
     else Some (v, False, True))"
proof (cases "unat v < 2 ^ 22")
  case False
  let ?i = "drop_bit 22 v"
  have nz: "unat ?i \<noteq> 0" using False by (simp add: drop_bit_eq_div unat_div)
  obtain c where c: "PDE (init_paging s) 0 (unat ?i) = push_bit 22 ?i OR c" and "c = CTRL_KERNEL \<or> c = CTRL_EMPTY"
  proof (cases "unat ?i = 1")
    case True
    then have "?i = 1" by (metis of_nat_1 of_nat_unat_u32)
    with that [of CTRL_KERNEL] show ?thesis by (simp add: init_paging_PDE0)
  next
    case f: False
    with that [of CTRL_EMPTY] nz unat_drop_22 [of v] show ?thesis by (simp add: init_paging_PDE0)
  qed
  then have "translate (init_paging s) v = Some (push_bit 22 ?i OR (v AND mask 22), False, True)"
    using translate_big [of "init_paging s" v ?i c] by auto
  moreover have "\<not> unat v < 2 ^ 12" using False by simp
  ultimately show ?thesis using False by (simp only: split_address if_False)
next
  case True
  have z: "unat (drop_bit 22 v) = 0" using True by (simp add: drop_bit_eq_div unat_div)
  let ?p = "drop_bit 12 v"
  have pi: "?p AND 0x3FF = ?p" using True by (rule unat_page_index_low)
  have t: "PTE (init_paging s) (unat ?p) = (if unat ?p = 0 then 0 else push_bit 12 ?p OR CTRL_PTE)"
    using unat_page_index [of v] by (simp add: pi init_paging_PTE)
  have p0: "unat ?p = 0 \<longleftrightarrow> unat v < 2 ^ 12" by (simp add: drop_bit_eq_div unat_div div_eq_0_iff)
  have "bit (push_bit 12 ?p OR CTRL_PTE) 0" "\<not> bit (push_bit 12 ?p OR CTRL_PTE) 2"
    "\<not> bit (push_bit 12 ?p OR CTRL_PTE) 1" by (simp_all add: bit_simps)
  moreover have "(push_bit 12 ?p OR CTRL_PTE) AND 0xFFFFF000 = push_bit 12 ?p"
    unfolding masks_u32 by (rule frame_of_entry) (simp add: mask_numeral)
  moreover have "translate (init_paging s) v = (let t = PTE (init_paging s) (unat (?p AND 0x3FF)) in
     if bit t 0 then Some ((t AND 0xFFFFF000) OR (v AND 0xFFF), bit CTRL_VIDEO 2 \<and> bit t 2, bit CTRL_VIDEO 1 \<and> bit t 1)
     else None)"
    by (rule translate_table) (use al z in \<open>simp_all add: init_paging_PDE0 mask_numeral\<close>)
  moreover have "push_bit 12 ?p OR (v AND 0xFFF) = v" using split_address [of 12 v] unfolding masks_u32 .
  ultimately show ?thesis using True p0 by (simp only: Let_def pi t) simp
qed

subsection \<open>Process slots\<close>

text \<open>Slot 7 is never handed out, so it stays 0 and the search of \<open>new_pde\<close> always stops below 8.\<close>

definition slots_inv :: "'a paging_scheme \<Rightarrow> bool" where
  "slots_inv s \<longleftrightarrow> length (proc s) = 8 \<and> proc s ! 7 = 0"

definition slot_used :: "'a paging_scheme \<Rightarrow> nat \<Rightarrow> bool" where
  "slot_used s i \<longleftrightarrow> proc s ! i \<noteq> 0"

text \<open>The row \<open>new_pde\<close> leaves for slot \<open>i\<close>, from the row that was there.\<close>

definition proc_row :: "u32 \<Rightarrow> nat \<Rightarrow> u32 \<Rightarrow> (nat \<Rightarrow> u32) \<Rightarrow> (nat \<Rightarrow> u32)" where
  "proc_row base i v_entry row =
     (let r = row(0 := (base AND 0xFFFFF000) OR CTRL_VIDEO, 1 := push_bit 22 1 OR CTRL_KERNEL);
          v = unat (drop_bit 22 v_entry)
      in r(v := r v OR (push_bit 22 (of_nat (i + 2)) OR CTRL_EMPTY_USR)))"

lemma slot_frame: "i < 7 \<Longrightarrow> ((0x400000 * of_nat i + 0x800000) AND 0xFFC00000 :: u32) = push_bit 22 (of_nat (i + 2))"
proof -
  assume "i < 7"
  have "(0x400000 * of_nat i + 0x800000 :: u32) = push_bit 22 (of_nat (i + 2))"
    by (simp add: push_bit_eq_mult algebra_simps)
  moreover have "(push_bit 22 k :: u32) AND NOT (mask 22) = push_bit 22 k" for k
    by (auto simp: bit_eq_iff bit_simps)
  ultimately show ?thesis by (simp only: masks_u32)
qed

lemma new_pde_full:
  assumes "slots_inv s" and "\<And>i. i < 7 \<Longrightarrow> slot_used s i"
  shows "new_pde v s = Inr (- 1, s)"
proof -
  have "scan (\<lambda>i. proc s ! i = 0) 0 8 = 7"
    by (rule scan_eqI) (use assms in \<open>auto simp: slots_inv_def slot_used_def\<close>)
  then show ?thesis by (simp add: new_pde_def)
qed

lemma new_pde_free:
  assumes inv: "slots_inv s" and i: "i < 7" "\<not> slot_used s i" and least: "\<And>j. j < i \<Longrightarrow> slot_used s j"
  obtains s' where "new_pde v s = Inr (int i, s')"
    and "proc s' = (proc s)[i := 1]"
    and "PDE s' = (PDE s)(i + 1 := proc_row (PTE_base s) i v (PDE s (i + 1)))"
    and "PTE s' = PTE s" and "PTE_base s' = PTE_base s" and "cr3 s' = cr3 s"
proof -
  have sc: "scan (\<lambda>i. proc s ! i = 0) 0 8 = i"
    by (rule scan_eqI) (use i least in \<open>auto simp: slot_used_def\<close>)
  have as: "aset ''proc'' (proc s) (int i) 1 = Inr ((proc s)[i := 1])"
    using inv i by (simp add: slots_inv_def)
  from that show ?thesis
    using i by (simp add: new_pde_def sc as slot_frame pde_set_def proc_row_def Let_def)
qed

lemma new_pde_result:
  assumes inv: "slots_inv s"
  shows "(\<forall>i<7. slot_used s i) \<and> new_pde v s = Inr (- 1, s) \<or>
    (\<exists>i<7. \<exists>s'. new_pde v s = Inr (int i, s') \<and> \<not> slot_used s i \<and> (\<forall>j<i. slot_used s j) \<and>
       slots_inv s' \<and> (\<forall>j. slot_used s' j \<longleftrightarrow> j = i \<or> slot_used s j) \<and>
       PDE s' = (PDE s)(i + 1 := proc_row (PTE_base s) i v (PDE s (i + 1))) \<and>
       PTE s' = PTE s \<and> PTE_base s' = PTE_base s \<and> cr3 s' = cr3 s)"
proof (cases "\<forall>i<7. slot_used s i")
  case True
  then show ?thesis using new_pde_full [OF inv, of v] by blast
next
  case False
  then obtain k where k: "k < 7" "\<not> slot_used s k" by blast
  define i where "i = (LEAST j. \<not> slot_used s j)"
  have nu: "\<not> slot_used s i" unfolding i_def by (rule LeastI) (rule k(2))
  have "i \<le> k" unfolding i_def by (rule Least_le) (rule k(2))
  then have i7: "i < 7" using k(1) by simp
  have before: "\<And>j. j < i \<Longrightarrow> slot_used s j" unfolding i_def using not_less_Least by blast
  obtain s' where s': "new_pde v s = Inr (int i, s')" "proc s' = (proc s)[i := 1]"
    "PDE s' = (PDE s)(i + 1 := proc_row (PTE_base s) i v (PDE s (i + 1)))"
    "PTE s' = PTE s" "PTE_base s' = PTE_base s" "cr3 s' = cr3 s"
    using new_pde_free [OF inv i7 nu before] by blast
  have "slots_inv s'" "\<forall>j. slot_used s' j \<longleftrightarrow> j = i \<or> slot_used s j"
    using s'(2) inv i7 by (auto simp: slots_inv_def slot_used_def nth_list_update)
  then show ?thesis using s' i7 nu before by blast
qed

lemma remove_page_ok:
  assumes "slots_inv s" and "i < 8"
  shows "remove_page (int i) s = Inr (s\<lparr>proc := (proc s)[i := 0]\<rparr>)"
  using assms by (simp add: remove_page_def slots_inv_def)

text \<open>The process slots as a first-fit allocator.\<close>

definition alloc_slot :: "u32 \<Rightarrow> 'a paging_scheme \<Rightarrow> nat option \<times> 'a paging_scheme" where
  "alloc_slot v s = (case new_pde v s of
      Inl e \<Rightarrow> (None, s)
    | Inr (r, s') \<Rightarrow> (if r = - 1 then None else Some (nat r), s'))"

definition free_page :: "nat \<Rightarrow> 'a paging_scheme \<Rightarrow> 'a paging_scheme" where
  "free_page i s = (case remove_page (int i) s of Inl e \<Rightarrow> s | Inr s' \<Rightarrow> s')"

lemma alloc_slot_cases:
  assumes "slots_inv s"
  obtains "\<forall>i<7. slot_used s i" and "alloc_slot v s = (None, s)"
  | i s' where "i < 7" and "alloc_slot v s = (Some i, s')" and "\<not> slot_used s i"
      and "\<forall>j<i. slot_used s j" and "slots_inv s'" and "\<forall>j. slot_used s' j \<longleftrightarrow> j = i \<or> slot_used s j"
  using new_pde_result [OF assms, of v] by (fastforce simp: alloc_slot_def)

interpretation slots: slot_allocator slot_used slots_inv 0 7 "alloc_slot v" free_page for v
proof
  fix s :: "'a paging_scheme" and r s' assume inv: "slots_inv s" and a: "alloc_slot v s = (r, s')"
  from inv show "slots_inv s'" by (cases rule: alloc_slot_cases [of s v]) (use inv a in auto)
next
  fix s :: "'a paging_scheme" and i s' assume inv: "slots_inv s" and a: "alloc_slot v s = (Some i, s')"
  from inv show "0 \<le> i \<and> i < 7 \<and> \<not> slot_used s i \<and> (\<forall>j. 0 \<le> j \<longrightarrow> j < i \<longrightarrow> slot_used s j) \<and>
      (\<forall>j. 0 \<le> j \<longrightarrow> j < 7 \<longrightarrow> (slot_used s' j \<longleftrightarrow> j = i \<or> slot_used s j))"
    by (cases rule: alloc_slot_cases [of s v]) (use a in auto)
next
  fix s :: "'a paging_scheme" and s' assume inv: "slots_inv s" and a: "alloc_slot v s = (None, s')"
  from inv show "(\<forall>j. 0 \<le> j \<longrightarrow> j < 7 \<longrightarrow> slot_used s j) \<and>
      (\<forall>j. 0 \<le> j \<longrightarrow> j < 7 \<longrightarrow> (slot_used s' j \<longleftrightarrow> slot_used s j))"
    by (cases rule: alloc_slot_cases [of s v]) (use a in auto)
next
  fix s :: "'a paging_scheme" and i :: nat assume "slots_inv s" "i < 7"
  then show "slots_inv (free_page i s)"
    by (simp add: free_page_def remove_page_ok) (simp add: slots_inv_def)
next
  fix s :: "'a paging_scheme" and i j :: nat assume "slots_inv s" "i < 7" "j < 7"
  then show "slot_used (free_page i s) j \<longleftrightarrow> j \<noteq> i \<and> slot_used s j"
    by (simp add: free_page_def remove_page_ok) (auto simp: slots_inv_def slot_used_def nth_list_update)
qed

subsection \<open>What a process can reach\<close>

text \<open>
  \<open>dir_entries base j i\<close> lists what the code ever leaves in entry \<open>i\<close> of row \<open>j\<close>: the default
  of \<open>init_paging\<close>, the page table (entry 0), the kernel (entry 1), the slot's own frame
  \<open>j + 1\<close>, and the page table for user code that \<open>sys_vidmap\<close> puts at entry 12.  The page
  table itself maps only the first 4 MB.
\<close>

definition dir_entries :: "u32 \<Rightarrow> nat \<Rightarrow> nat \<Rightarrow> u32 set" where
  "dir_entries base j i = {CTRL_EMPTY_USR,
     if i = 0 then (base AND 0xFFFFF000) OR CTRL_VIDEO
     else if i = 1 then push_bit 22 1 OR CTRL_KERNEL
     else if i = 12 then (base AND 0xFFFFF000) OR CTRL_VIDEO_USR
     else push_bit 22 (of_nat (j + 1)) OR CTRL_EMPTY_USR}"

definition dir_inv :: "'a paging_scheme \<Rightarrow> bool" where
  "dir_inv s \<longleftrightarrow> (\<forall>j i. 1 \<le> j \<longrightarrow> j < 8 \<longrightarrow> i < 1024 \<longrightarrow> PDE s j i \<in> dir_entries (PTE_base s) j i) \<and>
     (\<forall>i<1024. PTE s i AND 0xFFC00000 = 0) \<and> PTE_base s AND 0xFFFFF000 = PTE_base s"

lemma small_word_bits: "unat (k :: u32) < 1024 \<Longrightarrow> 10 \<le> n \<Longrightarrow> \<not> bit k n"
proof -
  assume k: "unat k < 1024" and n: "10 \<le> n"
  have "k = take_bit 10 k" using k by (intro unsigned_word_eqI [where ?'a = nat]) (simp add: take_bit_eq_mod unat_mod)
  then show ?thesis using n by (metis bit_take_bit_iff not_le)
qed

lemma page_of_low_frame:
  "unat k < 1024 \<Longrightarrow> c AND NOT (mask 12) = 0 \<Longrightarrow> (push_bit 12 k OR c) AND 0xFFC00000 = (0 :: u32)"
proof -
  assume k: "unat k < 1024" and c: "c AND NOT (mask 12) = 0"
  have k10: "\<not> bit k n" if "10 \<le> n" for n using small_word_bits [OF k that] .
  have c12: "\<not> bit c n" if "12 \<le> n" "n < 32" for n
    using c that by (auto simp: bit_eq_iff bit_simps)
  show ?thesis unfolding masks_u32
    by (rule bit_eqI) (auto simp: bit_simps k10 c12)
qed

lemma init_paging_dir_inv:
  assumes "PTE_base s AND 0xFFFFF000 = PTE_base s"
  shows "dir_inv (init_paging s)"
proof -
  have "PTE (init_paging s) i AND 0xFFC00000 = 0" if "i < 1024" for i
    using that by (auto simp: init_paging_PTE mask_numeral unat_u32_of_nat intro!: page_of_low_frame)
  then show ?thesis using assms by (auto simp: dir_inv_def init_paging_PDE_proc dir_entries_def)
qed

lemma or_absorb: "(c :: u32) OR (x OR c) = x OR c"
  by (simp add: or.commute)

lemma proc_row_entries:
  assumes "\<And>i. i < 1024 \<Longrightarrow> row i \<in> dir_entries base (k + 1) i" and "i < 1024"
    and "unat (drop_bit 22 v) \<notin> {0, 1, 12}"
  shows "proc_row base k v row i \<in> dir_entries base (k + 1) i"
  using assms(1) [OF assms(2)] assms(3)
  by (auto simp: proc_row_def dir_entries_def Let_def or.assoc or_absorb)

lemma new_pde_dir_inv:
  assumes "dir_inv s" and "slots_inv s" and "unat (drop_bit 22 v) \<notin> {0, 1, 12}"
    and "new_pde v s = Inr (r, s')"
  shows "dir_inv s'"
  using new_pde_result [OF assms(2), of v] assms(1,4) proc_row_entries [OF _ _ assms(3)]
  by (auto simp: dir_inv_def)

lemma change_pte_dir_inv: "dir_inv s \<Longrightarrow> unat val < 1024 \<Longrightarrow> dir_inv (change_pte i val s)"
  by (auto simp: dir_inv_def change_pte_def pte_set_def mask_numeral intro!: page_of_low_frame)

lemma translate_low_page:
  assumes "t AND 0xFFC00000 = (0 :: u32)"
  shows "(t AND 0xFFFFF000) OR (v AND 0xFFF) < 0x400000"
proof -
  let ?p = "(t AND 0xFFFFF000) OR (v AND 0xFFF)"
  have "n < 22" if "bit t n" "n < 32" for n
    using assms that by (auto simp: masks_u32 bit_eq_iff bit_simps)
  then have "?p = take_bit 22 ?p" unfolding masks_u32 by (intro bit_eqI) (auto simp: bit_simps)
  moreover have "unat (take_bit 22 ?p) < 2 ^ 22" by (simp add: take_bit_eq_mod unat_mod)
  ultimately have "unat ?p < 2 ^ 22" by (simp only:)
  then show ?thesis by (simp add: word_less_nat_alt)
qed

lemma translate_low_frame: "(push_bit 22 0 OR (v AND mask 22) :: u32) < 0x400000"
proof -
  have "unat (take_bit 22 v) < 2 ^ 22" by (simp add: take_bit_eq_mod unat_mod)
  then show ?thesis by (simp add: word_less_nat_alt flip: take_bit_eq_mask)
qed

lemma drop_frame:
  assumes "unat w < 1024"
  shows "drop_bit 22 (push_bit 22 w OR (v AND mask 22)) = (w :: u32)"
proof -
  have small: "bit w i \<Longrightarrow> i < 10" for i using small_word_bits [OF assms] by (meson not_le)
  show ?thesis by (rule bit_eqI) (auto simp: bit_simps dest: small)
qed

text \<open>User code of slot \<open>k\<close> reaches only the first 4 MB of memory and the slot's own frame.\<close>

lemma user_reach:
  assumes inv: "dir_inv s" and cr: "cr3 s = int k + 1" "k < 7"
    and tr: "translate s v = Some (p, True, w)"
  shows "p < 0x400000 \<or> drop_bit 22 p = of_nat (k + 2)"
proof -
  let ?i = "unat (drop_bit 22 v)" and ?b = "PTE_base s"
  let ?e = "PDE s (k + 1) ?i"
  have row: "PDE s (nat (cr3 s)) ?i = ?e" using cr by (simp add: nat_add_distrib)
  have al: "?b AND 0xFFFFF000 = ?b" using inv by (simp add: dir_inv_def)
  have low: "p < 0x400000" if "?e = (?b AND 0xFFFFF000) OR c" "bit c 0" "\<not> bit c 7" "c AND NOT (mask 12) = 0" for c
  proof -
    let ?t = "PTE s (unat (drop_bit 12 v AND 0x3FF))"
    have "?t AND 0xFFC00000 = 0" using inv unat_page_index [of v] by (simp add: dir_inv_def)
    moreover have "p = (?t AND 0xFFFFF000) OR (v AND 0xFFF)"
      using translate_table [of s v c] that row cr al tr by (auto simp: Let_def split: if_splits)
    ultimately show ?thesis using translate_low_page by simp
  qed
  have big: "p = push_bit 22 f OR (v AND mask 22)" if "?e = push_bit 22 f OR c" "bit c 0" "bit c 7" "c AND NOT (mask 22) = 0" for f c
    using translate_big [of s v f c] that row cr tr by auto
  have "?e \<in> dir_entries ?b (k + 1) ?i"
    using inv cr(2) unat_drop_22 [of v] by (simp add: dir_inv_def)
  then consider (empty) "?e = push_bit 22 0 OR CTRL_EMPTY_USR" | (video) "?e = (?b AND 0xFFFFF000) OR CTRL_VIDEO"
    | (kernel) "?e = push_bit 22 1 OR CTRL_KERNEL" | (user) "?e = (?b AND 0xFFFFF000) OR CTRL_VIDEO_USR"
    | (own) "?e = push_bit 22 (of_nat (k + 2)) OR CTRL_EMPTY_USR"
    by (auto simp: dir_entries_def split: if_splits)
  then show ?thesis
  proof cases
    case empty
    from big [OF this] translate_low_frame show ?thesis by simp
  next
    case kernel
    then show ?thesis using translate_big [of s v 1 CTRL_KERNEL] row cr tr by simp
  next
    case own
    have "drop_bit 22 (push_bit 22 (of_nat (k + 2)) OR (v AND mask 22)) = (of_nat (k + 2) :: u32)"
      using cr(2) by (intro drop_frame, subst unat_u32_of_nat) simp_all
    then show ?thesis using big [OF own] by simp
  qed (use low [of CTRL_VIDEO] low [of CTRL_VIDEO_USR] in \<open>simp_all add: mask_numeral\<close>)
qed

end
