(* ===== verification/I8259.thy ===== *)
theory I8259
  imports Kernel_State
begin

text \<open>
  The interrupt controller of student-distrib/i8259.c: the initialisation words, masking and
  unmasking of one IRQ line, and the end-of-interrupt message.  The properties relate the mask
  variables to the bytes last written to the mask ports.
\<close>

abbreviation MASTER_8259_PORT :: u16 where "MASTER_8259_PORT \<equiv> 0x20"
abbreviation SLAVE_8259_PORT :: u16 where "SLAVE_8259_PORT \<equiv> 0xA0"

definition i8259_init :: "'a pic_scheme \<Rightarrow> 'a pic_scheme" where
  "i8259_init s0 =
     (let s = outb 0x11 MASTER_8259_PORT s0;
          s = outb 0x11 SLAVE_8259_PORT s;
          s = outb 0x20 (MASTER_8259_PORT + 1) s;
          s = outb 0x28 (SLAVE_8259_PORT + 1) s;
          s = outb 0x04 (MASTER_8259_PORT + 1) s;
          s = outb 0x02 (SLAVE_8259_PORT + 1) s;
          s = outb 0x01 (MASTER_8259_PORT + 1) s;
          s = outb 0x01 (SLAVE_8259_PORT + 1) s;
          s = s\<lparr>master_mask := 0xFF\<rparr>;
          s = s\<lparr>slave_mask := 0xFF\<rparr>;
          s = outb (master_mask s) (MASTER_8259_PORT + 1) s
      in outb (slave_mask s) (SLAVE_8259_PORT + 1) s)"

definition enable_irq :: "u32 \<Rightarrow> 'a pic_scheme \<Rightarrow> 'a pic_scheme" where
  "enable_irq irq_num s =
     (if irq_num \<le> 7 then
        let s = s\<lparr>master_mask := master_mask s AND NOT (push_bit (unat (irq_num mod 8)) 1)\<rparr>
        in outb (master_mask s) (MASTER_8259_PORT + 1) s
      else
        let s = s\<lparr>slave_mask := slave_mask s AND NOT (push_bit (unat (irq_num mod 8)) 1)\<rparr>
        in outb (slave_mask s) (SLAVE_8259_PORT + 1) s)"

text \<open>The branch for the second controller uses \<open>&=\<close> without complement, as the source does.\<close>

definition disable_irq :: "u32 \<Rightarrow> 'a pic_scheme \<Rightarrow> 'a pic_scheme" where
  "disable_irq irq_num s =
     (if irq_num \<le> 7 then
        let s = s\<lparr>master_mask := master_mask s OR push_bit (unat (irq_num mod 8)) 1\<rparr>
        in outb (master_mask s) (MASTER_8259_PORT + 1) s
      else
        let s = s\<lparr>slave_mask := slave_mask s AND push_bit (unat (irq_num mod 8)) 1\<rparr>
        in outb (slave_mask s) (SLAVE_8259_PORT + 1) s)"

function send_eoi :: "u32 \<Rightarrow> 'a machine_scheme \<Rightarrow> 'a machine_scheme" where
  "send_eoi irq_num s =
     (if irq_num < 8 then outb (ucast (0x60 OR irq_num)) MASTER_8259_PORT s
      else let n = irq_num - 8
        in send_eoi 2 (outb (ucast (0x60 OR n)) SLAVE_8259_PORT s))"
  by pat_completeness auto
termination
  by (relation "measure (\<lambda>(n, s). if n < 8 then 0 else 1)") auto

declare send_eoi.simps [simp del]

subsection \<open>Which lines are open\<close>

text \<open>IRQ line \<open>n\<close> is masked when its bit in the mask byte of its controller is set.\<close>

definition irq_masked :: "'a pic_scheme \<Rightarrow> nat \<Rightarrow> bool" where
  "irq_masked s n = (if n < 8 then bit (master_mask s) n else bit (slave_mask s) (n - 8))"

text \<open>The mask ports hold the mask variables.\<close>

definition pic_synced :: "'a pic_scheme \<Rightarrow> bool" where
  "pic_synced s \<longleftrightarrow> last_out (MASTER_8259_PORT + 1) (io s) = Some (master_mask s) \<and>
     last_out (SLAVE_8259_PORT + 1) (io s) = Some (slave_mask s)"

lemma outb_pic [simp]:
  "master_mask (outb d p s) = master_mask s" "slave_mask (outb d p s) = slave_mask s"
  by (simp_all add: outb_def)

lemma i8259_init_synced: "pic_synced (i8259_init s)"
  by (simp add: i8259_init_def pic_synced_def Let_def)

lemma i8259_init_masks: "n < 16 \<Longrightarrow> irq_masked (i8259_init s) n"
proof -
  assume "n < 16"
  moreover have "master_mask (i8259_init s) = - 1" "slave_mask (i8259_init s) = - 1"
    by (simp_all add: i8259_init_def Let_def)
  ultimately show ?thesis by (auto simp: irq_masked_def possible_bit_word)
qed

lemma enable_irq_synced: "pic_synced s \<Longrightarrow> pic_synced (enable_irq n s)"
  by (auto simp: enable_irq_def pic_synced_def Let_def)

lemma disable_irq_synced: "pic_synced s \<Longrightarrow> pic_synced (disable_irq n s)"
  by (auto simp: disable_irq_def pic_synced_def Let_def)

lemma irq_word:
  assumes "irq < 16"
  shows "(of_nat irq :: u32) \<le> 7 \<longleftrightarrow> irq < 8" and "unat ((of_nat irq :: u32) mod 8) = irq mod 8"
  using assms by (auto simp: word_le_nat_alt unat_mod unat_u32_of_nat)

lemma bit_clear_u8: "n < 8 \<Longrightarrow> bit (m AND NOT (2 ^ k) :: u8) n \<longleftrightarrow> bit m n \<and> n \<noteq> k"
  by (auto simp: bit_simps possible_bit_word)

lemma bit_set_u8: "n < 8 \<Longrightarrow> bit (m OR 2 ^ k :: u8) n \<longleftrightarrow> bit m n \<or> n = k"
  by (auto simp: bit_simps possible_bit_word)

lemma enable_irq_masked:
  assumes "irq < 16" and "n < 16"
  shows "irq_masked (enable_irq (of_nat irq) s) n \<longleftrightarrow> irq_masked s n \<and> n \<noteq> irq"
  using assms
  by (auto simp: irq_masked_def enable_irq_def Let_def irq_word bit_clear_u8 not_less mod_if)

lemma disable_irq_master:
  assumes "irq < 8" and "n < 16"
  shows "irq_masked (disable_irq (of_nat irq) s) n \<longleftrightarrow> irq_masked s n \<or> n = irq"
  using assms
  by (auto simp: irq_masked_def disable_irq_def Let_def irq_word bit_set_u8 not_less)

lemma disable_irq_slave:
  assumes "8 \<le> irq" and "irq < 16" and "n < 16"
  shows "irq_masked (disable_irq (of_nat irq) s) n \<longleftrightarrow> irq_masked s n \<and> (n < 8 \<or> n = irq)"
  using assms
  by (auto simp: irq_masked_def disable_irq_def Let_def irq_word not_less mod_if bit_simps possible_bit_word)

subsection \<open>End of interrupt\<close>

lemma send_eoi_master:
  "irq_num < 8 \<Longrightarrow> send_eoi irq_num s = outb (ucast (0x60 OR irq_num)) MASTER_8259_PORT s"
  by (simp add: send_eoi.simps)

lemma send_eoi_slave:
  assumes "8 \<le> irq_num"
  shows "send_eoi irq_num s =
    outb 0x62 MASTER_8259_PORT (outb (ucast (0x60 OR (irq_num - 8))) SLAVE_8259_PORT s)"
  using assms by (subst send_eoi.simps) (simp add: send_eoi_master not_less [symmetric] Let_def)

lemma send_eoi_io: "\<exists>es. send_eoi n s = s\<lparr>io := io s @ es\<rparr>"
  by (cases "n < 8") (auto simp: send_eoi_master send_eoi_slave outb_def not_less)

end
