(* ===== verification/Char_Device.thy ===== *)
theory Char_Device
  imports OS_Prelude
begin

text \<open>
  The contract of a character device that takes one character at a time: on a good state every
  character is accepted, the view of the device moves by a specification, and a relation holds
  between the states before and after (what the device may touch).  The client sends strings.
\<close>

locale char_device =
  fixes put :: "u8 \<Rightarrow> 's \<Rightarrow> 's res"
    and good :: "'s \<Rightarrow> bool"
    and view :: "'s \<Rightarrow> 'v"
    and spec :: "u8 \<Rightarrow> 'v \<Rightarrow> 'v"
    and touches :: "'s \<Rightarrow> 's \<Rightarrow> bool"
  assumes put_good: "good s \<Longrightarrow> \<exists>s'. put c s = Inr s' \<and> good s' \<and> view s' = spec c (view s) \<and> touches s s'"
    and touches_refl: "good s \<Longrightarrow> touches s s"
    and touches_trans: "touches s s' \<Longrightarrow> touches s' s'' \<Longrightarrow> touches s s''"
begin

lemma emit:
  "good s \<Longrightarrow> \<exists>s'. for_each_res cs put s = Inr s' \<and> good s' \<and> view s' = fold spec cs (view s) \<and> touches s s'"
proof (induction cs arbitrary: s)
  case Nil
  then show ?case by (auto intro: touches_refl)
next
  case (Cons c cs)
  obtain s1 where s1: "put c s = Inr s1" "good s1" "view s1 = spec c (view s)" "touches s s1"
    using put_good [OF Cons.prems] by blast
  obtain s' where "for_each_res cs put s1 = Inr s'" "good s'" "view s' = fold spec cs (view s1)" "touches s1 s'"
    using Cons.IH [OF s1(2)] by blast
  then show ?case using s1 by (auto intro: touches_trans)
qed

lemma emit_never_faults: "good s \<Longrightarrow> for_each_res cs put s \<noteq> Inl e"
  using emit [of s cs] by auto

lemma emit_append:
  assumes "good s" and "for_each_res cs put s = Inr s1" and "for_each_res ds put s1 = Inr s2"
  shows "for_each_res (cs @ ds) put s = Inr s2" and "view s2 = fold spec (cs @ ds) (view s)"
proof -
  show e: "for_each_res (cs @ ds) put s = Inr s2" using assms by (simp add: for_each_res_append)
  show "view s2 = fold spec (cs @ ds) (view s)" using emit [OF assms(1), of "cs @ ds"] e by auto
qed

end

end
