(* ===== verification/Console.thy ===== *)
theory Console
  imports Kernel_State Lib_Itoa Char_Device
begin

text \<open>
  The screen half of student-distrib/lib.c: the cursor, \<open>putc\<close> with wrapping and scrolling,
  \<open>puts\<close> and \<open>printf\<close>.  A store through \<open>video_mem\<close> goes to the page frame that entry 0xb8
  of the page table maps at that moment; the text is kept a second time in \<open>scr_buf\<close>.

  The abstract screen is the text of 2000 characters with one cursor position; \<open>putc\<close> is proved
  to implement it, and the video page is proved to show the same text.
\<close>

abbreviation CRTC_REG :: u16 where "CRTC_REG \<equiv> 0x3D4"
abbreviation ATTRIB :: u8 where "ATTRIB \<equiv> 0x7"

definition getXY :: "'a console_scheme \<Rightarrow> int \<times> int" where
  "getXY s = (screen_x s, screen_y s)"

definition change_coord :: "int \<Rightarrow> int \<Rightarrow> 'a console_scheme \<Rightarrow> 'a console_scheme" where
  "change_coord x y s =
     (let s = s\<lparr>screen_x := x, screen_y := y\<rparr>;
          offset = (word_of_int (80 * screen_y s + screen_x s) :: u16);
          low = (ucast (offset AND 0xFF) :: u8);
          high = (ucast (drop_bit 8 offset AND 0xFF) :: u8)
      in outb low (CRTC_REG + 1) (outb 0x0F CRTC_REG (outb high (CRTC_REG + 1) (outb 0x0E CRTC_REG s))))"

definition change_coord_silent :: "int \<Rightarrow> int \<Rightarrow> 'a console_scheme \<Rightarrow> 'a console_scheme" where
  "change_coord_silent x y s = s\<lparr>screen_x := x, screen_y := y\<rparr>"

text \<open>
  The page frame behind a page of the first 4 MB (the page itself until \<open>init_paging\<close> has turned
  paging on) and behind \<open>video_mem\<close>, and the stores to it and to \<open>scr_buf[bg_term]\<close>.
\<close>

definition page_frame :: "'a paging_scheme \<Rightarrow> nat \<Rightarrow> u32" where
  "page_frame s i = (if bit (cr0 s) 31 then drop_bit 12 (PTE s i) else of_nat i)"

definition video_frame :: "'a console_scheme \<Rightarrow> u32" where
  "video_frame s = page_frame s 0xB8"

definition video_put :: "int \<Rightarrow> u8 \<Rightarrow> 'a console_scheme \<Rightarrow> 'a console_scheme res" where
  "video_put off v s =
     (let f = video_frame s
      in rbind (aset ''video'' (frames s f) off v) (\<lambda>b. Inr (s\<lparr>frames := (frames s)(f := b)\<rparr>)))"

definition scr_get :: "int \<Rightarrow> 'a console_scheme \<Rightarrow> u8 res" where
  "scr_get i s = rbind (aget ''scr_buf'' (scr_buf s) (bg_term s)) (\<lambda>row. aget ''scr_buf'' row i)"

definition scr_set :: "int \<Rightarrow> u8 \<Rightarrow> 'a console_scheme \<Rightarrow> 'a console_scheme res" where
  "scr_set i v s =
     rbind (aget ''scr_buf'' (scr_buf s) (bg_term s)) (\<lambda>row.
     rbind (aset ''scr_buf'' row i v) (\<lambda>row.
     rbind (aset ''scr_buf'' (scr_buf s) (bg_term s) row) (\<lambda>rows. Inr (s\<lparr>scr_buf := rows\<rparr>))))"

definition shift_down :: "'a console_scheme \<Rightarrow> 'a console_scheme res" where
  "shift_down s =
     rbind (for_each_res [0..<24 * 80] (\<lambda>i s.
        rbind (scr_get (int i + 80) s) (\<lambda>c.
        rbind (video_put (2 * int i) c s) (\<lambda>s.
        rbind (video_put (2 * int i + 1) ATTRIB s) (\<lambda>s.
        rbind (scr_get (int i + 80) s) (\<lambda>c. scr_set (int i) c s))))) s) (\<lambda>s.
     rbind (for_each_res [24 * 80..<25 * 80] (\<lambda>i s.
        rbind (video_put (2 * int i) 0x20 s) (\<lambda>s.
        rbind (video_put (2 * int i + 1) ATTRIB s) (\<lambda>s. scr_set (int i) 0x20 s))) s) (\<lambda>s.
     Inr (change_coord 0 24 s)))"

definition clear :: "'a console_scheme \<Rightarrow> 'a console_scheme res" where
  "clear s =
     rbind (for_each_res [0..<25 * 80] (\<lambda>i s.
        rbind (video_put (2 * int i) 0x20 s) (\<lambda>s.
        rbind (video_put (2 * int i + 1) ATTRIB s) (\<lambda>s. scr_set (int i) 0x20 s))) s) (\<lambda>s.
     Inr (change_coord 0 0 s))"

definition cremainder :: "int \<Rightarrow> int \<Rightarrow> int" where
  "cremainder a b = sgn a * (\<bar>a\<bar> mod \<bar>b\<bar>)"

definition cquotient :: "int \<Rightarrow> int \<Rightarrow> int" where
  "cquotient a b = sgn a * sgn b * (\<bar>a\<bar> div \<bar>b\<bar>)"

definition putc :: "u8 \<Rightarrow> 'a console_scheme \<Rightarrow> 'a console_scheme res" where
  "putc c s =
     rbind
       (if c = 0x0A \<or> c = 0x0D then
          if screen_y s = 24 then shift_down s
          else Inr (s\<lparr>screen_y := screen_y s + 1, screen_x := 0\<rparr>)
        else
          rbind (video_put (2 * (80 * screen_y s + screen_x s)) c s) (\<lambda>s.
          rbind (video_put (2 * (80 * screen_y s + screen_x s) + 1) ATTRIB s) (\<lambda>s.
          rbind (scr_set (80 * screen_y s + screen_x s) c s) (\<lambda>s.
          let s = s\<lparr>screen_x := screen_x s + 1\<rparr>
          in if screen_x s = 80 then
               if screen_y s = 24 then shift_down s
               else Inr (s\<lparr>screen_x := 0, screen_y := screen_y s + 1\<rparr>)
             else
               let s = s\<lparr>screen_x := cremainder (screen_x s) 80\<rparr>
               in Inr (s\<lparr>screen_y := cremainder (screen_y s + cquotient (screen_x s) 80) 25\<rparr>)))))
       (\<lambda>s. Inr (change_coord (screen_x s) (screen_y s) s))"

partial_function (option) puts_loop ::
  "mem \<Rightarrow> ptr \<Rightarrow> u32 \<Rightarrow> 'a console_scheme \<Rightarrow> (u32 \<times> 'a console_scheme) res option" where
  "puts_loop m s index k =
     (if ld m s index \<noteq> 0 then
        (case putc (ld m s index) k of
           Inl e \<Rightarrow> Some (Inl e)
         | Inr k \<Rightarrow> puts_loop m s (index + 1) k)
      else Some (Inr (index, k)))"

definition puts :: "mem \<Rightarrow> ptr \<Rightarrow> 'a console_scheme \<Rightarrow> (u32 \<times> 'a console_scheme) res option" where
  "puts m s k = puts_loop m s 0 k"

subsection \<open>The abstract screen\<close>

type_synonym screen = "u8 list \<times> nat"

definition scroll :: "u8 list \<Rightarrow> u8 list" where
  "scroll t = drop 80 t @ replicate 80 0x20"

definition screen_put :: "u8 \<Rightarrow> screen \<Rightarrow> screen" where
  "screen_put c = (\<lambda>(t, p).
     if c = 0x0A \<or> c = 0x0D then if 24 * 80 \<le> p then (scroll t, 24 * 80) else (t, (p div 80 + 1) * 80)
     else if p + 1 = 25 * 80 then (scroll (t[p := c]), 24 * 80) else (t[p := c], p + 1))"

definition screen_of :: "'a console_scheme \<Rightarrow> screen" where
  "screen_of s = (scr_buf s ! nat (bg_term s), nat (80 * screen_y s + screen_x s))"

definition console_ok :: "'a console_scheme \<Rightarrow> bool" where
  "console_ok s \<longleftrightarrow> 0 \<le> screen_x s \<and> screen_x s < 80 \<and> 0 \<le> screen_y s \<and> screen_y s < 25 \<and>
     0 \<le> bg_term s \<and> bg_term s < 3 \<and> length (scr_buf s) = 3 \<and> (\<forall>r\<in>set (scr_buf s). length r = 2000) \<and>
     (\<forall>f. length (frames s f) = 4096)"

text \<open>The video page shows the text, in the one colour the kernel uses.\<close>

definition displays :: "u8 list \<Rightarrow> u8 list \<Rightarrow> bool" where
  "displays v t \<longleftrightarrow> (\<forall>i<2000. v ! (2 * i) = t ! i \<and> v ! (2 * i + 1) = ATTRIB)"

definition video_shows :: "'a console_scheme \<Rightarrow> bool" where
  "video_shows s \<longleftrightarrow> displays (frames s (video_frame s)) (scr_buf s ! nat (bg_term s))"

subsection \<open>Writing cells of the video page and of the text\<close>

definition paint :: "u8 list \<Rightarrow> u8 list \<Rightarrow> 'a console_scheme \<Rightarrow> 'a console_scheme" where
  "paint v t s = s\<lparr>frames := (frames s)(video_frame s := v), scr_buf := (scr_buf s)[nat (bg_term s) := t]\<rparr>"

lemma paint_fields [simp]:
  "video_frame (paint v t s) = video_frame s" "bg_term (paint v t s) = bg_term s"
  "screen_x (paint v t s) = screen_x s" "screen_y (paint v t s) = screen_y s"
  "length (scr_buf (paint v t s)) = length (scr_buf s)"
  by (simp_all add: paint_def video_frame_def page_frame_def)

lemma paint_paint [simp]: "paint v' t' (paint v t s) = paint v' t' s"
  by (simp add: paint_def video_frame_def page_frame_def)

lemma paint_self:
  "console_ok s \<Longrightarrow> paint (frames s (video_frame s)) (scr_buf s ! nat (bg_term s)) s = s"
  by (simp add: paint_def console_ok_def)

definition term_ok :: "'a console_scheme \<Rightarrow> bool" where
  "term_ok s \<longleftrightarrow> 0 \<le> bg_term s \<and> bg_term s < 3 \<and> length (scr_buf s) = 3"

lemma console_term_ok: "console_ok s \<Longrightarrow> term_ok s"
  by (simp add: console_ok_def term_ok_def)

lemma scr_get_paint:
  "term_ok s \<Longrightarrow> length t = 2000 \<Longrightarrow> i < 2000 \<Longrightarrow> scr_get (int i) (paint v t s) = Inr (t ! i)"
  by (simp add: term_ok_def scr_get_def paint_def aget_def nat_less_iff)

lemma video_put_paint:
  "length v = 4096 \<Longrightarrow> i < 4096 \<Longrightarrow> video_put (int i) c (paint v t s) = Inr (paint (v[i := c]) t s)"
  by (simp add: video_put_def Let_def aset_def) (simp add: paint_def video_frame_def page_frame_def)

lemma scr_set_paint:
  "term_ok s \<Longrightarrow> length t = 2000 \<Longrightarrow> i < 2000 \<Longrightarrow>
     scr_set (int i) c (paint v t s) = Inr (paint v (t[i := c]) s)"
  by (simp add: term_ok_def scr_set_def aset_def aget_def) (simp add: paint_def nat_less_iff)

definition cell_v :: "nat \<Rightarrow> u8 \<Rightarrow> u8 list \<Rightarrow> u8 list" where
  "cell_v i c v = v[2 * i := c, 2 * i + 1 := ATTRIB]"

lemma put_cell:
  assumes "term_ok s" and "length v = 4096" and "length t = 2000" and "i < 2000"
  shows "rbind (video_put (2 * int i) c (paint v t s)) (\<lambda>s.
      rbind (video_put (2 * int i + 1) ATTRIB s) (\<lambda>s. scr_set (int i) c s)) =
    Inr (paint (cell_v i c v) (t[i := c]) s)"
proof -
  have e: "2 * int i = int (2 * i)" "int (2 * i) + 1 = int (2 * i + 1)" by simp_all
  show ?thesis
    unfolding e using assms
    by (simp add: video_put_paint scr_set_paint cell_v_def del: of_nat_add of_nat_mult of_nat_numeral of_nat_Suc)
qed

text \<open>The loops over cells: each fills a stretch of cells from left to right.\<close>

definition cells_v :: "(nat \<Rightarrow> u8) \<Rightarrow> nat \<Rightarrow> nat \<Rightarrow> u8 list \<Rightarrow> u8 list" where
  "cells_v c a b v = fold (\<lambda>i. cell_v i (c i)) [a..<b] v"

lemma length_cell_v [simp]: "length (cell_v i c v) = length v"
  by (simp add: cell_v_def)

lemma length_cells_v [simp]: "length (cells_v c a b v) = length v"
  unfolding cells_v_def by (rule fold_invariant [where P = "\<lambda>w. length w = length v" and Q = "\<lambda>_. True"]) auto

lemma cells_v_Suc: "a \<le> b \<Longrightarrow> cells_v c a (Suc b) v = cell_v b (c b) (cells_v c a b v)"
  by (simp add: cells_v_def)

lemma nth_cell_v:
  assumes "length v = 4096" "i < 2000" "j < 2000"
  shows "cell_v j c v ! (2 * i) = (if i = j then c else v ! (2 * i))"
    "cell_v j c v ! Suc (2 * i) = (if i = j then ATTRIB else v ! Suc (2 * i))"
proof -
  have "2 * i \<noteq> Suc (2 * j)" "Suc (2 * i) \<noteq> 2 * j" by presburger+
  then show "cell_v j c v ! (2 * i) = (if i = j then c else v ! (2 * i))"
    "cell_v j c v ! Suc (2 * i) = (if i = j then ATTRIB else v ! Suc (2 * i))"
    using assms by (auto simp: cell_v_def nth_list_update)
qed

lemma nth_cells_v:
  assumes "length v = 4096" "i < 2000" "b \<le> 2000"
  shows "cells_v c a b v ! (2 * i) = (if a \<le> i \<and> i < b then c i else v ! (2 * i)) \<and>
    cells_v c a b v ! Suc (2 * i) = (if a \<le> i \<and> i < b then ATTRIB else v ! Suc (2 * i))"
  using assms(3)
proof (induction b)
  case (Suc b)
  then show ?case
    using assms(1,2) by (cases "a \<le> b") (auto simp: cells_v_Suc nth_cell_v, auto simp: cells_v_def)
qed (simp add: cells_v_def)

lemma fill_loop:
  assumes "term_ok s" and "length v = 4096" and "length t = 2000" and "a \<le> b" "b \<le> 2000"
  shows "for_each_res [a..<b] (\<lambda>i s. rbind (video_put (2 * int i) c s) (\<lambda>s.
      rbind (video_put (2 * int i + 1) ATTRIB s) (\<lambda>s. scr_set (int i) c s))) (paint v t s) =
    Inr (paint (cells_v (\<lambda>_. c) a b v) (take a t @ replicate (b - a) c @ drop b t) s)"
  using assms(4,5)
proof (induction rule: dec_induct)
  case base
  then show ?case by (simp add: cells_v_def)
next
  case (step b)
  let ?t = "take a t @ replicate (b - a) c @ drop b t"
  have "?t[b := c] = take a t @ replicate (Suc b - a) c @ drop (Suc b) t"
    using step assms(3) by (simp add: list_update_append Suc_diff_le replicate_append_same
        flip: Cons_nth_drop_Suc)
  then show ?case using step assms by (simp add: for_each_res_append put_cell cells_v_Suc)
qed

lemma scroll_loop:
  assumes "term_ok s" and "length v = 4096" and "length t = 2000" and "n \<le> 24 * 80"
  shows "for_each_res [0..<n] (\<lambda>i s.
        rbind (scr_get (int i + 80) s) (\<lambda>c.
        rbind (video_put (2 * int i) c s) (\<lambda>s.
        rbind (video_put (2 * int i + 1) ATTRIB s) (\<lambda>s.
        rbind (scr_get (int i + 80) s) (\<lambda>c. scr_set (int i) c s))))) (paint v t s) =
    Inr (paint (cells_v (\<lambda>i. t ! (i + 80)) 0 n v) (take n (drop 80 t) @ drop n t) s)"
  using assms(4)
proof (induction n)
  case 0
  then show ?case by (simp add: cells_v_def)
next
  case (Suc n)
  let ?t = "take n (drop 80 t) @ drop n t" and ?v = "cells_v (\<lambda>i. t ! (i + 80)) 0 n v"
  have l: "length ?t = 2000" "length (take n (drop 80 t)) = n" "length ?v = 4096"
    using Suc.prems assms(2,3) by auto
  have c: "?t ! (n + 80) = t ! (n + 80)" using Suc.prems assms(3) l(2) by (simp add: nth_append)
  have up: "?t[n := t ! (n + 80)] = take (Suc n) (drop 80 t) @ drop (Suc n) t"
  proof -
    have d: "drop n t = t ! n # drop (Suc n) t"
      using Cons_nth_drop_Suc [of n t] Suc.prems assms(3) by simp
    have tk: "take (Suc n) (drop 80 t) = take n (drop 80 t) @ [t ! (n + 80)]"
      using Suc.prems assms(3) by (simp add: take_Suc_conv_app_nth add.commute)
    show ?thesis unfolding d tk using l(2) by (simp add: list_update_append)
  qed
  have e: "2 * int n = int (2 * n)" "int (2 * n) + 1 = int (2 * n + 1)" "int n + 80 = int (n + 80)" by simp_all
  have "rbind (scr_get (int n + 80) (paint ?v ?t s)) (\<lambda>c.
        rbind (video_put (2 * int n) c (paint ?v ?t s)) (\<lambda>s.
        rbind (video_put (2 * int n + 1) ATTRIB s) (\<lambda>s.
        rbind (scr_get (int n + 80) s) (\<lambda>c. scr_set (int n) c s)))) =
     Inr (paint (cell_v n (t ! (n + 80)) ?v) (?t[n := t ! (n + 80)]) s)"
    unfolding e using l c Suc.prems assms(1)
    by (simp add: scr_get_paint video_put_paint scr_set_paint cell_v_def
        del: of_nat_add of_nat_mult of_nat_numeral of_nat_Suc)
  then show ?case using Suc by (simp add: for_each_res_append cells_v_Suc up)
qed

subsection \<open>The cursor registers\<close>

definition cursor_out :: "int \<Rightarrow> io_event list" where
  "cursor_out n = (let offset = (word_of_int n :: u16) in
     [Out CRTC_REG 0x0E, Out (CRTC_REG + 1) (ucast (drop_bit 8 offset AND 0xFF)),
      Out CRTC_REG 0x0F, Out (CRTC_REG + 1) (ucast (offset AND 0xFF))])"

lemma change_coord_eq:
  "change_coord x y s = s\<lparr>screen_x := x, screen_y := y, io := io s @ cursor_out (80 * y + x)\<rparr>"
  by (simp add: change_coord_def cursor_out_def outb_def Let_def)

text \<open>What an operation on the screen may change: the cursor, the mapped video page, the text of
  the terminal that runs, and the output to the cursor registers.\<close>

definition repaint :: "'a console_scheme \<Rightarrow> 'a console_scheme \<Rightarrow> bool" where
  "repaint s s' \<longleftrightarrow> (\<exists>v t x y os. length v = 4096 \<and> length t = 2000 \<and>
     s' = (paint v t s)\<lparr>screen_x := x, screen_y := y, io := io s @ os\<rparr>)"

lemma repaintI:
  "length v = 4096 \<Longrightarrow> length t = 2000 \<Longrightarrow> s' = (paint v t s)\<lparr>screen_x := x, screen_y := y, io := io s @ os\<rparr> \<Longrightarrow>
   repaint s s'"
  unfolding repaint_def by blast

lemma repaint_trans: "repaint s s' \<Longrightarrow> repaint s' s'' \<Longrightarrow> repaint s s''"
  unfolding repaint_def paint_def video_frame_def page_frame_def by fastforce

lemma repaint_refl: "console_ok s \<Longrightarrow> repaint s s"
proof -
  assume ok: "console_ok s"
  then have "length (scr_buf s ! nat (bg_term s)) = 2000" by (simp add: console_ok_def nat_less_iff)
  then show ?thesis
    using ok paint_self [OF ok]
    by (intro repaintI [where v = "frames s (video_frame s)" and t = "scr_buf s ! nat (bg_term s)"
          and x = "screen_x s" and y = "screen_y s" and os = "[]"])
       (simp_all add: console_ok_def)
qed

lemma repaint_fields:
  assumes "repaint s s'"
  shows "video_frame s' = video_frame s" "bg_term s' = bg_term s" "PTE s' = PTE s" "PDE s' = PDE s" "cr0 s' = cr0 s"
    "cr3 s' = cr3 s" "active_term s' = active_term s" "term_init s' = term_init s" "proc_active s' = proc_active s"
    "console.more s' = console.more s"
    "f \<noteq> video_frame s \<Longrightarrow> frames s' f = frames s f"
    "k \<noteq> nat (bg_term s) \<Longrightarrow> scr_buf s' ! k = scr_buf s ! k"
  using assms by (auto simp: repaint_def paint_def video_frame_def page_frame_def)

lemma repaint_ok:
  assumes "console_ok s" and "repaint s s'" and "0 \<le> screen_x s'" "screen_x s' < 80" "0 \<le> screen_y s'" "screen_y s' < 25"
  shows "console_ok s'"
  using assms set_update_subset_insert by (fastforce simp: repaint_def paint_def console_ok_def)

lemma repainted:
  assumes "console_ok s" and "length v = 4096" and "length t = 2000"
    and "0 \<le> x" "x < 80" "0 \<le> y" "y < 25"
    and s': "s' = (paint v t s)\<lparr>screen_x := x, screen_y := y, io := io s @ os\<rparr>"
  shows "repaint s s'" and "console_ok s'" and "screen_of s' = (t, nat (80 * y + x))"
    and "displays v t \<Longrightarrow> video_shows s'"
proof -
  show rp: "repaint s s'" using assms(2,3) s' by (rule repaintI)
  show "console_ok s'" using repaint_ok [OF assms(1) rp] assms(4-7) by (simp add: s')
  show "screen_of s' = (t, nat (80 * y + x))"
    using assms(1) by (simp add: s' screen_of_def) (simp add: paint_def console_ok_def nat_less_iff)
  show "displays v t \<Longrightarrow> video_shows s'"
    using assms(1) by (simp add: s' video_shows_def paint_def video_frame_def page_frame_def console_ok_def nat_less_iff)
qed

lemma change_coord_here:
  assumes "console_ok s" and "repaint s s1" and "console_ok s1"
  defines "s' \<equiv> change_coord (screen_x s1) (screen_y s1) s1"
  shows "repaint s s'" "console_ok s'" "screen_of s' = screen_of s1" "video_shows s' = video_shows s1"
proof -
  have s': "s' = s1\<lparr>io := io s1 @ cursor_out (80 * screen_y s1 + screen_x s1)\<rparr>"
    by (simp add: s'_def change_coord_eq)
  show "repaint s s'" using assms(2) unfolding s' repaint_def by fastforce
  show "console_ok s'" using assms(3) by (simp add: s' console_ok_def)
  show "screen_of s' = screen_of s1" "video_shows s' = video_shows s1"
    by (simp_all add: s' screen_of_def video_shows_def video_frame_def page_frame_def)
qed

subsection \<open>Clearing and scrolling\<close>

lemma displays_cells:
  assumes "length v = 4096" and "\<And>i. a \<le> i \<Longrightarrow> i < b \<Longrightarrow> t ! i = c i" and "b \<le> 2000"
    and "\<And>i. i < 2000 \<Longrightarrow> \<not> (a \<le> i \<and> i < b) \<Longrightarrow> v ! (2 * i) = t ! i \<and> v ! Suc (2 * i) = ATTRIB"
  shows "displays (cells_v c a b v) t"
  using assms by (auto simp: displays_def nth_cells_v)

lemma clear_paint:
  assumes ok: "console_ok s"
  obtains v where "clear s = Inr (change_coord 0 0 (paint v (replicate 2000 0x20) s))"
    and "length v = 4096" and "displays v (replicate 2000 0x20)"
proof
  let ?v = "frames s (video_frame s)" and ?t = "scr_buf s ! nat (bg_term s)"
  have l: "length ?v = 4096" "length ?t = 2000" using ok by (auto simp: console_ok_def nat_less_iff)
  show "clear s = Inr (change_coord 0 0 (paint (cells_v (\<lambda>_. 0x20) 0 2000 ?v) (replicate 2000 0x20) s))"
    using fill_loop [OF console_term_ok [OF ok] l, of 0 2000 "0x20"] l(2)
    by (simp add: clear_def paint_self [OF ok])
  show "length (cells_v (\<lambda>_. 0x20) 0 2000 ?v) = 4096" using l by simp
  show "displays (cells_v (\<lambda>_. 0x20) 0 2000 ?v) (replicate 2000 0x20)"
    using l by (intro displays_cells) auto
qed

lemma shift_down_paint:
  assumes ok: "term_ok s" and l: "length v = 4096" "length t = 2000"
  obtains v' where "shift_down (paint v t s) = Inr (change_coord 0 24 (paint v' (scroll t) s))"
    and "length v' = 4096" and "displays v' (scroll t)"
proof
  let ?v1 = "cells_v (\<lambda>i. t ! (i + 80)) 0 1920 v" and ?t1 = "take 1920 (drop 80 t) @ drop 1920 t"
  let ?v2 = "cells_v (\<lambda>_. 0x20) 1920 2000 ?v1"
  have l1: "length ?v1 = 4096" "length ?t1 = 2000" using l by auto
  have "take 1920 ?t1 @ replicate 80 0x20 = scroll t" using l by (simp add: scroll_def)
  then show "shift_down (paint v t s) = Inr (change_coord 0 24 (paint ?v2 (scroll t) s))"
    using scroll_loop [OF ok l, of 1920] fill_loop [OF ok l1, of 1920 2000 "0x20"] l1(2)
    by (simp add: shift_down_def)
  show "length ?v2 = 4096" using l by simp
  show "displays ?v2 (scroll t)"
    using l by (intro displays_cells) (auto simp: scroll_def nth_append nth_cells_v add.commute)
qed

subsection \<open>putc implements the abstract screen\<close>

lemma cremainder_small: "0 \<le> a \<Longrightarrow> a < b \<Longrightarrow> cremainder a b = a"
  by (auto simp: cremainder_def sgn_if)

lemma cquotient_small: "0 \<le> a \<Longrightarrow> a < b \<Longrightarrow> cquotient a b = 0"
  by (auto simp: cquotient_def)

lemma displays_put: "displays v t \<Longrightarrow> length v = 4096 \<Longrightarrow> length t = 2000 \<Longrightarrow> i < 2000 \<Longrightarrow> displays (cell_v i c v) (t[i := c])"
  by (auto simp: displays_def nth_cell_v nth_list_update)

text \<open>The part of \<open>putc\<close> before the last \<open>change_coord\<close>.\<close>

definition putc_move :: "u8 \<Rightarrow> 'a console_scheme \<Rightarrow> 'a console_scheme res" where
  "putc_move c s =
     (if c = 0x0A \<or> c = 0x0D then
        if screen_y s = 24 then shift_down s else Inr (s\<lparr>screen_y := screen_y s + 1, screen_x := 0\<rparr>)
      else
        let i = nat (80 * screen_y s + screen_x s);
            s1 = paint (cell_v i c (frames s (video_frame s))) ((scr_buf s ! nat (bg_term s))[i := c]) s
        in if screen_x s + 1 = 80 then
             if screen_y s = 24 then shift_down (s1\<lparr>screen_x := 80\<rparr>)
             else Inr (s1\<lparr>screen_x := 0, screen_y := screen_y s + 1\<rparr>)
           else Inr (s1\<lparr>screen_x := screen_x s + 1, screen_y := screen_y s\<rparr>))"

lemma putc_putc_move:
  assumes ok: "console_ok s"
  shows "putc c s = rbind (putc_move c s) (\<lambda>s. Inr (change_coord (screen_x s) (screen_y s) s))"
proof (cases "c = 0x0A \<or> c = 0x0D")
  case True
  then show ?thesis unfolding putc_def putc_move_def by (simp only: if_True)
next
  case False
  let ?v = "frames s (video_frame s)" and ?t = "scr_buf s ! nat (bg_term s)"
  let ?i = "nat (80 * screen_y s + screen_x s)"
  have l: "length ?v = 4096" "length ?t = 2000" using ok by (auto simp: console_ok_def nat_less_iff)
  have i: "80 * screen_y s + screen_x s = int ?i" "?i < 2000" using ok by (auto simp: console_ok_def)
  let ?o = "80 * screen_y s + screen_x s"
  have e: "2 * ?o = int (2 * ?i)" "2 * ?o + 1 = int (2 * ?i + 1)" "?o = int ?i" using i(1) by simp_all
  note tok = console_term_ok [OF ok]
  have p1: "video_put (2 * ?o) c s = Inr (paint (?v[2 * ?i := c]) ?t s)"
    unfolding e(1) using video_put_paint [OF l(1), of "2 * ?i" c ?t s] i(2) by (simp only: paint_self [OF ok])
  have p2: "video_put (2 * ?o + 1) ATTRIB (paint (?v[2 * ?i := c]) ?t s) = Inr (paint (cell_v ?i c ?v) ?t s)"
    unfolding e(2) cell_v_def using l i(2) by (intro video_put_paint) simp_all
  have p3: "scr_set ?o c (paint (cell_v ?i c ?v) ?t s) = Inr (paint (cell_v ?i c ?v) (?t[?i := c]) s)"
    using scr_set_paint [OF tok l(2) i(2), of c] e(3) by simp
  have q: "cremainder (screen_x s + 1) 80 = screen_x s + 1 \<and> cquotient (screen_x s + 1) 80 = 0"
    if "screen_x s + 1 \<noteq> 80"
    using that ok by (auto simp: console_ok_def intro!: cremainder_small cquotient_small)
  have r: "cremainder (screen_y s) 25 = screen_y s" using ok by (intro cremainder_small) (auto simp: console_ok_def)
  show ?thesis
    unfolding putc_def putc_move_def if_not_P [OF False]
    by (simp only: p1 p2 p3 rbind_Inr paint_fields Let_def)
       (use q r in \<open>cases "screen_x s + 1 = 80"; simp\<close>)
qed

lemma shift_down_spec:
  assumes ok: "console_ok s" and l: "length v = 4096" "length t = 2000"
  shows "\<exists>s'. shift_down ((paint v t s)\<lparr>screen_x := x\<rparr>) = Inr s' \<and> repaint s s' \<and> console_ok s' \<and>
    screen_of s' = (scroll t, 1920) \<and> video_shows s'"
proof -
  have tok: "term_ok (s\<lparr>screen_x := x\<rparr>)" using ok by (simp add: console_ok_def term_ok_def)
  have c: "(paint v t s)\<lparr>screen_x := x\<rparr> = paint v t (s\<lparr>screen_x := x\<rparr>)" for v t
    by (simp add: paint_def video_frame_def page_frame_def)
  obtain v' where v': "shift_down (paint v t (s\<lparr>screen_x := x\<rparr>)) = Inr (change_coord 0 24 (paint v' (scroll t) (s\<lparr>screen_x := x\<rparr>)))"
    "length v' = 4096" "displays v' (scroll t)" using shift_down_paint [OF tok l] by blast
  define s' where "s' = (paint v' (scroll t) s)\<lparr>screen_x := 0, screen_y := 24, io := io s @ cursor_out (80 * 24 + 0)\<rparr>"
  have e: "change_coord 0 24 (paint v' (scroll t) (s\<lparr>screen_x := x\<rparr>)) = s'"
    by (simp add: s'_def change_coord_eq paint_def video_frame_def page_frame_def)
  have "length (scroll t) = 2000" using l by (simp add: scroll_def)
  from repainted [OF ok v'(2) this _ _ _ _ s'_def] v'(3) show ?thesis using v'(1) unfolding c e by simp
qed

lemma putc_move_spec:
  assumes ok: "console_ok s"
  shows "\<exists>s'. putc_move c s = Inr s' \<and> repaint s s' \<and> console_ok s' \<and>
    screen_of s' = screen_put c (screen_of s) \<and> (video_shows s \<longrightarrow> video_shows s')"
proof -
  let ?v = "frames s (video_frame s)" and ?t = "scr_buf s ! nat (bg_term s)"
  let ?i = "nat (80 * screen_y s + screen_x s)" and ?x = "screen_x s" and ?y = "screen_y s"
  have l: "length ?v = 4096" "length ?t = 2000" using ok by (auto simp: console_ok_def nat_less_iff)
  have xy: "0 \<le> ?x" "?x < 80" "0 \<le> ?y" "?y < 25" using ok by (simp_all add: console_ok_def)
  have i: "?i < 2000" using xy by simp
  have row: "1920 \<le> ?i \<longleftrightarrow> ?y = 24" "?i div 80 = nat ?y" "?i + 1 = 2000 \<longleftrightarrow> ?x + 1 = 80 \<and> ?y = 24"
    using xy by (auto simp: nat_div_distrib [symmetric])
  have self: "s = (paint ?v ?t s)\<lparr>screen_x := ?x\<rparr>" by (simp add: paint_self [OF ok])
  show ?thesis
  proof (cases "c = 0x0A \<or> c = 0x0D")
    case nl: True
    show ?thesis
    proof (cases "?y = 24")
      case True
      then show ?thesis using nl row(1) shift_down_spec [OF ok l, of ?x] self
        by (auto simp: putc_move_def screen_put_def screen_of_def)
    next
      case False
      define s' where "s' = (paint ?v ?t s)\<lparr>screen_x := 0, screen_y := ?y + 1, io := io s @ []\<rparr>"
      note rp = repainted [OF ok l _ _ _ _ s'_def]
      have "putc_move c s = Inr s'" using nl False by (auto simp: putc_move_def s'_def paint_self [OF ok])
      moreover have "screen_of s' = screen_put c (screen_of s)"
        using rp(3) xy False row nl by (auto simp: screen_put_def screen_of_def)
      ultimately show ?thesis using rp xy False by (auto simp: video_shows_def)
    qed
  next
    case ch: False
    let ?w = "cell_v ?i c ?v" and ?u = "?t[?i := c]"
    have lw: "length ?w = 4096" "length ?u = 2000" using l by simp_all
    have dw: "video_shows s \<Longrightarrow> displays ?w ?u"
      using l i by (auto simp: video_shows_def intro!: displays_put)
    consider (scroll) "?x + 1 = 80" "?y = 24" | (wrap) "?x + 1 = 80" "?y \<noteq> 24" | (step) "?x + 1 \<noteq> 80" by blast
    then show ?thesis
    proof cases
      case scroll
      then show ?thesis using ch row(3) shift_down_spec [OF ok lw, of 80]
        by (auto simp: putc_move_def screen_put_def screen_of_def Let_def)
    next
      case wrap
      define s' where "s' = (paint ?w ?u s)\<lparr>screen_x := 0, screen_y := ?y + 1, io := io s @ []\<rparr>"
      have "putc_move c s = Inr s'" using ch wrap by (auto simp: putc_move_def s'_def paint_def Let_def)
      moreover have "screen_put c (screen_of s) = (?u, nat (80 * (?y + 1)))"
        using ch wrap row(3) xy by (auto simp: screen_put_def screen_of_def)
      ultimately show ?thesis using repainted [OF ok lw _ _ _ _ s'_def] dw wrap xy by auto
    next
      case step
      define s' where "s' = (paint ?w ?u s)\<lparr>screen_x := ?x + 1, screen_y := ?y, io := io s @ []\<rparr>"
      have "putc_move c s = Inr s'" using ch step by (auto simp: putc_move_def s'_def paint_def Let_def)
      moreover have "screen_put c (screen_of s) = (?u, nat (80 * ?y + (?x + 1)))"
        using ch step row(3) xy by (auto simp: screen_put_def screen_of_def)
      ultimately show ?thesis using repainted [OF ok lw _ _ _ _ s'_def] dw step xy by auto
    qed
  qed
qed

theorem putc_spec:
  assumes ok: "console_ok s"
  shows "\<exists>s'. putc c s = Inr s' \<and> repaint s s' \<and> console_ok s' \<and>
    screen_of s' = screen_put c (screen_of s) \<and> (video_shows s \<longrightarrow> video_shows s')"
proof -
  obtain s1 where "putc_move c s = Inr s1" "repaint s s1" "console_ok s1"
    "screen_of s1 = screen_put c (screen_of s)" "video_shows s \<longrightarrow> video_shows s1"
    using putc_move_spec [OF ok] by blast
  then show ?thesis using change_coord_here [OF ok] by (simp add: putc_putc_move [OF ok])
qed

subsection \<open>Strings\<close>

text \<open>What sending characters to the screen may change.\<close>

definition screen_step :: "'a console_scheme \<Rightarrow> 'a console_scheme \<Rightarrow> bool" where
  "screen_step s s' \<longleftrightarrow> repaint s s' \<and> (video_shows s \<longrightarrow> video_shows s')"

interpretation console: char_device putc console_ok screen_of screen_put screen_step
proof
  fix s :: "'a console_scheme" and c
  assume "console_ok s"
  from putc_spec [OF this, of c] show "\<exists>s'. putc c s = Inr s' \<and> console_ok s' \<and>
      screen_of s' = screen_put c (screen_of s) \<and> screen_step s s'" unfolding screen_step_def by blast
next
  fix s :: "'a console_scheme" assume "console_ok s"
  then show "screen_step s s" by (simp add: screen_step_def repaint_refl)
next
  fix s s' s'' :: "'a console_scheme" assume "screen_step s s'" "screen_step s' s''"
  then show "screen_step s s''" unfolding screen_step_def using repaint_trans by blast
qed

lemma puts_loop_emit:
  assumes "cstr m p xs" and "i \<le> length xs"
  shows "puts_loop m p (of_nat i) s =
    (case for_each_res (drop i xs) putc s of Inl e \<Rightarrow> Some (Inl e) | Inr s' \<Rightarrow> Some (Inr (of_nat (length xs), s')))"
  using assms(2)
proof (induction "length xs - i" arbitrary: i s)
  case 0
  then have "i = length xs" by simp
  then show ?case using assms(1) by (subst puts_loop.simps) (simp add: cstr_def)
next
  case (Suc n)
  then have i: "i < length xs" by simp
  have c: "ld m p (of_nat i) = xs ! i" "xs ! i \<noteq> 0" using cstr_ld [OF assms(1) i] cstr_nz [OF assms(1) i] by simp_all
  have d: "drop i xs = xs ! i # drop (Suc i) xs" using i by (simp add: Cons_nth_drop_Suc)
  have n: "n = length xs - Suc i" using Suc.hyps(2) by simp
  show ?case
    using Suc.hyps(1) [OF n] i c by (subst puts_loop.simps) (auto simp: d rbind_def add.commute split: sum.splits)
qed

theorem puts_emit:
  assumes "cstr m p xs"
  shows "puts m p s = (case for_each_res xs putc s of Inl e \<Rightarrow> Some (Inl e) | Inr s' \<Rightarrow> Some (Inr (of_nat (length xs), s')))"
  using puts_loop_emit [OF assms, of 0 s] by (simp add: puts_def)

end
