(* ===== verification/Sched.thy ===== *)
theory Sched
  imports Paging I8259 Console
begin

text \<open>
  student-distrib/sched.c: the terminals and the round-robin switch between them.  The current
  stack registers are \<open>esp\<close> and \<open>ebp\<close> of the machine; continuing another process is loading
  them (\<open>run_proc\<close>).  A whole-page \<open>memcpy\<close> between the video page and a back-up page acts on the
  frames the page table maps at that moment.  \<open>execute\<close> is a parameter of \<open>switchTerm\<close>: it lives
  in sys_call.c, which comes later and is put in there.

  The results are \<open>None\<close> when the search for the next terminal never ends, and a fault when an
  index leaves an array.
\<close>

type_synonym 'a run = "'a res option"

definition obind :: "'a run \<Rightarrow> ('a \<Rightarrow> 'b run) \<Rightarrow> 'b run" where
  "obind r f = (case r of None \<Rightarrow> None | Some (Inl e) \<Rightarrow> Some (Inl e) | Some (Inr x) \<Rightarrow> f x)"

lemma obind_simps [simp, res_simps]:
  "obind None f = None" "obind (Some (Inl e)) f = Some (Inl e)" "obind (Some (Inr x)) f = f x"
  by (simp_all add: obind_def)

text \<open>Loops that only their body ends may use \<open>obind\<close>.\<close>

lemma mono_obind [partial_function_mono]:
  assumes "mono_option B" and "\<And>y. mono_option (\<lambda>f. C y f)"
  shows "mono_option (\<lambda>f. obind (B f) (\<lambda>y. C y f))"
proof -
  have e: "obind r g = Option.bind r (\<lambda>x. case x of Inl e \<Rightarrow> Some (Inl e) | Inr y \<Rightarrow> g y)" for r and g :: "_ \<Rightarrow> _ run"
    by (auto simp: obind_def split: option.splits sum.splits)
  have "mono_option (\<lambda>f. case y of Inl e \<Rightarrow> Some (Inl e) | Inr y \<Rightarrow> C y f)" for y
    using assms(2) by (cases y) (simp_all add: option.const_mono)
  then show ?thesis unfolding e by (intro bind_mono assms(1))
qed

text \<open>\<open>memcpy(dst page, src page, 4096)\<close> on virtual pages of the first 4 MB.\<close>

definition page_copy :: "nat \<Rightarrow> nat \<Rightarrow> 'a console_scheme \<Rightarrow> 'a console_scheme" where
  "page_copy dst src s = s\<lparr>frames := (frames s)(page_frame s dst := frames s (page_frame s src))\<rparr>"

text \<open>\<open>cr3\<close> is loaded with the address of a row of \<open>PDE\<close>.\<close>

definition get_PDE :: "int \<Rightarrow> int" where
  "get_PDE proc_id = proc_id + 1"

definition save_stack :: "'a sched_scheme \<Rightarrow> 'a sched_scheme res" where
  "save_stack s =
     rbind (aset ''proc_esp'' (proc_esp s) (bg_term s) (esp s)) (\<lambda>pe.
     rbind (aset ''proc_ebp'' (proc_ebp s) (bg_term s) (ebp s)) (\<lambda>pb.
     Inr (s\<lparr>proc_esp := pe, proc_ebp := pb\<rparr>)))"

definition save_cursor :: "'a console_scheme \<Rightarrow> 'a console_scheme res" where
  "save_cursor s =
     rbind (aset ''cursor_pos'' (cursor_pos s) (bg_term s) (getXY s)) (\<lambda>c. Inr (s\<lparr>cursor_pos := c\<rparr>))"

definition run_proc :: "int \<Rightarrow> int \<Rightarrow> 'a sched_scheme \<Rightarrow> 'a sched_scheme res" where
  "run_proc eoi proc_id s =
     rbind (aget ''proc_active'' (proc_active s) proc_id) (\<lambda>pa.
     rbind (aget ''proc_esp'' (proc_esp s) proc_id) (\<lambda>pe.
     rbind (aget ''proc_ebp'' (proc_ebp s) proc_id) (\<lambda>pb.
     let s = s\<lparr>cr3 := get_PDE pa\<rparr>;
         s = s\<lparr>tss_ss0 := 0x18, tss_esp0 := pe, tss_ebp := pb, tss_esp := pe\<rparr>;
         s = sti s;
         s = (if eoi > 0 then send_eoi (word_of_int eoi) s else s)
     in Inr (s\<lparr>ebp := pb, esp := pe\<rparr>))))"

partial_function (option) next_term :: "int list \<Rightarrow> int \<Rightarrow> int run" where
  "next_term ti b =
     (let b = b + 1; b = (if b = 3 then 0 else b)
      in case aget ''term_init'' ti b of
           Inl e \<Rightarrow> Some (Inl e)
         | Inr v \<Rightarrow> if v \<noteq> 1 then next_term ti b else Some (Inr b))"

definition do_events :: "'a console_scheme \<Rightarrow> 'a console_scheme run" where
  "do_events s =
     (if fake_sti s then Some (Inr s)
      else
        let count = length (filter (\<lambda>v. v \<noteq> 0) (take 3 (term_init s)))
        in if count = 1 then Some (Inr s)
        else obind (Some (save_stack s)) (\<lambda>s.
          obind (Some (save_cursor s)) (\<lambda>s.
          obind (next_term (term_init s) (bg_term s)) (\<lambda>b.
          let s = s\<lparr>bg_term := b\<rparr>
          in obind (Some (aget ''cursor_pos'' (cursor_pos s) (bg_term s))) (\<lambda>(x, y).
             let s = (if active_term s = bg_term s
                      then change_pte 0xB8 0xB8 (change_coord x y s)
                      else change_pte 0xB8 (word_of_int (bg_term s)) (change_coord_silent x y s))
             in Some (run_proc 8 (bg_term s) s))))))"

text \<open>
  \<open>run_proc\<close> ends on the stack of the process it resumes: \<open>leave; ret\<close> takes the frame that this process saved when it was
  switched away from.  The state the model returns is the one in which that frame continues.  Its code is the rest of the
  handler it was saved in: that of the clock (\<open>do_events\<close> is its last call) or that of the keyboard (the epilogue after
  \<open>switchTerm\<close>).
\<close>

definition switchTerm ::
  "('a console_scheme \<Rightarrow> 'a console_scheme run) \<Rightarrow> int \<Rightarrow> 'a console_scheme \<Rightarrow> 'a console_scheme run" where
  "switchTerm execute_shell num s =
     (let s = s\<lparr>fake_sti := True\<rparr>;
          s = (if active_term s = bg_term s then page_copy (nat (1 + active_term s)) 0xB8 s else s)
      in obind (Some (save_cursor s)) (\<lambda>s.
         obind (Some (save_stack s)) (\<lambda>s.
         let s = change_pte 0xB8 0xB8 s;
             s = s\<lparr>active_term := num\<rparr>
         in obind (Some (aget ''term_init'' (term_init s) num)) (\<lambda>init.
            if init \<noteq> 0 then
              let s = page_copy 0xB8 (nat (1 + active_term s)) s
              in obind (Some (aget ''cursor_pos'' (cursor_pos s) (active_term s))) (\<lambda>(x, y).
                 let s = change_coord x y s;
                     s = s\<lparr>bg_term := num\<rparr>;
                     s = s\<lparr>fake_sti := False\<rparr>
                 in Some (run_proc 1 (active_term s) s))
            else
              let s = s\<lparr>bg_term := num\<rparr>
              in obind (Some (aset ''term_init'' (term_init s) (active_term s) 1)) (\<lambda>ti.
                 obind (Some (clear (s\<lparr>term_init := ti\<rparr>))) (\<lambda>s.
                 let s = send_eoi 1 (sti s);
                     s = s\<lparr>fake_sti := False\<rparr>
                 in execute_shell s))))))"

text \<open>Assignments \<open>x[0] = a; x[1] = b; x[2] = c\<close> to an array of three.\<close>

definition init_terminals :: "'a console_scheme \<Rightarrow> 'a console_scheme" where
  "init_terminals s =
     (let s = s\<lparr>active_term := 0\<rparr>;
          s = s\<lparr>term_init := [1, 0, 0]\<rparr>;
          s = s\<lparr>proc_active := [- 1, - 1, - 1]\<rparr>;
          s = s\<lparr>fake_sti := False\<rparr>;
          s = s\<lparr>bg_term := 0\<rparr>
      in for_loop 1 5 (\<lambda>i s. s\<lparr>frames := (frames s)(page_frame s i := replicate 4096 0)\<rparr>) s)"

definition get_active_term :: "'a sched_scheme \<Rightarrow> int" where
  "get_active_term s = active_term s"

definition get_bg_term :: "'a sched_scheme \<Rightarrow> int" where
  "get_bg_term s = bg_term s"

definition is_active :: "int \<Rightarrow> 'a sched_scheme \<Rightarrow> bool res" where
  "is_active proc_id s =
     rbind (aget ''proc_active'' (proc_active s) (active_term s)) (\<lambda>p. Inr (p = proc_id))"

definition new_process :: "int \<Rightarrow> 'a sched_scheme \<Rightarrow> 'a sched_scheme res" where
  "new_process proc_id s =
     rbind (aset ''proc_active'' (proc_active s) (active_term s) proc_id) (\<lambda>pa.
     Inr (s\<lparr>proc_active := pa, bg_term := proc_id\<rparr>))"

definition remove_process :: "int \<Rightarrow> u32 \<Rightarrow> u32 \<Rightarrow> 'a sched_scheme \<Rightarrow> 'a sched_scheme res" where
  "remove_process pProc_id pESP pEBP s =
     rbind (aset ''proc_active'' (proc_active s) (active_term s) pProc_id) (\<lambda>pa.
     rbind (aset ''proc_esp'' (proc_esp s) (active_term s) pESP) (\<lambda>pe.
     rbind (aset ''proc_ebp'' (proc_ebp s) (active_term s) pEBP) (\<lambda>pb.
     Inr (s\<lparr>proc_active := pa, proc_esp := pe, proc_ebp := pb\<rparr>))))"

subsection \<open>The next terminal\<close>

text \<open>The terminals in the order the scheduler looks at them, and the one it takes.\<close>

definition rotation :: "int \<Rightarrow> int list" where
  "rotation b = [(b + 1) mod 3, (b + 2) mod 3, b]"

definition rr_next :: "int list \<Rightarrow> int \<Rightarrow> int" where
  "rr_next ti b = hd (filter (\<lambda>j. ti ! nat j = 1) (rotation b))"

lemma list3: "length xs = 3 \<longleftrightarrow> (\<exists>a b c. xs = [a, b, c])"
  by (auto simp: numeral_3_eq_3 length_Suc_conv)

lemma int_lt3: "0 \<le> (b :: int) \<and> b < 3 \<longleftrightarrow> b = 0 \<or> b = 1 \<or> b = 2"
  by auto

lemma next_term_step:
  assumes "length ti = 3" and "0 \<le> b" "b < 3"
  shows "next_term ti b = (let b' = (b + 1) mod 3 in if ti ! nat b' = 1 then Some (Inr b') else next_term ti b')"
proof -
  have "b = 0 \<or> b = 1 \<or> b = 2" using assms by arith
  then show ?thesis using assms(1) by (subst next_term.simps) (auto simp: aget_def Let_def)
qed

lemma next_term_rr:
  assumes ti: "length ti = 3" and b: "0 \<le> b" "b < 3" and some: "1 \<in> set ti"
  shows "next_term ti b = Some (Inr (rr_next ti b))"
proof -
  obtain x y z where xyz: "ti = [x, y, z]" using ti by (auto simp: list3)
  have "b = 0 \<or> b = 1 \<or> b = 2" using b by arith
  moreover have "x = 1 \<or> y = 1 \<or> z = 1" using some xyz by auto
  ultimately show ?thesis
    using next_term_step [OF ti, of 0] next_term_step [OF ti, of 1] next_term_step [OF ti, of 2]
    by (auto simp: xyz rr_next_def rotation_def Let_def split: if_splits)
qed

text \<open>With no initialised terminal the search never ends.\<close>

lemma aget_mem: "aget nm xs i = Inr v \<Longrightarrow> v \<in> set xs"
  by (auto simp: aget_def split: if_splits)

text \<open>Without an initialised terminal the search runs for ever.\<close>

lemma next_term_returns:
  assumes "next_term ti b = Some r" and "length ti = 3" and "0 \<le> b" "b < 3"
  shows "1 \<in> set ti"
proof -
  have "length ti = 3 \<longrightarrow> 0 \<le> b \<and> b < 3 \<longrightarrow> 1 \<in> set ti" using assms(1)
  proof (rule next_term.raw_induct [where P = "\<lambda>ti b r. length ti = 3 \<longrightarrow> 0 \<le> b \<and> b < 3 \<longrightarrow> 1 \<in> set ti", rotated], intro impI)
    fix f :: "int list \<Rightarrow> int \<Rightarrow> int run" and ti :: "int list" and b :: int and r
    assume IH: "\<And>ti b r. f ti b = Some r \<Longrightarrow> length ti = 3 \<longrightarrow> 0 \<le> b \<and> b < 3 \<longrightarrow> 1 \<in> set ti"
      and st: "(let b = b + 1; b = if b = 3 then 0 else b
        in case aget ''term_init'' ti b of Inl e \<Rightarrow> Some (Inl e) | Inr v \<Rightarrow> if v \<noteq> 1 then f ti b else Some (Inr b)) = Some r"
      and ti: "length ti = 3" and b: "0 \<le> b \<and> b < 3"
    define b' where "b' = (if b + 1 = 3 then 0 else b + 1)"
    have b': "0 \<le> b'" "b' < 3" using b by (auto simp: b'_def)
    have "(if ti ! nat b' \<noteq> 1 then f ti b' else Some (Inr b')) = Some r"
      using st [unfolded Let_def, folded b'_def] b' ti by simp
    moreover have "ti ! nat b' \<in> set ti" using b' ti by simp
    ultimately show "1 \<in> set ti" using IH [of ti b'] b' ti by (cases "ti ! nat b' = 1") auto
  qed
  then show ?thesis using assms by simp
qed

lemma rr_next_ok:
  assumes "length ti = 3" and "0 \<le> b" "b < 3" and "1 \<in> set ti"
  shows "0 \<le> rr_next ti b" "rr_next ti b < 3" "ti ! nat (rr_next ti b) = 1"
proof -
  obtain x y z where xyz: "ti = [x, y, z]" using assms(1) by (auto simp: list3)
  have b: "b = 0 \<or> b = 1 \<or> b = 2" using assms by arith
  have o: "x = 1 \<or> y = 1 \<or> z = 1" using assms xyz by auto
  show "0 \<le> rr_next ti b" "rr_next ti b < 3" "ti ! nat (rr_next ti b) = 1"
    using b o by (auto simp: xyz rr_next_def rotation_def)
qed

text \<open>Three rounds visit every initialised terminal.\<close>

lemma rr_fair:
  assumes "length ti = 3" and "0 \<le> b" "b < 3" and "0 \<le> j" "j < 3" and "ti ! nat j = 1"
  shows "\<exists>k\<in>{1, 2, 3}. (rr_next ti ^^ k) b = j"
proof -
  obtain x y z where xyz: "ti = [x, y, z]" using assms(1) by (auto simp: list3)
  have b: "b = 0 \<or> b = 1 \<or> b = 2" and j: "j = 0 \<or> j = 1 \<or> j = 2" using assms by arith+
  define f where "f = rr_next ti"
  define X Y Z where "X \<longleftrightarrow> x = 1" and "Y \<longleftrightarrow> y = 1" and "Z \<longleftrightarrow> z = 1"
  have f: "f 0 = (if Y then 1 else if Z then 2 else if X then 0 else hd [])"
    "f 1 = (if Z then 2 else if X then 0 else if Y then 1 else hd [])"
    "f 2 = (if X then 0 else if Y then 1 else if Z then 2 else hd [])"
    by (simp_all add: f_def X_def Y_def Z_def xyz rr_next_def rotation_def)
  have "(j = 0 \<and> X) \<or> (j = 1 \<and> Y) \<or> (j = 2 \<and> Z)"
    using j assms(6) by (auto simp: xyz X_def Y_def Z_def)
  then have "f b = j \<or> f (f b) = j \<or> f (f (f b)) = j"
    using b f by (cases X; cases Y; cases Z) auto
  then show ?thesis by (simp add: f_def numeral_2_eq_2 numeral_3_eq_3)
qed

subsection \<open>One tick\<close>

definition sched_ok :: "'a console_scheme \<Rightarrow> bool" where
  "sched_ok s \<longleftrightarrow> length (term_init s) = 3 \<and> set (term_init s) \<subseteq> {0, 1} \<and>
     length (proc_active s) = 3 \<and> length (proc_esp s) = 3 \<and> length (proc_ebp s) = 3 \<and>
     length (cursor_pos s) = 6 \<and> 0 \<le> bg_term s \<and> bg_term s < 3 \<and> 0 \<le> active_term s \<and> active_term s < 3"

lemma init_terminals_fields [simp]:
  "active_term (init_terminals s) = 0" "bg_term (init_terminals s) = 0" "term_init (init_terminals s) = [1, 0, 0]"
  "proc_active (init_terminals s) = [- 1, - 1, - 1]" "fake_sti (init_terminals s) = False"
  "cursor_pos (init_terminals s) = cursor_pos s" "proc_esp (init_terminals s) = proc_esp s"
  "proc_ebp (init_terminals s) = proc_ebp s"
  by (simp_all add: init_terminals_def Let_def for_loop_def upt_rec)

text \<open>The number of initialised terminals.\<close>

definition n_init :: "'a sched_scheme \<Rightarrow> nat" where
  "n_init s = length (filter (\<lambda>v. v \<noteq> 0) (take 3 (term_init s)))"

lemma n_init_some:
  "sched_ok s \<Longrightarrow> n_init s \<noteq> 0 \<Longrightarrow> 1 \<in> set (term_init s)"
  by (auto simp: sched_ok_def n_init_def filter_empty_conv)

lemma do_events_idle: "fake_sti s \<or> n_init s = 1 \<Longrightarrow> do_events s = Some (Inr s)"
  by (auto simp: do_events_def n_init_def Let_def)

theorem do_events_switch:
  assumes ok: "sched_ok s" and go: "\<not> fake_sti s" "2 \<le> n_init s"
  defines "t \<equiv> bg_term s"
    and "u \<equiv> rr_next (term_init s) (bg_term s)"
  obtains s' where "do_events s = Some (Inr s')" and "sched_ok s'"
    and "bg_term s' = u" and "term_init s' = term_init s" and "active_term s' = active_term s"
    and "proc_active s' = proc_active s" and "\<not> fake_sti s'"
    and "proc_esp s' = (proc_esp s)[nat t := esp s]" and "proc_ebp s' = (proc_ebp s)[nat t := ebp s]"
    and "cursor_pos s' = (cursor_pos s)[nat t := (screen_x s, screen_y s)]"
    and "esp s' = proc_esp s' ! nat u" and "ebp s' = proc_ebp s' ! nat u"
    and "(screen_x s', screen_y s') = cursor_pos s' ! nat u"
    and "cr3 s' = proc_active s ! nat u + 1" and "tss_esp0 s' = proc_esp s' ! nat u"
    and "PTE s' 0xB8 = push_bit 12 (if active_term s = u then 0xB8 else word_of_int u) OR CTRL_PTE"
    and "frames s' = frames s" and "scr_buf s' = scr_buf s"
proof -
  note okd = ok [unfolded sched_ok_def]
  have some: "1 \<in> set (term_init s)" using n_init_some [OF ok] go(2) by simp
  have nt: "next_term (term_init s) (bg_term s) = Some (Inr u)"
    unfolding u_def using okd some by (intro next_term_rr) auto
  have u: "0 \<le> u" "u < 3" unfolding u_def using rr_next_ok [of "term_init s" "bg_term s"] okd some by auto
  let ?n = "nat t" and ?m = "nat u"
  define s1 where "s1 = s\<lparr>proc_esp := (proc_esp s)[?n := esp s], proc_ebp := (proc_ebp s)[?n := ebp s],
     cursor_pos := (cursor_pos s)[?n := (screen_x s, screen_y s)], bg_term := u\<rparr>"
  define c where "c = cursor_pos s1 ! ?m"
  define s2 where "s2 = (if active_term s = u then change_pte 0xB8 0xB8 (change_coord (fst c) (snd c) s1)
     else change_pte 0xB8 (word_of_int u) (change_coord_silent (fst c) (snd c) s1))"
  have bounds: "0 \<le> t" "t < 3" using okd by (auto simp: t_def)
  have ev: "do_events s = Some (run_proc 8 u s2)"
    using go okd nt u bounds
    by (simp add: do_events_def n_init_def save_stack_def save_cursor_def getXY_def Let_def t_def [symmetric]
        s2_def s1_def c_def split_def change_pte_def pte_set_def change_coord_eq change_coord_silent_def)
  have s2: "proc_active s2 = proc_active s" "proc_esp s2 = (proc_esp s)[?n := esp s]" "proc_ebp s2 = (proc_ebp s)[?n := ebp s]"
    "cursor_pos s2 = (cursor_pos s)[?n := (screen_x s, screen_y s)]" "bg_term s2 = u" "term_init s2 = term_init s"
    "active_term s2 = active_term s" "fake_sti s2 = fake_sti s" "(screen_x s2, screen_y s2) = c"
    "PTE s2 0xB8 = push_bit 12 (if active_term s = u then 0xB8 else word_of_int u) OR CTRL_PTE"
    "frames s2 = frames s" "scr_buf s2 = scr_buf s"
    by (simp_all add: s2_def s1_def change_pte_def pte_set_def change_coord_eq change_coord_silent_def)
  have run: "run_proc 8 u s2 = Inr (s2\<lparr>cr3 := proc_active s ! ?m + 1, tss_ss0 := 0x18,
      tss_esp0 := proc_esp s2 ! ?m, tss_ebp := proc_ebp s2 ! ?m, tss_esp := proc_esp s2 ! ?m, iflag := True,
      io := io s2 @ [Out 0xA0 0x60, Out 0x20 0x62], ebp := proc_ebp s2 ! ?m, esp := proc_esp s2 ! ?m\<rparr>)"
    using okd u by (simp add: run_proc_def aget_def s2 get_PDE_def send_eoi_slave outb_def sti_def Let_def)
  show ?thesis
    by (rule that [OF ev [unfolded run]]) (use s2 okd u go in \<open>auto simp: sched_ok_def c_def s1_def\<close>)
qed

text \<open>
  The context of a terminal: the stack registers and the cursor, in the machine while the terminal
  runs and in the tables of the scheduler while it does not.
\<close>

definition term_context :: "'a console_scheme \<Rightarrow> int \<Rightarrow> u32 \<times> u32 \<times> int \<times> int" where
  "term_context s t =
     (if bg_term s = t then (esp s, ebp s, screen_x s, screen_y s)
      else (proc_esp s ! nat t, proc_ebp s ! nat t, cursor_pos s ! nat t))"

lemma tick_contexts:
  assumes ok: "sched_ok s" and go: "\<not> fake_sti s" "2 \<le> n_init s" and t: "0 \<le> t" "t < 3"
    and ev: "do_events s = Some (Inr s')"
  shows "term_context s' t = term_context s t"
proof -
  let ?t = "bg_term s" and ?u = "rr_next (term_init s) (bg_term s)"
  obtain s2 where s2: "do_events s = Some (Inr s2)" "bg_term s2 = ?u"
    "proc_esp s2 = (proc_esp s)[nat ?t := esp s]" "proc_ebp s2 = (proc_ebp s)[nat ?t := ebp s]"
    "cursor_pos s2 = (cursor_pos s)[nat ?t := (screen_x s, screen_y s)]"
    "esp s2 = proc_esp s2 ! nat ?u" "ebp s2 = proc_ebp s2 ! nat ?u" "(screen_x s2, screen_y s2) = cursor_pos s2 ! nat ?u"
    using do_events_switch [OF ok go] by metis
  have "s' = s2" using ev s2(1) by simp
  moreover have l: "nat ?t < 3" "length (proc_esp s) = 3" "length (proc_ebp s) = 3" "length (cursor_pos s) = 6" "0 \<le> ?t"
    using ok by (auto simp: sched_ok_def nat_less_iff)
  moreover have "nat t = nat ?t \<longleftrightarrow> t = ?t" using t l by (simp add: eq_nat_nat_iff)
  ultimately show ?thesis using s2 by (auto simp: term_context_def nth_list_update)
qed

text \<open>A number of ticks in a row.\<close>

fun ticks :: "nat \<Rightarrow> 'a console_scheme \<Rightarrow> 'a console_scheme run" where
  "ticks 0 s = Some (Inr s)"
| "ticks (Suc n) s = obind (do_events s) (ticks n)"

lemma ticks_run:
  assumes "sched_ok s" and "\<not> fake_sti s" "2 \<le> n_init s"
  shows "\<exists>s'. ticks k s = Some (Inr s') \<and> sched_ok s' \<and> bg_term s' = (rr_next (term_init s) ^^ k) (bg_term s) \<and>
    term_init s' = term_init s \<and> proc_active s' = proc_active s \<and>
    (0 < k \<longrightarrow> cr3 s' = proc_active s ! nat (bg_term s') + 1) \<and>
    (\<forall>t. 0 \<le> t \<longrightarrow> t < 3 \<longrightarrow> term_context s' t = term_context s t)"
  using assms
proof (induction k arbitrary: s)
  case (Suc k)
  let ?u = "rr_next (term_init s) (bg_term s)"
  obtain s1 where s1: "do_events s = Some (Inr s1)" "sched_ok s1" "bg_term s1 = ?u" "term_init s1 = term_init s"
    "proc_active s1 = proc_active s" "\<not> fake_sti s1" "cr3 s1 = proc_active s ! nat ?u + 1"
    using do_events_switch [OF Suc.prems] by metis
  have "n_init s1 = n_init s" using s1(4) by (simp add: n_init_def)
  then obtain s' where s': "ticks k s1 = Some (Inr s')" "sched_ok s'" "bg_term s' = (rr_next (term_init s) ^^ k) ?u"
    "term_init s' = term_init s" "proc_active s' = proc_active s" "0 < k \<longrightarrow> cr3 s' = proc_active s ! nat (bg_term s') + 1"
    "\<forall>t. 0 \<le> t \<longrightarrow> t < 3 \<longrightarrow> term_context s' t = term_context s1 t"
    using Suc.IH [OF s1(2,6)] Suc.prems(3) s1(4,5,3) by auto
  have "cr3 s' = proc_active s ! nat (bg_term s') + 1" using s'(1,6) s1(3,7) by (cases k) auto
  moreover have "term_context s' t = term_context s t" if "0 \<le> t" "t < 3" for t
    using s'(7) tick_contexts [OF Suc.prems that s1(1)] that by simp
  ultimately show ?case using s1(1) s' by (simp add: funpow_swap1)
qed simp

theorem ticks_reach:
  assumes "sched_ok s" and "\<not> fake_sti s" "2 \<le> n_init s" and "0 \<le> j" "j < 3" and "term_init s ! nat j = 1"
  shows "\<exists>k\<in>{1, 2, 3}. \<exists>s'. ticks k s = Some (Inr s') \<and> bg_term s' = j \<and> cr3 s' = proc_active s ! nat j + 1 \<and>
    (esp s', ebp s', screen_x s', screen_y s') = term_context s j"
proof -
  obtain k where k: "k \<in> {1, 2, 3}" "(rr_next (term_init s) ^^ k) (bg_term s) = j"
    using rr_fair [of "term_init s" "bg_term s" j] assms unfolding sched_ok_def by meson
  obtain s' where "ticks k s = Some (Inr s')" "bg_term s' = j" "cr3 s' = proc_active s ! nat j + 1"
    "term_context s' j = term_context s j"
    using ticks_run [OF assms(1-3), of k] k assms(4,5) by auto
  then show ?thesis using k(1) by (intro bexI [of _ k]) (auto simp: term_context_def)
qed

subsection \<open>Switching terminals\<close>

text \<open>The video page and the back-up pages of the three terminals are mapped one to one.\<close>

definition screens_mapped :: "'a paging_scheme \<Rightarrow> bool" where
  "screens_mapped s \<longleftrightarrow> (\<forall>i\<in>{1, 2, 3, 0xB8}. page_frame s i = of_nat i)"

lemma screens_mapped_init: "screens_mapped (init_paging s)"
proof -
  have "bit (cr0 (init_paging s)) 31" by (simp add: init_paging_def pde_set_def pte_set_def Let_def bit_simps)
  then show ?thesis
    by (auto simp: screens_mapped_def page_frame_def init_paging_PTE)
qed

text \<open>The saved picture of a terminal: on the screen while it is the one shown, in its page otherwise.\<close>

definition picture :: "'a console_scheme \<Rightarrow> int \<Rightarrow> u8 list" where
  "picture s t = (if active_term s = t then frames s 0xB8 else frames s (of_nat (nat (1 + t))))"

lemma page_copy_frames:
  assumes "screens_mapped s" "i \<in> {1, 2, 3, 0xB8}" "j \<in> {1, 2, 3, 0xB8}"
  shows "frames (page_copy i j s) = (frames s)(of_nat i := frames s (of_nat j))"
  using assms by (auto simp: page_copy_def screens_mapped_def)

definition pframe :: "u32 \<Rightarrow> (nat \<Rightarrow> u32) \<Rightarrow> nat \<Rightarrow> u32" where
  "pframe c p i = (if bit c 31 then drop_bit 12 (p i) else of_nat i)"

lemma page_frame_pframe: "page_frame s i = pframe (cr0 s) (PTE s) i"
  by (simp add: page_frame_def pframe_def)

text \<open>
  Switching saves the shown screen only if its terminal is the scheduled one.  If another one is scheduled, the shown terminal
  falls back to the picture that was last saved for it.
\<close>

definition saved_mapped :: "'a sched_scheme \<Rightarrow> bool" where
  "saved_mapped s \<longleftrightarrow> (\<forall>i\<in>{1, 2, 3}. page_frame s i = of_nat i) \<and> (active_term s = bg_term s \<longrightarrow> page_frame s 0xB8 = 0xB8)"

theorem switchTerm_shown:
  assumes ok: "sched_ok s" and pg: "saved_mapped s"
    and num: "0 \<le> num" "num < 3" "term_init s ! nat num \<noteq> 0"
  obtains s' where "switchTerm ex num s = Some (Inr s')" and "sched_ok s'" and "screens_mapped s'"
    and "active_term s' = num" and "bg_term s' = num" and "term_init s' = term_init s"
    and "\<And>t. 0 \<le> t \<Longrightarrow> t < 3 \<Longrightarrow> picture s' t =
      (if t = active_term s \<and> active_term s \<noteq> bg_term s then frames s (of_nat (nat (1 + t))) else picture s t)"
    and "\<And>t. 0 \<le> t \<Longrightarrow> t < 3 \<Longrightarrow> term_context s' t = term_context s t"
    and "cr3 s' = proc_active s ! nat num + 1" and "\<not> fake_sti s'" and "proc_active s' = proc_active s"
proof -
  note okd = ok [unfolded sched_ok_def]
  let ?a = "active_term s" and ?b = "bg_term s" and ?n = "nat (bg_term s)" and ?m = "nat num"
  let ?pa = "nat (1 + ?a)" and ?pn = "nat (1 + num)"
  have pa: "?pa \<in> {1, 2, 3, 0xB8}" and pn: "?pn \<in> {1, 2, 3, 0xB8}" using okd num by auto
  define F1 where "F1 = (if ?a = ?b then (frames s)(of_nat ?pa := frames s 0xB8) else frames s)"
  define F where "F = F1(0xB8 := F1 (of_nat ?pn))"
  define C where "C = (cursor_pos s)[?n := (screen_x s, screen_y s)]"
  define P where "P = (PTE s)(0xB8 := push_bit 12 0xB8 OR CTRL_PTE)"
  define s3 where "s3 = s\<lparr>cursor_pos := C, proc_esp := (proc_esp s)[?n := esp s], proc_ebp := (proc_ebp s)[?n := ebp s],
     PTE := P, active_term := num, frames := F, screen_x := fst (C ! ?m), screen_y := snd (C ! ?m),
     io := io s @ cursor_out (80 * snd (C ! ?m) + fst (C ! ?m)), bg_term := num, fake_sti := False\<rparr>"
  have "?pa \<in> {1, 2, 3}" using okd by auto
  then have A: "pframe (cr0 s) (PTE s) ?pa = of_nat ?pa" "?a = ?b \<Longrightarrow> pframe (cr0 s) (PTE s) 0xB8 = 0xB8"
    using pg unfolding saved_mapped_def page_frame_pframe by blast+
  have B: "pframe (cr0 s) P i = of_nat i" if "i \<in> {1, 2, 3, 0xB8}" for i
    using pg that by (auto simp: saved_mapped_def page_frame_pframe P_def pframe_def)
  have P: "P = (PTE s)(0xB8 := 0xB8001)" by (simp add: P_def)
  have B1: "pframe (cr0 s) P ?pn = of_nat ?pn" using pn by (rule B)
  have B2: "pframe (cr0 s) P 0xB8 = 0xB8" using B [of "0xB8"] by simp
  note defs = switchTerm_def save_cursor_def save_stack_def aset_def aget_def Let_def page_copy_def change_coord_eq getXY_def
    split_def change_pte_def pte_set_def page_frame_pframe
  have sw: "switchTerm ex num s = Some (run_proc 1 num s3)"
  proof (cases "?a = ?b")
    case True
    note A' = A(1) [unfolded True] A(2) [OF True]
    show ?thesis using okd num True
      by (simp add: defs A' B1 B2 P [symmetric] s3_def C_def F_def F1_def fun_upd_same del: fun_upd_apply)
  next
    case False
    then show ?thesis using okd num by (simp add: defs B1 B2 P [symmetric] s3_def C_def F_def F1_def fun_upd_same del: fun_upd_apply)
  qed
  have s3: "proc_active s3 = proc_active s" "proc_esp s3 = (proc_esp s)[?n := esp s]" "proc_ebp s3 = (proc_ebp s)[?n := ebp s]"
    "cursor_pos s3 = C" "bg_term s3 = num" "term_init s3 = term_init s"
    "active_term s3 = num" "\<not> fake_sti s3" "(screen_x s3, screen_y s3) = C ! ?m" "frames s3 = F" "PTE s3 = P" "cr0 s3 = cr0 s"
    by (simp_all add: s3_def)
  define s' where "s' = s3\<lparr>cr3 := proc_active s ! ?m + 1, tss_ss0 := 0x18,
      tss_esp0 := proc_esp s3 ! ?m, tss_ebp := proc_ebp s3 ! ?m, tss_esp := proc_esp s3 ! ?m, iflag := True,
      io := io s3 @ [Out 0x20 0x61], ebp := proc_ebp s3 ! ?m, esp := proc_esp s3 ! ?m\<rparr>"
  have run: "run_proc 1 num s3 = Inr s'"
    using okd num by (simp add: run_proc_def aget_def s3 get_PDE_def send_eoi_master outb_def sti_def Let_def s'_def)
  have a3: "?a = 0 \<or> ?a = 1 \<or> ?a = 2" and b3: "?b = 0 \<or> ?b = 1 \<or> ?b = 2" and n3: "num = 0 \<or> num = 1 \<or> num = 2" using okd num by arith+
  have "picture s' t = (if t = ?a \<and> ?a \<noteq> ?b then frames s (of_nat (nat (1 + t))) else picture s t)" if "0 \<le> t" "t < 3" for t
  proof -
    have "t = 0 \<or> t = 1 \<or> t = 2" using that by arith
    then show ?thesis using a3 n3 by (elim disjE) (simp_all add: picture_def s'_def s3 F_def F1_def)
  qed
  moreover have "term_context s' t = term_context s t" if "0 \<le> t" "t < 3" for t
  proof -
    have "t = 0 \<or> t = 1 \<or> t = 2" using that by arith
    then show ?thesis using b3 n3 okd by (elim disjE) (simp_all add: term_context_def s'_def s3 C_def)
  qed
  moreover have "screens_mapped s'" using B by (simp add: screens_mapped_def page_frame_pframe s'_def s3)
  moreover have "sched_ok s'" using okd num by (simp add: sched_ok_def s'_def s3 C_def)
  ultimately show ?thesis using sw run s3 by (intro that [of s']) (simp_all add: s'_def)
qed
end
