(* ===== verification/Keyboard.thy ===== *)
theory Keyboard
  imports Sched
begin

text \<open>
  student-distrib/keyboard.c with \<open>backspacing\<close> of lib.c: the interrupt handler that turns scan
  codes into characters of the active terminal's line buffer, and reading and writing a terminal.

  The line buffers \<open>buf\<close> are lists of 1024 bytes.  \<open>x0\<close> is the value of the handler's local
  \<open>x\<close> before any assignment.  The loop that waits for Enter is run against the list of interrupts
  that arrive while it waits; it is \<open>None\<close> when they do not end the wait.
\<close>

definition kbd :: "u8 list" where
  "kbd = [0, 27, 49, 50, 51, 52, 53, 54, 55, 56, 57, 48, 45, 61, 8, 9, 113, 119, 101, 114, 116, 121,
     117, 105, 111, 112, 91, 93, 10, 0, 97, 115, 100, 102, 103, 104, 106, 107, 108, 59, 39, 96, 0,
     92, 122, 120, 99, 118, 98, 110, 109, 44, 46, 47, 0, 42, 0, 32] @ replicate 16 0 @ [45, 0, 0, 0, 43]
     @ replicate 49 0"

definition kbd_sym :: "u8 list" where
  "kbd_sym = [60, 95, 62, 63, 41, 33, 64, 35, 36, 37, 94, 38, 42, 40, 126, 43, 123, 125, 58, 124, 34]"

definition buf_put :: "int \<Rightarrow> int \<Rightarrow> u8 \<Rightarrow> 'a keyboard_scheme \<Rightarrow> 'a keyboard_scheme res" where
  "buf_put t i v s =
     rbind (aget ''buf'' (kbuf s) t) (\<lambda>row.
     rbind (aset ''buf'' row i v) (\<lambda>row.
     rbind (aset ''buf'' (kbuf s) t row) (\<lambda>rows. Inr (s\<lparr>kbuf := rows\<rparr>))))"

definition get_buf_index :: "'a keyboard_scheme \<Rightarrow> int res" where
  "get_buf_index s = aget ''buf_index'' (buf_index s) (active_term s)"

definition set_buf_index :: "int \<Rightarrow> 'a keyboard_scheme \<Rightarrow> 'a keyboard_scheme res" where
  "set_buf_index v s =
     rbind (aset ''buf_index'' (buf_index s) (active_term s) v) (\<lambda>b. Inr (s\<lparr>buf_index := b\<rparr>))"

definition set_ind_entered :: "int \<Rightarrow> 'a keyboard_scheme \<Rightarrow> 'a keyboard_scheme res" where
  "set_ind_entered v s =
     rbind (aset ''ind_entered'' (ind_entered s) (active_term s) v) (\<lambda>b. Inr (s\<lparr>ind_entered := b\<rparr>))"

definition rub_out :: "'a console_scheme \<Rightarrow> 'a console_scheme res" where
  "rub_out s =
     (if screen_x s \<noteq> 0 then
        rbind (putc 0x20 (s\<lparr>screen_x := screen_x s - 1\<rparr>)) (\<lambda>s. Inr (s\<lparr>screen_x := screen_x s - 1\<rparr>))
      else if screen_y s \<noteq> 0 then
        rbind (putc 0x20 (s\<lparr>screen_y := screen_y s - 1, screen_x := 79\<rparr>)) (\<lambda>s.
          Inr (s\<lparr>screen_y := screen_y s - 1, screen_x := 79\<rparr>))
      else Inr s)"

definition backspacing :: "bool \<Rightarrow> 'a keyboard_scheme \<Rightarrow> 'a keyboard_scheme res" where
  "backspacing physical s =
     rbind (get_buf_index s) (\<lambda>bi.
     if \<not> physical \<or> (physical \<and> bi \<noteq> 0) then
       rbind (rub_out s) (\<lambda>s.
       rbind (get_buf_index s) (\<lambda>bi.
       rbind (set_buf_index (bi - 1) s) (\<lambda>s.
       rbind (if bi - 1 < 0 then set_buf_index 0 s else Inr s) (\<lambda>s.
       rbind (get_buf_index s) (\<lambda>bi.
       rbind (buf_put (active_term s) bi 0x20 s) (\<lambda>s.
       Inr (change_coord (screen_x s) (screen_y s) s)))))))
     else Inr s)"

definition check_buf :: "int \<Rightarrow> u8 \<Rightarrow> 'a keyboard_scheme \<Rightarrow> 'a keyboard_scheme res" where
  "check_buf n x s =
     (if n = 0 then
        for_each_res [0..<4] (\<lambda>j s.
          rbind (get_buf_index s) (\<lambda>bi.
          rbind (buf_put (active_term s) bi 0x20 s) (\<lambda>s. set_buf_index (bi + 1) s))) s
      else if x = 0x0A then
        rbind (get_buf_index s) (\<lambda>bi.
        rbind (set_ind_entered bi s) (\<lambda>s.
        rbind (if bi = 1023 \<and> \<not> fflag s then putc 0x0A s else Inr s) (\<lambda>s.
        Inr (s\<lparr>fflag := True\<rparr>))))
      else Inr s)"

text \<open>The character a key gives with Shift held, for keys that are no letters.\<close>

definition shift_symbol :: "u8 \<Rightarrow> u8 option" where
  "shift_symbol k =
     (let temp = (ucast k - 44 :: u32)
      in if temp < 14 then Some (kbd_sym ! unat temp)
         else if k = 96 then Some (kbd_sym ! 14)
         else if k = 61 then Some (kbd_sym ! 15)
         else if k = 91 then Some (kbd_sym ! 16)
         else if k = 93 then Some (kbd_sym ! 17)
         else if k = 59 then Some (kbd_sym ! 18)
         else if k = 92 then Some (kbd_sym ! 19)
         else if k = 39 then Some (kbd_sym ! 20)
         else None)"

definition is_letter :: "u8 \<Rightarrow> bool" where
  "is_letter k \<longleftrightarrow> 97 \<le> k \<and> k \<le> 122"

definition done_kbd_handle :: "'a machine_scheme \<Rightarrow> 'a machine_scheme" where
  "done_kbd_handle s = send_eoi 1 (sti s)"

text \<open>The branch for key presses: echo, terminal switch, storing the character.\<close>

definition key_store :: "u8 \<Rightarrow> 'a keyboard_scheme \<Rightarrow> 'a keyboard_scheme run" where
  "key_store x s = Some (
     rbind (get_buf_index s) (\<lambda>bi.
     rbind (if bi \<noteq> 127
            then rbind (buf_put (active_term s) bi x s) (\<lambda>s. set_buf_index (bi + 1) s)
            else Inr s) (\<lambda>s.
     rbind (check_buf 1 x s) (\<lambda>s. Inr (done_kbd_handle s)))))"

definition key_press ::
  "('a keyboard_scheme \<Rightarrow> 'a keyboard_scheme run) \<Rightarrow> u8 \<Rightarrow> u8 \<Rightarrow> 'a keyboard_scheme \<Rightarrow> 'a keyboard_scheme run" where
  "key_press execute_shell x0 scancode s =
     obind (Some (aget ''kbd'' kbd (uint scancode))) (\<lambda>k.
     obind (Some (if capson s \<and> is_letter k
                  then rbind (putc (k - 32) s) (\<lambda>s. Inr (k - 32, s)) else Inr (x0, s))) (\<lambda>(x, s).
     if alt_on s then
       let newTerm = uint scancode - 0x3B
       in if newTerm < 6 \<and> 0 \<le> newTerm
          then obind (switchTerm execute_shell newTerm s) (key_store x)
          else Some (Inr (done_kbd_handle s))
     else if shift_on s then
       if is_letter k then obind (Some (putc (k - 32) s)) (key_store (k - 32))
       else (case shift_symbol k of
               Some x \<Rightarrow> obind (Some (putc x s)) (key_store x)
             | None \<Rightarrow> key_store x s)
     else obind (Some (putc k s)) (key_store k)))"

definition tab_text :: "u8 list" where
  "tab_text = [0x20, 0x20, 0x20, 0x20]"

definition keyboard_handler ::
  "hardware \<Rightarrow> ('a keyboard_scheme \<Rightarrow> 'a keyboard_scheme run) \<Rightarrow> u8 \<Rightarrow> 'a keyboard_scheme \<Rightarrow> 'a keyboard_scheme run" where
  "keyboard_handler hw execute_shell x0 s =
     (case inb hw 0x60 s of (scancode, s) \<Rightarrow>
      let s = cli s
      in if scancode = 0x3A then Some (Inr (done_kbd_handle (s\<lparr>capson := \<not> capson s\<rparr>)))
      else if scancode = 0x2A \<or> scancode = 0x36 then Some (Inr (done_kbd_handle (s\<lparr>shift_on := True\<rparr>)))
      else if scancode = 0xAA \<or> scancode = 0xB6 then Some (Inr (done_kbd_handle (s\<lparr>shift_on := False\<rparr>)))
      else if scancode = 0x1D \<or> scancode = 0xE0 then Some (Inr (done_kbd_handle (s\<lparr>ctrl_on := True\<rparr>)))
      else if scancode = 0x9D then Some (Inr (done_kbd_handle (s\<lparr>ctrl_on := False\<rparr>)))
      else if scancode = 0x38 then Some (Inr (done_kbd_handle (s\<lparr>alt_on := True\<rparr>)))
      else if scancode = 0xB8 then Some (Inr (done_kbd_handle (s\<lparr>alt_on := False\<rparr>)))
      else if scancode = 0x0E then
        obind (Some (backspacing True s)) (\<lambda>s. Some (Inr (done_kbd_handle s)))
      else if scancode = 0x0F then
        obind (Some (for_each_res tab_text putc s)) (\<lambda>s.
        obind (Some (check_buf 0 0x20 s)) (\<lambda>s. Some (Inr (done_kbd_handle s))))
      else obind (Some (if ctrl_on s then rbind (aget ''kbd'' kbd (uint scancode)) (\<lambda>k. Inr (k = 108))
                        else Inr False)) (\<lambda>ctrl_l.
        if ctrl_l then
          obind (Some (clear s)) (\<lambda>s. Some (Inr (done_kbd_handle (change_coord 0 0 s))))
        else if scancode \<le> 0x80 then key_press execute_shell x0 scancode s
        else Some (Inr (done_kbd_handle s))))"

definition init_buffers :: "'a keyboard_scheme \<Rightarrow> 'a keyboard_scheme res" where
  "init_buffers s = for_each_res [0..<6] (\<lambda>i s.
     rbind (aset ''buf_index'' (buf_index s) (int i) 0) (\<lambda>b.
     rbind (aset ''ind_entered'' (ind_entered s) (int i) 0) (\<lambda>e.
     Inr (s\<lparr>buf_index := b, ind_entered := e\<rparr>)))) s"

text \<open>\<open>strcpy\<close> out of a line buffer.\<close>

function row_strcpy :: "mem \<Rightarrow> ptr \<Rightarrow> u8 list \<Rightarrow> nat \<Rightarrow> mem res" where
  "row_strcpy m dest row i =
     (if i < length row then
        if row ! i \<noteq> 0 then row_strcpy (st m dest (of_nat i) (row ! i)) dest row (Suc i)
        else Inr (st m dest (of_nat i) 0)
      else Inl (Bad_index ''buf'' (int i)))"
  by pat_completeness auto
termination
  by (relation "measure (\<lambda>(m, dest, row, i). length row - i)") auto

declare row_strcpy.simps [simp del]

definition clear_buffer :: "mem \<Rightarrow> int \<Rightarrow> ptr \<Rightarrow> 'a keyboard_scheme \<Rightarrow> (mem \<times> 'a keyboard_scheme) res" where
  "clear_buffer m n buf1 s =
     rbind (aget ''buf'' (kbuf s) (active_term s)) (\<lambda>row.
     rbind (row_strcpy m buf1 row 0) (\<lambda>m.
     rbind (for_each_res [0..<nat n] (\<lambda>i s. buf_put (active_term s) (int i) 0x20 s) s) (\<lambda>s.
     rbind (set_buf_index 0 s) (\<lambda>s. Inr (m, s)))))"

fun wait_fflag :: "('a keyboard_scheme \<Rightarrow> 'a keyboard_scheme run) list \<Rightarrow> 'a keyboard_scheme \<Rightarrow> 'a keyboard_scheme run" where
  "wait_fflag irqs s =
     (if fflag s then Some (Inr s)
      else case irqs of [] \<Rightarrow> None | irq # irqs \<Rightarrow> obind (irq s) (wait_fflag irqs))"

definition read_terminal ::
  "('a keyboard_scheme \<Rightarrow> 'a keyboard_scheme run) list \<Rightarrow> mem \<Rightarrow> ptr \<Rightarrow> int \<Rightarrow> 'a keyboard_scheme \<Rightarrow>
   (int \<times> mem \<times> 'a keyboard_scheme) run" where
  "read_terminal irqs m buf1 nbytes s =
     obind (Some (set_buf_index 0 s)) (\<lambda>s.
     obind (Some (set_ind_entered nbytes s)) (\<lambda>s.
     obind (wait_fflag irqs s) (\<lambda>s.
     let s = s\<lparr>fflag := False\<rparr>
     in obind (Some (clear_buffer m nbytes buf1 s)) (\<lambda>(m, s).
        obind (Some (aget ''ind_entered'' (ind_entered s) (active_term s))) (\<lambda>r.
        Some (Inr (r, m, s)))))))"

definition write_terminal :: "mem \<Rightarrow> ptr \<Rightarrow> int \<Rightarrow> 'a keyboard_scheme \<Rightarrow> (int \<times> 'a keyboard_scheme) res" where
  "write_terminal m buf1 nbytes s =
     rbind (for_each_res [0..<nat (nbytes + 1)] (\<lambda>i. putc (ld m buf1 (of_nat i))) s) (\<lambda>s.
     rbind (if nbytes \<noteq> 1023 then backspacing False s else Inr s) (\<lambda>s.
     rbind (set_buf_index 0 s) (\<lambda>s. Inr (nbytes, s))))"

definition open_terminal :: u32 where
  "open_terminal = 0"

definition close_terminal :: u32 where
  "close_terminal = 0"

subsection \<open>Rubbing out a character\<close>

definition screen_rub :: "screen \<Rightarrow> screen" where
  "screen_rub = (\<lambda>(t, p). if p = 0 then (t, 0) else (t[p - 1 := 0x20], p - 1))"

lemma cursor_moved:
  assumes ok: "console_ok s" and "0 \<le> x" "x < 80" "0 \<le> y" "y < 25"
  shows "screen_step s (s\<lparr>screen_x := x, screen_y := y\<rparr>)" "console_ok (s\<lparr>screen_x := x, screen_y := y\<rparr>)"
    "screen_of (s\<lparr>screen_x := x, screen_y := y\<rparr>) = (fst (screen_of s), nat (80 * y + x))"
proof -
  let ?v = "frames s (video_frame s)" and ?t = "scr_buf s ! nat (bg_term s)"
  have l: "length ?v = 4096" "length ?t = 2000" using ok by (auto simp: console_ok_def nat_less_iff)
  define s' where "s' = (paint ?v ?t s)\<lparr>screen_x := x, screen_y := y, io := io s @ []\<rparr>"
  have e: "s\<lparr>screen_x := x, screen_y := y\<rparr> = s'" by (simp add: s'_def paint_self [OF ok])
  note rp = repainted [OF ok l assms(2-5) s'_def]
  show "screen_step s (s\<lparr>screen_x := x, screen_y := y\<rparr>)" unfolding e screen_step_def
    using rp(1,4) by (simp add: video_shows_def)
  show "console_ok (s\<lparr>screen_x := x, screen_y := y\<rparr>)" unfolding e by (rule rp(2))
  show "screen_of (s\<lparr>screen_x := x, screen_y := y\<rparr>) = (fst (screen_of s), nat (80 * y + x))"
    unfolding e using rp(3) by (simp add: screen_of_def)
qed

lemma coord_swap: "s\<lparr>screen_y := y, screen_x := x\<rparr> = s\<lparr>screen_x := x, screen_y := y\<rparr>"
  by simp

lemma position_unique:
  assumes "console_ok s" "console_ok s'" and "nat (80 * screen_y s + screen_x s) = nat (80 * screen_y s' + screen_x s')"
  shows "screen_x s = screen_x s'" "screen_y s = screen_y s'"
proof -
  have b: "0 \<le> screen_x s" "screen_x s < 80" "0 \<le> screen_y s" "0 \<le> screen_x s'" "screen_x s' < 80" "0 \<le> screen_y s'"
    using assms(1,2) by (simp_all add: console_ok_def)
  then have e: "80 * screen_y s + screen_x s = 80 * screen_y s' + screen_x s'" using assms(3) by linarith
  have "screen_y s = (80 * screen_y s + screen_x s) div 80" "screen_y s' = (80 * screen_y s' + screen_x s') div 80"
    using b by simp_all
  then show "screen_y s = screen_y s'" using e by simp
  then show "screen_x s = screen_x s'" using e by simp
qed

text \<open>A blank over the cell before the cursor brings the cursor back to where it was.\<close>

lemma blank_before:
  assumes ok: "console_ok s" and xy: "0 \<le> x" "x < 80" "0 \<le> y" "y < 25"
    and p: "80 * y + x + 1 = 80 * screen_y s + screen_x s"
  obtains s1 where "putc 0x20 (s\<lparr>screen_x := x, screen_y := y\<rparr>) = Inr s1" "console_ok s1" "screen_step s s1"
    "screen_x s1 = screen_x s" "screen_y s1 = screen_y s"
    "fst (screen_of s1) = fst (screen_rub (screen_of s))"
proof -
  let ?s = "s\<lparr>screen_x := x, screen_y := y\<rparr>"
  note cm = cursor_moved [OF ok xy]
  obtain s1 where s1: "putc 0x20 ?s = Inr s1" "console_ok s1" "screen_of s1 = screen_put 0x20 (screen_of ?s)" "screen_step ?s s1"
    using console.put_good [OF cm(2)] by blast
  have b: "0 \<le> screen_x s" "screen_x s < 80" "0 \<le> screen_y s" "screen_y s < 25" using ok by (simp_all add: console_ok_def)
  have np: "nat (80 * y + x) + 1 = nat (80 * screen_y s + screen_x s)" using xy p b by linarith
  have "nat (80 * screen_y s + screen_x s) < 2000" using b by linarith
  then have so: "screen_of s1 = ((fst (screen_of s))[nat (80 * y + x) := 0x20], nat (80 * screen_y s + screen_x s))"
    using np by (auto simp: s1(3) cm(3) screen_put_def)
  have "screen_x s1 = screen_x s" "screen_y s1 = screen_y s"
    using position_unique [OF s1(2) ok] so by (simp_all add: screen_of_def)
  moreover have "nat (80 * y + x) = nat (80 * screen_y s + screen_x s) - 1" "nat (80 * screen_y s + screen_x s) \<noteq> 0"
    using np by linarith+
  moreover have "snd (screen_of s) = nat (80 * screen_y s + screen_x s)" by (simp add: screen_of_def)
  ultimately have "fst (screen_of s1) = fst (screen_rub (screen_of s))" "screen_x s1 = screen_x s" "screen_y s1 = screen_y s"
    using so by (simp_all add: screen_rub_def split_def)
  moreover have "screen_step s s1" using cm(1) s1(4) by (rule console.touches_trans)
  ultimately show ?thesis using that s1 by blast
qed

lemma rub_out_spec:
  assumes ok: "console_ok s"
  shows "\<exists>s'. rub_out s = Inr s' \<and> console_ok s' \<and> screen_of s' = screen_rub (screen_of s) \<and> screen_step s s'"
proof -
  have b: "0 \<le> screen_x s" "screen_x s < 80" "0 \<le> screen_y s" "screen_y s < 25" using ok by (simp_all add: console_ok_def)
  consider (x) "screen_x s \<noteq> 0" | (y) "screen_x s = 0" "screen_y s \<noteq> 0" | (o) "screen_x s = 0" "screen_y s = 0" by blast
  then show ?thesis
  proof cases
    case x
    obtain s1 where s1: "putc 0x20 (s\<lparr>screen_x := screen_x s - 1, screen_y := screen_y s\<rparr>) = Inr s1" "console_ok s1" "screen_step s s1"
      "screen_x s1 = screen_x s" "screen_y s1 = screen_y s" "fst (screen_of s1) = fst (screen_rub (screen_of s))"
      using blank_before [OF ok, of "screen_x s - 1" "screen_y s"] b x by auto
    have e: "rub_out s = Inr (s1\<lparr>screen_x := screen_x s - 1, screen_y := screen_y s\<rparr>)"
      using x s1(1,4,5) by (simp add: rub_out_def)
    note cm = cursor_moved [OF s1(2), of "screen_x s - 1" "screen_y s"]
    have "snd (screen_rub (screen_of s)) = nat (80 * screen_y s + (screen_x s - 1))"
      using x b by (simp add: screen_rub_def screen_of_def nat_diff_distrib' split: if_splits)
    then have "screen_of (s1\<lparr>screen_x := screen_x s - 1, screen_y := screen_y s\<rparr>) = screen_rub (screen_of s)"
      using cm(3) s1(6) b x by (simp add: prod_eq_iff)
    then show ?thesis unfolding e using cm(1,2) b x console.touches_trans [OF s1(3)] by auto
  next
    case y
    obtain s1 where s1: "putc 0x20 (s\<lparr>screen_x := 79, screen_y := screen_y s - 1\<rparr>) = Inr s1" "console_ok s1" "screen_step s s1"
      "screen_x s1 = screen_x s" "screen_y s1 = screen_y s" "fst (screen_of s1) = fst (screen_rub (screen_of s))"
      using blank_before [OF ok, of 79 "screen_y s - 1"] b y by auto
    have e: "rub_out s = Inr (s1\<lparr>screen_x := 79, screen_y := screen_y s - 1\<rparr>)"
      using y s1(1,4,5) by (simp add: rub_out_def coord_swap)
    note cm = cursor_moved [OF s1(2), of 79 "screen_y s - 1"]
    have "snd (screen_rub (screen_of s)) = nat (80 * (screen_y s - 1) + 79)"
      using y b by (simp add: screen_rub_def screen_of_def nat_diff_distrib' split: if_splits)
    then have "screen_of (s1\<lparr>screen_x := 79, screen_y := screen_y s - 1\<rparr>) = screen_rub (screen_of s)"
      using cm(3) s1(6) b y by (simp add: prod_eq_iff)
    then show ?thesis unfolding e using cm(1,2) b y console.touches_trans [OF s1(3)] by auto
  next
    case o
    then show ?thesis using ok console.touches_refl [OF ok] by (auto simp: rub_out_def screen_rub_def screen_of_def)
  qed
qed

subsection \<open>The line being typed\<close>

abbreviation act :: "'a sched_scheme \<Rightarrow> nat" where "act s \<equiv> nat (active_term s)"

definition kbd_ok :: "'a keyboard_scheme \<Rightarrow> bool" where
  "kbd_ok s \<longleftrightarrow> console_ok s \<and> 0 \<le> active_term s \<and> active_term s < 3 \<and>
     length (kbuf s) = 6 \<and> (\<forall>r\<in>set (kbuf s). length r = 1024) \<and>
     length (buf_index s) = 6 \<and> length (ind_entered s) = 6 \<and>
     0 \<le> buf_index s ! act s \<and> buf_index s ! act s \<le> 127"

text \<open>The characters typed so far on the active terminal.\<close>

definition line :: "'a keyboard_scheme \<Rightarrow> u8 list" where
  "line s = take (nat (buf_index s ! act s)) (kbuf s ! act s)"

text \<open>The screen operations leave the keyboard state alone.\<close>

lemma repaint_kbd:
  fixes s s' :: "'a keyboard_scheme"
  assumes "repaint s s'"
  shows "kbuf s' = kbuf s" "buf_index s' = buf_index s" "ind_entered s' = ind_entered s" "fflag s' = fflag s"
    "capson s' = capson s" "ctrl_on s' = ctrl_on s" "shift_on s' = shift_on s" "alt_on s' = alt_on s"
    "active_term s' = active_term s"
  using assms by (auto simp: repaint_def paint_def)

lemma kbd_ok_repaint: "kbd_ok s \<Longrightarrow> repaint s s' \<Longrightarrow> console_ok s' \<Longrightarrow> kbd_ok s'"
  by (auto simp: kbd_ok_def repaint_kbd)

lemma line_repaint: "repaint s s' \<Longrightarrow> line s' = line s"
  by (simp add: line_def repaint_kbd)

lemma kbd_okD:
  assumes "kbd_ok s"
  shows "console_ok s" "act s < 3" "act s < length (kbuf s)" "act s < length (buf_index s)" "act s < length (ind_entered s)"
    "length (kbuf s ! act s) = 1024" "0 \<le> active_term s" "0 \<le> buf_index s ! act s" "buf_index s ! act s \<le> 127"
  using assms by (auto simp: kbd_ok_def nat_less_iff)

lemma get_buf_index_ok: "kbd_ok s \<Longrightarrow> get_buf_index s = Inr (buf_index s ! act s)"
  by (simp add: get_buf_index_def aget_def kbd_ok_def)

text \<open>The state with another line: a row for the active terminal and its index.\<close>

definition with_line :: "u8 list \<Rightarrow> int \<Rightarrow> 'a keyboard_scheme \<Rightarrow> 'a keyboard_scheme" where
  "with_line row i s = s\<lparr>kbuf := (kbuf s)[act s := row], buf_index := (buf_index s)[act s := i]\<rparr>"

lemma with_line_fields [simp]:
  "active_term (with_line r i s) = active_term s" "screen_of (with_line r i s) = screen_of s"
  "console_ok (with_line r i s) = console_ok s" "video_shows (with_line r i s) = video_shows s"
  "fflag (with_line r i s) = fflag s" "ind_entered (with_line r i s) = ind_entered s"
  "capson (with_line r i s) = capson s" "ctrl_on (with_line r i s) = ctrl_on s"
  "shift_on (with_line r i s) = shift_on s" "alt_on (with_line r i s) = alt_on s"
  by (simp_all add: with_line_def screen_of_def console_ok_def video_shows_def video_frame_def page_frame_def)

lemma with_line_self:
  "kbd_ok s \<Longrightarrow> with_line (kbuf s ! act s) (buf_index s ! act s) s = s"
  by (simp add: with_line_def)

lemma with_line_line:
  assumes "kbd_ok s"
  shows "kbuf (with_line r i s) ! act s = r" "buf_index (with_line r i s) ! act s = i"
    "line (with_line r i s) = take (nat i) r"
  using kbd_okD [OF assms] by (simp_all add: with_line_def line_def)

lemma kbd_ok_with_line:
  assumes "kbd_ok s" and "length r = 1024" "0 \<le> i" "i \<le> 127"
  shows "kbd_ok (with_line r i s)"
proof -
  have "set ((kbuf s)[act s := r]) \<subseteq> insert r (set (kbuf s))" by (rule set_update_subset_insert)
  then show ?thesis
    using assms with_line_line [OF assms(1), of r i] unfolding kbd_ok_def by (auto simp: with_line_def) (auto simp: console_ok_def video_frame_def page_frame_def)
qed

lemma set_buf_index_with_line:
  assumes "kbd_ok s" shows "set_buf_index j (with_line r i s) = Inr (with_line r j s)"
  using kbd_okD [OF assms] by (simp add: set_buf_index_def aset_def with_line_def)

lemma get_buf_index_with_line:
  assumes "kbd_ok s" shows "get_buf_index (with_line r i s) = Inr i"
  using kbd_okD [OF assms] by (simp add: get_buf_index_def aget_def with_line_def)

lemma buf_put_with_line:
  assumes "kbd_ok s" and "length r = 1024" "0 \<le> j" "j < 1024"
  shows "buf_put (active_term s) j c (with_line r i s) = Inr (with_line (r[nat j := c]) i s)"
  using kbd_okD [OF assms(1)] assms(2-4) by (simp add: buf_put_def aset_def aget_def with_line_def)

lemma take_Suc_update: "n < length r \<Longrightarrow> take (Suc n) (r[n := c]) = take n r @ [c]"
  by (simp add: take_Suc_conv_app_nth)

text \<open>\<open>change_coord\<close> at the place where the cursor is only writes the cursor registers.\<close>

lemma change_coord_stay:
  fixes s :: "'a keyboard_scheme"
  defines "s' \<equiv> change_coord (screen_x s) (screen_y s) s"
  shows "kbd_ok s' = kbd_ok s" "screen_of s' = screen_of s" "video_shows s' = video_shows s" "line s' = line s"
    "kbuf s' = kbuf s" "buf_index s' = buf_index s" "active_term s' = active_term s"
proof -
  have e: "s' = s\<lparr>io := io s @ cursor_out (80 * screen_y s + screen_x s)\<rparr>" by (simp add: s'_def change_coord_eq)
  show "kbd_ok s' = kbd_ok s" "screen_of s' = screen_of s" "video_shows s' = video_shows s" "line s' = line s"
    "kbuf s' = kbuf s" "buf_index s' = buf_index s" "active_term s' = active_term s"
    by (simp_all add: e kbd_ok_def console_ok_def screen_of_def video_shows_def line_def video_frame_def page_frame_def)
qed

text \<open>
  What drawing, line editing and waiting for a line may touch: the screen, the port log, the
  interrupt flag and the line buffers.  \<open>erase\<close> blanks these, so every other field of the state,
  whatever the state was extended by, is the same before and after a \<open>term_step\<close>.
\<close>

definition erase :: "'a keyboard_scheme \<Rightarrow> 'a keyboard_scheme" where
  "erase s = s\<lparr>io := [], iflag := False, screen_x := 0, screen_y := 0, scr_buf := [], frames := (\<lambda>f. []),
     fflag := False, kbuf := [], buf_index := [], ind_entered := []\<rparr>"

definition term_step :: "'a keyboard_scheme \<Rightarrow> 'a keyboard_scheme \<Rightarrow> bool" where
  "term_step s s' \<longleftrightarrow> erase s' = erase s"

lemma term_step_refl [simp]: "term_step s s"
  by (simp add: term_step_def)

lemma term_step_trans [trans]: "term_step s s' \<Longrightarrow> term_step s' s'' \<Longrightarrow> term_step s s''"
  by (simp add: term_step_def)

lemma term_step_repaint: "repaint s s' \<Longrightarrow> term_step s s'"
  by (auto simp: term_step_def repaint_def paint_def erase_def)

lemma term_step_upd [simp]:
  "term_step s (t\<lparr>io := es\<rparr>) = term_step s t" "term_step s (t\<lparr>iflag := b\<rparr>) = term_step s t"
  "term_step s (t\<lparr>fflag := b\<rparr>) = term_step s t" "term_step s (t\<lparr>ind_entered := is\<rparr>) = term_step s t"
  "term_step s (with_line r i t) = term_step s t" "term_step s (change_coord x y t) = term_step s t"
  by (simp_all add: term_step_def erase_def with_line_def change_coord_eq)

lemma term_step_modifiers:
  assumes "term_step s s'"
  shows "capson s' = capson s" "ctrl_on s' = ctrl_on s" "shift_on s' = shift_on s" "alt_on s' = alt_on s"
    "active_term s' = active_term s"
  using arg_cong [OF assms [unfolded term_step_def], where f = capson] arg_cong [OF assms [unfolded term_step_def], where f = ctrl_on]
    arg_cong [OF assms [unfolded term_step_def], where f = shift_on] arg_cong [OF assms [unfolded term_step_def], where f = alt_on]
    arg_cong [OF assms [unfolded term_step_def], where f = active_term]
  by (simp_all add: erase_def)

theorem backspacing_spec:
  assumes ok: "kbd_ok s" and run: "physical \<longrightarrow> line s \<noteq> []"
  shows "\<exists>s'. backspacing physical s = Inr s' \<and> kbd_ok s' \<and> screen_of s' = screen_rub (screen_of s) \<and>
    line s' = butlast (line s) \<and> active_term s' = active_term s \<and> (video_shows s \<longrightarrow> video_shows s') \<and>
    term_step s s' \<and> drop 128 (kbuf s' ! act s) = drop 128 (kbuf s ! act s) \<and> fflag s' = fflag s"
proof -
  let ?bi = "buf_index s ! act s" and ?row = "kbuf s ! act s"
  note d = kbd_okD [OF ok]
  have len: "length (line s) = nat ?bi" using d by (simp add: line_def)
  then have cond: "\<not> physical \<or> (physical \<and> ?bi \<noteq> 0)" using run by auto
  obtain s1 where s1: "rub_out s = Inr s1" "console_ok s1" "screen_of s1 = screen_rub (screen_of s)" "screen_step s s1"
    using rub_out_spec [OF d(1)] by blast
  have rp: "repaint s s1" using s1(4) by (simp add: screen_step_def)
  have ok1: "kbd_ok s1" using kbd_ok_repaint [OF ok rp s1(2)] .
  note k = repaint_kbd [OF rp]
  define j where "j = (if ?bi - 1 < 0 then 0 else ?bi - 1)"
  have j: "0 \<le> j" "j \<le> 127" "nat j = nat ?bi - 1" using d by (auto simp: j_def nat_diff_distrib')
  have w1: "s1 = with_line ?row ?bi s1" using with_line_self [OF ok1] k by simp
  define s2 where "s2 = with_line (?row[nat j := 0x20]) j s1"
  have ok2: "kbd_ok s2" unfolding s2_def using ok1 d j by (intro kbd_ok_with_line) simp_all
  have a: "set_buf_index (?bi - 1) s1 = Inr (with_line ?row (?bi - 1) s1)"
    by (subst w1) (rule set_buf_index_with_line [OF ok1])
  have c: "(if ?bi - 1 < 0 then set_buf_index 0 (with_line ?row (?bi - 1) s1) else Inr (with_line ?row (?bi - 1) s1)) =
      Inr (with_line ?row j s1)"
    by (simp add: set_buf_index_with_line [OF ok1] j_def)
  have p: "buf_put (active_term s1) j 0x20 (with_line ?row j s1) = Inr s2"
    unfolding s2_def using d j by (intro buf_put_with_line [OF ok1]) simp_all
  have "backspacing physical s = Inr (change_coord (screen_x s2) (screen_y s2) s2)"
    unfolding backspacing_def get_buf_index_ok [OF ok] rbind_Inr if_P [OF cond] s1(1) get_buf_index_ok [OF ok1] k(2,9)
      a c get_buf_index_with_line [OF ok1] with_line_fields p [unfolded k(9)] ..
  moreover have "line s2 = butlast (line s)"
  proof -
    have "line s2 = take (nat j) (?row[nat j := 0x20])" unfolding s2_def by (rule with_line_line [OF ok1])
    also have "\<dots> = take (nat ?bi - 1) ?row" using j(3) by simp
    also have "\<dots> = butlast (line s)" using d by (simp add: line_def butlast_take)
    finally show ?thesis .
  qed
  moreover have "video_shows s \<longrightarrow> video_shows s2" using s1(4) by (simp add: s2_def screen_step_def)
  moreover have "screen_of s2 = screen_rub (screen_of s)" "active_term s2 = active_term s" using s1(3) k by (simp_all add: s2_def)
  moreover have "term_step s s2" using term_step_repaint [OF rp] by (simp add: s2_def)
  moreover have "drop 128 (kbuf s2 ! act s) = drop 128 ?row"
    using with_line_line(1) [OF ok1, of "?row[nat j := 0x20]" j] j(2) k(9) by (simp add: s2_def drop_update_cancel)
  moreover have "fflag s2 = fflag s" using k by (simp add: s2_def)
  ultimately show ?thesis using ok2 change_coord_stay [of s2] by (auto simp: change_coord_eq)
qed

subsection \<open>Writing to a terminal\<close>

lemma for_each_map: "for_each_res xs (\<lambda>i. f (g i)) s = for_each_res (map g xs) f s"
  by (induction xs arbitrary: s) (auto simp: rbind_def split: sum.splits)

text \<open>
  \<open>write_terminal\<close> sends one byte more than asked and then rubs it out.  After a byte that is no
  line end the two cancel, but for the blank at the cursor.
\<close>

lemma rub_after_put:
  assumes "length t = 2000" and "p < 2000" and "c \<noteq> 0x0A" "c \<noteq> 0x0D"
  shows "screen_rub (screen_put c (t, p)) =
    (if p + 1 = 2000 then (scroll (t[p := 0x20]), 1919) else (t[p := 0x20], p))"
proof (cases "p + 1 = 2000")
  case True
  then have "(scroll (t[p := c]))[1919 := 0x20] = scroll (t[p := 0x20])"
    using assms(1) by (simp add: scroll_def list_update_append drop_update_swap)
  then show ?thesis using True assms by (simp add: screen_put_def screen_rub_def)
qed (use assms in \<open>simp add: screen_put_def screen_rub_def\<close>)

text \<open>What a write of \<open>n\<close> bytes leaves on the screen, from the \<open>n + 1\<close> bytes sent: only a write of 1023
  bytes does not rub out.\<close>

definition shown :: "u8 list \<Rightarrow> screen \<Rightarrow> screen" where
  "shown xs v = (if length xs = 1024 then fold screen_put xs v else screen_rub (fold screen_put xs v))"

theorem write_terminal_spec:
  assumes ok: "kbd_ok s"
  shows "\<exists>s'. write_terminal m buf1 (int n) s = Inr (int n, s') \<and> kbd_ok s' \<and>
    screen_of s' = shown (bytes m buf1 (Suc n)) (screen_of s) \<and>
    line s' = [] \<and> active_term s' = active_term s \<and> (video_shows s \<longrightarrow> video_shows s') \<and>
    term_step s s' \<and> drop 128 (kbuf s' ! act s) = drop 128 (kbuf s ! act s) \<and> fflag s' = fflag s"
proof -
  have l: "for_each_res [0..<nat (int n + 1)] (\<lambda>i. putc (ld m buf1 (of_nat i))) s = for_each_res (bytes m buf1 (Suc n)) putc s"
    unfolding bytes_def by (subst for_each_map [symmetric]) (simp add: nat_add_distrib)
  obtain s1 where s1: "for_each_res (bytes m buf1 (Suc n)) putc s = Inr s1" "console_ok s1"
    "screen_of s1 = fold screen_put (bytes m buf1 (Suc n)) (screen_of s)" "screen_step s s1"
    using console.emit [OF kbd_okD(1) [OF ok]] by blast
  have rp: "repaint s s1" using s1(4) by (simp add: screen_step_def)
  have ok1: "kbd_ok s1" using kbd_ok_repaint [OF ok rp s1(2)] .
  note k = repaint_kbd [OF rp]
  obtain s2 where s2: "(if int n \<noteq> 1023 then backspacing False s1 else Inr s1) = Inr s2" "kbd_ok s2"
    "screen_of s2 = shown (bytes m buf1 (Suc n)) (screen_of s)"
    "active_term s2 = active_term s1" "video_shows s1 \<longrightarrow> video_shows s2" "term_step s1 s2"
    "drop 128 (kbuf s2 ! act s1) = drop 128 (kbuf s1 ! act s1)" "fflag s2 = fflag s1"
  proof (cases "n = 1023")
    case True
    then show thesis using that [of s1] ok1 s1(3) by (simp add: shown_def)
  next
    case False
    then show thesis using that backspacing_spec [OF ok1, of False] s1(3) by (auto simp: shown_def)
  qed
  let ?s3 = "with_line (kbuf s2 ! act s2) 0 s2"
  have "set_buf_index 0 s2 = Inr ?s3"
    using set_buf_index_with_line [OF s2(2), of 0 "kbuf s2 ! act s2" "buf_index s2 ! act s2"] with_line_self [OF s2(2)] by simp
  then have "write_terminal m buf1 (int n) s = Inr (int n, ?s3)"
    unfolding write_terminal_def l s1(1) rbind_Inr s2(1) by simp
  moreover have "kbd_ok ?s3" using s2(2) kbd_okD [OF s2(2)] by (intro kbd_ok_with_line) simp_all
  moreover have "line ?s3 = []" using with_line_line(3) [OF s2(2)] by simp
  moreover have "term_step s ?s3" using term_step_trans [OF term_step_repaint [OF rp] s2(6)] by simp
  moreover have "drop 128 (kbuf ?s3 ! act s) = drop 128 (kbuf s ! act s)"
    using with_line_line(1) [OF s2(2), of "kbuf s2 ! act s2" 0] s2(4,7) k by simp
  ultimately show ?thesis using s1(4) s2(3-5,8) k by (auto simp: screen_step_def)
qed

subsection \<open>Typing\<close>

text \<open>Keys that give their character, and releases the handler ignores.\<close>

definition plain_key :: "u8 \<Rightarrow> bool" where
  "plain_key sc \<longleftrightarrow> sc < 0x80 \<and> sc \<notin> {0x3A, 0x2A, 0x36, 0x1D, 0x38, 0x0E, 0x0F}"

definition release :: "u8 \<Rightarrow> bool" where
  "release sc \<longleftrightarrow> sc > 0x80 \<and> sc \<notin> {0xAA, 0xB6, 0xE0, 0x9D, 0xB8}"

definition no_modifiers :: "'a keyboard_scheme \<Rightarrow> bool" where
  "no_modifiers s \<longleftrightarrow> \<not> capson s \<and> \<not> shift_on s \<and> \<not> alt_on s \<and> \<not> ctrl_on s"

definition key_char :: "u8 \<Rightarrow> u8" where
  "key_char sc = kbd ! unat sc"

lemma kbd_length: "length kbd = 128"
  by (simp add: kbd_def)

lemma aget_kbd: "sc < 0x80 \<Longrightarrow> aget ''kbd'' kbd (uint sc) = Inr (key_char sc)"
proof -
  assume "sc < 0x80"
  then have "unat sc < 128" by (simp add: word_less_nat_alt)
  then have "uint sc < 128" by (metis of_nat_less_iff of_nat_numeral uint_nat)
  then show ?thesis by (simp add: aget_def kbd_length key_char_def)
qed

text \<open>Changes of the port log and the interrupt flag only.\<close>

lemma quiet:
  fixes s :: "'a keyboard_scheme" and es b
  defines "s' \<equiv> s\<lparr>io := es, iflag := b\<rparr>"
  shows "kbd_ok s' = kbd_ok s" "screen_of s' = screen_of s" "line s' = line s" "kbuf s' = kbuf s"
    "buf_index s' = buf_index s" "ind_entered s' = ind_entered s" "fflag s' = fflag s"
    "no_modifiers s' = no_modifiers s" "active_term s' = active_term s" "video_shows s' = video_shows s"
  by (simp_all add: s'_def kbd_ok_def console_ok_def screen_of_def line_def no_modifiers_def video_shows_def video_frame_def page_frame_def)

lemma done_kbd_handle_eq:
  "done_kbd_handle s = s\<lparr>io := io s @ [Out 0x20 0x61], iflag := True\<rparr>"
  by (simp add: done_kbd_handle_def send_eoi_master outb_def sti_def)

lemma handler_entry:
  assumes "inb (\<lambda>_ _. sc) 0x60 s = (v, s1)"
  shows "v = sc" "cli s1 = s\<lparr>io := io s @ [In 0x60 sc], iflag := False\<rparr>"
  using assms by (auto simp: inb_def cli_def)

lemma key_store_spec:
  assumes ok: "kbd_ok s" and room: "buf_index s ! act s < 127"
  defines "bi \<equiv> buf_index s ! act s" and "row \<equiv> kbuf s ! act s"
  shows "\<exists>s'. key_store x s = Some (Inr s') \<and> kbd_ok s' \<and> screen_of s' = screen_of s \<and> no_modifiers s' = no_modifiers s \<and>
    active_term s' = active_term s \<and> kbuf s' ! act s = row[nat bi := x] \<and> buf_index s' ! act s = bi + 1 \<and>
    fflag s' = (fflag s \<or> x = 0x0A) \<and> (video_shows s' = video_shows s) \<and>
    ind_entered s' = (if x = 0x0A then (ind_entered s)[act s := bi + 1] else ind_entered s) \<and> term_step s s'"
proof -
  note d = kbd_okD [OF ok]
  let ?s1 = "with_line (row[nat bi := x]) (bi + 1) s"
  have w: "s = with_line row bi s" using with_line_self [OF ok] by (simp add: bi_def row_def)
  have l: "length row = 1024" "0 \<le> bi" "bi < 127" using d room by (simp_all add: row_def bi_def)
  have put: "buf_put (active_term s) bi x s = Inr (with_line (row[nat bi := x]) bi s)"
    using buf_put_with_line [OF ok, of row bi x bi] l w by simp
  have ok1: "kbd_ok ?s1" using l by (intro kbd_ok_with_line [OF ok]) simp_all
  have g1: "get_buf_index ?s1 = Inr (bi + 1)" by (rule get_buf_index_with_line [OF ok])
  have k1: "key_store x s = Some (rbind (check_buf 1 x ?s1) (\<lambda>s. Inr (done_kbd_handle s)))"
    unfolding key_store_def get_buf_index_ok [OF ok, folded bi_def] rbind_Inr
    using l put by (simp add: set_buf_index_with_line [OF ok])
  show ?thesis
  proof (cases "x = 0x0A")
    case True
    define s2 where "s2 = ?s1\<lparr>ind_entered := (ind_entered s)[act s := bi + 1], fflag := True\<rparr>"
    have "set_ind_entered (bi + 1) ?s1 = Inr (?s1\<lparr>ind_entered := (ind_entered s)[act s := bi + 1]\<rparr>)"
      using d by (simp add: set_ind_entered_def aset_def)
    then have "check_buf 1 x ?s1 = Inr s2" using True l g1 by (simp add: check_buf_def s2_def)
    moreover have "kbd_ok s2" using ok1 by (simp add: s2_def kbd_ok_def console_ok_def video_frame_def page_frame_def)
    moreover have "screen_of s2 = screen_of s" "no_modifiers s2 = no_modifiers s" "active_term s2 = active_term s"
      "video_shows s2 = video_shows s"
      "kbuf s2 ! act s = row[nat bi := x]" "buf_index s2 ! act s = bi + 1"
      using with_line_line [OF ok, of "row[nat bi := x]" "bi + 1"]
      by (simp_all add: s2_def with_line_def screen_of_def no_modifiers_def video_shows_def video_frame_def page_frame_def)
    moreover have "term_step s s2" by (simp add: s2_def)
    ultimately show ?thesis using True k1 quiet [where s = s2] by (simp add: done_kbd_handle_eq s2_def)
  next
    case False
    then have "check_buf 1 x ?s1 = Inr ?s1" by (simp add: check_buf_def)
    moreover have "no_modifiers ?s1 = no_modifiers s" by (simp add: no_modifiers_def)
    ultimately show ?thesis using False k1 ok1 quiet [where s = ?s1] with_line_line [OF ok, of "row[nat bi := x]" "bi + 1"]
      by (simp add: done_kbd_handle_eq)
  qed
qed

theorem plain_key_spec:
  assumes ok: "kbd_ok s" and room: "buf_index s ! act s < 127" and nm: "no_modifiers s" and pk: "plain_key sc"
  defines "k \<equiv> key_char sc" and "bi \<equiv> buf_index s ! act s" and "row \<equiv> kbuf s ! act s"
  shows "\<exists>s'. keyboard_handler (\<lambda>_ _. sc) ex x0 s = Some (Inr s') \<and> kbd_ok s' \<and>
    screen_of s' = screen_put k (screen_of s) \<and> no_modifiers s' \<and> active_term s' = active_term s \<and>
    kbuf s' ! act s = row[nat bi := k] \<and> buf_index s' ! act s = bi + 1 \<and> fflag s' = (fflag s \<or> k = 0x0A) \<and>
    (video_shows s \<longrightarrow> video_shows s') \<and>
    ind_entered s' = (if k = 0x0A then (ind_entered s)[act s := bi + 1] else ind_entered s) \<and> term_step s s'"
proof -
  define s0 where "s0 = s\<lparr>io := io s @ [In 0x60 sc], iflag := False\<rparr>"
  note q = quiet [where s = s and es = "io s @ [In 0x60 sc]" and b = False, folded s0_def]
  have ok0: "kbd_ok s0" and nm0: "no_modifiers s0" using q ok nm by simp_all
  obtain s1 where s1: "putc k s0 = Inr s1" "console_ok s1" "screen_of s1 = screen_put k (screen_of s0)" "screen_step s0 s1"
    using console.put_good [OF kbd_okD(1) [OF ok0]] by blast
  have rp: "repaint s0 s1" using s1(4) by (simp add: screen_step_def)
  note r = repaint_kbd [OF rp]
  have ok1: "kbd_ok s1" using kbd_ok_repaint [OF ok0 rp s1(2)] .
  have nm1: "no_modifiers s1" using nm0 r by (simp add: no_modifiers_def)
  have h: "keyboard_handler (\<lambda>_ _. sc) ex x0 s = key_press ex x0 sc s0"
  proof -
    have "sc \<noteq> 0xAA" "sc \<noteq> 0xB6" "sc \<noteq> 0xE0" "sc \<noteq> 0x9D" "sc \<noteq> 0xB8" "sc \<le> 0x80" using pk by (auto simp: plain_key_def)
    then show ?thesis
      using pk nm0 by (simp add: keyboard_handler_def inb_def cli_def s0_def plain_key_def no_modifiers_def Let_def)
  qed
  have kp: "key_press ex x0 sc s0 = key_store k s1"
    using pk nm0 aget_kbd [of sc] s1(1) by (simp add: key_press_def plain_key_def no_modifiers_def k_def)
  have room1: "buf_index s1 ! act s1 < 127" using room r q by simp
  have e: "act s1 = act s" "active_term s1 = active_term s" "kbuf s1 = kbuf s" "buf_index s1 = buf_index s"
    "ind_entered s1 = ind_entered s" "fflag s1 = fflag s" using r q by simp_all
  have v: "video_shows s \<longrightarrow> video_shows s1" using s1(4) q by (simp add: screen_step_def)
  have so: "screen_of s1 = screen_put k (screen_of s)" using s1(3) q by simp
  have ts: "term_step s s1" using term_step_repaint [OF rp] term_step_trans [of s s0 s1] by (simp add: s0_def)
  from key_store_spec [OF ok1 room1, of k] nm1 v so term_step_trans [OF ts] show ?thesis
    unfolding h kp e bi_def row_def by metis
qed

lemma release_spec:
  assumes "release sc" and "no_modifiers s"
  shows "keyboard_handler (\<lambda>_ _. sc) ex x0 s =
    Some (Inr (s\<lparr>io := io s @ [In 0x60 sc, Out 0x20 0x61], iflag := True\<rparr>))"
proof -
  have "sc \<notin> {0x3A, 0x2A, 0x36, 0x1D, 0x38, 0x0E, 0x0F}" "\<not> sc \<le> 0x80" using assms(1) by (auto simp: release_def)
  then show ?thesis using assms
    by (simp add: keyboard_handler_def inb_def cli_def no_modifiers_def release_def done_kbd_handle_eq Let_def)
qed

text \<open>The characters of a sequence of scan codes.\<close>

definition typed :: "u8 list \<Rightarrow> u8 list" where
  "typed scs = map key_char (filter plain_key scs)"

definition key_irq ::
  "('a keyboard_scheme \<Rightarrow> 'a keyboard_scheme run) \<Rightarrow> u8 \<Rightarrow> u8 \<Rightarrow> 'a keyboard_scheme \<Rightarrow> 'a keyboard_scheme run" where
  "key_irq ex x0 sc = keyboard_handler (\<lambda>_ _. sc) ex x0"

lemma plain_not_release: "plain_key sc \<Longrightarrow> \<not> release sc"
  by (auto simp: plain_key_def release_def)

text \<open>
  While the reader waits: the keys of a line without Enter are collected in order behind the line
  so far, and Enter ends the wait with the length of the line.
\<close>

theorem wait_line:
  assumes "kbd_ok s" and "no_modifiers s" and "\<not> fflag s"
    and "\<forall>sc\<in>set scs. plain_key sc \<or> release sc" and "0x0A \<notin> set (typed scs)"
    and "plain_key enter" "key_char enter = 0x0A"
    and "length (line s) + length (typed scs) < 127"
  shows "\<exists>s'. wait_fflag (map (key_irq ex x0) (scs @ [enter])) s = Some (Inr s') \<and> kbd_ok s' \<and> no_modifiers s' \<and> fflag s' \<and>
    active_term s' = active_term s \<and> screen_of s' = fold screen_put (typed scs @ [0x0A]) (screen_of s) \<and>
    kbuf s' ! act s = line s @ typed scs @ [0x0A] @ drop (length (line s) + length (typed scs) + 1) (kbuf s ! act s) \<and>
    ind_entered s' = (ind_entered s)[act s := int (length (line s) + length (typed scs) + 1)] \<and> term_step s s'"
  using assms
proof (induction scs arbitrary: s)
  case Nil
  note d = kbd_okD [OF Nil.prems(1)]
  have ll: "length (line s) = nat (buf_index s ! act s)" using d by (simp add: line_def)
  have "buf_index s ! act s < 127" using Nil.prems(8) ll by (simp add: typed_def)
  from plain_key_spec [OF Nil.prems(1) this Nil.prems(2,6), of ex x0] obtain s' where
    s': "key_irq ex x0 enter s = Some (Inr s')" "kbd_ok s'" "screen_of s' = screen_put 0x0A (screen_of s)" "no_modifiers s'"
    "active_term s' = active_term s" "kbuf s' ! act s = (kbuf s ! act s)[nat (buf_index s ! act s) := 0x0A]" "fflag s'"
    "ind_entered s' = (ind_entered s)[act s := buf_index s ! act s + 1]" "term_step s s'"
    using Nil.prems(7) unfolding key_irq_def by auto
  have "kbuf s' ! act s = line s @ [0x0A] @ drop (length (line s) + 1) (kbuf s ! act s)"
    using s'(6) d by (simp add: ll line_def upd_conv_take_nth_drop)
  then show ?case using s' Nil.prems(3) d ll by (simp add: typed_def add.commute)
next
  case (Cons sc scs)
  note d = kbd_okD [OF Cons.prems(1)]
  have ll: "length (line s) = nat (buf_index s ! act s)" using d by (simp add: line_def)
  show ?case
  proof (cases "plain_key sc")
    case True
    let ?k = "key_char sc" and ?bi = "buf_index s ! act s"
    have t: "typed (sc # scs) = ?k # typed scs" using True by (simp add: typed_def)
    have k: "?k \<noteq> 0x0A" using Cons.prems(5) by (simp add: t)
    have room: "?bi < 127" using Cons.prems(8) ll by (simp add: t)
    from plain_key_spec [OF Cons.prems(1) room Cons.prems(2) True, of ex x0] obtain s1 where
      s1: "key_irq ex x0 sc s = Some (Inr s1)" "kbd_ok s1" "screen_of s1 = screen_put ?k (screen_of s)" "no_modifiers s1"
      "active_term s1 = active_term s" "kbuf s1 ! act s = (kbuf s ! act s)[nat ?bi := ?k]" "buf_index s1 ! act s = ?bi + 1"
      "\<not> fflag s1" "ind_entered s1 = ind_entered s" "term_step s s1"
      using k Cons.prems(3) unfolding key_irq_def by auto
    have li: "line s1 = line s @ [?k]"
    proof -
      have "nat ?bi < length (kbuf s ! act s)" using d room by simp
      then show ?thesis using s1(5-7) d by (simp add: line_def nat_add_distrib take_Suc_update)
    qed
    have dr: "drop (length (line s1) + length (typed scs) + 1) (kbuf s1 ! act s) = drop (length (line s) + length (typed (sc # scs)) + 1) (kbuf s ! act s)"
      unfolding s1(6) li t using ll by (simp add: drop_update_cancel)
    have "length (line s1) + length (typed scs) < 127" using Cons.prems(8) by (simp add: t li)
    then show ?thesis
      using Cons.IH [OF s1(2,4,8) _ _ Cons.prems(6,7)] Cons.prems(3-5) s1(1,3,5,9) dr term_step_trans [OF s1(10)]
      by (force simp: t li)
  next
    case False
    then have rel: "release sc" using Cons.prems(4) by simp
    define s1 where "s1 = s\<lparr>io := io s @ [In 0x60 sc, Out 0x20 0x61], iflag := True\<rparr>"
    note q = quiet [where s = s and es = "io s @ [In 0x60 sc, Out 0x20 0x61]" and b = True, folded s1_def]
    have t: "typed (sc # scs) = typed scs" using False by (simp add: typed_def)
    have "key_irq ex x0 sc s = Some (Inr s1)" unfolding key_irq_def s1_def by (rule release_spec [OF rel Cons.prems(2)])
    moreover have "term_step s s1" by (simp add: s1_def)
    ultimately show ?thesis using Cons.IH [of s1] Cons.prems q term_step_trans [of s s1] unfolding t by force
  qed
qed

subsection \<open>Reading a line\<close>

lemma row_strcpy_stores:
  assumes "i \<le> k" and "k < length row" and "row ! k = 0" and "\<And>j. j < k \<Longrightarrow> row ! j \<noteq> 0" and "length row < 2 ^ 32"
  shows "row_strcpy (stores m dest (take i row)) dest row i = Inr (stores m dest (take k row @ [0]))"
  using assms(1)
proof (induction "k - i" arbitrary: i)
  case 0
  then have "i = k" by simp
  then show ?case
    using assms stores_snoc [of "take k row" m dest 0] by (subst row_strcpy.simps) (simp add: min_def)
next
  case (Suc n)
  then have i: "i < k" by simp
  have "st (stores m dest (take i row)) dest (of_nat i) (row ! i) = stores m dest (take (Suc i) row)"
    using i assms(2,5) stores_snoc [of "take i row" m dest "row ! i"] by (simp add: take_Suc_conv_app_nth min_def)
  moreover have "n = k - Suc i" using Suc.hyps(2) by simp
  ultimately show ?case
    using Suc.hyps(1) [of "Suc i"] i assms(2,4) by (subst row_strcpy.simps) simp
qed

lemma row_strcpy_prefix:
  assumes "row = xs @ ys" and "0 \<notin> set xs" and "0 \<in> set ys" and "length row < 2 ^ 32"
  obtains zs where "row_strcpy m dest row 0 = Inr (stores m dest (xs @ zs @ [0]))" and "length (xs @ zs) < length row"
proof -
  obtain zs ws where yz: "ys = zs @ 0 # ws" "0 \<notin> set zs" using assms(3) split_list_first by metis
  let ?k = "length (xs @ zs)"
  have "row ! j \<noteq> 0" if "j < ?k" for j
  proof -
    have "row = (xs @ zs) @ 0 # ws" using assms(1) yz(1) by simp
    then have "row ! j = (xs @ zs) ! j" using that by (simp only: nth_append if_True)
    moreover have "(xs @ zs) ! j \<in> set (xs @ zs)" using that by (rule nth_mem)
    ultimately show ?thesis using assms(2) yz(2) by (metis Un_iff set_append)
  qed
  moreover have "row ! ?k = 0" "?k < length row" using assms(1) yz by (simp_all add: nth_append)
  ultimately have "row_strcpy m dest row 0 = Inr (stores m dest (take ?k row @ [0]))"
    using row_strcpy_stores [of 0 ?k row m dest] assms(4) by simp
  then show ?thesis using assms(1) yz by (intro that [of zs]) simp_all
qed

lemma clear_row:
  assumes ok: "kbd_ok s" and "length r = 1024" and "n \<le> 1024"
  shows "for_each_res [0..<n] (\<lambda>i s. buf_put (active_term s) (int i) 0x20 s) (with_line r j s) =
    Inr (with_line (replicate n 0x20 @ drop n r) j s)"
  using assms(3)
proof (induction n)
  case 0
  then show ?case by simp
next
  case (Suc n)
  have "buf_put (active_term s) (int n) 0x20 (with_line (replicate n 0x20 @ drop n r) j s) =
      Inr (with_line ((replicate n 0x20 @ drop n r)[n := 0x20]) j s)"
    using buf_put_with_line [OF ok, of "replicate n 0x20 @ drop n r" "int n" "0x20" j] assms(2) Suc.prems by simp
  moreover have "(replicate n 0x20 @ drop n r)[n := 0x20] = replicate (Suc n) 0x20 @ drop (Suc n) r"
  proof -
    have "drop n r = r ! n # drop (Suc n) r" using Suc.prems assms(2) by (simp add: Cons_nth_drop_Suc)
    then show ?thesis by (simp add: list_update_append replicate_append_same)
  qed
  ultimately show ?case using Suc by (simp add: for_each_res_append)
qed

theorem read_terminal_line:
  assumes ok: "kbd_ok s" and nm: "no_modifiers s" and nf: "\<not> fflag s"
    and scs: "\<forall>sc\<in>set scs. plain_key sc \<or> release sc" and chars: "0x0A \<notin> set (typed scs)" "0 \<notin> set (typed scs)"
    and ent: "plain_key enter" "key_char enter = 0x0A" and len: "length (typed scs) < 127"
    and nul: "0 \<in> set (drop 128 (kbuf s ! act s))" and nb: "0 \<le> nbytes" "nbytes \<le> 1024"
  shows "\<exists>m' s'. read_terminal (map (key_irq ex x0) (scs @ [enter])) m buf1 nbytes s =
      Some (Inr (int (length (typed scs) + 1), m', s')) \<and>
    (\<exists>zs. m' = stores m buf1 (typed scs @ [0x0A] @ zs) \<and> length (typed scs @ [0x0A] @ zs) \<le> 1024) \<and>
    kbd_ok s' \<and> line s' = [] \<and> \<not> fflag s' \<and> term_step s s' \<and>
    (127 \<le> nbytes \<longrightarrow> drop (nat nbytes) (kbuf s' ! act s) = drop (nat nbytes) (kbuf s ! act s)) \<and>
    screen_of s' = fold screen_put (typed scs @ [0x0A]) (screen_of s)"
proof -
  let ?t = "typed scs" and ?row = "kbuf s ! act s"
  note d = kbd_okD [OF ok]
  let ?s1 = "with_line ?row 0 s"
  define s2 where "s2 = ?s1\<lparr>ind_entered := (ind_entered s)[act s := nbytes]\<rparr>"
  have ok1: "kbd_ok ?s1" using d by (intro kbd_ok_with_line [OF ok]) simp_all
  have ok2: "kbd_ok s2" using ok1 by (simp add: s2_def kbd_ok_def console_ok_def video_frame_def page_frame_def)
  have a: "set_buf_index 0 s = Inr ?s1"
    using set_buf_index_with_line [OF ok, of 0 ?row "buf_index s ! act s"] with_line_self [OF ok] by simp
  have b: "set_ind_entered nbytes ?s1 = Inr s2" using d by (simp add: set_ind_entered_def aset_def s2_def)
  have e2: "act s2 = act s" "active_term s2 = active_term s" "kbuf s2 ! act s = ?row" "\<not> fflag s2" "no_modifiers s2" "line s2 = []"
    "screen_of s2 = screen_of s" "length (ind_entered s2) = 6" "ind_entered s2 = (ind_entered s)[act s := nbytes]"
    using d nf nm with_line_line [OF ok, of ?row 0] ok2
    by (simp_all add: s2_def no_modifiers_def line_def screen_of_def with_line_def kbd_ok_def)
  obtain s3 where s3: "wait_fflag (map (key_irq ex x0) (scs @ [enter])) s2 = Some (Inr s3)" "kbd_ok s3"
    "active_term s3 = active_term s" "screen_of s3 = fold screen_put (?t @ [0x0A]) (screen_of s)"
    "kbuf s3 ! act s = ?t @ [0x0A] @ drop (length ?t + 1) ?row"
    "ind_entered s3 = (ind_entered s)[act s := int (length ?t + 1)]" "term_step s2 s3"
    using wait_line [OF ok2 e2(5,4) scs chars(1) ent] len unfolding e2 by (auto simp: e2)
  define s4 where "s4 = s3\<lparr>fflag := False\<rparr>"
  have ok4: "kbd_ok s4" using s3(2) by (simp add: s4_def kbd_ok_def console_ok_def video_frame_def page_frame_def)
  have r3: "length (kbuf s3 ! act s3) = 1024" using kbd_okD(6) [OF s3(2)] .
  have "set (drop 128 ?row) \<subseteq> set (drop (length ?t + 1) ?row)" using len by (intro set_drop_subset_set_drop) simp
  then have "0 \<in> set (drop (length ?t + 1) ?row)" using nul by blast
  moreover have "kbuf s4 ! act s4 = (?t @ [0x0A]) @ drop (length ?t + 1) ?row" using s3(3,5) by (simp add: s4_def)
  ultimately obtain zs where cp: "row_strcpy m buf1 (kbuf s4 ! act s4) 0 = Inr (stores m buf1 ((?t @ [0x0A]) @ zs @ [0]))"
    and lz: "length ((?t @ [0x0A]) @ zs) < length (kbuf s4 ! act s4)"
    using row_strcpy_prefix [of "kbuf s4 ! act s4" "?t @ [0x0A]" "drop (length ?t + 1) ?row" m buf1] chars kbd_okD(6) [OF ok4]
    by (auto simp del: append_assoc)
  let ?m = "stores m buf1 ((?t @ [0x0A]) @ zs @ [0])"
  define s5 where "s5 = with_line (replicate (nat nbytes) 0x20 @ drop (nat nbytes) (kbuf s4 ! act s4)) 0 s4"
  have l4: "length (kbuf s4 ! act s4) = 1024" using kbd_okD(6) [OF ok4] .
  have loop: "for_each_res [0..<nat nbytes] (\<lambda>i s. buf_put (active_term s) (int i) 0x20 s) s4 =
      Inr (with_line (replicate (nat nbytes) 0x20 @ drop (nat nbytes) (kbuf s4 ! act s4)) (buf_index s4 ! act s4) s4)"
    using clear_row [OF ok4 l4, of "nat nbytes" "buf_index s4 ! act s4"] nb by (simp add: with_line_self [OF ok4])
  have cb: "clear_buffer m nbytes buf1 s4 = Inr (?m, s5)"
    using cp loop kbd_okD [OF ok4] by (simp add: clear_buffer_def aget_def set_buf_index_with_line [OF ok4] s5_def)
  have ie: "aget ''ind_entered'' (ind_entered s5) (active_term s5) = Inr (int (length ?t + 1))"
    using s3(3,6) d by (simp add: s5_def s4_def aget_def)
  have "read_terminal (map (key_irq ex x0) (scs @ [enter])) m buf1 nbytes s = Some (Inr (int (length ?t + 1), ?m, s5))"
    unfolding read_terminal_def a b obind_simps s3(1) Let_def s4_def [symmetric] cb by (simp add: ie)
  moreover have "\<exists>zs. ?m = stores m buf1 (?t @ [0x0A] @ zs) \<and> length (?t @ [0x0A] @ zs) \<le> 1024"
    using lz l4 by (intro exI [of _ "zs @ [0]"]) simp
  moreover have "kbd_ok s5" unfolding s5_def using nb l4 by (intro kbd_ok_with_line [OF ok4]) simp_all
  moreover have "line s5 = []" unfolding s5_def using with_line_line(3) [OF ok4] by simp
  moreover have "\<not> fflag s5" "screen_of s5 = fold screen_put (?t @ [0x0A]) (screen_of s)"
  proof -
    have "screen_of s4 = screen_of s3" by (simp add: s4_def screen_of_def)
    then show "screen_of s5 = fold screen_put (?t @ [0x0A]) (screen_of s)" using s3(4) by (simp add: s5_def)
    show "\<not> fflag s5" by (simp add: s5_def s4_def)
  qed
  moreover have "term_step s s5" using s3(7) term_step_trans [of s s2 s3] by (simp add: s5_def s4_def s2_def)
  moreover have "drop (nat nbytes) (kbuf s5 ! act s) = drop (nat nbytes) ?row" if "127 \<le> nbytes"
  proof -
    have "kbuf s5 ! act s4 = replicate (nat nbytes) 0x20 @ drop (nat nbytes) (kbuf s4 ! act s4)"
      unfolding s5_def by (rule with_line_line(1) [OF ok4])
    moreover have "act s4 = act s" "kbuf s4 ! act s4 = (?t @ [0x0A]) @ drop (length ?t + 1) ?row" using s3(3,5) by (simp_all add: s4_def)
    moreover have "drop n (ys @ drop (length ys) zs) = drop n zs" if "length ys \<le> n" for n and ys zs :: "u8 list"
      using that by simp
    from this [of "?t @ [0x0A]" "nat nbytes" ?row] have "drop (nat nbytes) ((?t @ [0x0A]) @ drop (length ?t + 1) ?row) = drop (nat nbytes) ?row"
      using that len by (simp add: nat_le_iff)
    ultimately show ?thesis using that by simp
  qed
  ultimately show ?thesis by blast
qed

end
