(* ===== verification/Rtc.thy ===== *)
theory Rtc
  imports Keyboard
begin

text \<open>
  student-distrib/rtc.c: programming the periodic interrupt of the real-time clock, its handler,
  and \<open>rtc_read\<close>, which waits for the next tick.  What a port returns is the parameter \<open>hw\<close>;
  \<open>cmos\<close> names the documented behaviour of the clock chip that the code relies on.
\<close>

abbreviation RTC_PORT :: u16 where "RTC_PORT \<equiv> 0x70"
abbreviation CMOS_PORT :: u16 where "CMOS_PORT \<equiv> 0x71"
abbreviation REG_A :: u8 where "REG_A \<equiv> 0x8A"
abbreviation REG_B :: u8 where "REG_B \<equiv> 0x8B"

definition rtc_init :: "hardware \<Rightarrow> 'a machine_scheme \<Rightarrow> 'a machine_scheme" where
  "rtc_init hw s =
     (case inb hw RTC_PORT s of (v, s) \<Rightarrow>
      let s = outb (v AND 0x7F) RTC_PORT s;
          s = outb REG_A RTC_PORT s
      in case inb hw CMOS_PORT s of (prev, s) \<Rightarrow>
      let s = outb REG_A RTC_PORT s;
          s = outb ((prev AND 0xF0) OR 10) CMOS_PORT s;
          s = outb REG_B RTC_PORT s
      in case inb hw CMOS_PORT s of (prev, s) \<Rightarrow>
      let s = outb REG_B RTC_PORT s;
          s = outb ((prev AND 0xF0) OR 0x40) CMOS_PORT s
      in case inb hw (RTC_PORT OR 0x80) s of (v, s) \<Rightarrow> outb v RTC_PORT s)"

definition rate_of :: "u32 \<Rightarrow> u8 option" where
  "rate_of freq =
     (if freq = 2 then Some 15 else if freq = 4 then Some 14 else if freq = 8 then Some 13
      else if freq = 16 then Some 12 else if freq = 32 then Some 11 else if freq = 64 then Some 10
      else if freq = 128 then Some 9 else if freq = 256 then Some 8 else if freq = 512 then Some 7
      else if freq = 1024 then Some 6 else None)"

definition rtc_write :: "hardware \<Rightarrow> u32 \<Rightarrow> 'a machine_scheme \<Rightarrow> 'a machine_scheme" where
  "rtc_write hw freq s =
     (case rate_of freq of
        None \<Rightarrow> s
      | Some rate \<Rightarrow>
      (case inb hw RTC_PORT s of (v, s) \<Rightarrow>
      let s = outb (v AND 0x7F) RTC_PORT s;
          s = outb REG_A RTC_PORT s
      in case inb hw CMOS_PORT s of (prev, s) \<Rightarrow>
      let s = outb REG_A RTC_PORT s;
          s = outb ((prev AND 0xF0) OR rate) CMOS_PORT s;
          s = outb REG_B RTC_PORT s
      in case inb hw CMOS_PORT s of (prev, s) \<Rightarrow>
      let s = outb REG_B RTC_PORT s;
          s = outb ((prev AND 0xF0) OR 0x40) CMOS_PORT s
      in case inb hw (RTC_PORT OR 0x80) s of (v, s) \<Rightarrow> outb v RTC_PORT s))"

definition periodic_interrupt_handler :: "hardware \<Rightarrow> 'a rtc_scheme \<Rightarrow> 'a rtc_scheme run" where
  "periodic_interrupt_handler hw s =
     (let s = cli s;
          s = s\<lparr>interrupt_count := True\<rparr>;
          s = outb 0x0C RTC_PORT s;
          s = snd (inb hw CMOS_PORT s)
      in obind (do_events s) (\<lambda>s. Some (Inr (send_eoi 8 (sti s)))))"

fun rtc_read :: "('a rtc_scheme \<Rightarrow> 'a rtc_scheme run) list \<Rightarrow> 'a rtc_scheme \<Rightarrow> (u32 \<times> 'a rtc_scheme) run" where
  "rtc_read irqs s =
     (if interrupt_count s then Some (Inr (0, s\<lparr>interrupt_count := False\<rparr>))
      else case irqs of [] \<Rightarrow> None | irq # irqs \<Rightarrow> obind (irq s) (rtc_read irqs))"

definition rtc_open :: u32 where
  "rtc_open = 0"

definition rtc_close :: u32 where
  "rtc_close = 0"

text \<open>
  The registers of the clock after a history of port accesses: a byte written to port 0x70 selects
  a register (bit 7 is the NMI switch), a byte written to port 0x71 goes to the selected register.
\<close>

definition cmos_step :: "io_event \<Rightarrow> u8 \<times> (u8 \<Rightarrow> u8) \<Rightarrow> u8 \<times> (u8 \<Rightarrow> u8)" where
  "cmos_step e c = (case e of
      Out p v \<Rightarrow> if p = RTC_PORT then (v AND 0x7F, snd c)
                 else if p = CMOS_PORT then (fst c, (snd c)(fst c := v)) else c
    | In p v \<Rightarrow> c)"

definition cmos_regs :: "(u8 \<Rightarrow> u8) \<Rightarrow> io_event list \<Rightarrow> u8 \<times> (u8 \<Rightarrow> u8)" where
  "cmos_regs r0 es = fold cmos_step es (0, r0)"

definition cmos :: "(u8 \<Rightarrow> u8) \<Rightarrow> hardware \<Rightarrow> bool" where
  "cmos r0 hw \<longleftrightarrow> (\<forall>es. hw es CMOS_PORT = (case cmos_regs r0 es of (i, r) \<Rightarrow> r i))"

text \<open>The frequency the chip runs at for a rate in the low bits of register A.\<close>

definition rtc_hz :: "(u8 \<Rightarrow> u8) \<Rightarrow> nat" where
  "rtc_hz r = 2 ^ 15 div 2 ^ (unat (r 0x0A AND 0x0F) - 1)"

lemma cmos_regs_snoc: "cmos_regs r0 (es @ [e]) = cmos_step e (cmos_regs r0 es)"
  by (simp add: cmos_regs_def)

theorem rtc_write_sets:
  assumes hw: "cmos r0 hw" and f: "freq = push_bit k 1" "1 \<le> k" "k \<le> 10"
    and old: "cmos_regs r0 (io s) = (i, r)"
  obtains i' where "cmos_regs r0 (io (rtc_write hw freq s)) =
    (i', r(0x0A := (r 0x0A AND 0xF0) OR (16 - of_nat k), 0x0B := (r 0x0B AND 0xF0) OR 0x40))"
proof -
  have "k = 1 \<or> k = 2 \<or> k = 3 \<or> k = 4 \<or> k = 5 \<or> k = 6 \<or> k = 7 \<or> k = 8 \<or> k = 9 \<or> k = 10"
    using f(2,3) by arith
  then have rate: "rate_of freq = Some (16 - of_nat k)"
    using f(1) by (auto simp: rate_of_def)
  have h: "hw es CMOS_PORT = snd (cmos_regs r0 es) (fst (cmos_regs r0 es))" for es
    using hw by (simp add: cmos_def split_def)
  show ?thesis
    by (rule that)
       (simp add: rtc_write_def rate inb_def outb_def Let_def cmos_regs_snoc cmos_step_def old h flip: append_assoc)
qed

text \<open>The programmed rate is the requested frequency.\<close>

theorem rtc_write_frequency:
  assumes "cmos r0 hw" and "1 \<le> k" "k \<le> 10"
  shows "rtc_hz (snd (cmos_regs r0 (io (rtc_write hw (push_bit k 1) s)))) = 2 ^ k"
    and "bit (snd (cmos_regs r0 (io (rtc_write hw (push_bit k 1) s))) 0x0B) 6"
proof -
  obtain i r where old: "cmos_regs r0 (io s) = (i, r)" by fastforce
  obtain i' where new: "cmos_regs r0 (io (rtc_write hw (push_bit k 1) s)) =
    (i', r(0x0A := (r 0x0A AND 0xF0) OR (16 - of_nat k), 0x0B := (r 0x0B AND 0xF0) OR 0x40))"
    using rtc_write_sets [OF assms(1) refl assms(2,3) old] by blast
  have k: "k = 1 \<or> k = 2 \<or> k = 3 \<or> k = 4 \<or> k = 5 \<or> k = 6 \<or> k = 7 \<or> k = 8 \<or> k = 9 \<or> k = 10"
    using assms(2,3) by arith
  have m: "((a AND 0xF0) OR b) AND 0x0F = b AND 0x0F" for a b :: u8
  proof -
    have "(0xF0 AND 0x0F :: u8) = 0" by simp
    then have "(a AND 0xF0) AND 0x0F = (0 :: u8)" by (simp only: and.assoc) simp
    then show ?thesis by (simp add: bit.conj_disj_distrib2)
  qed
  show "rtc_hz (snd (cmos_regs r0 (io (rtc_write hw (push_bit k 1) s)))) = 2 ^ k"
    unfolding new rtc_hz_def using k by (auto simp: m)
  show "bit (snd (cmos_regs r0 (io (rtc_write hw (push_bit k 1) s))) 0x0B) 6"
    unfolding new by (simp add: bit_simps)
qed

lemma rtc_write_ignored: "rate_of freq = None \<Longrightarrow> rtc_write hw freq s = s"
  by (simp add: rtc_write_def)

lemma rate_of_Some_iff: "(\<exists>r. rate_of freq = Some r) \<longleftrightarrow> (\<exists>k. 1 \<le> k \<and> k \<le> 10 \<and> freq = push_bit k 1)"
proof
  assume "\<exists>r. rate_of freq = Some r"
  then have "freq \<in> {push_bit k 1 | k. 1 \<le> k \<and> k \<le> 10}"
    by (auto simp: rate_of_def split: if_splits intro: exI [of _ 1] exI [of _ 2] exI [of _ 3] exI [of _ 4]
        exI [of _ 5] exI [of _ 6] exI [of _ 7] exI [of _ 8] exI [of _ 9] exI [of _ 10])
  then show "\<exists>k. 1 \<le> k \<and> k \<le> 10 \<and> freq = push_bit k 1" by blast
next
  assume "\<exists>k. 1 \<le> k \<and> k \<le> 10 \<and> freq = push_bit k 1"
  then obtain k where k: "1 \<le> k" "k \<le> 10" "freq = push_bit k 1" by blast
  then have "k = 1 \<or> k = 2 \<or> k = 3 \<or> k = 4 \<or> k = 5 \<or> k = 6 \<or> k = 7 \<or> k = 8 \<or> k = 9 \<or> k = 10" by arith
  then show "\<exists>r. rate_of freq = Some r" using k(3) by (auto simp: rate_of_def)
qed

end
