(* ===== verification/Sys_Call.thy ===== *)
theory Sys_Call
  imports Filesys Rtc Slot_Alloc Stream_Reader
begin

text \<open>
  student-distrib/sys_call.c and the dispatcher of sys_call_jmptable.S: the process control blocks,
  the descriptor tables, the four tables of file operations, and the system calls.

  A process control block is an object of type \<open>pcb_t\<close> at a physical address (\<open>pcbs\<close>): the code
  reaches it through virtual addresses, which \<open>translate\<close> resolves under the current page
  directory.  The bytes of buffers, strings and the file system image are in \<open>ram\<close>; the local
  arrays of a function are named blocks of it, so what C leaves uninitialised is what the block
  happens to hold.  Operations that wait take the interrupts that arrive meanwhile.
\<close>

text \<open>The four tables of file operations of sys_call.h; \<open>Wild\<close> is any other pointer value.\<close>

datatype fotp = Otp_terminal | Otp_dir | Otp_rtc | Otp_file | Wild u32

record fd_t =
  fd_fotp :: fotp
  fd_inode :: u32
  fd_fp :: u32
  fd_flags :: u32

record pcb_t =
  pcb_fd :: "fd_t list"
  old_pcb :: u32
  kstack :: u32
  old_ebp :: u32
  pcb_proc_id :: int

record kernel = filesys +
  ram :: mem
  pcbs :: "u32 \<Rightarrow> pcb_t"

text \<open>How a system call ends: with a value, in user mode, back in the parent's \<open>execute\<close>, or at \<open>exit_shell\<close>.\<close>

datatype outcome = Ret u32 | Enter u32 u32 | Usr_end | Exit_shell

abbreviation args_p :: ptr where "args_p \<equiv> (Obj ''args'', 0)"

text \<open>
  The object behind a virtual address: a byte of the program page of a slot, or of physical memory below
  8 MB.  \<open>ram\<close> is about the program pages, the local arrays and the strings of the kernel.  The kernel's own
  objects below 8 MB (the directories \<open>PDE\<close>, the table \<open>PTE\<close>, the control blocks, the stacks, the video frames)
  are fields of the state.  The code checks no pointer it gets from a program, so it would read and write those
  objects through a stray pointer, or take a page fault.  Here the run of such a call ends with an error value:
  a call that uses an address outside the program page of a slot has no result, and no theorem
  says that it returns.  A buffer that starts in the program page is taken to lie in it.
\<close>

definition user_ptr :: "'a paging_scheme \<Rightarrow> u32 \<Rightarrow> ptr" where
  "user_ptr s a = (case translate s a of
      None \<Rightarrow> (Obj ''unmapped'', a)
    | Some (p, _) \<Rightarrow> if p < 0x800000 then (Flat, p) else (User (unat (drop_bit 22 p) - 2), p AND 0x3FFFFF))"

definition own_ptr :: "ptr \<Rightarrow> bool" where
  "own_ptr p \<longleftrightarrow> (case fst p of User _ \<Rightarrow> True | _ \<Rightarrow> False)"

definition stray :: "'a paging_scheme \<Rightarrow> u32 \<Rightarrow> fault" where
  "stray s a = Bad_index (if translate s a = None then ''page fault'' else ''kernel memory'') (uint a)"

lemma own_ptr_User [simp]: "own_ptr (User k, x)"
  by (simp add: own_ptr_def)

definition pcb_phys :: "'a paging_scheme \<Rightarrow> u32 \<Rightarrow> u32 res" where
  "pcb_phys s v = (case translate s v of
      None \<Rightarrow> Inl (Bad_index ''page fault'' (uint v)) | Some (p, _) \<Rightarrow> Inr p)"

definition get_curr_pcb :: "'a kernel_scheme \<Rightarrow> u32 res" where
  "get_curr_pcb s = pcb_phys s (esp s AND 0xFFFE000)"

definition get_fd :: "u32 \<Rightarrow> 'a kernel_scheme \<Rightarrow> fd_t res" where
  "get_fd i s = rbind (get_curr_pcb s) (\<lambda>a. aget ''fd'' (pcb_fd (pcbs s a)) (uint i))"

definition upd_fd :: "u32 \<Rightarrow> (fd_t \<Rightarrow> fd_t) \<Rightarrow> 'a kernel_scheme \<Rightarrow> 'a kernel_scheme res" where
  "upd_fd i f s =
     rbind (get_curr_pcb s) (\<lambda>a.
     rbind (aget ''fd'' (pcb_fd (pcbs s a)) (uint i)) (\<lambda>e.
     rbind (aset ''fd'' (pcb_fd (pcbs s a)) (uint i) (f e)) (\<lambda>fds.
     Inr (s\<lparr>pcbs := (pcbs s)(a := (pcbs s a)\<lparr>pcb_fd := fds\<rparr>)\<rparr>))))"

subsection \<open>The file operations\<close>

abbreviation fopen_dentry :: ptr where "fopen_dentry \<equiv> (Obj ''file_open.myDentry'', 0)"

definition file_open :: "u32 \<Rightarrow> u32 \<Rightarrow> ptr \<Rightarrow> 'a kernel_scheme \<Rightarrow> (u32 \<times> 'a kernel_scheme) run" where
  "file_open check fd fname s =
     (case read_dentry_by_name (ram s) s check fname fopen_dentry of
        None \<Rightarrow> None
      | Some (r, m) \<Rightarrow>
          let s = s\<lparr>ram := m\<rparr>
          in if 0 > sint r then Some (Inr (- 1, s))
             else obind (Some (upd_fd fd (\<lambda>e. e\<lparr>fd_inode := ld32 m (padd fopen_dentry 36)\<rparr>) s)) (\<lambda>s.
               Some (Inr (0, s))))"

definition fnc_fopen :: "u32 \<Rightarrow> u32 \<Rightarrow> ptr \<Rightarrow> 'a kernel_scheme \<Rightarrow> (u32 \<times> 'a kernel_scheme) run" where
  "fnc_fopen check fd my_buf s = file_open check fd my_buf s"

definition fnc_fread :: "u32 \<Rightarrow> ptr \<Rightarrow> u32 \<Rightarrow> 'a kernel_scheme \<Rightarrow> (u32 \<times> 'a kernel_scheme) res" where
  "fnc_fread fd my_buf nbytes s =
     rbind (get_fd fd s) (\<lambda>e.
     case read_data (ram s) s (fd_inode e) (fd_fp e) my_buf nbytes of (bytes_read, m) \<Rightarrow>
     rbind (upd_fd fd (\<lambda>e. e\<lparr>fd_fp := fd_fp e + bytes_read\<rparr>) (s\<lparr>ram := m\<rparr>)) (\<lambda>s.
     Inr (bytes_read, s)))"

definition fnc_term_read ::
  "('a kernel_scheme \<Rightarrow> 'a kernel_scheme run) list \<Rightarrow> ptr \<Rightarrow> u32 \<Rightarrow> 'a kernel_scheme \<Rightarrow> (u32 \<times> 'a kernel_scheme) run" where
  "fnc_term_read irqs my_buf nbytes s =
     obind (read_terminal irqs (ram s) my_buf (sint nbytes) s) (\<lambda>(r, m, s).
       Some (Inr (word_of_int r, s\<lparr>ram := m\<rparr>)))"

definition fnc_term_write :: "ptr \<Rightarrow> u32 \<Rightarrow> 'a kernel_scheme \<Rightarrow> (u32 \<times> 'a kernel_scheme) res" where
  "fnc_term_write my_buf nbytes s =
     rbind (write_terminal (ram s) my_buf (sint nbytes) s) (\<lambda>(r, s). Inr (word_of_int r, s))"

definition fnc_rtc_write :: "hardware \<Rightarrow> ptr \<Rightarrow> 'a kernel_scheme \<Rightarrow> u32 \<times> 'a kernel_scheme" where
  "fnc_rtc_write hw my_buf s = (0, rtc_write hw (ld32 (ram s) my_buf) s)"

definition fnc_dir_read :: "ptr \<Rightarrow> 'a kernel_scheme \<Rightarrow> u32 \<times> 'a kernel_scheme" where
  "fnc_dir_read my_buf s = (case dir_read (ram s) my_buf s of (r, m, s) \<Rightarrow> (r, s\<lparr>ram := m\<rparr>))"

text \<open>The three calls through a table of file operations.\<close>

definition fotp_open :: "fotp \<Rightarrow> u32 \<Rightarrow> u32 \<Rightarrow> ptr \<Rightarrow> 'a kernel_scheme \<Rightarrow> (u32 \<times> 'a kernel_scheme) run" where
  "fotp_open t check fd my_buf s = (case t of
      Otp_terminal \<Rightarrow> Some (Inr (open_terminal, s))
    | Otp_dir \<Rightarrow> Some (Inr (0, s))
    | Otp_rtc \<Rightarrow> Some (Inr (rtc_open, s))
    | Otp_file \<Rightarrow> fnc_fopen check fd my_buf s
    | Wild p \<Rightarrow> Some (Inl (Bad_index ''fotp'' (uint p))))"

definition fotp_read ::
  "fotp \<Rightarrow> ('a kernel_scheme \<Rightarrow> 'a kernel_scheme run) list \<Rightarrow> u32 \<Rightarrow> ptr \<Rightarrow> u32 \<Rightarrow> 'a kernel_scheme \<Rightarrow> (u32 \<times> 'a kernel_scheme) run" where
  "fotp_read t irqs fd my_buf nbytes s = (case t of
      Otp_terminal \<Rightarrow> fnc_term_read irqs my_buf nbytes s
    | Otp_dir \<Rightarrow> Some (Inr (fnc_dir_read my_buf s))
    | Otp_rtc \<Rightarrow> rtc_read irqs s
    | Otp_file \<Rightarrow> Some (fnc_fread fd my_buf nbytes s)
    | Wild p \<Rightarrow> Some (Inl (Bad_index ''fotp'' (uint p))))"

definition fotp_write :: "fotp \<Rightarrow> hardware \<Rightarrow> ptr \<Rightarrow> u32 \<Rightarrow> 'a kernel_scheme \<Rightarrow> (u32 \<times> 'a kernel_scheme) res" where
  "fotp_write t hw my_buf nbytes s = (case t of
      Otp_terminal \<Rightarrow> fnc_term_write my_buf nbytes s
    | Otp_dir \<Rightarrow> Inr (0, s)
    | Otp_rtc \<Rightarrow> Inr (fnc_rtc_write hw my_buf s)
    | Otp_file \<Rightarrow> Inr (file_write, s)
    | Wild p \<Rightarrow> Inl (Bad_index ''fotp'' (uint p)))"

subsection \<open>Opening, closing, reading and writing\<close>

abbreviation open_dentry :: ptr where "open_dentry \<equiv> (Obj ''sys_open.myDentry'', 0)"

text \<open>\<open>filename == ""\<close> compares with the address of the string literal.\<close>

abbreviation empty_literal :: ptr where "empty_literal \<equiv> (Obj ''literal'', 0)"

definition open_kind :: "u32 \<Rightarrow> fd_t \<Rightarrow> fd_t" where
  "open_kind file_type e =
     (if file_type = 0 then e\<lparr>fd_flags := fd_flags e OR 0x0, fd_inode := 0, fd_fotp := Otp_rtc\<rparr>
      else if file_type = 1 then e\<lparr>fd_flags := fd_flags e OR 0x2, fd_inode := 0, fd_fotp := Otp_dir\<rparr>
      else if file_type = 2 then e\<lparr>fd_flags := fd_flags e OR 0x4, fd_fotp := Otp_file, fd_fp := 0\<rparr>
      else e)"

definition sys_open :: "u32 \<Rightarrow> ptr \<Rightarrow> 'a kernel_scheme \<Rightarrow> (u32 \<times> 'a kernel_scheme) run" where
  "sys_open check filename s =
     obind (Some (get_curr_pcb s)) (\<lambda>a.
     let i = scan (\<lambda>i. fd_flags (pcb_fd (pcbs s a) ! i) AND 1 = 0) 2 8
     in if \<not> i < 8 then Some (Inr (- 1, s))
     else if filename = empty_literal then Some (Inr (- 1, s))
     else case read_dentry_by_name (ram s) s check filename open_dentry of
        None \<Rightarrow> None
      | Some (r, m) \<Rightarrow>
          let s = s\<lparr>ram := m\<rparr>; fd = of_nat i
          in if r = - 1 then Some (Inr (- 1, s))
          else obind (Some (upd_fd fd (\<lambda>e. open_kind (ld32 m (padd open_dentry 32)) (e\<lparr>fd_flags := 1\<rparr>)) s)) (\<lambda>s.
            obind (Some (get_fd fd s)) (\<lambda>e.
            obind (fotp_open (fd_fotp e) check fd filename s) (\<lambda>(r, s).
            if 0 > sint r
            then obind (Some (upd_fd fd (\<lambda>e. e\<lparr>fd_flags := 0\<rparr>) s)) (\<lambda>s. Some (Inr (- 1, s)))
            else Some (Inr (fd, sti s))))))"

definition sys_read ::
  "('a kernel_scheme \<Rightarrow> 'a kernel_scheme run) list \<Rightarrow> u32 \<Rightarrow> ptr \<Rightarrow> u32 \<Rightarrow> 'a kernel_scheme \<Rightarrow> (u32 \<times> 'a kernel_scheme) run" where
  "sys_read irqs fd my_buf nbytes s =
     (if fd > 7 \<or> fd = 1 then Some (Inr (- 1, s))
      else obind (Some (get_fd fd s)) (\<lambda>e.
        if fd_flags e AND 1 = 0 then Some (Inr (- 1, s))
        else fotp_read (fd_fotp e) irqs fd my_buf nbytes (sti s)))"

definition sys_write :: "hardware \<Rightarrow> u32 \<Rightarrow> ptr \<Rightarrow> u32 \<Rightarrow> 'a kernel_scheme \<Rightarrow> (u32 \<times> 'a kernel_scheme) res" where
  "sys_write hw fd my_buf nbytes s =
     (if fd \<le> 0 \<or> fd > 7 then Inr (- 1, s)
      else rbind (get_fd fd s) (\<lambda>e.
        if fd_flags e AND 1 = 0 then Inr (- 1, s)
        else fotp_write (fd_fotp e) hw my_buf nbytes s))"

definition sys_close :: "u32 \<Rightarrow> 'a kernel_scheme \<Rightarrow> (u32 \<times> 'a kernel_scheme) res" where
  "sys_close fd s =
     (if fd < 2 \<or> fd > 7 then Inr (- 1, s)
      else rbind (get_fd fd s) (\<lambda>e.
        if fd_flags e AND 1 = 0 then Inr (- 1, s)
        else rbind (upd_fd fd (\<lambda>e. e\<lparr>fd_flags := 0\<rparr>) s) (\<lambda>s. Inr (0, s))))"

subsection \<open>Arguments, video memory, stubs\<close>

function getargs_loop :: "mem \<Rightarrow> ptr \<Rightarrow> int \<Rightarrow> nat \<Rightarrow> mem \<times> nat \<times> bool" where
  "getargs_loop m buf1 nbytes i =
     (let c = ld m args_p (of_nat i)
      in if c \<noteq> 0x20 \<and> c \<noteq> 0 \<and> c \<noteq> 0x0A \<and> int i < nbytes then
           let m = st m buf1 (of_nat i) c
           in if i \<ge> 30 then (m, i, True) else getargs_loop m buf1 nbytes (Suc i)
         else (m, i, False))"
  by pat_completeness auto
termination
  by (relation "measure (\<lambda>(m, b, n, i). 31 - i)") auto

declare getargs_loop.simps [simp del]

definition getargs :: "ptr \<Rightarrow> int \<Rightarrow> 'a kernel_scheme \<Rightarrow> (u32 \<times> 'a kernel_scheme) option" where
  "getargs buf1 nbytes s =
     (if ld (ram s) args_p 0 = 0x0A \<or> ld (ram s) args_p 0 = 0 then Some (- 1, s)
      else case getargs_loop (ram s) buf1 nbytes 0 of (m, i, too_big) \<Rightarrow>
        if too_big then Some (- 1, s\<lparr>ram := m\<rparr>)
        else case strcpy m buf1 args_p of
          None \<Rightarrow> None
        | Some m \<Rightarrow> Some (0, s\<lparr>ram := st m buf1 (of_nat i) 0\<rparr>))"

definition sys_vidmap :: "u32 \<Rightarrow> 'a kernel_scheme \<Rightarrow> (u32 \<times> 'a kernel_scheme) res" where
  "sys_vidmap addr s =
     (if addr = 0x400000 then Inr (- 1, s)
      else if addr = 0 then Inr (- 1, s)
      else rbind (get_curr_pcb s) (\<lambda>a.
        let proc_id = pcb_proc_id (pcbs s a);
            s = pte_set 1 0xB8000 s;
            s = pte_set 1 (PTE s 1 OR CTRL_PTE_USR) s
        in if proc_id + 1 < 0 \<or> 8 \<le> proc_id + 1 then Inl (Bad_index ''PDE'' (proc_id + 1))
        else
          let j = nat (proc_id + 1);
              s = pde_set j 12 (PTE_base s) s;
              s = pde_set j 12 (PDE s j 12 AND 0xFFFFF000) s;
              s = pde_set j 12 (PDE s j 12 OR CTRL_VIDEO_USR) s;
              vid_addr = (push_bit 22 12 OR push_bit 12 1 :: u32)
          in if \<not> own_ptr (user_ptr s addr) then Inl (stray s addr)
          else
          let s = s\<lparr>ram := st32 (ram s) (user_ptr s addr) vid_addr\<rparr>
          in if ld32 (ram s) (user_ptr s addr) = vid_addr then Inr (0, s) else Inr (- 1, s)))"

definition sys_set_handler :: u32 where "sys_set_handler = - 1"
definition sys_sigreturn :: u32 where "sys_sigreturn = - 1"
definition sys_error :: u32 where "sys_error = - 1"

subsection \<open>The current process\<close>

text \<open>The control block of the running process is mapped and has its eight descriptors.\<close>

definition in_process :: "'a kernel_scheme \<Rightarrow> u32 \<Rightarrow> bool" where
  "in_process s a \<longleftrightarrow> get_curr_pcb s = Inr a \<and> length (pcb_fd (pcbs s a)) = 8"

lemma get_curr_pcb_eq:
  "\<lbrakk> PDE s = PDE s'; PTE s = PTE s'; PTE_base s = PTE_base s'; cr3 s = cr3 s'; esp s = esp s' \<rbrakk> \<Longrightarrow>
     get_curr_pcb s = get_curr_pcb s'"
  unfolding get_curr_pcb_def pcb_phys_def using translate_cong [of s s'] by (simp split: option.split)

lemma get_curr_pcb_cong [simp]:
  "get_curr_pcb (s\<lparr>ram := m\<rparr>) = get_curr_pcb s" "get_curr_pcb (s\<lparr>pcbs := h\<rparr>) = get_curr_pcb s"
  "get_curr_pcb (sti s) = get_curr_pcb s" "get_curr_pcb (s\<lparr>dir_index := k\<rparr>) = get_curr_pcb s"
  "get_curr_pcb (s\<lparr>iflag := b\<rparr>) = get_curr_pcb s"
  by (auto intro!: get_curr_pcb_eq simp: sti_def)

definition cur_fd :: "'a kernel_scheme \<Rightarrow> u32 \<Rightarrow> nat \<Rightarrow> fd_t" where
  "cur_fd s a i = pcb_fd (pcbs s a) ! i"

definition put_fd :: "u32 \<Rightarrow> nat \<Rightarrow> fd_t \<Rightarrow> 'a kernel_scheme \<Rightarrow> 'a kernel_scheme" where
  "put_fd a i e s = s\<lparr>pcbs := (pcbs s)(a := (pcbs s a)\<lparr>pcb_fd := (pcb_fd (pcbs s a))[i := e]\<rparr>)\<rparr>"

lemma uint_of_nat_fd: "i < 8 \<Longrightarrow> uint (of_nat i :: u32) = int i"
  by (simp add: unsigned_of_nat take_bit_nat_eq_self)

lemma get_fd_ok: "in_process s a \<Longrightarrow> i < 8 \<Longrightarrow> get_fd (of_nat i) s = Inr (cur_fd s a i)"
  by (simp add: get_fd_def in_process_def aget_def uint_of_nat_fd cur_fd_def)

lemma upd_fd_ok: "in_process s a \<Longrightarrow> i < 8 \<Longrightarrow> upd_fd (of_nat i) f s = Inr (put_fd a i (f (cur_fd s a i)) s)"
  by (simp add: upd_fd_def in_process_def aget_def aset_def uint_of_nat_fd cur_fd_def put_fd_def)

lemma put_fd_simps [simp]:
  "in_process (put_fd a i e s) b = in_process s b" "ram (put_fd a i e s) = ram s"
  "put_fd a i e' (put_fd a i e s) = put_fd a i e' s" "in_process (s\<lparr>ram := m\<rparr>) b = in_process s b"
  "in_process (sti s) b = in_process s b" "cur_fd (s\<lparr>ram := m\<rparr>) a j = cur_fd s a j" "cur_fd (sti s) a j = cur_fd s a j"
  by (simp_all add: put_fd_def in_process_def cur_fd_def sti_def)

lemma put_fd_ram: "(put_fd a i e s)\<lparr>ram := m\<rparr> = put_fd a i e (s\<lparr>ram := m\<rparr>)"
  by (simp add: put_fd_def)

lemma unat_numeral_2_u32: "unat (2 :: u32) = 2"
  by simp

lemma cur_put_fd: "in_process s a \<Longrightarrow> i < 8 \<Longrightarrow> cur_fd (put_fd a i e s) a j = (if j = i then e else cur_fd s a j)"
  by (auto simp: put_fd_def cur_fd_def in_process_def nth_list_update)

lemma fs_cong [simp]:
  "fs_ok (s\<lparr>ram := m\<rparr>) = fs_ok s" "fs_ok (put_fd a i e s) = fs_ok s" "fs_ok (sti s) = fs_ok s"
  "dirents m (s\<lparr>ram := m'\<rparr>) = dirents m s" "dirents m (put_fd a i e s) = dirents m s" "dirents m (sti s) = dirents m s"
  "file_size m (s\<lparr>ram := m'\<rparr>) = file_size m s" "file_size m (put_fd a i e s) = file_size m s" "file_size m (sti s) = file_size m s"
  "content m (s\<lparr>ram := m'\<rparr>) = content m s" "content m (put_fd a i e s) = content m s" "content m (sti s) = content m s"
  "bbp (put_fd a i e s) = bbp s" "num_de (put_fd a i e s) = num_de s" "N (put_fd a i e s) = N s"
  "bbp (sti s) = bbp s" "num_de (sti s) = num_de s" "N (sti s) = N s"
  by (simp_all add: fs_ok_def dirents_def dirent_def de_at_def file_size_def inode_at_def content_def file_byte_def
      put_fd_def sti_def fun_eq_iff)

subsection \<open>Opening a file\<close>

lemma cstr_block: "m (fst p) = m' (fst p) \<Longrightarrow> cstr m p xs = cstr m' p xs"
  by (simp add: cstr_def bytes_def ld_def)

text \<open>
  The name at \<open>p\<close> is a file of the directory that the kernel can open: the entry has one of the
  three types, and the size read from its inode is no negative number.
\<close>

definition dentry_blocks :: "block set" where
  "dentry_blocks = {fst open_dentry, fst fopen_dentry}"

definition openable :: "ptr \<Rightarrow> u8 list \<times> u32 \<times> u32 \<Rightarrow> 'a kernel_scheme \<Rightarrow> bool" where
  "openable p d s \<longleftrightarrow> fs_ok s \<and> num_de s \<noteq> 0 \<and> fst (bbp s) \<notin> dentry_blocks \<and> fst p \<notin> dentry_blocks \<and>
     p \<noteq> empty_literal \<and>
     (\<exists>name. cstr (ram s) p name \<and> length name \<le> 31 \<and> lookup_name name (dirents (ram s) s) = Some d) \<and>
     fst (snd d) \<le> 2 \<and> 0 \<le> sint (file_size (ram s) s (snd (snd d)))"

text \<open>The descriptor a successful \<open>sys_open\<close> leaves.\<close>

definition opened :: "u8 list \<times> u32 \<times> u32 \<Rightarrow> fd_t \<Rightarrow> fd_t" where
  "opened d e = (let e1 = open_kind (fst (snd d)) (e\<lparr>fd_flags := 1\<rparr>)
     in if fst (snd d) = 2 then e1\<lparr>fd_inode := snd (snd d)\<rparr> else e1)"

lemma openable_lookup:
  assumes "openable p d s" and "dentry = open_dentry \<or> dentry = fopen_dentry"
  obtains m' where "read_dentry_by_name (ram s) s check p dentry = Some (file_size (ram s) s (snd (snd d)), m')"
    and "dentry_is m' dentry d" and "\<And>b. b \<notin> dentry_blocks \<Longrightarrow> m' b = ram s b"
proof -
  obtain name where n: "cstr (ram s) p name" "length name \<le> 31" "lookup_name name (dirents (ram s) s) = Some d"
    using assms(1) by (auto simp: openable_def)
  have "fst dentry \<in> dentry_blocks" using assms(2) by (auto simp: dentry_blocks_def)
  then have "fst dentry \<noteq> fst (bbp s)" "fst dentry \<noteq> fst p" "fs_ok s" "num_de s \<noteq> 0"
    using assms(1) by (auto simp: openable_def)
  from read_dentry_by_name_spec [OF this(3,1,2) n(1,2) this(4), of check] n(3)
  obtain m' where r: "read_dentry_by_name (ram s) s check p dentry = Some (file_size (ram s) s (snd (snd d)), m')"
    and di: "dentry_is m' dentry d" and fr: "\<forall>b. b \<noteq> fst dentry \<longrightarrow> m' b = ram s b" by auto
  show ?thesis
  proof (rule that [OF r di])
    fix b assume "b \<notin> dentry_blocks"
    then show "m' b = ram s b" using fr \<open>fst dentry \<in> dentry_blocks\<close> by metis
  qed
qed

lemma openable_step:
  assumes "openable p d s" and "\<And>b. b \<notin> dentry_blocks \<Longrightarrow> m' b = ram s b"
  shows "openable p d (s\<lparr>ram := m'\<rparr>)"
proof -
  have o: "fs_ok s" "fst (bbp s) \<notin> dentry_blocks" "fst p \<notin> dentry_blocks" using assms(1) by (simp_all add: openable_def)
  have "m' (fst (bbp s)) = ram s (fst (bbp s))" "m' (fst p) = ram s (fst p)" using assms(2) o by simp_all
  then have "dirents m' s = dirents (ram s) s" "file_size m' s = file_size (ram s) s" "cstr m' p = cstr (ram s) p"
    using same_block_dirents [OF o(1), of m' "ram s"] same_block_file(2) [OF o(1), of m' "ram s"] cstr_block [of m' p "ram s"]
    by auto
  then show ?thesis using assms(1) by (simp add: openable_def)
qed

lemma openable_cong [simp]: "openable p d (put_fd a i e s) = openable p d s" "openable p d (sti s) = openable p d s"
  by (simp_all add: openable_def) (simp_all add: sti_def)

theorem sys_open_free:
  assumes pr: "in_process s a" and op: "openable p d s"
    and i: "2 \<le> i" "i < 8" "fd_flags (cur_fd s a i) AND 1 = 0" "\<And>j. 2 \<le> j \<Longrightarrow> j < i \<Longrightarrow> fd_flags (cur_fd s a j) AND 1 \<noteq> 0"
  shows "\<exists>m'. sys_open check p s = Some (Inr (of_nat i, sti (put_fd a i (opened d (cur_fd s a i)) (s\<lparr>ram := m'\<rparr>)))) \<and>
    (\<forall>b. b \<notin> dentry_blocks \<longrightarrow> m' b = ram s b)"
proof -
  have sc: "scan (\<lambda>i. fd_flags (pcb_fd (pcbs s a) ! i) AND 1 = 0) 2 8 = i"
    by (rule scan_eqI) (use i in \<open>auto simp: cur_fd_def\<close>)
  have curr: "get_curr_pcb s = Inr a" using pr by (simp add: in_process_def)
  have lit: "p \<noteq> empty_literal" and ft: "fst (snd d) \<le> 2" and nn: "0 \<le> sint (file_size (ram s) s (snd (snd d)))"
    using op by (simp_all add: openable_def)
  obtain m1 where m1: "read_dentry_by_name (ram s) s check p open_dentry = Some (file_size (ram s) s (snd (snd d)), m1)"
    "dentry_is m1 open_dentry d" "\<And>b. b \<notin> dentry_blocks \<Longrightarrow> m1 b = ram s b"
    using openable_lookup [OF op] by blast
  have sz: "file_size (ram s) s (snd (snd d)) \<noteq> - 1" using nn by auto
  have ty: "ld32 m1 (padd open_dentry 32) = fst (snd d)" using m1(2) by (simp add: dentry_is_def)
  let ?e = "open_kind (fst (snd d)) ((cur_fd s a i)\<lparr>fd_flags := 1\<rparr>)"
  define s1 where "s1 = put_fd a i ?e (s\<lparr>ram := m1\<rparr>)"
  have pr1: "in_process s1 a" using pr by (simp add: s1_def)
  have e1: "cur_fd s1 a i = ?e" using cur_put_fd [of "s\<lparr>ram := m1\<rparr>" a i] pr i(2) by (simp add: s1_def)
  have op1: "openable p d s1" using openable_step [OF op m1(3)] by (simp add: s1_def)
  have head: "sys_open check p s = obind (fotp_open (fd_fotp ?e) check (of_nat i) p s1) (\<lambda>(r, s).
      if 0 > sint r then obind (Some (upd_fd (of_nat i) (\<lambda>e. e\<lparr>fd_flags := 0\<rparr>) s)) (\<lambda>s. Some (Inr (- 1, s)))
      else Some (Inr (of_nat i, sti s)))"
    using curr lit m1(1) sz i(2) upd_fd_ok [of "s\<lparr>ram := m1\<rparr>" a i] get_fd_ok [OF pr1 i(2)] pr e1
    by (simp add: sys_open_def sc ty s1_def [symmetric] Let_def)
  consider "fst (snd d) = 0" | "fst (snd d) = 1" | "fst (snd d) = 2"
  proof -
    have "unat (fst (snd d)) \<le> 2" using ft by (simp add: word_le_nat_alt)
    then have "unat (fst (snd d)) = 0 \<or> unat (fst (snd d)) = 1 \<or> unat (fst (snd d)) = 2" by arith
    then show ?thesis using that by (metis unat_0 unat_1 unat_numeral_2_u32 unsigned_word_eqI)
  qed
  then show ?thesis
  proof cases
    case 1
    then have "sys_open check p s = Some (Inr (of_nat i, sti s1))"
      unfolding head by (simp add: open_kind_def fotp_open_def rtc_open_def)
    then show ?thesis using 1 m1(3) by (auto simp: opened_def s1_def Let_def)
  next
    case 2
    then have "sys_open check p s = Some (Inr (of_nat i, sti s1))"
      unfolding head by (simp add: open_kind_def fotp_open_def)
    then show ?thesis using 2 m1(3) by (auto simp: opened_def s1_def Let_def)
  next
    case 3
    obtain m2 where m2: "read_dentry_by_name (ram s1) s1 check p fopen_dentry = Some (file_size (ram s1) s1 (snd (snd d)), m2)"
      "dentry_is m2 fopen_dentry d" "\<And>b. b \<notin> dentry_blocks \<Longrightarrow> m2 b = ram s1 b"
      using openable_lookup [OF op1] by blast
    have nn1: "0 \<le> sint (file_size (ram s1) s1 (snd (snd d)))" using op1 by (simp add: openable_def)
    have ino: "ld32 m2 (padd fopen_dentry 36) = snd (snd d)" using m2(2) by (simp add: dentry_is_def)
    let ?s2 = "put_fd a i (?e\<lparr>fd_inode := snd (snd d)\<rparr>) (s1\<lparr>ram := m2\<rparr>)"
    have "fotp_open (fd_fotp ?e) check (of_nat i) p s1 = Some (Inr (0, ?s2))"
      using 3 m2(1) nn1 ino upd_fd_ok [of "s1\<lparr>ram := m2\<rparr>" a i] pr1 i(2) e1
      by (simp add: open_kind_def fotp_open_def fnc_fopen_def file_open_def Let_def)
    then have "sys_open check p s = Some (Inr (of_nat i, sti ?s2))" unfolding head by simp
    moreover have "?s2 = put_fd a i (opened d (cur_fd s a i)) (s\<lparr>ram := m2\<rparr>)"
      using 3 by (simp add: s1_def put_fd_ram opened_def Let_def)
    moreover have "m2 b = ram s b" if "b \<notin> dentry_blocks" for b using m1(3) m2(3) that by (simp add: s1_def)
    ultimately show ?thesis by auto
  qed
qed

theorem sys_open_full:
  assumes pr: "in_process s a" and "\<And>j. 2 \<le> j \<Longrightarrow> j < 8 \<Longrightarrow> fd_flags (cur_fd s a j) AND 1 \<noteq> 0"
  shows "sys_open check p s = Some (Inr (- 1, s))"
proof -
  have "scan (\<lambda>i. fd_flags (pcb_fd (pcbs s a) ! i) AND 1 = 0) 2 8 = 8"
    by (rule scan_none) (use assms(2) in \<open>auto simp: cur_fd_def\<close>)
  then show ?thesis using pr by (simp add: sys_open_def in_process_def)
qed

subsection \<open>The descriptors as a first-fit allocator\<close>

definition fd_used :: "u32 \<Rightarrow> 'a kernel_scheme \<Rightarrow> nat \<Rightarrow> bool" where
  "fd_used a s i \<longleftrightarrow> fd_flags (cur_fd s a i) AND 1 \<noteq> 0"

definition fd_inv :: "u32 \<Rightarrow> ptr \<Rightarrow> u8 list \<times> u32 \<times> u32 \<Rightarrow> 'a kernel_scheme \<Rightarrow> bool" where
  "fd_inv a p d s \<longleftrightarrow> in_process s a \<and> openable p d s"

definition open_fd :: "u32 \<Rightarrow> ptr \<Rightarrow> 'a kernel_scheme \<Rightarrow> nat option \<times> 'a kernel_scheme" where
  "open_fd check p s = (case sys_open check p s of
      Some (Inr (r, s')) \<Rightarrow> (if r = - 1 then None else Some (unat r), s')
    | _ \<Rightarrow> (None, s))"

definition close_fd :: "nat \<Rightarrow> 'a kernel_scheme \<Rightarrow> 'a kernel_scheme" where
  "close_fd i s = (case sys_close (of_nat i) s of Inr (r, s') \<Rightarrow> s' | Inl e \<Rightarrow> s)"

lemma opened_used: "fst (snd d) \<le> 2 \<Longrightarrow> fd_flags (opened d e) AND 1 \<noteq> 0"
  by (simp add: opened_def open_kind_def Let_def)

lemma of_nat_fd: "i < 8 \<Longrightarrow> unat (of_nat i :: u32) = i" "i < 8 \<Longrightarrow> (of_nat i :: u32) \<noteq> - 1"
proof -
  assume i: "i < 8"
  then show u: "unat (of_nat i :: u32) = i" by (intro unat_u32_of_nat) simp
  show "(of_nat i :: u32) \<noteq> - 1"
  proof
    assume "(of_nat i :: u32) = - 1"
    then have "(of_nat (Suc i) :: u32) = 0" by simp
    moreover have "unat (of_nat (Suc i) :: u32) = Suc i" using i by (intro unat_u32_of_nat) simp
    ultimately show False by simp
  qed
qed

lemma open_fd_cases:
  assumes inv: "fd_inv a p d s"
  obtains "\<forall>j. 2 \<le> j \<longrightarrow> j < 8 \<longrightarrow> fd_used a s j" and "open_fd check p s = (None, s)"
  | i s' where "2 \<le> i" and "i < 8" and "open_fd check p s = (Some i, s')" and "\<not> fd_used a s i"
      and "\<forall>j. 2 \<le> j \<longrightarrow> j < i \<longrightarrow> fd_used a s j" and "fd_inv a p d s'"
      and "\<forall>j. fd_used a s' j \<longleftrightarrow> j = i \<or> fd_used a s j"
proof (cases "\<forall>j. 2 \<le> j \<longrightarrow> j < 8 \<longrightarrow> fd_used a s j")
  case True
  then have "sys_open check p s = Some (Inr (- 1, s))"
    using inv by (intro sys_open_full) (auto simp: fd_inv_def fd_used_def)
  then show ?thesis using that(1) True by (simp add: open_fd_def)
next
  case False
  define i where "i = (LEAST j. 2 \<le> j \<and> \<not> fd_used a s j)"
  obtain k where k: "2 \<le> k" "k < 8" "\<not> fd_used a s k" using False by blast
  have i: "2 \<le> i \<and> \<not> fd_used a s i" unfolding i_def by (rule LeastI [of _ k]) (use k in simp)
  have "i \<le> k" unfolding i_def by (rule Least_le) (use k in simp)
  then have i8: "i < 8" using k by simp
  have before: "fd_used a s j" if "2 \<le> j" "j < i" for j using not_less_Least [of j] that unfolding i_def by blast
  obtain m' where m': "sys_open check p s = Some (Inr (of_nat i, sti (put_fd a i (opened d (cur_fd s a i)) (s\<lparr>ram := m'\<rparr>))))"
    "\<forall>b. b \<notin> dentry_blocks \<longrightarrow> m' b = ram s b"
    using sys_open_free [of s a p d i check] inv i i8 before by (auto simp: fd_inv_def fd_used_def)
  let ?s = "sti (put_fd a i (opened d (cur_fd s a i)) (s\<lparr>ram := m'\<rparr>))"
  have pr: "in_process (s\<lparr>ram := m'\<rparr>) a" and ft: "fst (snd d) \<le> 2" using inv by (simp_all add: fd_inv_def openable_def)
  have "fd_inv a p d ?s" using inv openable_step [of p d s m'] m'(2) by (simp add: fd_inv_def)
  moreover have "\<forall>j. fd_used a ?s j \<longleftrightarrow> j = i \<or> fd_used a s j"
    using cur_put_fd [OF pr i8] opened_used [OF ft] by (auto simp: fd_used_def)
  moreover have "open_fd check p s = (Some i, ?s)" using m'(1) of_nat_fd [OF i8] by (simp add: open_fd_def)
  ultimately show ?thesis using that(2) i i8 before by blast
qed

lemma close_fd_eq:
  assumes "in_process s a" and "2 \<le> i" "i < 8" "fd_used a s i"
  shows "sys_close (of_nat i) s = Inr (0, put_fd a i ((cur_fd s a i)\<lparr>fd_flags := 0\<rparr>) s)"
proof -
  have "\<not> (of_nat i :: u32) < 2" "\<not> (of_nat i :: u32) > 7" using assms(2,3) by (auto simp: word_less_nat_alt of_nat_fd)
  then show ?thesis using assms get_fd_ok [OF assms(1,3)] upd_fd_ok [OF assms(1,3)]
    by (simp add: sys_close_def fd_used_def)
qed

interpretation fds: slot_allocator "fd_used a" "fd_inv a p d" 2 8 "open_fd check p" close_fd for a p d check
proof
  fix s :: "'a kernel_scheme" and r s' assume inv: "fd_inv a p d s" and o: "open_fd check p s = (r, s')"
  from inv show "fd_inv a p d s'" by (cases rule: open_fd_cases [of a p d s check]) (use inv o in auto)
next
  fix s :: "'a kernel_scheme" and i s' assume inv: "fd_inv a p d s" and o: "open_fd check p s = (Some i, s')"
  from inv show "2 \<le> i \<and> i < 8 \<and> \<not> fd_used a s i \<and> (\<forall>j. 2 \<le> j \<longrightarrow> j < i \<longrightarrow> fd_used a s j) \<and>
      (\<forall>j. 2 \<le> j \<longrightarrow> j < 8 \<longrightarrow> (fd_used a s' j \<longleftrightarrow> j = i \<or> fd_used a s j))"
    by (cases rule: open_fd_cases [of a p d s check]) (use o in auto)
next
  fix s :: "'a kernel_scheme" and s' assume inv: "fd_inv a p d s" and o: "open_fd check p s = (None, s')"
  from inv show "(\<forall>j. 2 \<le> j \<longrightarrow> j < 8 \<longrightarrow> fd_used a s j) \<and>
      (\<forall>j. 2 \<le> j \<longrightarrow> j < 8 \<longrightarrow> (fd_used a s' j \<longleftrightarrow> fd_used a s j))"
    by (cases rule: open_fd_cases [of a p d s check]) (use o in auto)
next
  fix s :: "'a kernel_scheme" and i :: nat assume "fd_inv a p d s" "2 \<le> i" "i < 8" "fd_used a s i"
  then show "fd_inv a p d (close_fd i s)" using close_fd_eq [of s a i] by (simp add: close_fd_def fd_inv_def)
next
  fix s :: "'a kernel_scheme" and i j :: nat assume c: "fd_inv a p d s" "2 \<le> i" "i < 8" "fd_used a s i"
  then have pr: "in_process s a" by (simp add: fd_inv_def)
  show "fd_used a (close_fd i s) j \<longleftrightarrow> j \<noteq> i \<and> fd_used a s j"
    using close_fd_eq [OF pr c(2-4)] cur_put_fd [OF pr c(3)] by (auto simp: close_fd_def fd_used_def)
qed

subsection \<open>Reading a file through a descriptor\<close>

definition file_good :: "u32 \<Rightarrow> nat \<Rightarrow> ptr \<Rightarrow> u32 \<Rightarrow> 'a kernel_scheme \<Rightarrow> bool" where
  "file_good a i buf n s \<longleftrightarrow> 0 < n \<and> in_process s a \<and> i < 8 \<and> i \<noteq> 1 \<and> fd_flags (cur_fd s a i) AND 1 \<noteq> 0 \<and>
     fd_fotp (cur_fd s a i) = Otp_file \<and> fs_ok s \<and> fst buf \<noteq> fst (bbp s) \<and> fd_inode (cur_fd s a i) < N s \<and>
     unat (fd_fp (cur_fd s a i)) \<le> length (content (ram s) s (fd_inode (cur_fd s a i)))"

definition file_rest :: "u32 \<Rightarrow> nat \<Rightarrow> 'a kernel_scheme \<Rightarrow> u8 list" where
  "file_rest a i s = drop (unat (fd_fp (cur_fd s a i))) (content (ram s) s (fd_inode (cur_fd s a i)))"

definition file_rd :: "nat \<Rightarrow> ptr \<Rightarrow> u32 \<Rightarrow> 'a kernel_scheme \<Rightarrow> u8 list \<times> 'a kernel_scheme" where
  "file_rd i buf n s = (case sys_read [] (of_nat i) buf n s of
      Some (Inr (r, s')) \<Rightarrow> (bytes (ram s') buf (unat r), s') | _ \<Rightarrow> ([], s))"

theorem sys_read_file:
  fixes s :: "'a kernel_scheme" and n :: u32 and buf a i
  assumes g: "file_good a i buf n s"
  defines "e \<equiv> cur_fd s a i" and "r \<equiv> take (unat n) (file_rest a i s)"
  shows "sys_read irqs (of_nat i) buf n s = Some (Inr (of_nat (length r),
     put_fd a i (e\<lparr>fd_fp := fd_fp e + of_nat (length r)\<rparr>) (sti s\<lparr>ram := stores (ram s) buf r\<rparr>)))"
proof -
  note gd = g [unfolded file_good_def, folded e_def]
  have nb: "\<not> (of_nat i :: u32) > 7" "(of_nat i :: u32) \<noteq> 1"
    using gd of_nat_fd(1) [of i] by (auto simp: word_less_nat_alt)
  let ?s = "sti s"
  have ge: "get_fd (of_nat i) s = Inr e" "get_fd (of_nat i) ?s = Inr e"
    using gd get_fd_ok [of s a i] get_fd_ok [of ?s a i] by (simp_all add: e_def)
  have rd: "read_data (ram s) ?s (fd_inode e) (fd_fp e) buf n = (of_nat (length r), stores (ram s) buf r)"
    using read_data_slice [of ?s buf "fd_inode e" "ram s" "fd_fp e" n] gd
    by (simp add: r_def file_rest_def e_def [symmetric] Let_def)
  have up: "upd_fd (of_nat i) (\<lambda>e. e\<lparr>fd_fp := fd_fp e + of_nat (length r)\<rparr>) (?s\<lparr>ram := stores (ram s) buf r\<rparr>) =
      Inr (put_fd a i (e\<lparr>fd_fp := fd_fp e + of_nat (length r)\<rparr>) (?s\<lparr>ram := stores (ram s) buf r\<rparr>))"
    using upd_fd_ok [of "?s\<lparr>ram := stores (ram s) buf r\<rparr>" a i] gd by (simp add: e_def)
  have rs: "ram ?s = ram s" by (simp add: sti_def)
  show ?thesis
    using gd nb ge rd up by (simp add: sys_read_def fotp_read_def fnc_fread_def rs)
qed

lemma drop_take_length: "drop (k + min (length xs - k) n) xs = drop n (drop k xs)"
  by (simp add: min_def add.commute)

lemma file_rd_step:
  assumes g: "file_good a i buf n s"
  shows "\<exists>s'. file_rd i buf n s = (take (unat n) (file_rest a i s), s') \<and> file_good a i buf n s' \<and>
    file_rest a i s' = drop (unat n) (file_rest a i s)"
proof -
  define e where "e = cur_fd s a i"
  define c where "c = content (ram s) s (fd_inode e)"
  define r where "r = take (unat n) (drop (unat (fd_fp e)) c)"
  define s1 where "s1 = sti s\<lparr>ram := stores (ram s) buf r\<rparr>"
  define s' where "s' = put_fd a i (e\<lparr>fd_fp := fd_fp e + of_nat (length r)\<rparr>) s1"
  have rest: "file_rest a i s = drop (unat (fd_fp e)) c" by (simp add: file_rest_def c_def e_def)
  note gd = g [unfolded file_good_def, folded e_def, folded c_def]
  have pr1: "in_process s1 a" using gd by (simp add: s1_def)
  have lc: "length c < 2 ^ 32" using unat_u32_lt [of "file_size (ram s) s (fd_inode e)"] by (simp add: content_def c_def)
  have lr: "length r \<le> unat n" "unat (fd_fp e) + length r \<le> length c" using gd by (auto simp: r_def)
  have ul: "unat (of_nat (length r) :: u32) = length r" using lr(2) lc by (intro unat_u32_of_nat) simp
  have "fd_fp e + of_nat (length r) = of_nat (unat (fd_fp e) + length r)" by simp
  then have fp: "unat (fd_fp e + of_nat (length r)) = unat (fd_fp e) + length r"
    using lr(2) lc unat_u32_of_nat [of "unat (fd_fp e) + length r"] by simp
  have e': "cur_fd s' a i = e\<lparr>fd_fp := fd_fp e + of_nat (length r)\<rparr>"
    using cur_put_fd [OF pr1, of i] gd by (simp add: s'_def)
  have "stores (ram s) buf r (fst (bbp s)) = ram s (fst (bbp s))"
    by (rule stores_other_block) (use gd in auto)
  from same_block_file(3) [where s = s and m = "stores (ram s) buf r" and m' = "ram s", OF _ this] gd
  have cs: "content (ram s') s' (fd_inode e) = c" by (simp add: s'_def s1_def c_def)
  have "bytes (stores (ram s) buf r) buf (length r) = r" using lr lc by (intro bytes_stores_same) simp
  then have "file_rd i buf n s = (take (unat n) (file_rest a i s), s')"
    using sys_read_file [OF g, of "[]"] ul
    by (simp add: file_rd_def rest r_def [symmetric] e_def [symmetric] s1_def [symmetric] s'_def [symmetric]) (simp add: s'_def s1_def)
  moreover have "file_good a i buf n s'"
    unfolding file_good_def e' using gd cs fp lr(2) by (simp add: s'_def s1_def)
  moreover have "file_rest a i s' = drop (unat n) (file_rest a i s)"
    unfolding file_rest_def e' using cs fp drop_take_length [of "unat (fd_fp e)" c "unat n"]
    by (simp add: r_def e_def [symmetric] c_def [symmetric])
  ultimately show ?thesis by blast
qed

interpretation file_stream: stream_reader "file_good a i buf n" "file_rest a i" "unat n" "file_rd i buf n" for a i buf n
proof
  fix s :: "'a kernel_scheme" assume "file_good a i buf n s"
  then show "0 < unat n" by (simp add: file_good_def word_less_nat_alt)
next
  fix s :: "'a kernel_scheme" and xs s' assume "file_good a i buf n s" "file_rd i buf n s = (xs, s')"
  then show "file_good a i buf n s'" "xs = take (unat n) (file_rest a i s)" "file_rest a i s' = drop (unat n) (file_rest a i s)"
    using file_rd_step [of a i buf n s] by auto
qed

subsection \<open>Arguments\<close>

text \<open>The word \<open>getargs\<close> hands over: up to the first blank or line end, cut at the caller's length.\<close>

definition arg_word :: "int \<Rightarrow> u8 list \<Rightarrow> u8 list" where
  "arg_word nbytes arg = take (nat nbytes) (takeWhile (\<lambda>c. c \<noteq> 0x20 \<and> c \<noteq> 0x0A) arg)"

lemma arg_word_prefix:
  "length (arg_word nbytes arg) \<le> length arg" "take (length (arg_word nbytes arg)) arg = arg_word nbytes arg"
proof -
  let ?u = "takeWhile (\<lambda>c. c \<noteq> 0x20 \<and> c \<noteq> 0x0A) arg"
  show le: "length (arg_word nbytes arg) \<le> length arg"
    using length_takeWhile_le [of "\<lambda>c. c \<noteq> 0x20 \<and> c \<noteq> 0x0A" arg] by (simp add: arg_word_def)
  show "take (length (arg_word nbytes arg)) arg = arg_word nbytes arg"
    by (rule nth_equalityI) (use le in \<open>simp_all add: arg_word_def takeWhile_nth\<close>)
qed

text \<open>Writing a terminator into a string cuts it there.\<close>

lemma cstr_cut:
  assumes "length xs < 2 ^ 32" and "0 \<notin> set xs" and "k \<le> length xs"
  shows "cstr (st (stores m p (xs @ [0])) p (of_nat k) 0) p (take k xs)"
proof -
  have "bytes (st (stores m p (xs @ [0])) p (of_nat k) 0) p k = take k xs"
    using assms by (intro nth_equalityI) (simp_all add: ld_stores_same unat_u32_of_nat nth_append of_nat_u32_inj)
  then show ?thesis using assms by (auto simp: cstr_def dest: in_set_takeD)
qed

lemma getargs_loop_word:
  assumes arg: "cstr m args_p arg" and buf: "fst buf \<noteq> fst args_p" and n: "0 \<le> nbytes"
    and "i \<le> length (arg_word nbytes arg)" and "i < 31"
  shows "getargs_loop (stores m buf (take i (arg_word nbytes arg))) buf nbytes i =
    (let w = arg_word nbytes arg in
     if length w \<le> 30 then (stores m buf w, length w, False) else (stores m buf (take 31 w), 30, True))"
  using assms(4,5)
proof (induction "31 - i" arbitrary: i)
  case (Suc k)
  let ?w = "arg_word nbytes arg"
  let ?m = "stores m buf (take i ?w)"
  have ld: "ld (stores m buf xs) args_p j = ld m args_p j" for xs j using buf by (simp add: ld_def stores_other_block)
  show ?case
  proof (cases "i < length ?w")
    case True
    then have i: "i < length arg" "int i < nbytes" "?w ! i = arg ! i"
      using length_takeWhile_le [of "\<lambda>c. c \<noteq> 0x20 \<and> c \<noteq> 0x0A" arg] n by (auto simp: arg_word_def takeWhile_nth)
    have "arg ! i = takeWhile (\<lambda>c. c \<noteq> 0x20 \<and> c \<noteq> 0x0A) arg ! i"
      using True by (simp add: arg_word_def takeWhile_nth)
    then have "arg ! i \<noteq> 0x20 \<and> arg ! i \<noteq> 0x0A"
      using True nth_mem [of i "takeWhile (\<lambda>c. c \<noteq> 0x20 \<and> c \<noteq> 0x0A) arg"] set_takeWhileD [of "arg ! i" "\<lambda>c. c \<noteq> 0x20 \<and> c \<noteq> 0x0A" arg]
      by (auto simp: arg_word_def)
    moreover have c: "ld ?m args_p (of_nat i) = arg ! i" "arg ! i \<noteq> 0"
      using cstr_ld [OF arg i(1)] cstr_nz [OF arg i(1)] by (simp_all add: ld)
    moreover have "st ?m buf (of_nat i) (arg ! i) = stores m buf (take (Suc i) ?w)"
      using stores_snoc [of "take i ?w" m buf "arg ! i"] True i(3) Suc.prems(2) by (simp add: take_Suc_conv_app_nth)
    moreover have "getargs_loop (stores m buf (take (Suc i) ?w)) buf nbytes (Suc i) =
       (if length ?w \<le> 30 then (stores m buf ?w, length ?w, False) else (stores m buf (take 31 ?w), 30, True))" if "i < 30"
      using Suc.hyps(1) [of "Suc i"] Suc.hyps(2) True that by (simp add: Let_def)
    moreover have "take (Suc i) ?w = take 31 ?w \<and> i = 30" if "30 \<le> i"
    proof -
      have "i = 30" using that Suc.prems(2) by simp
      then show ?thesis by simp
    qed
    ultimately show ?thesis
      using i(2) True by (subst getargs_loop.simps) (auto simp: Let_def)
  next
    case False
    then have e: "i = length ?w" using Suc.prems(1) by simp
    have "int i < nbytes \<longrightarrow> ld m args_p (of_nat i) \<in> {0x20, 0x0A, 0}"
    proof
      assume ib: "int i < nbytes"
      let ?u = "takeWhile (\<lambda>c. c \<noteq> 0x20 \<and> c \<noteq> 0x0A) arg"
      have u: "i = length ?u" using e ib by (simp add: arg_word_def min_def split: if_splits)
      show "ld m args_p (of_nat i) \<in> {0x20, 0x0A, 0}"
      proof (cases "i < length arg")
        case True
        then show ?thesis using nth_length_takeWhile [of "\<lambda>c. c \<noteq> 0x20 \<and> c \<noteq> 0x0A" arg] u cstr_ld [OF arg] by auto
      next
        case False
        then have "i = length arg" using u length_takeWhile_le [of "\<lambda>c. c \<noteq> 0x20 \<and> c \<noteq> 0x0A" arg] by simp
        then show ?thesis using arg by (simp add: cstr_def)
      qed
    qed
    then show ?thesis using e Suc.prems(2) by (subst getargs_loop.simps) (auto simp: Let_def ld)
  qed
qed simp

theorem getargs_spec:
  fixes s :: "'a kernel_scheme"
  assumes arg: "cstr (ram s) args_p arg" and buf: "fst buf \<noteq> fst args_p" and n: "0 \<le> nbytes"
  shows "if arg = [] \<or> hd arg = 0x0A then getargs buf nbytes s = Some (- 1, s)
    else if 30 < length (arg_word nbytes arg) then
      getargs buf nbytes s = Some (- 1, s\<lparr>ram := stores (ram s) buf (take 31 (arg_word nbytes arg))\<rparr>)
    else \<exists>ys. getargs buf nbytes s = Some (0, s\<lparr>ram := stores (ram s) buf ys\<rparr>) \<and> length ys = length arg + 1 \<and>
      cstr (stores (ram s) buf ys) buf (arg_word nbytes arg)"
proof -
  let ?w = "arg_word nbytes arg"
  have first: "ld (ram s) args_p 0 = (if arg = [] then 0 else hd arg)" "arg \<noteq> [] \<Longrightarrow> hd arg \<noteq> 0"
    using cstr_ld [OF arg, of 0] cstr_nz [OF arg, of 0] arg by (cases arg; auto simp: cstr_def)+
  have lp: "getargs_loop (ram s) buf nbytes 0 =
     (if length ?w \<le> 30 then (stores (ram s) buf ?w, length ?w, False) else (stores (ram s) buf (take 31 ?w), 30, True))"
    using getargs_loop_word [OF arg buf n, of 0] by (simp add: Let_def)
  define m where "m = stores (ram s) buf (arg @ [0])"
  have "cstr (stores (ram s) buf ?w) args_p arg"
    using arg buf by (subst cstr_block [where m' = "ram s"]) (simp_all add: stores_other_block)
  then have "strcpy (stores (ram s) buf ?w) buf args_p = Some (stores (stores (ram s) buf ?w) buf (arg @ [0]))"
    using buf by (intro strcpy_stores region_blocks) simp_all
  then have sc: "strcpy (stores (ram s) buf ?w) buf args_p = Some m"
    using stores_stores_le [of ?w "arg @ [0]"] arg_word_prefix(1) [of nbytes arg] by (simp add: m_def)
  have ln: "length arg < 2 ^ 32" "0 \<notin> set arg" using arg by (simp_all add: cstr_def)
  have cut: "cstr (st m buf (of_nat (length ?w)) 0) buf ?w"
    using cstr_cut [OF ln, of "length ?w" "ram s" buf] arg_word_prefix [of nbytes arg] by (simp add: m_def)
  have me: "st m buf (of_nat (length ?w)) 0 = stores (ram s) buf ((arg @ [0])[length ?w := 0])"
    unfolding m_def using arg_word_prefix(1) [of nbytes arg] ln(1) by (intro st_stores_update) simp_all
  have ok: "\<exists>ys. getargs buf nbytes s = Some (0, s\<lparr>ram := stores (ram s) buf ys\<rparr>) \<and> length ys = length arg + 1 \<and>
      cstr (stores (ram s) buf ys) buf ?w"
    if "arg \<noteq> []" "hd arg \<noteq> 0x0A" "length ?w \<le> 30"
  proof -
    have "getargs buf nbytes s = Some (0, s\<lparr>ram := st m buf (of_nat (length ?w)) 0\<rparr>)"
      using that first lp sc by (simp add: getargs_def)
    then show ?thesis using cut unfolding me by (intro exI conjI) simp_all
  qed
  show ?thesis
  proof (cases "arg = [] \<or> hd arg = 0x0A")
    case True
    then have "ld (ram s) args_p 0 = 0x0A \<or> ld (ram s) args_p 0 = 0" using first by auto
    then show ?thesis using True by (simp add: getargs_def)
  next
    case False
    then have "\<not> (ld (ram s) args_p 0 = 0x0A \<or> ld (ram s) args_p 0 = 0)" using first by auto
    then have "getargs buf nbytes s = Some (- 1, s\<lparr>ram := stores (ram s) buf (take 31 ?w)\<rparr>)" if "30 < length ?w"
      using lp that by (simp add: getargs_def)
    then show ?thesis using False ok by auto
  qed
qed

end
