(* ===== verification/Process.thy ===== *)
theory Process
  imports Sys_Call
begin

text \<open>
  The process half of student-distrib/sys_call.c: \<open>execute\<close>, \<open>halt\<close>, and the dispatcher of
  sys_call_jmptable.S.  \<open>execute\<close> ends in user mode at the entry point of the program
  (\<open>Enter\<close>), \<open>halt\<close> ends at the label \<open>usr_end\<close> inside the parent's \<open>execute\<close>
  (\<open>Usr_end\<close>) or at \<open>exit_shell\<close> of kernel.c.
\<close>

abbreviation temp2_p :: ptr where "temp2_p \<equiv> (Obj ''execute.temp2'', 0)"
abbreviation file_name_p :: ptr where "file_name_p \<equiv> (Obj ''execute.file_name'', 0)"
abbreviation exec_dentry :: ptr where "exec_dentry \<equiv> (Obj ''execute.dentry'', 0)"
abbreviation file_buf_p :: ptr where "file_buf_p \<equiv> (Obj ''execute.file_buf'', 0)"
abbreviation new_addr_p :: ptr where "new_addr_p \<equiv> (Obj ''execute.new_addr'', 0)"

text \<open>\<open>for (; P(p[i]); i++);\<close>\<close>

partial_function (option) skip_while :: "(u8 \<Rightarrow> bool) \<Rightarrow> mem \<Rightarrow> ptr \<Rightarrow> u32 \<Rightarrow> u32 option" where
  "skip_while P m p i = (if P (ld m p i) then skip_while P m p (i + 1) else Some i)"

text \<open>The loop that copies the rest of the line to \<open>args\<close>.\<close>

partial_function (option) copy_args :: "mem \<Rightarrow> u32 \<Rightarrow> u32 \<Rightarrow> (mem \<times> u32) option" where
  "copy_args m j k =
     (if ld m temp2_p j \<noteq> 0x0A \<and> ld m temp2_p j \<noteq> 0
      then copy_args (st m args_p k (ld m temp2_p j)) (j + 1) (k + 1)
      else Some (m, k))"

definition parse_command :: "ptr \<Rightarrow> mem \<Rightarrow> mem option" where
  "parse_command command m =
     (let m = for_loop 0 32 (\<lambda>i m. st m file_name_p (of_nat i) 0) m;
          m = for_loop 0 20 (\<lambda>i m. st m temp2_p (of_nat i) (ld m command (of_nat i))) m
      in case skip_while (\<lambda>c. c \<noteq> 0x20 \<and> c \<noteq> 0 \<and> c \<noteq> 0x0A) m temp2_p 0 of
        None \<Rightarrow> None
      | Some i \<Rightarrow>
          let m = strncpy m file_name_p temp2_p i
          in case skip_while (\<lambda>c. c = 0x20) m temp2_p i of
            None \<Rightarrow> None
          | Some j \<Rightarrow>
              (case copy_args m j 0 of
                 None \<Rightarrow> None
               | Some (m, k) \<Rightarrow> Some (st m args_p k 0)))"

text \<open>
  \<open>uint8_t file_buf[file_size]\<close> is on the kernel stack of the caller: 8 KB, with the control block of the
  process (148 bytes) at their bottom.  A file that is too large for what is left of the stack is read over the
  control block and the stacks below.  The model does not follow that: it ends with an error value unless the
  array and 1 KB for the control block and the frames of the functions that are called fit below the
  stack pointer.
\<close>

definition file_buf_fits :: "u32 \<Rightarrow> 'a paging_scheme \<Rightarrow> bool" where
  "file_buf_fits fsize s \<longleftrightarrow> unat fsize + 0x400 \<le> unat (esp s AND 0x1FFF)"

text \<open>Looking the program up, reading it and checking the first four bytes: the inode, the size
  and the entry point, or failure.\<close>

definition load_check :: "u32 \<Rightarrow> 'a kernel_scheme \<Rightarrow> ((u32 \<times> u32 \<times> u32) option \<times> 'a kernel_scheme) run" where
  "load_check check s =
     (case read_dentry_by_name (ram s) s check file_name_p exec_dentry of
        None \<Rightarrow> None
      | Some (fsize, m) \<Rightarrow>
          let s = s\<lparr>ram := m\<rparr>
          in if fsize = - 1 then Some (Inr (None, s))
          else if \<not> file_buf_fits fsize s then Some (Inl (Bad_index ''file_buf'' (uint fsize)))
          else
            let inode = ld32 m (padd exec_dentry 36)
            in case read_data m s inode 0 file_buf_p fsize of (bytes_read, m) \<Rightarrow>
               let s = s\<lparr>ram := m\<rparr>
               in if bytes_read = - 1 then Some (Inr (None, s))
               else if ld m file_buf_p 0 \<noteq> 0x7F then Some (Inr (None, s))
               else if ld m file_buf_p 1 \<noteq> 0x45 then Some (Inr (None, s))
               else if ld m file_buf_p 2 \<noteq> 0x4C then Some (Inr (None, s))
               else if ld m file_buf_p 3 \<noteq> 0x46 then Some (Inr (None, s))
               else case read_data m s inode 24 new_addr_p 4 of (bytes_read, m) \<Rightarrow>
                 Some (Inr (Some (inode, fsize, ld32 m new_addr_p), s\<lparr>ram := m\<rparr>)))"

text \<open>Address of the control block of a slot: \<open>_128MB - (proc_id + 1) * _8KB\<close>.\<close>

definition pcb_vaddr :: "int \<Rightarrow> u32" where
  "pcb_vaddr proc_id = 0x8000000 - (word_of_int proc_id + 1) * 0x2000"

definition init_pcb :: "u32 \<Rightarrow> u32 \<Rightarrow> u32 \<Rightarrow> int \<Rightarrow> pcb_t \<Rightarrow> pcb_t res" where
  "init_pcb curr_pcb_ptr old_ESP old_EBP proc_id p =
     (let term = \<lparr>fd_fotp = Otp_terminal, fd_inode = 0, fd_fp = 0, fd_flags = 7\<rparr>
      in rbind (aset ''fd'' (pcb_fd p) 0 term) (\<lambda>fds.
         rbind (aset ''fd'' fds 1 term) (\<lambda>fds.
         Inr (p\<lparr>pcb_fd := fds, old_pcb := curr_pcb_ptr, kstack := old_ESP, old_ebp := old_EBP,
                pcb_proc_id := proc_id\<rparr>))))"

text \<open>From the allocated slot to the jump into the program.\<close>

definition start_process :: "u32 \<Rightarrow> u32 \<Rightarrow> u32 \<Rightarrow> int \<Rightarrow> 'a kernel_scheme \<Rightarrow> (outcome \<times> 'a kernel_scheme) res" where
  "start_process inode fsize v_addr proc_id s =
     (let old_ESP = esp s; old_EBP = ebp s; curr_pcb_ptr = esp s AND 0xFFE000
      in rbind (new_process proc_id s) (\<lambda>s.
         let s = s\<lparr>cr3 := proc_id + 1\<rparr>;
             s = s\<lparr>tss_ss0 := 0x18, tss_esp0 := 0x8000000 - 0x2000 * word_of_int proc_id - 4\<rparr>;
             s = s\<lparr>ram := snd (read_data (ram s) s inode 0 (user_ptr s 0x8048000) fsize)\<rparr>
         in rbind (pcb_phys s (pcb_vaddr proc_id)) (\<lambda>a.
            rbind (init_pcb curr_pcb_ptr old_ESP old_EBP proc_id (pcbs s a)) (\<lambda>p.
            let s = s\<lparr>pcbs := (pcbs s)(a := p)\<rparr>
            in if proc_id < 0 \<or> proc_id > 7 then Inr (Ret (- 1), s)
            else
              let s = change_pte 0xB8 0xB8 s;
                  s = (if get_active_term s = get_bg_term s
                       then page_copy (nat (1 + get_active_term s)) 0xB8 s else s);
                  s = snd (change_cr3 proc_id s)
              in Inr (Enter v_addr (0x8000000 + 0x400000 - 4), sti s)))))"

definition execute :: "u32 \<Rightarrow> ptr \<Rightarrow> 'a kernel_scheme \<Rightarrow> (outcome \<times> 'a kernel_scheme) run" where
  "execute check command s =
     (case parse_command command (ram s) of
        None \<Rightarrow> None
      | Some m \<Rightarrow>
          obind (load_check check (s\<lparr>ram := m\<rparr>)) (\<lambda>(r, s).
          case r of
            None \<Rightarrow> Some (Inr (Ret (- 1), s))
          | Some (inode, fsize, v_addr) \<Rightarrow>
              obind (Some (new_pde v_addr s)) (\<lambda>(proc_id, s).
              if proc_id = - 1 then Some (Inr (Ret (- 1), s))
              else Some (start_process inode fsize v_addr proc_id s))))"

definition halt :: "u8 \<Rightarrow> 'a kernel_scheme \<Rightarrow> (outcome \<times> 'a kernel_scheme) res" where
  "halt status s =
     rbind (get_curr_pcb s) (\<lambda>a.
     let pcb = pcbs s a; proc_id = pcb_proc_id pcb
     in if proc_id = 0 then Inr (Exit_shell, s)
     else rbind (remove_page proc_id s) (\<lambda>s.
       let s = s\<lparr>tss_ss0 := 0x18, tss_esp0 := kstack pcb, tss_ebp := old_ebp pcb, tss_esp := kstack pcb\<rparr>
       in rbind (is_active proc_id s) (\<lambda>act.
          if act then
            rbind (pcb_phys s (old_pcb pcb)) (\<lambda>pa.
            let parent = pcb_proc_id (pcbs s pa)
            in rbind (remove_process parent (kstack pcb) (old_ebp pcb) s) (\<lambda>s.
               Inr (Usr_end, (sti s)\<lparr>cr3 := parent + 1, ebp := old_ebp pcb, esp := kstack pcb\<rparr>)))
          else Inr (Ret 0, s))))"

text \<open>The dispatcher: \<open>eax\<close> selects the call, \<open>ebx\<close>, \<open>ecx\<close> and \<open>edx\<close> are its arguments.\<close>

definition ret :: "(u32 \<times> 'a kernel_scheme) run \<Rightarrow> (outcome \<times> 'a kernel_scheme) run" where
  "ret r = obind r (\<lambda>(v, s). Some (Inr (Ret v, s)))"

text \<open>
  Which calls use the address they are handed: \<open>read\<close> stores through it unless nothing is read, \<open>write\<close> reads the
  text for the terminal or the rate for the clock, \<open>open\<close> reads the name once it has a free descriptor, \<open>getargs\<close>
  stores unless there is no argument, and \<open>execute\<close> reads the command.  \<open>through\<close> ends the run when such an address
  is not in a program page.
\<close>

definition fd_kind :: "u32 \<Rightarrow> 'a kernel_scheme \<Rightarrow> fotp option" where
  "fd_kind fd s = (case get_fd fd s of Inl _ \<Rightarrow> None
      | Inr e \<Rightarrow> if fd_flags e AND 1 = 0 then None else Some (fd_fotp e))"

definition read_stores :: "u32 \<Rightarrow> u32 \<Rightarrow> 'a kernel_scheme \<Rightarrow> bool" where
  "read_stores fd r s \<longleftrightarrow> fd \<noteq> 1 \<and> (fd_kind fd s = Some Otp_terminal \<or>
     (fd_kind fd s = Some Otp_dir \<or> fd_kind fd s = Some Otp_file) \<and> r \<noteq> 0 \<and> r \<noteq> - 1)"

definition write_loads :: "u32 \<Rightarrow> u32 \<Rightarrow> 'a kernel_scheme \<Rightarrow> bool" where
  "write_loads fd n s \<longleftrightarrow> fd \<noteq> 0 \<and> (fd_kind fd s = Some Otp_terminal \<and> 0 \<le> sint n \<or> fd_kind fd s = Some Otp_rtc)"

definition open_loads :: "'a kernel_scheme \<Rightarrow> bool" where
  "open_loads s \<longleftrightarrow> (case get_curr_pcb s of Inl _ \<Rightarrow> False
      | Inr a \<Rightarrow> scan (\<lambda>i. fd_flags (pcb_fd (pcbs s a) ! i) AND 1 = 0) 2 8 < 8)"

definition getargs_stores :: "'a kernel_scheme \<Rightarrow> bool" where
  "getargs_stores s \<longleftrightarrow> ld (ram s) args_p 0 \<noteq> 0x0A \<and> ld (ram s) args_p 0 \<noteq> 0"

definition through :: "bool \<Rightarrow> u32 \<Rightarrow> 'a paging_scheme \<Rightarrow> 'b run \<Rightarrow> 'b run" where
  "through used a s r = (if used \<and> \<not> own_ptr (user_ptr s a) then Some (Inl (stray s a)) else r)"

lemma through_own: "own_ptr (user_ptr s a) \<Longrightarrow> through used a s r = r"
  by (simp add: through_def)

definition sys_call ::
  "hardware \<Rightarrow> ('a kernel_scheme \<Rightarrow> 'a kernel_scheme run) list \<Rightarrow> u32 \<Rightarrow> u32 \<Rightarrow> u32 \<Rightarrow> u32 \<Rightarrow> u32 \<Rightarrow> 'a kernel_scheme \<Rightarrow> (outcome \<times> 'a kernel_scheme) run" where
  "sys_call hw irqs check eax ebx ecx edx s =
     (let s = cli s; n = sint (eax - 1)
      in obind
        (if n = 0 then Some (halt (ucast ebx) s)
         else if n = 1 then through True ebx s (execute check (user_ptr s ebx) s)
         else if n = 2 then ret (obind (sys_read irqs ebx (user_ptr s ecx) edx s) (\<lambda>(r, s').
           through (read_stores ebx r s) ecx s (Some (Inr (r, s')))))
         else if n = 3 then through (write_loads ebx edx s) ecx s (ret (Some (sys_write hw ebx (user_ptr s ecx) edx s)))
         else if n = 4 then through (open_loads s) ebx s (ret (sys_open check (user_ptr s ebx) s))
         else if n = 5 then ret (Some (sys_close ebx s))
         else if n = 6 then through (getargs_stores s) ebx s
           (ret (case getargs (user_ptr s ebx) (sint ecx) s of None \<Rightarrow> None | Some r \<Rightarrow> Some (Inr r)))
         else if n = 7 then ret (Some (sys_vidmap ebx s))
         else if n = 8 then Some (Inr (Ret sys_set_handler, s))
         else if n = 9 then Some (Inr (Ret sys_sigreturn, s))
         else Some (Inr (Ret sys_error, s)))
        (\<lambda>(out, s). Some (Inr (out, case out of Ret v \<Rightarrow> sti s | _ \<Rightarrow> s))))"

subsection \<open>Where the control blocks are\<close>

text \<open>
  The directories when every program is linked at 0x8048000, as the programs of the repository
  are: all entries but the page table, the kernel, the video map and the program page keep the
  default of \<open>init_paging\<close>.
\<close>

definition dir_std :: "'a paging_scheme \<Rightarrow> bool" where
  "dir_std s \<longleftrightarrow> (\<forall>j i. 1 \<le> j \<longrightarrow> j < 8 \<longrightarrow> i < 1024 \<longrightarrow> i \<notin> {0, 1, 12, 32} \<longrightarrow> PDE s j i = CTRL_EMPTY_USR)"

lemma init_paging_dir_std: "dir_std (init_paging s)"
  by (simp add: dir_std_def init_paging_PDE_proc)

lemma new_pde_dir_std:
  assumes "dir_std s" and "slots_inv s" and "unat (drop_bit 22 v) = 32" and "new_pde v s = Inr (r, s')"
  shows "dir_std s'"
  using new_pde_result [OF assms(2), of v] assms(1,3,4) by (auto simp: dir_std_def proc_row_def Let_def)

definition pcb_loc :: "nat \<Rightarrow> u32" where
  "pcb_loc k = 0x3FE000 - 0x2000 * of_nat k"

lemma slot_cases: "k < 7 \<Longrightarrow> k = 0 \<or> k = 1 \<or> k = 2 \<or> k = 3 \<or> k = 4 \<or> k = 5 \<or> (k :: nat) = 6"
  by arith

lemma dir_std_low:
  assumes "dir_std s" and "cr3 s = int j + 1" "j < 7" and "unat (drop_bit 22 v) \<notin> {0, 1, 12, 32}"
  shows "translate s v = Some (v AND 0x3FFFFF, True, True)"
proof -
  have "PDE s (nat (cr3 s)) (unat (drop_bit 22 v)) = push_bit 22 0 OR CTRL_EMPTY_USR"
    using assms unat_drop_22 [of v] by (simp add: dir_std_def nat_add_distrib)
  from translate_big [OF this] assms(2,3) show ?thesis by (simp add: masks_u32)
qed

text \<open>
  The two addresses the code computes for one control block, with the masks 0xfffe000 and
  0xffe000, are different virtual addresses of the same physical memory.
\<close>

lemma pcb_alias:
  assumes "dir_std s" and "cr3 s = int j + 1" "j < 7" and k: "k < 7"
  shows "pcb_phys s (pcb_vaddr (int k)) = Inr (pcb_loc k)"
    and "pcb_phys s (pcb_vaddr (int k) AND 0xFFE000) = Inr (pcb_loc k)"
proof -
  have 1: "unat (drop_bit 22 (pcb_vaddr (int k))) \<notin> {0, 1, 12, 32}" "pcb_vaddr (int k) AND 0x3FFFFF = pcb_loc k"
    "unat (drop_bit 22 (pcb_vaddr (int k) AND 0xFFE000)) \<notin> {0, 1, 12, 32}"
    "(pcb_vaddr (int k) AND 0xFFE000) AND 0x3FFFFF = pcb_loc k"
    using slot_cases [OF k] by (auto simp: pcb_vaddr_def pcb_loc_def)
  show "pcb_phys s (pcb_vaddr (int k)) = Inr (pcb_loc k)" "pcb_phys s (pcb_vaddr (int k) AND 0xFFE000) = Inr (pcb_loc k)"
    using dir_std_low [OF assms(1-3) 1(1)] dir_std_low [OF assms(1-3) 1(3)] 1(2,4) by (simp_all add: pcb_phys_def)
qed

lemma pcb_loc_inj: "j < 7 \<Longrightarrow> k < 7 \<Longrightarrow> pcb_loc j = pcb_loc k \<longleftrightarrow> j = k"
  using slot_cases [of j] slot_cases [of k] by (auto simp: pcb_loc_def)

text \<open>The stack a process enters the kernel on lies in its own control block.\<close>

lemma entry_stack:
  "k < 7 \<Longrightarrow> (0x8000000 - 0x2000 * of_nat k - 4) AND 0xFFFE000 = pcb_vaddr (int k)"
  using slot_cases [of k] by (auto simp: pcb_vaddr_def)

lemma mask_twice: "(e AND 0xFFFE000) AND 0xFFE000 = e AND (0xFFE000 :: u32)"
  by (simp add: and.assoc)

subsection \<open>Starting a process\<close>

text \<open>The program page of slot \<open>k\<close>, seen from its own directory.\<close>

definition prog_mapped :: "nat \<Rightarrow> 'a paging_scheme \<Rightarrow> bool" where
  "prog_mapped k s \<longleftrightarrow> PDE s (k + 1) 32 = push_bit 22 (of_nat (k + 2)) OR CTRL_EMPTY_USR"

lemma prog_ptr:
  assumes "prog_mapped k s" and "cr3 s = int k + 1" "k < 7"
  shows "user_ptr s 0x8048000 = (User k, 0x48000)"
proof -
  have "PDE s (nat (cr3 s)) (unat (drop_bit 22 (0x8048000 :: u32))) = push_bit 22 (of_nat (k + 2)) OR CTRL_EMPTY_USR"
    using assms by (simp add: prog_mapped_def nat_add_distrib)
  from translate_big [OF this] assms(2,3)
  have "translate s 0x8048000 = Some (push_bit 22 (of_nat (k + 2)) OR (0x8048000 AND mask 22), True, True)" by simp
  then show ?thesis using slot_cases [OF assms(3)] by (auto simp: user_ptr_def mask_numeral)
qed

definition table_ok :: "'a sched_scheme \<Rightarrow> bool" where
  "table_ok s \<longleftrightarrow> 0 \<le> active_term s \<and> active_term s < 3 \<and> length (proc_active s) = 3 \<and>
     length (proc_esp s) = 3 \<and> length (proc_ebp s) = 3"

text \<open>The control block \<open>execute\<close> writes.\<close>

definition child_pcb :: "u32 \<Rightarrow> u32 \<Rightarrow> int \<Rightarrow> pcb_t \<Rightarrow> pcb_t" where
  "child_pcb sp bp k p =
     (let t = \<lparr>fd_fotp = Otp_terminal, fd_inode = 0, fd_fp = 0, fd_flags = 7\<rparr>
      in p\<lparr>pcb_fd := (pcb_fd p)[0 := t, 1 := t], old_pcb := sp AND 0xFFE000, kstack := sp, old_ebp := bp, pcb_proc_id := k\<rparr>)"

lemma init_pcb_ok:
  "length (pcb_fd p) = 8 \<Longrightarrow> init_pcb (sp AND 0xFFE000) sp bp k p = Inr (child_pcb sp bp k p)"
  by (simp add: init_pcb_def child_pcb_def aset_def Let_def)

theorem start_process_spec:
  assumes std: "dir_std s" and pm: "prog_mapped k s" and k: "k < 7" and tb: "table_ok s"
    and fd8: "length (pcb_fd (pcbs s (pcb_loc k))) = 8"
    and fs: "fs_ok s" "fst (bbp s) \<noteq> User k" "inode < N s"
  shows "\<exists>s'. start_process inode fsize v_addr (int k) s = Inr (Enter v_addr 0x83FFFFC, s') \<and>
    cr3 s' = int k + 1 \<and> proc_active s' = (proc_active s)[nat (active_term s) := int k] \<and> active_term s' = active_term s \<and>
    pcbs s' = (pcbs s)(pcb_loc k := child_pcb (esp s) (ebp s) (int k) (pcbs s (pcb_loc k))) \<and>
    ram s' = stores (ram s) (User k, 0x48000) (take (unat fsize) (content (ram s) s inode)) \<and>
    tss_esp0 s' AND 0xFFFE000 = pcb_vaddr (int k) \<and> tss_ss0 s' = 0x18 \<and> iflag s' \<and>
    PDE s' = PDE s \<and> proc s' = proc s \<and> proc_esp s' = proc_esp s \<and> proc_ebp s' = proc_ebp s \<and>
    PTE s' = (PTE s)(0xB8 := push_bit 12 0xB8 OR CTRL_PTE) \<and> PTE_base s' = PTE_base s \<and>
    bg_term s' = int k \<and> (\<forall>f. \<exists>g. frames s' f = frames s g)"
proof -
  note tbd = tb [unfolded table_ok_def]
  define s1 where "s1 = s\<lparr>proc_active := (proc_active s)[nat (active_term s) := int k], bg_term := int k, cr3 := int k + 1,
     tss_ss0 := 0x18, tss_esp0 := 0x7FFFFFC - 0x2000 * of_nat k\<rparr>"
  define m where "m = stores (ram s) (User k, 0x48000) (take (unat fsize) (content (ram s) s inode))"
  define p where "p = child_pcb (esp s) (ebp s) (int k) (pcbs s (pcb_loc k))"
  define s2 where "s2 = s1\<lparr>ram := m, pcbs := (pcbs s)(pcb_loc k := p)\<rparr>"
  have f: "PDE s1 = PDE s" "cr3 s1 = int k + 1" "fs_ok s1 = fs_ok s" "N s1 = N s" "bbp s1 = bbp s" "ram s1 = ram s"
    "content (ram s) s1 = content (ram s) s" "pcbs s1 = pcbs s" "dir_std s1" "prog_mapped k s1"
    using std pm by (simp_all add: s1_def fs_ok_def content_def file_byte_def file_size_def inode_at_def fun_eq_iff dir_std_def prog_mapped_def)
  have rd: "read_data (ram s1) s1 inode 0 (user_ptr s1 0x8048000) fsize = (of_nat (length (take (unat fsize) (content (ram s) s inode))), m)"
    using read_data_slice [of s1 "(User k, 0x48000)" inode "ram s" 0 fsize] fs f prog_ptr [OF f(10,2) k]
    by (simp add: m_def Let_def)
  have std2: "dir_std (s1\<lparr>ram := m\<rparr>)" using f(9) by (simp add: dir_std_def)
  have loc: "pcb_phys (s1\<lparr>ram := m\<rparr>) (pcb_vaddr (int k)) = Inr (pcb_loc k)"
    by (rule pcb_alias(1) [OF std2 _ k k]) (simp add: s1_def)
  have np: "new_process (int k) s = Inr (s\<lparr>proc_active := (proc_active s)[nat (active_term s) := int k], bg_term := int k\<rparr>)"
    using tbd by (simp add: new_process_def aset_def)
  have "start_process inode fsize v_addr (int k) s =
      (let s = change_pte 0xB8 0xB8 s2;
           s = (if get_active_term s = get_bg_term s then page_copy (nat (1 + get_active_term s)) 0xB8 s else s);
           s = snd (change_cr3 (int k) s)
       in Inr (Enter v_addr 0x83FFFFC, sti s))"
    using k rd loc init_pcb_ok [OF fd8] np
    by (simp add: start_process_def Let_def s1_def [symmetric] f p_def [symmetric] s2_def [symmetric])
  moreover have "(0x7FFFFFC - 0x2000 * of_nat k :: u32) AND 0xFFFE000 = pcb_vaddr (int k)"
    using entry_stack [OF k] by simp
  ultimately show ?thesis
    using k by (simp add: Let_def change_cr3_def sti_def change_pte_def pte_set_def page_copy_def get_active_term_def
        get_bg_term_def s2_def s1_def m_def p_def) blast
qed

subsection \<open>Ending a process\<close>

theorem halt_spec:
  assumes std: "dir_std r" and sl: "slots_inv r" and tb: "table_ok r" and k: "0 < k" "k < 7" and j: "j < 7"
    and cr: "cr3 r = int k + 1" and sp: "esp r AND 0xFFFE000 = pcb_vaddr (int k)"
    and pk: "pcb_proc_id (pcbs r (pcb_loc k)) = int k" and ac: "proc_active r ! nat (active_term r) = int k"
    and par: "old_pcb (pcbs r (pcb_loc k)) = pcb_vaddr (int j) AND 0xFFE000" "pcb_proc_id (pcbs r (pcb_loc j)) = int j"
  shows "\<exists>r'. halt status r = Inr (Usr_end, r') \<and> cr3 r' = int j + 1 \<and>
    esp r' = kstack (pcbs r (pcb_loc k)) \<and> ebp r' = old_ebp (pcbs r (pcb_loc k)) \<and>
    proc r' = (proc r)[k := 0] \<and> proc_active r' = (proc_active r)[nat (active_term r) := int j] \<and>
    PDE r' = PDE r \<and> pcbs r' = pcbs r \<and> ram r' = ram r \<and> iflag r' \<and> active_term r' = active_term r"
proof -
  note tbd = tb [unfolded table_ok_def]
  let ?p = "pcbs r (pcb_loc k)"
  have cur: "get_curr_pcb r = Inr (pcb_loc k)"
    unfolding get_curr_pcb_def sp by (rule pcb_alias(1) [OF std cr k(2) k(2)])
  have rp: "remove_page (int k) r = Inr (r\<lparr>proc := (proc r)[k := 0]\<rparr>)"
    by (rule remove_page_ok [OF sl]) (use k in simp)
  define s1 where "s1 = r\<lparr>proc := (proc r)[k := 0], tss_ss0 := 0x18, tss_esp0 := kstack ?p, tss_ebp := old_ebp ?p, tss_esp := kstack ?p\<rparr>"
  have "dir_std s1" "cr3 s1 = int k + 1" using std cr by (simp_all add: s1_def dir_std_def)
  from pcb_alias(2) [OF this k(2) j] have pp: "pcb_phys s1 (old_pcb ?p) = Inr (pcb_loc j)" using par(1) by simp
  have ia: "is_active (int k) s1 = Inr True" using tbd ac by (simp add: is_active_def aget_def s1_def)
  have "halt status r = rbind (remove_process (int j) (kstack ?p) (old_ebp ?p) s1) (\<lambda>s.
      Inr (Usr_end, (sti s)\<lparr>cr3 := int j + 1, ebp := old_ebp ?p, esp := kstack ?p\<rparr>))"
    using cur rp pk k(1) ia pp par(2) by (simp add: halt_def Let_def s1_def [symmetric]) (simp add: s1_def)
  then show ?thesis using tbd by (simp add: remove_process_def aset_def s1_def sti_def)
qed

text \<open>
  A process that starts and ends gives its parent back exactly the stack it called \<open>execute\<close> on,
  its address space and its place in the schedule.  Between the two the child may do anything that
  keeps the control blocks of the two processes, the directories and the tables.
\<close>

theorem start_halt:
  assumes std: "dir_std s" and pm: "prog_mapped k s" and sl: "slots_inv s" and tb: "table_ok s"
    and k: "0 < k" "k < 7" and j: "j < 7" "j \<noteq> k"
    and fd8: "length (pcb_fd (pcbs s (pcb_loc k))) = 8"
    and fs: "fs_ok s" "fst (bbp s) \<noteq> User k" "inode < N s"
    and cr: "cr3 s = int j + 1" and sp: "esp s AND 0xFFFE000 = pcb_vaddr (int j)"
    and pj: "pcb_proc_id (pcbs s (pcb_loc j)) = int j" and ac: "proc_active s ! nat (active_term s) = int j"
    and st: "start_process inode fsize v_addr (int k) s = Inr (out, s')"
    and run: "PDE r = PDE s'" "cr3 r = cr3 s'" "pcb_proc_id (pcbs r (pcb_loc j)) = int j"
      "pcbs r (pcb_loc k) = pcbs s' (pcb_loc k)" "proc r = proc s'" "proc_active r = proc_active s'"
      "active_term r = active_term s'" "length (proc_esp r) = 3" "length (proc_ebp r) = 3"
      "esp r AND 0xFFFE000 = tss_esp0 s' AND 0xFFFE000"
  shows "\<exists>r'. halt status r = Inr (Usr_end, r') \<and> esp r' = esp s \<and> ebp r' = ebp s \<and> cr3 r' = cr3 s \<and>
    proc_active r' = proc_active s \<and> proc r' = (proc s)[k := 0]"
proof -
  note sp' = start_process_spec [OF std pm k(2) tb fd8 fs, of fsize v_addr]
  have c: "cr3 s' = int k + 1" "proc_active s' = (proc_active s)[nat (active_term s) := int k]" "active_term s' = active_term s"
    "pcbs s' (pcb_loc k) = child_pcb (esp s) (ebp s) (int k) (pcbs s (pcb_loc k))"
    "tss_esp0 s' AND 0xFFFE000 = pcb_vaddr (int k)" "PDE s' = PDE s" "proc s' = proc s"
    using sp' st by auto
  note tbd = tb [unfolded table_ok_def]
  have n: "nat (active_term s) < length (proc_active s)" using tbd by (simp add: nat_less_iff)
  have old: "old_pcb (pcbs r (pcb_loc k)) = pcb_vaddr (int j) AND 0xFFE000"
    unfolding run(4) c(4) using sp mask_twice [of "esp s"] by (simp add: child_pcb_def Let_def)
  have h: "\<exists>r'. halt status r = Inr (Usr_end, r') \<and> cr3 r' = int j + 1 \<and>
    esp r' = kstack (pcbs r (pcb_loc k)) \<and> ebp r' = old_ebp (pcbs r (pcb_loc k)) \<and>
    proc r' = (proc r)[k := 0] \<and> proc_active r' = (proc_active r)[nat (active_term r) := int j] \<and>
    PDE r' = PDE r \<and> pcbs r' = pcbs r \<and> ram r' = ram r \<and> iflag r' \<and> active_term r' = active_term r"
  proof (rule halt_spec)
    show "dir_std r" using std run(1) c(6) by (simp add: dir_std_def)
    show "slots_inv r" using sl run(5) c(7) by (simp add: slots_inv_def)
    show "table_ok r" using tbd run c by (simp add: table_ok_def)
  qed (use k j run c old n in \<open>simp_all add: child_pcb_def Let_def\<close>)
  moreover have "kstack (pcbs r (pcb_loc k)) = esp s" "old_ebp (pcbs r (pcb_loc k)) = ebp s"
    using run(4) c(4) by (simp_all add: child_pcb_def Let_def)
  moreover have "(proc_active r)[nat (active_term r) := int j] = proc_active s"
    using run(6,7) c(2,3) ac n by (metis list_update_id list_update_overwrite)
  ultimately show ?thesis using cr run(5) c(7) by auto
qed

subsection \<open>Splitting the command line\<close>

lemma skip_while_stop:
  assumes "i \<le> n" and "\<And>j. i \<le> j \<Longrightarrow> j < n \<Longrightarrow> P (ld m p (of_nat j))" and "\<not> P (ld m p (of_nat n))"
  shows "skip_while P m p (of_nat i) = Some (of_nat n)"
  using assms(1,2)
proof (induction "n - i" arbitrary: i)
  case 0
  then have "i = n" by simp
  then show ?case using assms(3) by (subst skip_while.simps) simp
next
  case (Suc k)
  then have "i < n" "k = n - Suc i" by simp_all
  then show ?case using Suc.hyps(1) [of "Suc i"] Suc.prems(2) by (subst skip_while.simps) (simp add: add.commute)
qed

lemma zero_loop:
  "n \<le> 32 \<Longrightarrow> for_loop 0 n (\<lambda>i m. st m p (of_nat i) 0) m = stores m p (replicate n 0)"
proof (induction n)
  case (Suc n)
  then show ?case
    using stores_snoc [of "replicate n 0" m p 0] by (simp add: for_loop_def replicate_append_same)
qed (simp add: for_loop_def)

lemma copy_args_stores:
  assumes "\<And>i. i < length arg \<Longrightarrow> ld m temp2_p (of_nat (j + i)) = arg ! i \<and> arg ! i \<noteq> 0x0A \<and> arg ! i \<noteq> 0"
    and "ld m temp2_p (of_nat (j + length arg)) \<in> {0x0A, 0}" and "length arg < 2 ^ 32" and "i \<le> length arg"
  shows "copy_args (stores m args_p (take i arg)) (of_nat (j + i)) (of_nat i) = Some (stores m args_p arg, of_nat (length arg))"
  using assms(4)
proof (induction "length arg - i" arbitrary: i)
  case 0
  then have "i = length arg" by simp
  moreover have "ld (stores m args_p arg) temp2_p (of_nat (j + length arg)) \<in> {0x0A, 0}"
    using assms(2) by (simp add: ld_def stores_other_block)
  ultimately show ?case by (subst copy_args.simps) auto
next
  case (Suc n)
  then have i: "i < length arg" by simp
  have "st (stores m args_p (take i arg)) args_p (of_nat i) (arg ! i) = stores m args_p (take (Suc i) arg)"
    using stores_snoc [of "take i arg" m args_p "arg ! i"] i assms(3) by (simp add: take_Suc_conv_app_nth)
  moreover have "ld (stores m args_p (take i arg)) temp2_p (of_nat (j + i)) = arg ! i"
    using assms(1) [OF i] by (simp add: ld_def stores_other_block)
  moreover have "n = length arg - Suc i" using Suc.hyps(2) by simp
  ultimately show ?case
    using Suc.hyps(1) [of "Suc i"] i assms(1) [OF i] by (subst copy_args.simps) (simp add: add.commute)
qed

text \<open>The line: a name, blanks, arguments, an end mark, within the 20 bytes that are copied.\<close>

definition command_line :: "mem \<Rightarrow> ptr \<Rightarrow> u8 list \<Rightarrow> nat \<Rightarrow> u8 list \<Rightarrow> bool" where
  "command_line m p name k arg \<longleftrightarrow>
     (\<exists>t junk. bytes m p 20 = name @ replicate k 0x20 @ arg @ [t] @ junk \<and> (t = 0 \<or> t = 0x0A) \<and>
        set name \<inter> {0x20, 0, 0x0A} = {} \<and> set arg \<inter> {0, 0x0A} = {} \<and>
        (k = 0 \<longrightarrow> arg = []) \<and> (arg \<noteq> [] \<longrightarrow> hd arg \<noteq> 0x20))"

theorem parse_command_spec:
  assumes cl: "command_line m command name k arg"
    and blk: "fst command \<noteq> fst temp2_p" "fst command \<noteq> fst file_name_p"
  shows "\<exists>m'. parse_command command m = Some m' \<and> cstr m' file_name_p name \<and> cstr m' args_p arg \<and>
    (\<forall>b. b \<notin> {fst temp2_p, fst file_name_p, fst args_p} \<longrightarrow> m' b = m b)"
proof -
  define B where "B = bytes m command 20"
  obtain t junk where b: "B = name @ replicate k 0x20 @ arg @ [t] @ junk" "t = 0 \<or> t = 0x0A"
    "set name \<inter> {0x20, 0, 0x0A} = {}" "set arg \<inter> {0, 0x0A} = {}" "k = 0 \<longrightarrow> arg = []" "arg \<noteq> [] \<longrightarrow> hd arg \<noteq> 0x20"
    using cl by (auto simp: command_line_def B_def)
  let ?n = "length name"
  have lB: "length B = 20" by (simp add: B_def)
  have len: "?n + k + length arg < 20" using arg_cong [OF b(1), of length] lB by simp
  define m2 where "m2 = stores (stores m file_name_p (replicate 32 0)) temp2_p B"
  have bc: "bytes (stores m file_name_p (replicate 32 0)) command 20 = B"
    using blk(2) by (simp add: B_def bytes_def ld_def stores_other_block)
  have p2: "for_loop 0 20 (\<lambda>i m. st m temp2_p (of_nat i) (ld m command (of_nat i)))
      (for_loop 0 32 (\<lambda>i m. st m file_name_p (of_nat i) 0) m) = m2"
    using zero_loop [of 32 file_name_p m] copy_name_loop [of temp2_p command 20 "stores m file_name_p (replicate 32 0)"] blk(1) bc
    by (simp add: m2_def)
  have ldb: "ld m2 temp2_p (of_nat i) = B ! i" if "i < 20" for i
    using ld_stores_nth [of i B "stores m file_name_p (replicate 32 0)" temp2_p] that lB by (simp add: m2_def)
  have nm: "B ! i = name ! i" if "i < ?n" for i using that by (simp add: b(1) nth_append)
  have bl: "B ! i = 0x20" if "?n \<le> i" "i < ?n + k" for i
  proof -
    have "i - ?n < k" using that by linarith
    then show ?thesis using that by (simp add: b(1) nth_append)
  qed
  have ar: "B ! (?n + k + i) = (arg @ [t]) ! i" if "i \<le> length arg" for i using that by (simp add: b(1) nth_append)
  have ar0: "B ! (?n + k) \<noteq> 0x20"
    using ar [of 0] b(2,6) by (cases arg) auto
  have endn: "B ! ?n \<in> {0x20, 0, 0x0A}"
    using bl [of ?n] ar [of 0] b(2,5) by (cases "k = 0") auto
  have s1: "skip_while (\<lambda>c. c \<noteq> 0x20 \<and> c \<noteq> 0 \<and> c \<noteq> 0x0A) m2 temp2_p 0 = Some (of_nat ?n)"
  proof -
    have "name ! j \<notin> {0x20, 0, 0x0A}" if "j < ?n" for j using b(3) nth_mem [OF that] by blast
    then show ?thesis
      using skip_while_stop [of 0 ?n "\<lambda>c. c \<noteq> 0x20 \<and> c \<noteq> 0 \<and> c \<noteq> 0x0A" m2 temp2_p] len endn by (auto simp: ldb nm)
  qed
  define m3 where "m3 = stores m2 file_name_p name"
  have "unat (of_nat ?n :: u32) = ?n" using len by (intro unat_u32_of_nat) simp
  moreover have "cview m2 temp2_p ?n = name"
  proof -
    have "bytes m2 temp2_p ?n = name" using len by (intro nth_equalityI) (auto simp: ldb nm)
    then show ?thesis using b(3) by (auto simp: cview_def takeWhile_eq_all_conv)
  qed
  ultimately have cp: "strncpy m2 file_name_p temp2_p (of_nat ?n) = m3"
    using strncpy_stores [of file_name_p "of_nat ?n" temp2_p m2] region_blocks [of file_name_p temp2_p] by (simp add: m3_def)
  have ld3: "ld m3 temp2_p (of_nat i) = B ! i" if "i < 20" for i
    using ldb [OF that] by (simp add: m3_def ld_def stores_other_block)
  have s2: "skip_while (\<lambda>c. c = 0x20) m3 temp2_p (of_nat ?n) = Some (of_nat (?n + k))"
    using len ar0 bl by (intro skip_while_stop) (simp_all add: ld3 del: of_nat_add)
  have s3: "copy_args m3 (of_nat (?n + k)) 0 = Some (stores m3 args_p arg, of_nat (length arg))"
  proof -
    have "arg ! i \<noteq> 0x0A \<and> arg ! i \<noteq> 0" if "i < length arg" for i using b(4) nth_mem [OF that] by auto
    moreover have "B ! (?n + k + length arg) \<in> {0x0A, 0}" using ar [of "length arg"] b(2) by auto
    moreover have "B ! (?n + k + i) = arg ! i" if "i < length arg" for i using ar [of i] that by (simp add: nth_append)
    ultimately show ?thesis
      using copy_args_stores [of arg m3 "?n + k" 0] len ld3 by (simp add: add.assoc del: of_nat_add)
  qed
  define m4 where "m4 = stores m3 args_p (arg @ [0])"
  have "st (stores m3 args_p arg) args_p (of_nat (length arg)) 0 = m4"
    using stores_snoc [of arg m3 args_p 0] len by (simp add: m4_def)
  then have "parse_command command m = Some m4"
    using p2 s1 cp s2 s3 by (simp add: parse_command_def Let_def)
  moreover have "cstr m4 args_p arg" unfolding m4_def using len b(4) by (intro cstr_stores) auto
  moreover have "cstr m4 file_name_p name"
  proof -
    have z: "ld m4 file_name_p (of_nat ?n) = 0"
      using len by (simp add: m4_def m3_def m2_def ld_def stores_def unat_u32_of_nat)
    have "bytes m4 file_name_p ?n = name"
      using len by (intro nth_equalityI) (auto simp: m4_def m3_def ld_def stores_def unat_u32_of_nat)
    then show ?thesis using z len b(3) by (auto simp: cstr_def)
  qed
  moreover have "\<forall>b. b \<notin> {fst temp2_p, fst file_name_p, fst args_p} \<longrightarrow> m4 b = m b"
    by (auto simp: m4_def m3_def m2_def stores_other_block)
  ultimately show ?thesis by blast
qed

subsection \<open>Finding and checking the program\<close>

definition exec_blocks :: "block set" where
  "exec_blocks = {fst temp2_p, fst file_name_p, fst exec_dentry, fst file_buf_p, fst new_addr_p, fst args_p}"

definition of_le32 :: "u8 list \<Rightarrow> u32" where
  "of_le32 xs = ucast (xs ! 0) OR push_bit 8 (ucast (xs ! 1)) OR push_bit 16 (ucast (xs ! 2)) OR push_bit 24 (ucast (xs ! 3))"

text \<open>An executable: the four magic bytes and an entry point at offset 24.\<close>

definition elf :: "u8 list \<Rightarrow> bool" where
  "elf c \<longleftrightarrow> take 4 c = [0x7F, 0x45, 0x4C, 0x46]"

definition elf_entry :: "u8 list \<Rightarrow> u32" where
  "elf_entry c = of_le32 (take 4 (drop 24 c))"

lemma elf_iff:
  assumes "4 \<le> length c"
  shows "elf c \<longleftrightarrow> c ! 0 = 0x7F \<and> c ! 1 = 0x45 \<and> c ! 2 = 0x4C \<and> c ! 3 = 0x46"
proof -
  have "take 4 c = [c ! 0, c ! 1, c ! 2, c ! 3]"
    using assms by (intro nth_equalityI) (auto simp: less_Suc_eq numeral_eq_Suc)
  then show ?thesis by (simp add: elf_def)
qed

lemma ld32_stores: "length xs = 4 \<Longrightarrow> ld32 (stores m p xs) p = of_le32 xs"
  by (simp add: ld32_def of_le32_def ld_stores_same)

text \<open>What the file system and the command have to satisfy: they are not in the locals of \<open>execute\<close>.\<close>

definition exec_fs :: "'a kernel_scheme \<Rightarrow> bool" where
  "exec_fs s \<longleftrightarrow> fs_ok s \<and> num_de s \<noteq> 0 \<and> fst (bbp s) \<notin> exec_blocks"

lemma load_lookup:
  assumes fs: "exec_fs s" and nm: "cstr (ram s) file_name_p name" "length name \<le> 31"
  shows "case lookup_name name (dirents (ram s) s) of
      None \<Rightarrow> read_dentry_by_name (ram s) s check file_name_p exec_dentry = Some (- 1, ram s)
    | Some d \<Rightarrow> \<exists>m'. read_dentry_by_name (ram s) s check file_name_p exec_dentry = Some (file_size (ram s) s (snd (snd d)), m') \<and>
         ld32 m' (padd exec_dentry 36) = snd (snd d) \<and> (\<forall>b. b \<notin> exec_blocks \<longrightarrow> m' b = ram s b) \<and> m' (fst args_p) = ram s (fst args_p)"
proof -
  have f: "fs_ok s" "num_de s \<noteq> 0" "fst (bbp s) \<noteq> fst exec_dentry" using fs by (auto simp: exec_fs_def exec_blocks_def)
  have "fst exec_dentry \<noteq> fst (bbp s)" using f(3) by simp
  from read_dentry_by_name_spec [OF f(1) this _ nm f(2), of check]
  show ?thesis by (auto simp: dentry_is_def exec_blocks_def split: option.splits)
qed

theorem load_check_found:
  assumes fs: "exec_fs s" and nm: "cstr (ram s) file_name_p name" "length name \<le> 31"
    and d: "lookup_name name (dirents (ram s) s) = Some d" "snd (snd d) < N s" "file_size (ram s) s (snd (snd d)) \<noteq> - 1"
    and len: "28 \<le> length (content (ram s) s (snd (snd d)))" and fits: "file_buf_fits (file_size (ram s) s (snd (snd d))) s"
  defines "c \<equiv> content (ram s) s (snd (snd d))"
  shows "\<exists>m'. load_check check s = Some (Inr (if elf c then Some (snd (snd d), file_size (ram s) s (snd (snd d)), elf_entry c) else None, s\<lparr>ram := m'\<rparr>)) \<and>
    (\<forall>b. b \<notin> exec_blocks \<longrightarrow> m' b = ram s b) \<and> m' (fst args_p) = ram s (fst args_p)"
proof -
  let ?i = "snd (snd d)" and ?sz = "file_size (ram s) s (snd (snd d))"
  obtain m1 where m1: "read_dentry_by_name (ram s) s check file_name_p exec_dentry = Some (?sz, m1)"
    "ld32 m1 (padd exec_dentry 36) = ?i" "\<forall>b. b \<notin> exec_blocks \<longrightarrow> m1 b = ram s b" "m1 (fst args_p) = ram s (fst args_p)"
    using load_lookup [OF fs nm, of check] d(1) by auto
  have f: "fs_ok s" "fst (bbp s) \<notin> exec_blocks" using fs by (simp_all add: exec_fs_def)
  have c1: "content m s ?i = c" if "\<forall>b. b \<notin> exec_blocks \<longrightarrow> m b = ram s b" for m
    unfolding c_def using same_block_file(3) [where s = s and m = m and m' = "ram s", OF f(1)] that f(2) by auto
  have lc: "length c = unat ?sz" by (simp add: c_def content_def)
  define m2 where "m2 = stores m1 file_buf_p c"
  have fb: "fst file_buf_p \<noteq> fst (bbp s)" "fst new_addr_p \<noteq> fst (bbp s)" using f(2) by (auto simp: exec_blocks_def)
  have r2: "read_data m1 (s\<lparr>ram := m1\<rparr>) ?i 0 file_buf_p ?sz = (of_nat (length c), m2)"
    using read_data_slice [of "s\<lparr>ram := m1\<rparr>" file_buf_p ?i m1 0 ?sz] f(1) fb d(2) c1 [OF m1(3)] lc by (simp add: m2_def Let_def)
  have m2: "\<forall>b. b \<notin> exec_blocks \<longrightarrow> m2 b = ram s b" "m2 (fst args_p) = ram s (fst args_p)"
    using m1(3,4) by (auto simp: m2_def exec_blocks_def stores_other_block)
  define m3 where "m3 = stores m2 new_addr_p (take 4 (drop 24 c))"
  have mn: "min (length c - 24) 4 = 4" using len by (simp add: c_def)
  have r3: "read_data m2 (s\<lparr>ram := m2\<rparr>) ?i 24 new_addr_p 4 = (4, m3)"
    using read_data_slice [of "s\<lparr>ram := m2\<rparr>" new_addr_p ?i m2 24 4] f(1) fb d(2) c1 [OF m2(1)] len
    by (simp add: m3_def Let_def mn)
  have en: "ld32 m3 new_addr_p = elf_entry c" unfolding m3_def elf_entry_def using len by (intro ld32_stores) (simp add: c_def)
  have m3: "\<forall>b. b \<notin> exec_blocks \<longrightarrow> m3 b = ram s b" "m3 (fst args_p) = ram s (fst args_p)"
    using m2 by (auto simp: m3_def exec_blocks_def stores_other_block)
  have sz: "(of_nat (length c) :: u32) \<noteq> - 1" using d(3) lc by simp
  have hd4: "ld m2 file_buf_p 0 = c ! 0" "ld m2 file_buf_p 1 = c ! 1" "ld m2 file_buf_p 2 = c ! 2" "ld m2 file_buf_p 3 = c ! 3"
    using len by (auto simp: m2_def ld_stores_same c_def)
  have e4: "elf c \<longleftrightarrow> c ! 0 = 0x7F \<and> c ! 1 = 0x45 \<and> c ! 2 = 0x4C \<and> c ! 3 = 0x46"
    using elf_iff [of c] len by (simp add: c_def)
  have "file_buf_fits ?sz (s\<lparr>ram := m1\<rparr>)" using fits by (simp add: file_buf_fits_def)
  then show ?thesis
    using m1(1,2) d(3) r2 r3 en hd4 e4 sz m2 m3 by (auto simp: load_check_def Let_def)
qed

theorem load_check_missing:
  assumes "exec_fs s" and "cstr (ram s) file_name_p name" "length name \<le> 31" and "lookup_name name (dirents (ram s) s) = None"
  shows "load_check check s = Some (Inr (None, s))"
  using load_lookup [OF assms(1-3), of check] assms(4) by (simp add: load_check_def)

subsection \<open>The whole of \<open>execute\<close>\<close>

lemma parse_then:
  assumes cl: "command_line (ram s) command name k arg" and blk: "fst command \<notin> exec_blocks" and fs: "exec_fs s"
  obtains m where "parse_command command (ram s) = Some m" "exec_fs (s\<lparr>ram := m\<rparr>)" "cstr m file_name_p name" "length name \<le> 31"
    "cstr m args_p arg" "dirents m s = dirents (ram s) s" "content m s = content (ram s) s" "file_size m s = file_size (ram s) s"
    "\<And>b. b \<notin> exec_blocks \<Longrightarrow> m b = ram s b"
proof -
  obtain m where m: "parse_command command (ram s) = Some m" "cstr m file_name_p name" "cstr m args_p arg"
    "\<forall>b. b \<notin> {fst temp2_p, fst file_name_p, fst args_p} \<longrightarrow> m b = ram s b"
    using parse_command_spec [OF cl] blk by (auto simp: exec_blocks_def)
  have f: "fs_ok s" "fst (bbp s) \<notin> exec_blocks" using fs by (simp_all add: exec_fs_def)
  have fr: "m b = ram s b" if "b \<notin> exec_blocks" for b using m(4) that by (simp add: exec_blocks_def)
  note mb = fr [OF f(2)]
  have "length name \<le> 31"
  proof -
    obtain t junk where "bytes (ram s) command 20 = name @ replicate k 0x20 @ arg @ [t] @ junk"
      using cl by (auto simp: command_line_def)
    from arg_cong [OF this, of length] show ?thesis by simp
  qed
  moreover have "exec_fs (s\<lparr>ram := m\<rparr>)" using fs by (simp add: exec_fs_def)
  ultimately show ?thesis
    using that m(1-3) fr same_block_dirents [where s = s and m = m and m' = "ram s", OF f(1) mb]
      same_block_file(2,3) [where s = s and m = m and m' = "ram s", OF f(1) mb] by blast
qed

theorem execute_no_file:
  assumes "command_line (ram s) command name k arg" and "fst command \<notin> exec_blocks" and "exec_fs s"
    and "lookup_name name (dirents (ram s) s) = None"
  shows "\<exists>m. execute check command s = Some (Inr (Ret (- 1), s\<lparr>ram := m\<rparr>)) \<and> (\<forall>b. b \<notin> exec_blocks \<longrightarrow> m b = ram s b) \<and>
    cstr m args_p arg"
proof -
  obtain m where m: "parse_command command (ram s) = Some m" "exec_fs (s\<lparr>ram := m\<rparr>)" "cstr m file_name_p name" "length name \<le> 31"
    "dirents m s = dirents (ram s) s" "\<And>b. b \<notin> exec_blocks \<Longrightarrow> m b = ram s b" "cstr m args_p arg"
    using parse_then [OF assms(1-3)] by metis
  have "load_check check (s\<lparr>ram := m\<rparr>) = Some (Inr (None, s\<lparr>ram := m\<rparr>))"
    by (rule load_check_missing [OF m(2) _ m(4)]) (use m assms(4) in simp_all)
  then show ?thesis using m(1,6,7) by (auto simp: execute_def)
qed

text \<open>The file a command names and its content: it has the header of an executable in its length, and the copy
  \<open>execute\<close> reads fits on the kernel stack of the caller.\<close>

definition exec_file :: "'a kernel_scheme \<Rightarrow> u8 list \<Rightarrow> u32 \<Rightarrow> u8 list \<Rightarrow> bool" where
  "exec_file s name inode c \<longleftrightarrow>
     (\<exists>nm ty. lookup_name name (dirents (ram s) s) = Some (nm, ty, inode)) \<and> inode < N s \<and>
     file_size (ram s) s inode \<noteq> - 1 \<and> file_buf_fits (file_size (ram s) s inode) s \<and>
     c = content (ram s) s inode \<and> 28 \<le> length c"

lemma execute_loaded:
  fixes s :: "'a kernel_scheme"
  assumes cl: "command_line (ram s) command name k arg" and blk: "fst command \<notin> exec_blocks" and fs: "exec_fs s"
    and ef: "exec_file s name inode c"
  obtains m where "execute check command s =
      (if elf c then obind (Some (new_pde (elf_entry c) (s\<lparr>ram := m\<rparr>))) (\<lambda>(proc_id, r).
         if proc_id = - 1 then Some (Inr (Ret (- 1), r))
         else Some (start_process inode (file_size (ram s) s inode) (elf_entry c) proc_id r))
       else Some (Inr (Ret (- 1), s\<lparr>ram := m\<rparr>)))"
    and "cstr m args_p arg" and "\<And>b. b \<notin> exec_blocks \<Longrightarrow> m b = ram s b"
proof -
  obtain m where m: "parse_command command (ram s) = Some m" "exec_fs (s\<lparr>ram := m\<rparr>)" "cstr m file_name_p name" "length name \<le> 31"
    "cstr m args_p arg" "dirents m s = dirents (ram s) s" "content m s = content (ram s) s" "file_size m s = file_size (ram s) s"
    "\<And>b. b \<notin> exec_blocks \<Longrightarrow> m b = ram s b" using parse_then [OF cl blk fs] by metis
  have up: "dirents m' (s\<lparr>ram := x\<rparr>) = dirents m' s" "content m' (s\<lparr>ram := x\<rparr>) = content m' s"
    "file_size m' (s\<lparr>ram := x\<rparr>) = file_size m' s" for m' x
    by (simp_all add: dirents_def dirent_def de_at_def content_def file_byte_def file_size_def inode_at_def fun_eq_iff)
  obtain nm ty where lk: "lookup_name name (dirents (ram s) s) = Some (nm, ty, inode)" and c: "c = content (ram s) s inode"
    and bnd: "inode < N s" "file_size (ram s) s inode \<noteq> - 1" "28 \<le> length c" "file_buf_fits (file_size (ram s) s inode) s"
    using ef by (auto simp: exec_file_def)
  obtain m' where m': "load_check check (s\<lparr>ram := m\<rparr>) =
      Some (Inr (if elf c then Some (inode, file_size (ram s) s inode, elf_entry c) else None, s\<lparr>ram := m'\<rparr>))"
    "\<forall>b. b \<notin> exec_blocks \<longrightarrow> m' b = m b" "m' (fst args_p) = m (fst args_p)"
    using load_check_found [OF m(2) _ m(4), of "(nm, ty, inode)" check] m lk bnd by (auto simp: up c file_buf_fits_def)
  have "cstr m' args_p arg" using m(5) m'(3) by (simp add: cstr_def bytes_def ld_def)
  moreover have "execute check command s =
      (if elf c then obind (Some (new_pde (elf_entry c) (s\<lparr>ram := m'\<rparr>))) (\<lambda>(proc_id, r).
         if proc_id = - 1 then Some (Inr (Ret (- 1), r))
         else Some (start_process inode (file_size (ram s) s inode) (elf_entry c) proc_id r))
       else Some (Inr (Ret (- 1), s\<lparr>ram := m'\<rparr>)))"
    using m(1) m'(1) by (simp add: execute_def)
  moreover have "m' b = ram s b" if "b \<notin> exec_blocks" for b using m(9) m'(2) that by simp
  ultimately show ?thesis using that [of m'] by simp
qed

text \<open>A file that is not an executable, and a full table of processes, make \<open>execute\<close> return -1.\<close>

theorem execute_not_elf:
  assumes "command_line (ram s) command name k arg" "fst command \<notin> exec_blocks" "exec_fs s" "exec_file s name inode c"
    and "\<not> elf c"
  shows "\<exists>m. execute check command s = Some (Inr (Ret (- 1), s\<lparr>ram := m\<rparr>)) \<and> (\<forall>b. b \<notin> exec_blocks \<longrightarrow> m b = ram s b)"
proof -
  from execute_loaded [OF assms(1-4), of check] obtain m where "execute check command s = Some (Inr (Ret (- 1), s\<lparr>ram := m\<rparr>))"
    "\<And>b. b \<notin> exec_blocks \<Longrightarrow> m b = ram s b" using assms(5) by auto
  then show ?thesis by blast
qed

theorem execute_full:
  fixes s :: "'a kernel_scheme"
  assumes "command_line (ram s) command name k arg" "fst command \<notin> exec_blocks" "exec_fs s" "exec_file s name inode c"
    and sl: "slots_inv s" "\<And>i. i < 7 \<Longrightarrow> slot_used s i"
  shows "\<exists>m. execute check command s = Some (Inr (Ret (- 1), s\<lparr>ram := m\<rparr>)) \<and> (\<forall>b. b \<notin> exec_blocks \<longrightarrow> m b = ram s b)"
proof -
  have "new_pde v (s\<lparr>ram := m\<rparr>) = Inr (- 1, s\<lparr>ram := m\<rparr>)" for v m
    by (rule new_pde_full) (use sl in \<open>simp_all add: slots_inv_def slot_used_def\<close>)
  note full = this
  show ?thesis
  proof (rule execute_loaded [OF assms(1-4), of check], goal_cases)
    case (1 m)
    then show ?case by (auto simp: full)
  qed
qed

text \<open>\<open>new_pde\<close> changes only the slots, the directories and the control registers.\<close>

lemma new_pde_frame:
  "new_pde v s = Inr (r, s') \<Longrightarrow> s' = s\<lparr>proc := proc s', PDE := PDE s', cr4 := cr4 s', cr0 := cr0 s'\<rparr>"
  by (auto simp: new_pde_def pde_set_def aset_def Let_def split: if_splits)

lemma new_pde_prog:
  assumes "dir_inv s" "slots_inv s" "unat (drop_bit 22 v) = 32" "new_pde v s = Inr (int i, s')" "i < 7"
  shows "prog_mapped i s'"
proof -
  have "PDE s (i + 1) 32 \<in> dir_entries (PTE_base s) (i + 1) 32" using assms(1,5) by (simp add: dir_inv_def)
  moreover have "PDE s' (i + 1) = proc_row (PTE_base s) i v (PDE s (i + 1))"
    using new_pde_result [OF assms(2), of v] assms(4) by auto
  ultimately show ?thesis using assms(3)
    by (auto simp: prog_mapped_def proc_row_def dir_entries_def or_absorb or.assoc)
qed

text \<open>
  A command that names an executable starts it in the first free slot: the processor continues at
  the entry point of the file on the program's stack, the file lies at the load address in the
  slot's own frame, the arguments wait in \<open>args\<close>, and the child's control block remembers the
  caller's stack.
\<close>

theorem execute_starts:
  fixes s :: "'a kernel_scheme"
  assumes cl: "command_line (ram s) command name k arg" and blk: "fst command \<notin> exec_blocks" and fs: "exec_fs s"
    and ef: "exec_file s name inode c" "elf c" "unat (drop_bit 22 (elf_entry c)) = 32"
    and inv: "dir_inv s" "dir_std s" "slots_inv s" "table_ok s"
    and i: "i < 7" "\<not> slot_used s i" "\<And>j. j < i \<Longrightarrow> slot_used s j"
    and fd8: "length (pcb_fd (pcbs s (pcb_loc i))) = 8" and bb: "fst (bbp s) \<noteq> User i"
  shows "\<exists>s'. execute check command s = Some (Inr (Enter (elf_entry c) 0x83FFFFC, s')) \<and>
    cr3 s' = int i + 1 \<and> proc s' = (proc s)[i := 1] \<and> proc_active s' = (proc_active s)[nat (active_term s) := int i] \<and>
    (\<forall>n<length c. ld (ram s') (User i, 0x48000) (of_nat n) = c ! n) \<and> cstr (ram s') args_p arg \<and>
    pcbs s' = (pcbs s)(pcb_loc i := child_pcb (esp s) (ebp s) (int i) (pcbs s (pcb_loc i))) \<and>
    prog_mapped i s' \<and> dir_inv s' \<and> dir_std s' \<and> slots_inv s' \<and>
    tss_esp0 s' AND 0xFFFE000 = pcb_vaddr (int i) \<and> bg_term s' = int i \<and> (\<forall>f. \<exists>g. frames s' f = frames s g) \<and>
    \<not> bit (PDE s' (i + 1) 0) 7 \<and> PTE s' 0 = PTE s 0 \<and> (\<forall>b. b \<notin> exec_blocks \<longrightarrow> b \<noteq> User i \<longrightarrow> ram s' b = ram s b)"
proof -
  obtain m where m: "execute check command s = (if elf c then obind (Some (new_pde (elf_entry c) (s\<lparr>ram := m\<rparr>))) (\<lambda>(proc_id, r).
         if proc_id = - 1 then Some (Inr (Ret (- 1), r))
         else Some (start_process inode (file_size (ram s) s inode) (elf_entry c) proc_id r))
       else Some (Inr (Ret (- 1), s\<lparr>ram := m\<rparr>)))"
    "cstr m args_p arg" "\<And>b. b \<notin> exec_blocks \<Longrightarrow> m b = ram s b"
    using execute_loaded [OF cl blk fs ef(1)] by blast
  let ?r = "s\<lparr>ram := m\<rparr>" and ?sz = "file_size (ram s) s inode"
  have r: "dir_inv ?r" "dir_std ?r" "slots_inv ?r"
    using inv by (simp_all add: dir_inv_def dir_std_def slots_inv_def)
  obtain t where t: "new_pde (elf_entry c) ?r = Inr (int i, t)" "proc t = (proc ?r)[i := 1]" "PTE t = PTE ?r" "PTE_base t = PTE_base ?r"
    using new_pde_free [OF r(3) i(1), of "elf_entry c"] i(2,3) by (auto simp: slot_used_def)
  note tf = new_pde_frame [OF t(1)]
  have tt: "dir_inv t" "dir_std t" "prog_mapped i t"
    using new_pde_dir_inv [OF r(1,3) _ t(1)] new_pde_dir_std [OF r(2,3) ef(3) t(1)] new_pde_prog [OF r(1,3) ef(3) t(1) i(1)] ef(3)
    by simp_all
  have sl: "slots_inv t" using r(3) t(2) i(1) by (simp add: slots_inv_def)
  have f: "ram t = m" "pcbs t = pcbs s" "bbp t = bbp s" "N t = N s" "table_ok t = table_ok s" "fs_ok t = fs_ok s"
    "esp t = esp s" "ebp t = ebp s" "proc_active t = proc_active s" "active_term t = active_term s" "content m t = content m s" "frames t = frames s"
    by (subst tf, simp add: table_ok_def fs_ok_def content_def file_byte_def file_size_def inode_at_def fun_eq_iff)+
  have b0: "fst (bbp s) \<notin> exec_blocks" "fs_ok s" using fs by (simp_all add: exec_fs_def)
  have cm: "content m s inode = c"
    using same_block_file(3) [where s = s and m = m and m' = "ram s", OF b0(2) m(3) [OF b0(1)]] ef(1) by (simp add: exec_file_def)
  have lc: "take (unat ?sz) c = c" using ef(1) by (simp add: exec_file_def content_def)
  obtain s' where s': "start_process inode ?sz (elf_entry c) (int i) t = Inr (Enter (elf_entry c) 0x83FFFFC, s')"
    "cr3 s' = int i + 1" "proc_active s' = (proc_active s)[nat (active_term s) := int i]"
    "pcbs s' = (pcbs s)(pcb_loc i := child_pcb (esp s) (ebp s) (int i) (pcbs s (pcb_loc i)))"
    "ram s' = stores m (User i, 0x48000) c" "PDE s' = PDE t" "proc s' = proc t"
    "PTE s' = (PTE t)(0xB8 := push_bit 12 0xB8 OR CTRL_PTE)" "PTE_base s' = PTE_base t"
    "tss_esp0 s' AND 0xFFFE000 = pcb_vaddr (int i)" "bg_term s' = int i" "\<forall>f. \<exists>g. frames s' f = frames s g"
    using start_process_spec [OF tt(2,3) i(1), of inode ?sz "elf_entry c"] inv(4) fd8 b0(2) bb ef(1) cm lc
    by (auto simp: f exec_file_def)
  have "ld (ram s') (User i, 0x48000) (of_nat n) = c ! n" if "n < length c" for n
  proof -
    have "length c < 2 ^ 32" using ef(1) unat_u32_lt [of ?sz] by (simp add: exec_file_def content_def)
    then show ?thesis using that by (simp add: s'(5) ld_stores_same unat_u32_of_nat)
  qed
  moreover have "cstr (ram s') args_p arg" using m(2) by (simp add: s'(5) cstr_def bytes_def ld_def stores_other_block)
  moreover have "dir_inv s'" "dir_std s'" "prog_mapped i s'" "slots_inv s'"
    using tt sl page_of_low_frame [of "0xB8" CTRL_PTE] by (auto simp: dir_inv_def dir_std_def prog_mapped_def slots_inv_def s'(6-9) mask_numeral)
  moreover have "\<not> bit (PDE s' (i + 1) 0) 7"
  proof -
    have "PDE t (i + 1) 0 = (PTE_base ?r AND 0xFFFFF000) OR CTRL_VIDEO"
      using new_pde_result [OF r(3), of "elf_entry c"] t(1) ef(3) by (auto simp: proc_row_def Let_def)
    then show ?thesis by (simp add: s'(6) masks_u32 bit_simps)
  qed
  moreover have "ram s' b = ram s b" if "b \<notin> exec_blocks" "b \<noteq> User i" for b
    using m(3) [OF that(1)] that(2) by (simp add: s'(5) stores_other_block)
  ultimately show ?thesis using m(1) ef(2) t(1-3) s'(1-4,7,8,10-12) by (auto simp: f)
qed

text \<open>The parts of the state \<open>execute\<close> may change, blanked out: what is left stays.\<close>

definition unstart :: "'a kernel_scheme \<Rightarrow> 'a kernel_scheme" where
  "unstart s = s\<lparr>ram := (\<lambda>b a. 0), proc := [], PDE := (\<lambda>j i. 0), PTE := (\<lambda>i. 0), cr4 := 0, cr0 := 0, proc_active := [], bg_term := 0,
     cr3 := 0, tss_ss0 := 0, tss_esp0 := 0, frames := (\<lambda>f. []), iflag := False,
     pcbs := (\<lambda>a. \<lparr>pcb_fd = [], old_pcb = 0, kstack = 0, old_ebp = 0, pcb_proc_id = 0\<rparr>)\<rparr>"

lemma unstart_simps [simp]:
  fixes s :: "'a kernel_scheme"
  shows "unstart (s\<lparr>ram := m\<rparr>) = unstart s" "unstart (change_pte i v s) = unstart s" "unstart (page_copy i j s) = unstart s"
    "unstart (snd (change_cr3 k s)) = unstart s" "unstart (sti s) = unstart s" "unstart (s\<lparr>pcbs := h\<rparr>) = unstart s"
    "unstart (s\<lparr>tss_ss0 := a, tss_esp0 := e\<rparr>) = unstart s" "unstart (s\<lparr>cr3 := c\<rparr>) = unstart s"
  by (simp_all add: unstart_def change_pte_def pte_set_def page_copy_def change_cr3_def sti_def Let_def)

lemma new_process_frame: "new_process k s = Inr s' \<Longrightarrow> unstart s' = unstart s"
  by (auto simp: new_process_def aset_def unstart_def rbind_def split: if_splits)

lemma start_process_frame:
  assumes "start_process inode n v k s = Inr (out, s')"
  shows "unstart s' = unstart s"
proof -
  obtain s1 where s1: "new_process k s = Inr s1" using assms by (cases "new_process k s") (auto simp: start_process_def)
  define s2 where "s2 = s1\<lparr>cr3 := k + 1\<rparr>\<lparr>tss_ss0 := 0x18, tss_esp0 := 0x8000000 - 0x2000 * word_of_int k - 4\<rparr>"
  define s3 where "s3 = s2\<lparr>ram := snd (read_data (ram s2) s2 inode 0 (user_ptr s2 0x8048000) n)\<rparr>"
  have u: "unstart s3 = unstart s" using new_process_frame [OF s1] by (simp add: s3_def s2_def)
  have "rbind (pcb_phys s3 (pcb_vaddr k)) (\<lambda>a. rbind (init_pcb (esp s AND 0xFFE000) (esp s) (ebp s) k (pcbs s3 a)) (\<lambda>p.
      let s = s3\<lparr>pcbs := (pcbs s3)(a := p)\<rparr>
      in if k < 0 \<or> k > 7 then Inr (Ret (- 1), s)
         else let s = change_pte 0xB8 0xB8 s;
                  s = (if get_active_term s = get_bg_term s then page_copy (nat (1 + get_active_term s)) 0xB8 s else s);
                  s = snd (change_cr3 k s)
              in Inr (Enter v (0x8000000 + 0x400000 - 4), sti s))) = Inr (out, s')"
    using assms by (simp only: start_process_def s1 rbind_Inr Let_def s3_def s2_def)
  then show ?thesis unfolding rbind_eq_Inr Let_def using u by (auto split: if_splits)
qed

lemma load_check_frame: "load_check check s = Some (Inr (r, s')) \<Longrightarrow> unstart s' = unstart s"
  by (auto simp: load_check_def Let_def split: option.splits prod.splits if_splits)

lemma execute_frame:
  assumes "execute check command s = Some (Inr (out, s'))"
  shows "unstart s' = unstart s"
proof -
  obtain m where m: "parse_command command (ram s) = Some m" using assms by (cases "parse_command command (ram s)") (simp_all add: execute_def)
  obtain r s1 where r: "load_check check (s\<lparr>ram := m\<rparr>) = Some (Inr (r, s1))"
    using assms m by (auto simp: execute_def obind_def split: option.splits sum.splits)
  have u1: "unstart s1 = unstart s" using load_check_frame [OF r] by simp
  show ?thesis
  proof (cases r)
    case None
    then show ?thesis using assms m r u1 by (simp add: execute_def)
  next
    case (Some y)
    then obtain inode n v where y: "r = Some (inode, n, v)" by (cases y) auto
    obtain k t where t: "new_pde v s1 = Inr (k, t)"
      using assms m r y by (cases "new_pde v s1") (auto simp: execute_def obind_def)
    have "unstart t = unstart s1" by (subst new_pde_frame [OF t]) (simp add: unstart_def)
    then show ?thesis using assms m r y t u1 start_process_frame [of inode n v k t out s'] by (auto simp: execute_def split: if_splits)
  qed
qed

end
