(* ===== verification/Printf.thy ===== *)
theory Printf
  imports Sched Lib_Itoa
begin

text \<open>
  \<open>printf\<close> of student-distrib/lib.c: the scan of the format string, the conversions through
  \<open>itoa\<close> into the local buffer, and the arguments fetched one word at a time from the stack.
  The specification is \<open>expand\<close>, the text a format and its arguments denote.
\<close>

text \<open>The words on the stack after the format: numbers or pointers to strings.\<close>

datatype parg = Num u32 | Ptr ptr

abbreviation conv_buf :: ptr where "conv_buf \<equiv> (Obj ''printf.conv_buf'', 0)"

definition num_arg :: "parg list \<Rightarrow> (u32 \<times> parg list) res" where
  "num_arg args = (case args of Num v # rest \<Rightarrow> Inr (v, rest) | _ \<Rightarrow> Inl (Bad_index ''esp'' 0))"

definition str_arg :: "parg list \<Rightarrow> (ptr \<times> parg list) res" where
  "str_arg args = (case args of Ptr p # rest \<Rightarrow> Inr (p, rest) | _ \<Rightarrow> Inl (Bad_index ''esp'' 0))"

text \<open>\<open>format_char_switch\<close>: skip \<open>#\<close>, remembering that one was seen.\<close>

partial_function (option) format_char :: "mem \<Rightarrow> ptr \<Rightarrow> bool \<Rightarrow> u32 \<Rightarrow> (bool \<times> u32) option" where
  "format_char m f alternate i =
     (if ld m f i = 0x23 then format_char m f True (i + 1) else Some (alternate, i))"

text \<open>\<open>while (i < 8) { conv_buf[i] = '0'; i++; }\<close>\<close>

function zero_fill :: "mem \<Rightarrow> u32 \<Rightarrow> mem" where
  "zero_fill m i = (if sint i < 8 then zero_fill (st m conv_buf i 0x30) (i + 1) else m)"
  by pat_completeness auto
termination
proof (relation "measure (\<lambda>(m, i). nat (8 - sint i))")
  fix m :: mem and i :: u32 assume i: "sint i < 8"
  have "sint (i + 1) = sint i + 1" using i sint_u32_range [of i] by (intro sint_u32_add [of i 1, simplified]) simp_all
  then show "((st m conv_buf i 0x30, i + 1), (m, i)) \<in> measure (\<lambda>(m, i). nat (8 - sint i))" using i by simp
qed simp

declare zero_fill.simps [simp del]

text \<open>The conversions write to \<open>conv_buf\<close> and give the address to print from.\<close>

definition conv_hex :: "bool \<Rightarrow> u32 \<Rightarrow> mem \<Rightarrow> (mem \<times> ptr) run" where
  "conv_hex alternate v m =
     (if \<not> alternate then obind (itoa m v conv_buf 16) (\<lambda>m. Some (Inr (m, conv_buf)))
      else obind (itoa m v (padd conv_buf 8) 16) (\<lambda>m.
        case strlen m (padd conv_buf 8) of
          None \<Rightarrow> None
        | Some starting_index \<Rightarrow> Some (Inr (zero_fill m starting_index, padd conv_buf starting_index))))"

definition conv_signed :: "u32 \<Rightarrow> mem \<Rightarrow> (mem \<times> ptr) run" where
  "conv_signed v m =
     (if sint v < 0
      then obind (itoa (st m conv_buf 0 0x2D) (- v) (padd conv_buf 1) 10) (\<lambda>m. Some (Inr (m, conv_buf)))
      else obind (itoa m v conv_buf 10) (\<lambda>m. Some (Inr (m, conv_buf))))"

definition puts_conv :: "(mem \<times> ptr) run \<Rightarrow> 'a console_scheme \<Rightarrow> (mem \<times> 'a console_scheme) run" where
  "puts_conv r k = obind r (\<lambda>(m, p). obind (puts m p k) (\<lambda>(n, k). Some (Inr (m, k))))"

text \<open>The inner \<open>switch\<close>.\<close>

definition convert ::
  "u8 \<Rightarrow> bool \<Rightarrow> mem \<Rightarrow> parg list \<Rightarrow> 'a console_scheme \<Rightarrow> (mem \<times> parg list \<times> 'a console_scheme) run" where
  "convert c alternate m args k =
     (if c = 0x25 then obind (Some (putc 0x25 k)) (\<lambda>k. Some (Inr (m, args, k)))
      else if c = 0x78 then
        obind (Some (num_arg args)) (\<lambda>(v, args). obind (puts_conv (conv_hex alternate v m) k) (\<lambda>(m, k). Some (Inr (m, args, k))))
      else if c = 0x75 then
        obind (Some (num_arg args)) (\<lambda>(v, args).
        obind (puts_conv (obind (itoa m v conv_buf 10) (\<lambda>m. Some (Inr (m, conv_buf)))) k) (\<lambda>(m, k). Some (Inr (m, args, k))))
      else if c = 0x64 then
        obind (Some (num_arg args)) (\<lambda>(v, args). obind (puts_conv (conv_signed v m) k) (\<lambda>(m, k). Some (Inr (m, args, k))))
      else if c = 0x63 then
        obind (Some (num_arg args)) (\<lambda>(v, args). obind (Some (putc (ucast v) k)) (\<lambda>k. Some (Inr (m, args, k))))
      else if c = 0x73 then
        obind (Some (str_arg args)) (\<lambda>(p, args). obind (puts m p k) (\<lambda>(n, k). Some (Inr (m, args, k))))
      else Some (Inr (m, args, k)))"

partial_function (option) printf_loop ::
  "ptr \<Rightarrow> mem \<Rightarrow> parg list \<Rightarrow> u32 \<Rightarrow> 'a console_scheme \<Rightarrow> (u32 \<times> mem \<times> 'a console_scheme) res option" where
  "printf_loop f m args i k =
     (if ld m f i = 0 then Some (Inr (i, m, k))
      else if ld m f i = 0x25 then
        (case format_char m f False (i + 1) of
           None \<Rightarrow> None
         | Some (alternate, i) \<Rightarrow>
             (case convert (ld m f i) alternate m args k of
                None \<Rightarrow> None
              | Some (Inl e) \<Rightarrow> Some (Inl e)
              | Some (Inr (m, args, k)) \<Rightarrow> printf_loop f m args (i + 1) k))
      else
        (case putc (ld m f i) k of
           Inl e \<Rightarrow> Some (Inl e)
         | Inr k \<Rightarrow> printf_loop f m args (i + 1) k))"

definition printf :: "mem \<Rightarrow> ptr \<Rightarrow> parg list \<Rightarrow> 'a console_scheme \<Rightarrow> (u32 \<times> mem \<times> 'a console_scheme) run" where
  "printf m format args k = printf_loop format m args 0 k"

subsection \<open>What a format denotes\<close>

datatype farg = FNum u32 | FStr "u8 list"

definition signed_text :: "u32 \<Rightarrow> u8 list" where
  "signed_text v = (if sint v < 0 then 0x2D # itoa_string 10 (nat (- sint v)) else itoa_string 10 (nat (sint v)))"

definition hex_text :: "bool \<Rightarrow> u32 \<Rightarrow> u8 list" where
  "hex_text alt v = (let t = itoa_string 16 (unat v) in if alt then replicate (8 - length t) 0x30 @ t else t)"

definition conv_text :: "bool \<Rightarrow> u8 \<Rightarrow> farg list \<Rightarrow> (u8 list \<times> farg list) option" where
  "conv_text alt c as =
     (if c = 0x25 then Some ([0x25], as)
      else if c = 0x73 then (case as of FStr xs # as \<Rightarrow> Some (xs, as) | _ \<Rightarrow> None)
      else if c \<in> {0x78, 0x75, 0x64, 0x63} then
        (case as of
           FNum v # as \<Rightarrow> Some (if c = 0x78 then hex_text alt v else if c = 0x75 then itoa_string 10 (unat v)
              else if c = 0x64 then signed_text v else [ucast v], as)
         | _ \<Rightarrow> None)
      else Some ([], as))"

function expand :: "u8 list \<Rightarrow> farg list \<Rightarrow> u8 list option" where
  "expand [] as = Some []"
| "expand (c # fs) as =
     (if c \<noteq> 0x25 then map_option ((#) c) (expand fs as)
      else case dropWhile (\<lambda>c. c = 0x23) fs of
        [] \<Rightarrow> None
      | d # gs \<Rightarrow> (case conv_text (fs \<noteq> d # gs) d as of
          None \<Rightarrow> None
        | Some (out, as') \<Rightarrow> map_option ((@) out) (expand gs as')))"
  by pat_completeness auto
termination
proof (relation "measure (\<lambda>(fs, as). length fs)")
  fix c :: u8 and fs gs :: "u8 list" and as :: "farg list" and d assume "dropWhile (\<lambda>c. c = 0x23) fs = d # gs"
  then show "((gs, as'), (c # fs, as)) \<in> measure (\<lambda>(fs, as). length fs)" for as'
    using length_dropWhile_le [of "\<lambda>c. c = 0x23" fs] by simp
qed auto

subsection \<open>The conversions\<close>

lemma rdigits_length_base: "2 \<le> b \<Longrightarrow> v < b ^ n \<Longrightarrow> length (rdigits b v) \<le> n"
proof (induction n arbitrary: v)
  case (Suc n)
  then have "v div b < b ^ n" by (simp add: div_less_iff_less_mult mult.commute)
  then show ?case using Suc.IH [of "v div b"] Suc.prems(1) by (subst rdigits.simps) simp
qed (simp add: rdigits.simps [of _ 0])

lemma hex_length: "length (itoa_string 16 (unat (v :: u32))) \<le> 8"
  using rdigits_length_base [of 16 "unat v" 8] unat_u32_lt [of v] by (simp add: itoa_string_def)

text \<open>A conversion gives a string in \<open>conv_buf\<close> and changes no other memory.\<close>

definition converts :: "(mem \<times> ptr) run \<Rightarrow> mem \<Rightarrow> u8 list \<Rightarrow> bool" where
  "converts r m out \<longleftrightarrow> (\<exists>m' p. r = Some (Inr (m', p)) \<and> cstr m' p out \<and> (\<forall>b. b \<noteq> fst conv_buf \<longrightarrow> m' b = m b))"

lemma itoa_cstr:
  assumes "2 \<le> unat radix" "unat radix \<le> 36"
  shows "itoa m v p radix = Some (Inr (stores m p (itoa_string (unat radix) (unat v) @ [0])))"
    "cstr (stores m p (itoa_string (unat radix) (unat v) @ [0])) p (itoa_string (unat radix) (unat v))"
proof -
  have "length (itoa_string (unat radix) (unat v)) \<le> 32" using itoa_string_length [OF assms(1)] unat_u32_lt [of v] by simp
  then show "cstr (stores m p (itoa_string (unat radix) (unat v) @ [0])) p (itoa_string (unat radix) (unat v))"
    using itoa_string_no_nul [OF assms] by (intro cstr_stores) simp_all
qed (rule itoa_stores [OF assms])

lemma unsigned_converts:
  "converts (obind (itoa m v conv_buf 10) (\<lambda>m. Some (Inr (m, conv_buf)))) m (itoa_string 10 (unat v))"
  using itoa_cstr [where radix = 10 and m = m and v = v and p = conv_buf] by (auto simp: converts_def stores_def)

lemma unat_of_sint: "0 \<le> i \<Longrightarrow> i < 2 ^ 32 \<Longrightarrow> w = word_of_int i \<Longrightarrow> unat (w :: u32) = nat i"
  by (simp add: unat_eq_nat_uint uint_word_of_int)

lemma signed_converts: "converts (conv_signed v m) m (signed_text v)"
proof (cases "sint v < 0")
  case True
  let ?m = "st m conv_buf 0 0x2D" and ?t = "itoa_string 10 (unat (- v))"
  have neg: "unat (- v) = nat (- sint v)"
    using True sint_u32_range [of v] by (intro unat_of_sint) simp_all
  let ?r = "stores ?m (padd conv_buf 1) (?t @ [0])"
  have i: "itoa ?m (- v) (padd conv_buf 1) 10 = Some (Inr ?r)" "cstr ?r (padd conv_buf 1) ?t"
    using itoa_cstr [where radix = 10 and m = ?m and v = "- v" and p = "padd conv_buf 1"] by simp_all
  have len: "length ?t \<le> 32" using itoa_string_length [of 10] unat_u32_lt [of "- v"] by simp
  have first: "ld ?r conv_buf 0 = 0x2D"
  proof -
    have "unat (- 1 :: u32) = 2 ^ 32 - 1" by (simp add: unsigned_minus_1_eq_mask mask_eq_exp_minus_1)
    then show ?thesis using len by (simp add: ld_stores)
  qed
  have "cstr ?r conv_buf (0x2D # ?t)"
  proof -
    have "bytes ?r conv_buf (Suc (length ?t)) = 0x2D # ?t"
    proof (rule nth_equalityI)
      fix j assume "j < length (bytes ?r conv_buf (Suc (length ?t)))"
      then show "bytes ?r conv_buf (Suc (length ?t)) ! j = (0x2D # ?t) ! j"
        using first cstr_ld [OF i(2), of "j - 1"] by (cases j) simp_all
    qed simp
    moreover have "ld ?r conv_buf (of_nat (Suc (length ?t))) = 0" using i(2) by (simp add: cstr_def)
    moreover have "0 \<notin> set ?t" using i(2) by (simp add: cstr_def)
    ultimately show ?thesis using len by (simp add: cstr_def)
  qed
  then show ?thesis using True i(1) neg by (auto simp: converts_def conv_signed_def signed_text_def stores_def st_def)
next
  case False
  have "unat v = nat (sint v)" using False sint_u32_range [of v] by (intro unat_of_sint) simp_all
  then show ?thesis using False unsigned_converts [of m v] by (simp add: conv_signed_def signed_text_def)
qed

lemma zero_fill_ld:
  assumes "n \<le> 8" and "j < 2 ^ 32"
  shows "ld (zero_fill m (of_nat n)) conv_buf (of_nat j) = (if n \<le> j \<and> j < 8 then 0x30 else ld m conv_buf (of_nat j))"
    and "b \<noteq> fst conv_buf \<Longrightarrow> zero_fill m (of_nat n) b = m b"
proof -
  have *: "ld (zero_fill m (of_nat n)) conv_buf (of_nat j) = (if n \<le> j \<and> j < 8 then 0x30 else ld m conv_buf (of_nat j)) \<and>
    (b \<noteq> fst conv_buf \<longrightarrow> zero_fill m (of_nat n) b = m b)"
    using assms(1)
  proof (induction "8 - n" arbitrary: n m)
    case 0
    then have "n = 8" by simp
    then have "zero_fill m (of_nat n) = m" by (subst zero_fill.simps) simp
    then show ?case using \<open>n = 8\<close> by auto
  next
    case (Suc k)
    have n: "n < 8" using Suc.hyps(2) by simp
    have s: "sint (of_nat n :: u32) < 8" using n by (subst sint_u32_small) (simp_all add: unat_u32_of_nat)
    have "zero_fill m (of_nat n) = zero_fill (st m conv_buf (of_nat n) 0x30) (of_nat (Suc n))"
      using s by (subst zero_fill.simps) (simp add: add.commute)
    moreover have "(of_nat j :: u32) = of_nat n \<longleftrightarrow> j = n" using n assms(2) by (intro of_nat_u32_inj) simp_all
    moreover have "k = 8 - Suc n" using Suc.hyps(2) by simp
    moreover have "b \<noteq> fst conv_buf \<longrightarrow> st m conv_buf (of_nat n) 0x30 b = m b" by (simp add: st_def)
    ultimately show ?case using Suc.hyps(1) [of "Suc n" "st m conv_buf (of_nat n) 0x30"] n
      by (auto simp del: of_nat_Suc)
  qed
  then show "ld (zero_fill m (of_nat n)) conv_buf (of_nat j) = (if n \<le> j \<and> j < 8 then 0x30 else ld m conv_buf (of_nat j))" by blast
  show "b \<noteq> fst conv_buf \<Longrightarrow> zero_fill m (of_nat n) b = m b" using * by blast
qed

lemma hex_converts: "converts (conv_hex alt v m) m (hex_text alt v)"
proof (cases alt)
  case False
  then show ?thesis using itoa_cstr [where radix = 16 and m = m and v = v and p = conv_buf]
    by (auto simp: converts_def conv_hex_def hex_text_def stores_def)
next
  case True
  let ?t = "itoa_string 16 (unat v)" and ?p = "padd conv_buf 8"
  let ?n = "length ?t"
  define m1 where "m1 = stores m ?p (?t @ [0])"
  have i: "itoa m v ?p 16 = Some (Inr m1)" "cstr m1 ?p ?t"
    using itoa_cstr [where radix = 16 and m = m and v = v and p = ?p] by (simp_all add: m1_def)
  have n: "?n \<le> 8" by (rule hex_length)
  define m2 where "m2 = zero_fill m1 (of_nat ?n)"
  have ld2: "ld m2 conv_buf (of_nat j) = (if ?n \<le> j \<and> j < 8 then 0x30 else ld m1 conv_buf (of_nat j))" if "j < 2 ^ 32" for j
    unfolding m2_def by (rule zero_fill_ld(1) [OF n that])
  have dig: "ld m1 conv_buf (of_nat (8 + j)) = (?t @ [0]) ! j" if "j \<le> ?n" for j
    using that i(2) cstr_ld [OF i(2), of j] by (auto simp: nth_append cstr_def)
  have l8: "8 - ?n + ?n = 8" using n by simp
  have at: "ld m2 (padd conv_buf (of_nat ?n)) (of_nat j) = (replicate (8 - ?n) 0x30 @ ?t @ [0]) ! j" if "j \<le> 8" for j
  proof (cases "j < 8 - ?n")
    case True
    then have "?n + j < 8" by linarith
    then show ?thesis using ld2 [of "?n + j"] True by (simp add: nth_append)
  next
    case False
    then have j: "?n + j = 8 + (j - (8 - ?n))" "j - (8 - ?n) \<le> ?n" using that n by linarith+
    have "\<not> ?n + j < 8" using False by linarith
    then have "ld m2 (padd conv_buf (of_nat ?n)) (of_nat j) = ld m1 conv_buf (of_nat (?n + j))"
      using ld2 [of "?n + j"] that n by simp
    then have "ld m2 (padd conv_buf (of_nat ?n)) (of_nat j) = ld m1 conv_buf (of_nat (8 + (j - (8 - ?n))))" by (simp only: j(1))
    then show ?thesis using dig [OF j(2)] False by (simp add: nth_append)
  qed
  have "cstr m2 (padd conv_buf (of_nat ?n)) (replicate (8 - ?n) 0x30 @ ?t)"
  proof -
    have "bytes m2 (padd conv_buf (of_nat ?n)) 8 = replicate (8 - ?n) 0x30 @ ?t"
    proof (rule nth_equalityI)
      fix j assume "j < length (bytes m2 (padd conv_buf (of_nat ?n)) 8)"
      then show "bytes m2 (padd conv_buf (of_nat ?n)) 8 ! j = (replicate (8 - ?n) 0x30 @ ?t) ! j"
        using at [of j] n by (auto simp: nth_append)
    qed (use l8 in simp)
    moreover have "ld m2 (padd conv_buf (of_nat ?n)) (of_nat 8) = 0"
    proof -
      have "(replicate (8 - ?n) 0x30 @ ?t @ [0]) ! (length (replicate (8 - ?n) (0x30 :: u8) @ ?t)) = 0"
        by (simp only: append.assoc [symmetric] nth_append_length)
      then show ?thesis using at [of 8] l8 by simp
    qed
    moreover have "0 \<notin> set ?t" using i(2) by (simp add: cstr_def)
    ultimately show ?thesis using l8 by (simp add: cstr_def)
  qed
  moreover have "m2 b = m b" if "b \<noteq> fst conv_buf" for b
    using zero_fill_ld(2) [OF n, of 0 b m1] that by (simp add: m2_def m1_def stores_def)
  moreover have "conv_hex alt v m = Some (Inr (m2, padd conv_buf (of_nat ?n)))"
    using True i strlen_cstr [OF i(2)] by (simp add: conv_hex_def m2_def)
  ultimately show ?thesis using True by (auto simp: converts_def hex_text_def Let_def)
qed

subsection \<open>The whole of \<open>printf\<close>\<close>

definition prints :: "u8 list \<Rightarrow> 'a console_scheme \<Rightarrow> 'a console_scheme \<Rightarrow> bool" where
  "prints out k k' \<longleftrightarrow> console_ok k' \<and> screen_of k' = fold screen_put out (screen_of k) \<and> screen_step k k'"

lemma prints_trans: "prints xs k k' \<Longrightarrow> prints ys k' k'' \<Longrightarrow> prints (xs @ ys) k k''"
  by (auto simp: prints_def intro: console.touches_trans)

lemma prints_refl: "console_ok k \<Longrightarrow> prints [] k k"
  by (simp add: prints_def console.touches_refl)

lemma prints_ok: "prints xs k k' \<Longrightarrow> console_ok k'"
  by (simp add: prints_def)

lemma putc_prints: "console_ok k \<Longrightarrow> \<exists>k'. putc c k = Inr k' \<and> prints [c] k k'"
  using console.put_good [of k c] by (simp add: prints_def)

lemma puts_prints:
  assumes "console_ok k" and "cstr m p xs"
  shows "\<exists>k'. puts m p k = Some (Inr (of_nat (length xs), k')) \<and> prints xs k k'"
  using console.emit [OF assms(1), of xs] puts_emit [OF assms(2), of k] by (auto simp: prints_def)

lemma puts_conv_prints:
  assumes "console_ok k" and "converts r m out"
  shows "\<exists>m' k'. puts_conv r k = Some (Inr (m', k')) \<and> prints out k k' \<and> (\<forall>b. b \<noteq> fst conv_buf \<longrightarrow> m' b = m b)"
proof -
  obtain m' p where r: "r = Some (Inr (m', p))" "cstr m' p out" "\<forall>b. b \<noteq> fst conv_buf \<longrightarrow> m' b = m b"
    using assms(2) by (auto simp: converts_def)
  from puts_prints [OF assms(1) r(2)] r show ?thesis by (auto simp: puts_conv_def)
qed

text \<open>The words on the stack match the arguments of the specification.\<close>

definition arg_ok :: "mem \<Rightarrow> parg \<Rightarrow> farg \<Rightarrow> bool" where
  "arg_ok m a b = (case (a, b) of
      (Num v, FNum w) \<Rightarrow> v = w
    | (Ptr p, FStr xs) \<Rightarrow> cstr m p xs \<and> fst p \<noteq> fst conv_buf
    | _ \<Rightarrow> False)"

lemma cstr_frame: "\<forall>b. b \<noteq> fst conv_buf \<longrightarrow> m' b = m b \<Longrightarrow> fst p \<noteq> fst conv_buf \<Longrightarrow> cstr m' p xs = cstr m p xs"
  by (simp add: cstr_def bytes_def ld_def)

lemma arg_ok_frame:
  assumes "\<forall>b. b \<noteq> fst conv_buf \<longrightarrow> m' b = m b" and "list_all2 (arg_ok m) as bs"
  shows "list_all2 (arg_ok m') as bs"
  using assms(2) by (rule list_all2_mono) (auto simp: arg_ok_def cstr_frame [OF assms(1)] split: parg.splits farg.splits)

lemma num_arg_ok: "list_all2 (arg_ok m) args (FNum v # bs) \<Longrightarrow> \<exists>args'. num_arg args = Inr (v, args') \<and> list_all2 (arg_ok m) args' bs"
  by (cases args; cases "hd args") (auto simp: num_arg_def arg_ok_def)

lemma str_arg_ok:
  "list_all2 (arg_ok m) args (FStr xs # bs) \<Longrightarrow> \<exists>p args'. str_arg args = Inr (p, args') \<and> cstr m p xs \<and> list_all2 (arg_ok m) args' bs"
  by (cases args; cases "hd args") (auto simp: str_arg_def arg_ok_def)

lemma convert_prints:
  assumes ok: "console_ok k" and am: "list_all2 (arg_ok m) args bs" and ct: "conv_text alt c bs = Some (out, bs')"
  shows "\<exists>m' args' k'. convert c alt m args k = Some (Inr (m', args', k')) \<and> prints out k k' \<and>
    (\<forall>b. b \<noteq> fst conv_buf \<longrightarrow> m' b = m b) \<and> list_all2 (arg_ok m') args' bs'"
proof -
  have num: "\<exists>m' args' k'. obind (Some (num_arg args)) (\<lambda>(v, args). obind (puts_conv (f v) k) (\<lambda>(m, k). Some (Inr (m, args, k)))) = Some (Inr (m', args', k')) \<and>
      prints (t v) k k' \<and> (\<forall>b. b \<noteq> fst conv_buf \<longrightarrow> m' b = m b) \<and> list_all2 (arg_ok m') args' bs'"
    if b: "bs = FNum v # bs'" and cv: "converts (f v) m (t v)" for f t v
  proof -
    obtain args' where a: "num_arg args = Inr (v, args')" "list_all2 (arg_ok m) args' bs'" using num_arg_ok [of m args v bs'] am b by auto
    obtain m' k' where p: "puts_conv (f v) k = Some (Inr (m', k'))" "prints (t v) k k'" "\<forall>b. b \<noteq> fst conv_buf \<longrightarrow> m' b = m b"
      using puts_conv_prints [OF ok cv] by blast
    show ?thesis using a p arg_ok_frame [OF p(3) a(2)] by simp
  qed
  consider "c = 0x25" | "c = 0x73" | "c = 0x78" | "c = 0x75" | "c = 0x64" | "c = 0x63" | "c \<notin> {0x25, 0x73, 0x78, 0x75, 0x64, 0x63}" by blast
  then show ?thesis
  proof cases
    case 1
    then show ?thesis using putc_prints [OF ok, of "0x25"] am ct by (auto simp: convert_def conv_text_def)
  next
    case 2
    then obtain xs where "bs = FStr xs # bs'" "out = xs" using ct by (auto simp: conv_text_def split: list.splits farg.splits)
    then show ?thesis using 2 str_arg_ok [of m args xs bs'] am puts_prints [OF ok] by (fastforce simp: convert_def)
  next
    case 3
    then obtain v where "bs = FNum v # bs'" "out = hex_text alt v" using ct by (auto simp: conv_text_def split: list.splits farg.splits)
    then show ?thesis using 3 num [of v "\<lambda>v. conv_hex alt v m" "hex_text alt"] hex_converts by (simp add: convert_def)
  next
    case 4
    then obtain v where "bs = FNum v # bs'" "out = itoa_string 10 (unat v)" using ct by (auto simp: conv_text_def split: list.splits farg.splits)
    then show ?thesis
      using 4 num [of v "\<lambda>v. obind (itoa m v conv_buf 10) (\<lambda>m. Some (Inr (m, conv_buf)))" "\<lambda>v. itoa_string 10 (unat v)"] unsigned_converts
      by (simp add: convert_def)
  next
    case 5
    then obtain v where "bs = FNum v # bs'" "out = signed_text v" using ct by (auto simp: conv_text_def split: list.splits farg.splits)
    then show ?thesis using 5 num [of v "\<lambda>v. conv_signed v m" signed_text] signed_converts by (simp add: convert_def)
  next
    case 6
    then obtain v where "bs = FNum v # bs'" "out = [ucast v]" using ct by (auto simp: conv_text_def split: list.splits farg.splits)
    then show ?thesis using 6 num_arg_ok [of m args v bs'] am putc_prints [OF ok, of "ucast v"] by (auto simp: convert_def)
  next
    case 7
    then show ?thesis using ct am prints_refl [OF ok] by (auto simp: convert_def conv_text_def)
  qed
qed

lemma format_char_skip:
  assumes "\<And>j. j < n \<Longrightarrow> ld m f (of_nat (i + j)) = 0x23" and "ld m f (of_nat (i + n)) \<noteq> 0x23"
  shows "format_char m f alt (of_nat i) = Some (alt \<or> 0 < n, of_nat (i + n))"
  using assms
proof (induction n arbitrary: i alt)
  case 0
  then show ?case by (subst format_char.simps) simp
next
  case (Suc n)
  have "ld m f (of_nat i) = 0x23" using Suc.prems(1) [of 0] by simp
  moreover have "ld m f (of_nat (Suc i + j)) = 0x23" if "j < n" for j using Suc.prems(1) [of "Suc j"] that by simp
  then have "format_char m f True (of_nat (Suc i)) = Some (True \<or> 0 < n, of_nat (Suc i + n))"
    using Suc.IH [of "Suc i" True] Suc.prems(2) by simp
  ultimately show ?case by (subst format_char.simps) (simp add: add.commute add.left_commute)
qed

lemma takeWhile_same: "takeWhile (\<lambda>c. c = a) xs = replicate (length (takeWhile (\<lambda>c. c = a) xs)) a"
  by (induction xs) auto

lemma skip_positions:
  assumes "i < length fmt" and "drop (Suc i) fmt = replicate n (0x23 :: u8) @ e # gs"
  shows "Suc i + n < length fmt" "drop (Suc (Suc i + n)) fmt = gs" "fmt ! (Suc i + n) = e" "j < n \<Longrightarrow> fmt ! (Suc i + j) = 0x23"
proof -
  have len: "length fmt - Suc i = n + Suc (length gs)" using arg_cong [OF assms(2), of length] by simp
  then show l: "Suc i + n < length fmt" by linarith
  have nth: "fmt ! (Suc i + j) = (replicate n 0x23 @ e # gs) ! j" if "Suc i + j < length fmt" for j
    using arg_cong [OF assms(2), of "\<lambda>xs. xs ! j"] assms(1) by simp
  show "fmt ! (Suc i + n) = e" using nth [OF l] by (simp add: nth_append)
  show "fmt ! (Suc i + j) = 0x23" if "j < n" using nth [of j] l that by (simp add: nth_append)
  have "drop (Suc (Suc i + n)) fmt = drop (Suc n) (drop (Suc i) fmt)" by (simp add: add.commute add.left_commute)
  then show "drop (Suc (Suc i + n)) fmt = gs" by (simp add: assms(2))
qed

theorem printf_loop_expand:
  assumes fb: "fst f \<noteq> fst conv_buf"
  shows "\<lbrakk> cstr m f fmt; i \<le> length fmt; expand (drop i fmt) bs = Some out; list_all2 (arg_ok m) args bs; console_ok k \<rbrakk> \<Longrightarrow>
    \<exists>m' k'. printf_loop f m args (of_nat i) k = Some (Inr (of_nat (length fmt), m', k')) \<and> prints out k k' \<and>
      (\<forall>b. b \<noteq> fst conv_buf \<longrightarrow> m' b = m b)"
proof (induction "length fmt - i" arbitrary: i m args bs out k rule: less_induct)
  case less
  have c: "ld m f (of_nat j) = fmt ! j" "fmt ! j \<noteq> 0" if "j < length fmt" for j
    using cstr_ld [OF less.prems(1) that] cstr_nz [OF less.prems(1) that] by simp_all
  show ?case
  proof (cases "i = length fmt")
    case True
    then have "ld m f (of_nat i) = 0" "out = []" using less.prems(1,3) by (simp_all add: cstr_def)
    then show ?thesis using True prints_refl [OF less.prems(5)] by (subst printf_loop.simps) auto
  next
    case False
    then have i: "i < length fmt" using less.prems(2) by simp
    have d: "drop i fmt = fmt ! i # drop (Suc i) fmt" using i by (simp add: Cons_nth_drop_Suc)
    show ?thesis
    proof (cases "fmt ! i = 0x25")
      case plain: False
      obtain out' where t: "expand (drop (Suc i) fmt) bs = Some out'" "out = fmt ! i # out'"
        using less.prems(3) plain by (auto simp: d)
      obtain k1 where k1: "putc (fmt ! i) k = Inr k1" "prints [fmt ! i] k k1" using putc_prints [OF less.prems(5)] by blast
      obtain m' k' where r: "printf_loop f m args (of_nat (Suc i)) k1 = Some (Inr (of_nat (length fmt), m', k'))"
        "prints out' k1 k'" "\<forall>b. b \<noteq> fst conv_buf \<longrightarrow> m' b = m b"
        using less.hyps [OF _ less.prems(1) _ t(1) less.prems(4) prints_ok [OF k1(2)]] i by fastforce
      have "printf_loop f m args (of_nat i) k = printf_loop f m args (of_nat (Suc i)) k1"
        using c [OF i] plain k1(1) by (subst printf_loop.simps) (simp add: add.commute)
      then show ?thesis using r prints_trans [OF k1(2) r(2)] t(2) by auto
    next
      case percent: True
      let ?fs = "drop (Suc i) fmt"
      define n where "n = length (takeWhile (\<lambda>c. c = 0x23) ?fs)"
      obtain e gs where eg: "dropWhile (\<lambda>c. c = 0x23) ?fs = e # gs" using less.prems(3) percent by (auto simp: d split: list.splits)
      obtain t1 bs' t2 where t: "conv_text (?fs \<noteq> e # gs) e bs = Some (t1, bs')" "expand gs bs' = Some t2" "out = t1 @ t2"
        using less.prems(3) percent by (auto simp: d eg split: option.splits)
      have fs: "?fs = replicate n 0x23 @ e # gs"
        using takeWhile_dropWhile_id [of "\<lambda>c. c = 0x23" ?fs] takeWhile_same [of "0x23" ?fs] eg by (simp add: n_def)
      have pos: "Suc i + n < length fmt" "drop (Suc (Suc i + n)) fmt = gs" "fmt ! (Suc i + n) = e"
        "j < n \<Longrightarrow> fmt ! (Suc i + j) = 0x23" for j
        by (rule skip_positions [OF i fs])+
      have e23: "e \<noteq> 0x23" using eg hd_dropWhile [of "\<lambda>c. c = 0x23" ?fs] by auto
      have alt: "(?fs \<noteq> e # gs) = (0 < n)" using fs e23 by (cases n) auto
      have fc: "format_char m f False (of_nat (Suc i)) = Some (0 < n, of_nat (Suc i + n))"
      proof -
        have "ld m f (of_nat (Suc i + j)) = 0x23" if "j < n" for j using c(1) [of "Suc i + j"] pos(1) pos(4) [OF that] that by simp
        moreover have "ld m f (of_nat (Suc i + n)) \<noteq> 0x23" using c(1) [OF pos(1)] pos(3) e23 by simp
        ultimately show ?thesis using format_char_skip [of n m f "Suc i" False] by (simp only: simp_thms)
      qed
      obtain m1 args1 k1 where cv: "convert e (0 < n) m args k = Some (Inr (m1, args1, k1))" "prints t1 k k1"
        "\<forall>b. b \<noteq> fst conv_buf \<longrightarrow> m1 b = m b" "list_all2 (arg_ok m1) args1 bs'"
        using convert_prints [OF less.prems(5,4) t(1)] alt by auto
      have cs: "cstr m1 f fmt" using less.prems(1) cstr_frame [OF cv(3) fb] by simp
      obtain m' k' where r: "printf_loop f m1 args1 (of_nat (Suc (Suc i + n))) k1 = Some (Inr (of_nat (length fmt), m', k'))"
        "prints t2 k1 k'" "\<forall>b. b \<noteq> fst conv_buf \<longrightarrow> m' b = m1 b"
        using less.hyps [of "Suc (Suc i + n)", OF _ cs _ _ cv(4) prints_ok [OF cv(2)], of t2] pos(1,2) t(2) by fastforce
      have "printf_loop f m args (of_nat i) k = printf_loop f m1 args1 (of_nat (Suc (Suc i + n))) k1"
        using c [OF i] c [OF pos(1)] percent fc cv(1) pos(3) by (subst printf_loop.simps) (simp add: add.commute add.left_commute)
      then show ?thesis using r prints_trans [OF cv(2) r(2)] t(3) cv(3) by auto
    qed
  qed
qed

theorem printf_expand:
  assumes "fst f \<noteq> fst conv_buf" and "cstr m f fmt" and "expand fmt bs = Some out" and "list_all2 (arg_ok m) args bs" and "console_ok k"
  shows "\<exists>m' k'. printf m f args k = Some (Inr (of_nat (length fmt), m', k')) \<and> prints out k k' \<and>
    (\<forall>b. b \<noteq> fst conv_buf \<longrightarrow> m' b = m b)"
  using printf_loop_expand [OF assms(1) assms(2), of 0 bs out args k] assms(3-5) by (simp add: printf_def)

end
