(* ===== verification/X86_Desc.thy ===== *)
theory X86_Desc
  imports OS_Prelude
begin

text \<open>
  student-distrib/x86_desc.h and \<open>init_idt\<close> of kernel.c: segment and interrupt descriptors with
  their packed layout, the macros that fill in addresses and limits, and the interrupt descriptor
  table.  The addresses of the handlers come from the linker and are a parameter; the processor's
  reading of a descriptor is the specification.
\<close>

unbundle bit_operations_syntax

abbreviation KERNEL_CS :: u16 where "KERNEL_CS \<equiv> 0x10"
abbreviation KERNEL_DS :: u16 where "KERNEL_DS \<equiv> 0x18"
abbreviation KERNEL_TSS :: u16 where "KERNEL_TSS \<equiv> 0x30"
abbreviation KERNEL_LDT :: u16 where "KERNEL_LDT \<equiv> 0x38"
abbreviation TSS_SIZE :: u32 where "TSS_SIZE \<equiv> 104"

subsection \<open>Segment descriptors\<close>

text \<open>A bit field of \<open>n\<close> bits keeps the low \<open>n\<close> bits of what is stored in it.\<close>

record seg_desc =
  seg_lim_15_00 :: u16
  base_15_00 :: u16
  base_23_16 :: u8
  sd_type :: u32
  sd_sys :: u32
  sd_dpl :: u32
  sd_present :: u32
  seg_lim_19_16 :: u32
  sd_avail :: u32
  sd_reserved :: u32
  sd_opsize :: u32
  sd_granularity :: u32
  base_31_24 :: u8

definition SET_LDT_PARAMS :: "seg_desc \<Rightarrow> u32 \<Rightarrow> u32 \<Rightarrow> seg_desc" where
  "SET_LDT_PARAMS str addr lim =
     str\<lparr>base_31_24 := ucast (drop_bit 24 (addr AND 0xFF000000)),
         base_23_16 := ucast (drop_bit 16 (addr AND 0x00FF0000)),
         base_15_00 := ucast (addr AND 0x0000FFFF),
         seg_lim_19_16 := take_bit 4 (drop_bit 16 (lim AND 0x000F0000)),
         seg_lim_15_00 := ucast (lim AND 0x0000FFFF)\<rparr>"

definition SET_TSS_PARAMS :: "seg_desc \<Rightarrow> u32 \<Rightarrow> u32 \<Rightarrow> seg_desc" where
  "SET_TSS_PARAMS str addr lim =
     str\<lparr>base_31_24 := ucast (drop_bit 24 (addr AND 0xFF000000)),
         base_23_16 := ucast (drop_bit 16 (addr AND 0x00FF0000)),
         base_15_00 := ucast (addr AND 0x0000FFFF),
         seg_lim_19_16 := take_bit 4 (drop_bit 16 (lim AND 0x000F0000)),
         seg_lim_15_00 := ucast (lim AND 0x0000FFFF)\<rparr>"

definition the_ldt_desc :: "u32 \<Rightarrow> u32 \<Rightarrow> seg_desc \<Rightarrow> seg_desc" where
  "the_ldt_desc ldt ldt_size d =
     SET_LDT_PARAMS (d\<lparr>sd_granularity := 0, sd_opsize := 1, sd_reserved := 0, sd_avail := 0, sd_present := 1,
        sd_dpl := 0, sd_sys := 0, sd_type := 2\<rparr>) ldt ldt_size"

definition the_tss_desc :: "u32 \<Rightarrow> u32 \<Rightarrow> seg_desc \<Rightarrow> seg_desc" where
  "the_tss_desc tss tss_size d =
     SET_TSS_PARAMS (d\<lparr>sd_granularity := 0, sd_opsize := 0, sd_reserved := 0, sd_avail := 0,
        seg_lim_19_16 := take_bit 4 (TSS_SIZE AND 0x000F0000), sd_present := 1, sd_dpl := 0, sd_sys := 0, sd_type := 9,
        seg_lim_15_00 := ucast (TSS_SIZE AND 0x0000FFFF)\<rparr>) tss tss_size"

text \<open>The processor's reading of a descriptor: base and limit are put together from their pieces, in
  bytes or in pages.\<close>

definition seg_base :: "seg_desc \<Rightarrow> u32" where
  "seg_base d = push_bit 24 (ucast (base_31_24 d)) OR push_bit 16 (ucast (base_23_16 d)) OR ucast (base_15_00 d)"

definition seg_limit :: "seg_desc \<Rightarrow> u32" where
  "seg_limit d = (let l = push_bit 16 (seg_lim_19_16 d) OR ucast (seg_lim_15_00 d)
     in if sd_granularity d = 0 then l else push_bit 12 l OR 0xFFF)"

lemma seg_base_pieces: "push_bit 24 (ucast (ucast (drop_bit 24 (a AND 0xFF000000)) :: u8) :: u32) OR
    push_bit 16 (ucast (ucast (drop_bit 16 (a AND 0x00FF0000)) :: u8) :: u32) OR ucast (ucast (a AND 0x0000FFFF) :: u16) = (a :: u32)"
proof -
  have m: "(0xFF000000 :: u32) = push_bit 24 (mask 8)" "(0x00FF0000 :: u32) = push_bit 16 (mask 8)" "(0x0000FFFF :: u32) = mask 16"
    by (simp_all add: mask_numeral)
  show ?thesis unfolding m
  proof (rule bit_word_eqI)
    fix n assume "n < LENGTH(32)"
    then show "bit (push_bit 24 (ucast (ucast (drop_bit 24 (a AND push_bit 24 (mask 8))) :: u8) :: u32) OR
      push_bit 16 (ucast (ucast (drop_bit 16 (a AND push_bit 16 (mask 8))) :: u8) :: u32) OR ucast (ucast (a AND mask 16) :: u16)) n = bit a n"
      by (cases "n < 16"; cases "n < 24") (auto simp: bit_simps)
  qed
qed

lemma seg_limit_pieces: "unat lim < 2 ^ 20 \<Longrightarrow>
  push_bit 16 (take_bit 4 (drop_bit 16 (lim AND 0x000F0000))) OR ucast (ucast (lim AND 0x0000FFFF) :: u16) = (lim :: u32)"
proof -
  assume l: "unat lim < 2 ^ 20"
  have m: "(0x000F0000 :: u32) = push_bit 16 (mask 4)" "(0x0000FFFF :: u32) = mask 16" by (simp_all add: mask_numeral)
  have hi: "\<not> bit lim n" if "20 \<le> n" for n
  proof -
    have "lim = take_bit 20 lim" using l by (intro unsigned_word_eqI [where ?'a = nat]) (simp add: take_bit_eq_mod unat_mod)
    then show ?thesis using that by (metis bit_take_bit_iff not_le)
  qed
  show ?thesis unfolding m
  proof (rule bit_word_eqI)
    fix n assume "n < LENGTH(32)"
    then show "bit (push_bit 16 (take_bit 4 (drop_bit 16 (lim AND push_bit 16 (mask 4)))) OR ucast (ucast (lim AND mask 16) :: u16)) n = bit lim n"
      using hi [of n] by (cases "n < 16"; cases "n < 20") (auto simp: bit_simps)
  qed
qed

theorem tss_desc_read:
  "seg_base (the_tss_desc tss tss_size d) = tss"
  "unat tss_size < 2 ^ 20 \<Longrightarrow> seg_limit (the_tss_desc tss tss_size d) = tss_size"
  "sd_type (the_tss_desc tss tss_size d) = 9" "sd_present (the_tss_desc tss tss_size d) = 1" "sd_dpl (the_tss_desc tss tss_size d) = 0"
  using seg_base_pieces [of tss] seg_limit_pieces [of tss_size]
  by (simp_all add: the_tss_desc_def SET_TSS_PARAMS_def seg_base_def seg_limit_def)

theorem ldt_desc_read:
  "seg_base (the_ldt_desc ldt ldt_size d) = ldt"
  "unat ldt_size < 2 ^ 20 \<Longrightarrow> seg_limit (the_ldt_desc ldt ldt_size d) = ldt_size"
  "sd_type (the_ldt_desc ldt ldt_size d) = 2" "sd_present (the_ldt_desc ldt ldt_size d) = 1" "sd_dpl (the_ldt_desc ldt ldt_size d) = 0"
  using seg_base_pieces [of ldt] seg_limit_pieces [of ldt_size]
  by (simp_all add: the_ldt_desc_def SET_LDT_PARAMS_def seg_base_def seg_limit_def)

subsection \<open>The interrupt descriptor table\<close>

record idt_desc =
  offset_15_00 :: u16
  seg_selector :: u16
  reserved4 :: u8
  reserved3 :: u32
  reserved2 :: u32
  reserved1 :: u32
  gate_size :: u32
  reserved0 :: u32
  gate_dpl :: u32
  gate_present :: u32
  offset_31_16 :: u16

definition SET_IDT_ENTRY :: "idt_desc \<Rightarrow> u32 \<Rightarrow> idt_desc" where
  "SET_IDT_ENTRY str handler =
     str\<lparr>offset_31_16 := ucast (drop_bit 16 (handler AND 0xFFFF0000)), offset_15_00 := ucast (handler AND 0xFFFF)\<rparr>"

text \<open>The functions an entry may name.\<close>

datatype handler = Divide_error_h | Debug_h | Nmi_h | Int3_h | Overflow_h | Bounds_h | Invalid_op_h |
  Device_not_available_h | Double_fault_h | Coprocesseur_segment_overrun_h | Invalid_tss_h | Segment_no_present_h |
  Stack_segment_h | General_protection_h | Page_fault_h | None_h | Coprocessor_error_h | Alignement_check_h |
  Machine_check_h | Rtc_handler_h | Keyboard_handler_h | Periodic_interrupt_handler_h | Sys_call_h | Unused_exception_h

text \<open>The \<open>switch\<close> of \<open>init_idt\<close>.\<close>

definition vector_handler :: "nat \<Rightarrow> handler" where
  "vector_handler i =
     (if i = 0 then Divide_error_h else if i = 1 then Debug_h else if i = 2 then Nmi_h else if i = 3 then Int3_h
      else if i = 4 then Overflow_h else if i = 5 then Bounds_h else if i = 6 then Invalid_op_h
      else if i = 7 then Device_not_available_h else if i = 8 then Double_fault_h
      else if i = 9 then Coprocesseur_segment_overrun_h else if i = 10 then Invalid_tss_h
      else if i = 11 then Segment_no_present_h else if i = 12 then Stack_segment_h
      else if i = 13 then General_protection_h else if i = 14 then Page_fault_h else if i = 15 then None_h
      else if i = 16 then Coprocessor_error_h else if i = 17 then Alignement_check_h
      else if i = 18 then Machine_check_h else if i = 32 then Rtc_handler_h
      else if i = 33 then Keyboard_handler_h else if i = 40 then Periodic_interrupt_handler_h
      else if i = 128 then Sys_call_h else Unused_exception_h)"

definition idt_entry :: "(handler \<Rightarrow> u32) \<Rightarrow> nat \<Rightarrow> idt_desc \<Rightarrow> idt_desc" where
  "idt_entry at i d =
     (let d = d\<lparr>seg_selector := KERNEL_CS, reserved3 := 0, reserved2 := 1, reserved1 := 1, reserved0 := 0,
                gate_size := 1, gate_dpl := 0, gate_present := 1\<rparr>;
          d = SET_IDT_ENTRY d (at (vector_handler i))
      in if i = 128 then d\<lparr>gate_dpl := 3\<rparr> else d)"

definition init_idt :: "(handler \<Rightarrow> u32) \<Rightarrow> idt_desc list \<Rightarrow> idt_desc list" where
  "init_idt at idt = for_loop 0 256 (\<lambda>i idt. idt[i := idt_entry at i (idt ! i)]) idt"

text \<open>The packed eight bytes and the processor's reading of them (Intel's interrupt gate): the target,
  its code segment, the privilege needed to raise it in software.\<close>

definition gate_bits :: "idt_desc \<Rightarrow> 64 word" where
  "gate_bits d = ucast (offset_15_00 d) OR push_bit 16 (ucast (seg_selector d)) OR push_bit 32 (ucast (reserved4 d)) OR
     push_bit 40 (take_bit 1 (ucast (reserved3 d))) OR push_bit 41 (take_bit 1 (ucast (reserved2 d))) OR
     push_bit 42 (take_bit 1 (ucast (reserved1 d))) OR push_bit 43 (take_bit 1 (ucast (gate_size d))) OR
     push_bit 44 (take_bit 1 (ucast (reserved0 d))) OR push_bit 45 (take_bit 2 (ucast (gate_dpl d))) OR
     push_bit 47 (take_bit 1 (ucast (gate_present d))) OR push_bit 48 (ucast (offset_31_16 d))"

definition gate_read :: "64 word \<Rightarrow> (u32 \<times> u16 \<times> nat) option" where
  "gate_read w =
     (if bit w 47 \<and> take_bit 5 (drop_bit 40 w) = 14
      then Some (push_bit 16 (ucast (drop_bit 48 w)) OR ucast (take_bit 16 w), ucast (drop_bit 16 w), unat (take_bit 2 (drop_bit 45 w)))
      else None)"


lemma fold_list_update:
  "distinct is \<Longrightarrow> length (fold (\<lambda>i xs. xs[i := f i (xs ! i)]) is xs) = length xs \<and>
   (\<forall>k<length xs. fold (\<lambda>i xs. xs[i := f i (xs ! i)]) is xs ! k = (if k \<in> set is then f k (xs ! k) else xs ! k))"
  by (induction "is" arbitrary: xs) (auto simp: nth_list_update, metis nth_list_update_neq)

lemma init_idt_nth: "length idt = 256 \<Longrightarrow> i < 256 \<Longrightarrow> init_idt at idt ! i = idt_entry at i (idt ! i)"
  using fold_list_update [of "[0..<256]" "idt_entry at" idt] by (simp add: init_idt_def for_loop_def)

lemma length_init_idt [simp]: "length (init_idt at idt) = length idt"
  using fold_list_update [of "[0..<256]" "idt_entry at" idt] by (simp add: init_idt_def for_loop_def)

text \<open>The two halves of the target put together again.\<close>

lemma gate_target:
  "push_bit 16 (ucast (ucast (drop_bit 16 (h AND 0xFFFF0000)) :: u16)) OR ucast (ucast (h AND 0xFFFF) :: u16) = (h :: u32)"
proof -
  have m: "(0xFFFF0000 :: u32) = push_bit 16 (mask 16)" "(0xFFFF :: u32) = mask 16" by (simp_all add: mask_numeral)
  show ?thesis unfolding m
    by (rule bit_word_eqI; rename_tac n; case_tac "n < 16") (auto simp: bit_simps)
qed

text \<open>Reading back the packed fields of any present 32-bit interrupt gate.\<close>

lemma gate_read_fields:
  assumes "gate_present d = 1" "reserved0 d = 0" "gate_size d = 1" "reserved1 d = 1" "reserved2 d = 1" "reserved3 d = 0"
  shows "gate_read (gate_bits d) =
     Some (push_bit 16 (ucast (offset_31_16 d)) OR ucast (offset_15_00 d), seg_selector d, unat (take_bit 2 (gate_dpl d)))"
proof -
  note b = gate_bits_def assms bit_simps
  have 1: "bit (gate_bits d) 47" by (simp add: b)
  have 2: "take_bit 5 (drop_bit 40 (gate_bits d)) = 14"
  proof -
    have "take_bit 5 (drop_bit 40 (gate_bits d)) = take_bit 5 14"
    proof (rule bit_word_eqI)
      fix n assume "n < LENGTH(64)"
      have "n < 5 \<Longrightarrow> n = 0 \<or> n = 1 \<or> n = 2 \<or> n = 3 \<or> n = 4" by arith
      then have "n < 5 \<Longrightarrow> bit (drop_bit 40 (gate_bits d)) n = bit (14 :: 64 word) n"
        by (auto simp: b dest: bit_imp_le_length)
      then show "bit (take_bit 5 (drop_bit 40 (gate_bits d))) n = bit (take_bit 5 (14 :: 64 word)) n"
        unfolding bit_take_bit_iff by blast
    qed
    then show ?thesis by simp
  qed
  have 3: "ucast (drop_bit 48 (gate_bits d)) = offset_31_16 d"
    by (rule bit_word_eqI) (auto simp: b dest: bit_imp_le_length)
  have 4: "take_bit 16 (gate_bits d) = ucast (offset_15_00 d)"
    by (rule bit_word_eqI) (auto simp: b dest: bit_imp_le_length)
  have 5: "ucast (drop_bit 16 (gate_bits d)) = seg_selector d"
    by (rule bit_word_eqI) (auto simp: gate_bits_def bit_simps dest: bit_imp_le_length)
  have 6: "take_bit 2 (drop_bit 45 (gate_bits d)) = ucast (take_bit 2 (gate_dpl d))"
    by (rule bit_word_eqI) (auto simp: gate_bits_def bit_simps dest: bit_imp_le_length)
  have 7: "ucast (take_bit 16 (gate_bits d)) = (ucast (offset_15_00 d) :: u32)"
    unfolding 4 by (rule bit_word_eqI) (auto simp: bit_simps)
  have 8: "unat (ucast (take_bit 2 (gate_dpl d)) :: 64 word) = unat (take_bit 2 (gate_dpl d))"
    by (simp add: unsigned_ucast_eq unsigned_take_bit_eq)
  have 9: "(ucast (drop_bit 48 (gate_bits d)) :: u32) = ucast (offset_31_16 d)"
    by (rule bit_word_eqI) (auto simp: gate_bits_def bit_simps dest: bit_imp_le_length)
  show ?thesis unfolding gate_read_def 6 8 9 7 5 using 1 2 by simp
qed

theorem init_idt_gates:
  assumes "length idt = 256" "i < 256"
  shows "gate_read (gate_bits (init_idt at idt ! i)) = Some (at (vector_handler i), KERNEL_CS, if i = 128 then 3 else 0)"
proof -
  have "gate_read (gate_bits (idt_entry at i d)) = Some (at (vector_handler i), KERNEL_CS, if i = 128 then 3 else 0)" for d
    using gate_target [of "at (vector_handler i)"]
    by (cases "i = 128"; subst gate_read_fields) (simp_all add: idt_entry_def SET_IDT_ENTRY_def Let_def)
  then show ?thesis using init_idt_nth [OF assms] by simp
qed



text \<open>
  How the processor enters the kernel through the table: an exception or a device takes the gate of
  its vector; the instruction \<open>int i\<close> in code of privilege level \<open>cpl\<close> does so only if the gate's
  level allows it, and otherwise raises vector 13.
\<close>

definition all_handlers :: "handler list" where
  "all_handlers = [Divide_error_h, Debug_h, Nmi_h, Int3_h, Overflow_h, Bounds_h, Invalid_op_h,
     Device_not_available_h, Double_fault_h, Coprocesseur_segment_overrun_h, Invalid_tss_h, Segment_no_present_h,
     Stack_segment_h, General_protection_h, Page_fault_h, None_h, Coprocessor_error_h, Alignement_check_h,
     Machine_check_h, Rtc_handler_h, Keyboard_handler_h, Periodic_interrupt_handler_h, Sys_call_h, Unused_exception_h]"

definition take_gate :: "(handler \<Rightarrow> u32) \<Rightarrow> idt_desc list \<Rightarrow> nat \<Rightarrow> handler option" where
  "take_gate at idt i = (case gate_read (gate_bits (idt ! i)) of
      None \<Rightarrow> None | Some (addr, cs, dpl) \<Rightarrow> find (\<lambda>h. at h = addr) all_handlers)"

definition int_instr :: "(handler \<Rightarrow> u32) \<Rightarrow> idt_desc list \<Rightarrow> nat \<Rightarrow> nat \<Rightarrow> handler option" where
  "int_instr at idt cpl i = (case gate_read (gate_bits (idt ! i)) of
      None \<Rightarrow> None | Some (addr, cs, dpl) \<Rightarrow> if cpl \<le> dpl then take_gate at idt i else take_gate at idt 13)"

lemma find_handler: "inj at \<Longrightarrow> find (\<lambda>h'. at h' = at h) all_handlers = Some h"
  by (cases h) (simp_all add: all_handlers_def inj_eq)

theorem init_idt_dispatch:
  assumes "length idt = 256" "i < 256" "inj at"
  shows "take_gate at (init_idt at idt) i = Some (vector_handler i)"
    "int_instr at (init_idt at idt) 3 i = Some (if i = 128 then Sys_call_h else General_protection_h)"
proof -
  have t: "take_gate at (init_idt at idt) i = Some (vector_handler i)" if "i < 256" for i
    using init_idt_gates [OF assms(1) that] find_handler [OF assms(3)] by (simp add: take_gate_def)
  show "take_gate at (init_idt at idt) i = Some (vector_handler i)" by (rule t [OF assms(2)])
  show "int_instr at (init_idt at idt) 3 i = Some (if i = 128 then Sys_call_h else General_protection_h)"
    using init_idt_gates [OF assms(1,2)] t [of i] t [of 13] assms(2) by (simp add: int_instr_def vector_handler_def)
qed

end
