(* ===== verification/Handlers.thy ===== *)
theory Handlers
  imports Process Printf X86_Desc
begin

text \<open>
  student-distrib/handlers.c: what the kernel does on the exceptions of the processor, and the
  delivery of an interrupt through the table that \<open>init_idt\<close> fills.
\<close>

subsection \<open>String literals\<close>

text \<open>A literal of the source as bytes, and with the \<open>\n\<close> that ends most of them.\<close>

definition lit :: "string \<Rightarrow> u8 list" where
  "lit cs = map of_char cs"

definition line_lit :: "string \<Rightarrow> u8 list" where
  "line_lit cs = lit cs @ [0x0A]"

text \<open>Formats are read-only data: \<open>kprintf\<close> calls \<open>printf\<close> on one that is in memory.\<close>

abbreviation rodata :: ptr where "rodata \<equiv> (Obj ''rodata'', 0)"

definition kprintf :: "u8 list \<Rightarrow> parg list \<Rightarrow> 'a kernel_scheme \<Rightarrow> 'a kernel_scheme run" where
  "kprintf fmt args s =
     obind (printf (stores (ram s) rodata (fmt @ [0])) rodata args s) (\<lambda>(n, m, s). Some (Inr (s\<lparr>ram := m\<rparr>)))"

subsection \<open>The handlers\<close>

text \<open>A handler ends in \<open>while(1);\<close>, with \<open>iret\<close>, or as the system call it serves.\<close>

datatype handler_end = Spin | Iret | Served outcome

definition print_and_spin :: "string \<Rightarrow> 'a kernel_scheme \<Rightarrow> (handler_end \<times> 'a kernel_scheme) run" where
  "print_and_spin msg s = obind (kprintf (line_lit msg) [] s) (\<lambda>s. Some (Inr (Spin, s)))"

definition unused_exception :: "'a kernel_scheme \<Rightarrow> (handler_end \<times> 'a kernel_scheme) run" where
  "unused_exception s = print_and_spin ''unused_exception'' s"

definition divide_error :: "'a kernel_scheme \<Rightarrow> (handler_end \<times> 'a kernel_scheme) run" where
  "divide_error s = print_and_spin ''divide_error'' s"

definition debug :: "'a kernel_scheme \<Rightarrow> (handler_end \<times> 'a kernel_scheme) run" where
  "debug s = print_and_spin ''debug'' s"

definition nmi :: "'a kernel_scheme \<Rightarrow> (handler_end \<times> 'a kernel_scheme) run" where
  "nmi s = print_and_spin ''nmi'' s"

definition int3 :: "'a kernel_scheme \<Rightarrow> (handler_end \<times> 'a kernel_scheme) run" where
  "int3 s = print_and_spin ''int3'' s"

definition overflow :: "'a kernel_scheme \<Rightarrow> (handler_end \<times> 'a kernel_scheme) run" where
  "overflow s = print_and_spin ''overflow'' s"

definition bounds :: "'a kernel_scheme \<Rightarrow> (handler_end \<times> 'a kernel_scheme) run" where
  "bounds s = print_and_spin ''bounds'' s"

definition invalid_op :: "'a kernel_scheme \<Rightarrow> (handler_end \<times> 'a kernel_scheme) run" where
  "invalid_op s = print_and_spin ''invalid_operation'' s"

definition device_not_available :: "'a kernel_scheme \<Rightarrow> (handler_end \<times> 'a kernel_scheme) run" where
  "device_not_available s = print_and_spin ''device_not_available'' s"

definition double_fault :: "'a kernel_scheme \<Rightarrow> (handler_end \<times> 'a kernel_scheme) run" where
  "double_fault s = print_and_spin ''double_fault'' s"

definition coprocesseur_segment_overrun :: "'a kernel_scheme \<Rightarrow> (handler_end \<times> 'a kernel_scheme) run" where
  "coprocesseur_segment_overrun s = print_and_spin ''coprocesseur_segment_overrun'' s"

definition invalid_tss :: "'a kernel_scheme \<Rightarrow> (handler_end \<times> 'a kernel_scheme) run" where
  "invalid_tss s = print_and_spin ''invalid_tss'' s"

definition segment_no_present :: "'a kernel_scheme \<Rightarrow> (handler_end \<times> 'a kernel_scheme) run" where
  "segment_no_present s = print_and_spin ''segment_no_presnt'' s"

definition stack_segment :: "'a kernel_scheme \<Rightarrow> (handler_end \<times> 'a kernel_scheme) run" where
  "stack_segment s = print_and_spin ''stack_segment'' s"

definition general_protection :: "'a kernel_scheme \<Rightarrow> (handler_end \<times> 'a kernel_scheme) run" where
  "general_protection s = print_and_spin ''general_protection'' s"

definition page_fault :: "'a kernel_scheme \<Rightarrow> (handler_end \<times> 'a kernel_scheme) run" where
  "page_fault s = print_and_spin ''pretty boi'' s"

definition none :: "'a kernel_scheme \<Rightarrow> (handler_end \<times> 'a kernel_scheme) run" where
  "none s = print_and_spin ''none'' s"

definition coprocessor_error :: "'a kernel_scheme \<Rightarrow> (handler_end \<times> 'a kernel_scheme) run" where
  "coprocessor_error s = print_and_spin ''coprocessor_error()'' s"

definition alignement_check :: "'a kernel_scheme \<Rightarrow> (handler_end \<times> 'a kernel_scheme) run" where
  "alignement_check s = print_and_spin ''alignment_check'' s"

definition machine_check :: "'a kernel_scheme \<Rightarrow> (handler_end \<times> 'a kernel_scheme) run" where
  "machine_check s = print_and_spin ''machine_check'' s"

definition rtc_handler :: "'a kernel_scheme \<Rightarrow> (handler_end \<times> 'a kernel_scheme) run" where
  "rtc_handler s =
     obind (kprintf (line_lit ''rtc_handler'') [] (cli s)) (\<lambda>s. Some (Inr (Iret, send_eoi 0 (sti s))))"

lemmas exception_defs = unused_exception_def divide_error_def debug_def nmi_def int3_def overflow_def bounds_def invalid_op_def device_not_available_def double_fault_def coprocesseur_segment_overrun_def invalid_tss_def segment_no_present_def stack_segment_def general_protection_def page_fault_def none_def coprocessor_error_def alignement_check_def machine_check_def

text \<open>What runs at a handler's address.  The interrupts that may arrive while a system call waits, the
  registers it is called with and the keyboard's data are arguments.\<close>

fun run_handler ::
  "hardware \<Rightarrow> ('a kernel_scheme \<Rightarrow> 'a kernel_scheme run) \<Rightarrow> ('a kernel_scheme \<Rightarrow> 'a kernel_scheme run) list \<Rightarrow> u32 \<Rightarrow> u8 \<Rightarrow>
   u32 \<times> u32 \<times> u32 \<times> u32 \<Rightarrow> handler \<Rightarrow> 'a kernel_scheme \<Rightarrow> (handler_end \<times> 'a kernel_scheme) run" where
  "run_handler hw ex irqs check x0 regs Unused_exception_h s = unused_exception s"
| "run_handler hw ex irqs check x0 regs Divide_error_h s = divide_error s"
| "run_handler hw ex irqs check x0 regs Debug_h s = debug s"
| "run_handler hw ex irqs check x0 regs Nmi_h s = nmi s"
| "run_handler hw ex irqs check x0 regs Int3_h s = int3 s"
| "run_handler hw ex irqs check x0 regs Overflow_h s = overflow s"
| "run_handler hw ex irqs check x0 regs Bounds_h s = bounds s"
| "run_handler hw ex irqs check x0 regs Invalid_op_h s = invalid_op s"
| "run_handler hw ex irqs check x0 regs Device_not_available_h s = device_not_available s"
| "run_handler hw ex irqs check x0 regs Double_fault_h s = double_fault s"
| "run_handler hw ex irqs check x0 regs Coprocesseur_segment_overrun_h s = coprocesseur_segment_overrun s"
| "run_handler hw ex irqs check x0 regs Invalid_tss_h s = invalid_tss s"
| "run_handler hw ex irqs check x0 regs Segment_no_present_h s = segment_no_present s"
| "run_handler hw ex irqs check x0 regs Stack_segment_h s = stack_segment s"
| "run_handler hw ex irqs check x0 regs General_protection_h s = general_protection s"
| "run_handler hw ex irqs check x0 regs Page_fault_h s = page_fault s"
| "run_handler hw ex irqs check x0 regs None_h s = none s"
| "run_handler hw ex irqs check x0 regs Coprocessor_error_h s = coprocessor_error s"
| "run_handler hw ex irqs check x0 regs Alignement_check_h s = alignement_check s"
| "run_handler hw ex irqs check x0 regs Machine_check_h s = machine_check s"
| "run_handler hw ex irqs check x0 regs Rtc_handler_h s = rtc_handler s"
| "run_handler hw ex irqs check x0 regs Keyboard_handler_h s =
     obind (keyboard_handler hw ex x0 s) (\<lambda>s. Some (Inr (Iret, s)))"
| "run_handler hw ex irqs check x0 regs Periodic_interrupt_handler_h s =
     obind (periodic_interrupt_handler hw s) (\<lambda>s. Some (Inr (Iret, s)))"
| "run_handler hw ex irqs check x0 (eax, ebx, ecx, edx) Sys_call_h s =
     obind (sys_call hw irqs check eax ebx ecx edx s) (\<lambda>(out, s). Some (Inr (Served out, s)))"


subsection \<open>What printing a format does\<close>

definition print_blocks :: "block set" where
  "print_blocks = {fst conv_buf, fst rodata}"

definition kprints :: "u8 list \<Rightarrow> 'a kernel_scheme \<Rightarrow> 'a kernel_scheme \<Rightarrow> bool" where
  "kprints out s s' \<longleftrightarrow> console_ok s' \<and> screen_of s' = fold screen_put out (screen_of s) \<and> (video_shows s \<longrightarrow> video_shows s') \<and>
     (\<exists>m. (\<forall>b. b \<notin> print_blocks \<longrightarrow> m b = ram s b) \<and> repaint (s\<lparr>ram := m\<rparr>) s')"

lemma console_ram [simp]:
  "console_ok (s\<lparr>ram := m\<rparr>) = console_ok s" "screen_of (s\<lparr>ram := m\<rparr>) = screen_of s" "video_shows (s\<lparr>ram := m\<rparr>) = video_shows s"
  by (simp_all add: console_ok_def screen_of_def video_shows_def video_frame_def page_frame_def)

lemma repaint_ram: "repaint s s' \<Longrightarrow> repaint (s\<lparr>ram := m\<rparr>) (s'\<lparr>ram := m\<rparr>)"
proof -
  assume "repaint s s'"
  then obtain v t x y os where *: "length v = 4096" "length t = 2000" "s' = (paint v t s)\<lparr>screen_x := x, screen_y := y, io := io s @ os\<rparr>"
    by (auto simp: repaint_def)
  then show ?thesis
    by (intro repaintI [OF *(1,2), where x = x and y = y and os = os]) (simp add: paint_def video_frame_def page_frame_def)
qed

lemma repaint_ram_eq: "repaint s s' \<Longrightarrow> ram s' = ram s"
  by (auto simp: repaint_def paint_def)

lemma kprints_trans: "kprints xs s s' \<Longrightarrow> kprints ys s' s'' \<Longrightarrow> kprints (xs @ ys) s s''"
proof -
  assume a: "kprints xs s s'" and b: "kprints ys s' s''"
  obtain m where m: "\<forall>b. b \<notin> print_blocks \<longrightarrow> m b = ram s b" "repaint (s\<lparr>ram := m\<rparr>) s'" using a by (auto simp: kprints_def)
  obtain m' where m': "\<forall>b. b \<notin> print_blocks \<longrightarrow> m' b = ram s' b" "repaint (s'\<lparr>ram := m'\<rparr>) s''" using b by (auto simp: kprints_def)
  have "repaint (s\<lparr>ram := m'\<rparr>) s''" using repaint_trans [OF _ m'(2)] repaint_ram [OF m(2), of m'] by simp
  moreover have "\<forall>b. b \<notin> print_blocks \<longrightarrow> m' b = ram s b" using m m' repaint_ram_eq [OF m(2)] by simp
  ultimately show ?thesis using a b by (auto simp: kprints_def)
qed

lemma kprints_refl: "console_ok s \<Longrightarrow> kprints [] s s"
  using repaint_refl [of s] by (auto simp: kprints_def intro!: exI [of _ "ram s"])

text \<open>Arguments of \<open>kprintf\<close>: numbers, and strings that lie outside the blocks printing uses.\<close>

definition karg_ok :: "mem \<Rightarrow> parg \<Rightarrow> farg \<Rightarrow> bool" where
  "karg_ok m a b = (case (a, b) of
      (Num v, FNum w) \<Rightarrow> v = w
    | (Ptr p, FStr xs) \<Rightarrow> cstr m p xs \<and> fst p \<notin> print_blocks
    | _ \<Rightarrow> False)"

lemma karg_arg_ok: "\<forall>b. b \<notin> print_blocks \<longrightarrow> m' b = m b \<Longrightarrow> karg_ok m a b \<Longrightarrow> arg_ok m' a b"
  by (auto simp: karg_ok_def arg_ok_def cstr_def bytes_def ld_def print_blocks_def split: parg.splits farg.splits)

definition literal :: "u8 list \<Rightarrow> bool" where
  "literal fmt \<longleftrightarrow> length fmt < 2 ^ 31 \<and> 0 \<notin> set fmt"

theorem kprintf_prints:
  assumes ok: "console_ok s" and "literal fmt" and ex: "expand fmt bs = Some out" and args: "list_all2 (karg_ok (ram s)) args bs"
  shows "\<exists>s'. kprintf fmt args s = Some (Inr s') \<and> kprints out s s'"
proof -
  let ?m = "stores (ram s) rodata (fmt @ [0])"
  have l: "length fmt < 2 ^ 31" "0 \<notin> set fmt" using assms(2) by (auto simp: literal_def)
  have fr: "\<forall>b. b \<notin> print_blocks \<longrightarrow> ?m b = ram s b" by (auto simp: stores_def print_blocks_def)
  have c: "cstr ?m rodata fmt" using l by (intro cstr_stores) simp_all
  have a: "list_all2 (arg_ok ?m) args bs" using args by (rule list_all2_mono) (rule karg_arg_ok [OF fr])
  obtain m' k' where p: "printf ?m rodata args s = Some (Inr (of_nat (length fmt), m', k'))" "prints out s k'"
    "\<forall>b. b \<noteq> fst conv_buf \<longrightarrow> m' b = ?m b"
    using printf_expand [OF _ c ex a ok] by auto
  have "repaint (s\<lparr>ram := m'\<rparr>) (k'\<lparr>ram := m'\<rparr>)" using p(2) by (intro repaint_ram) (simp add: prints_def screen_step_def)
  moreover have "\<forall>b. b \<notin> print_blocks \<longrightarrow> m' b = ram s b" using p(3) fr by (simp add: print_blocks_def)
  ultimately have "kprints out s (k'\<lparr>ram := m'\<rparr>)" using p(2) by (auto simp: kprints_def prints_def screen_step_def)
  then show ?thesis using p(1) by (simp add: kprintf_def)
qed

text \<open>A format without \<open>%\<close> is its own text.\<close>

lemma expand_plain: "0x25 \<notin> set fmt \<Longrightarrow> expand fmt bs = Some fmt"
  by (induction fmt) auto

corollary kprintf_plain:
  assumes "console_ok s" and "literal fmt" and "0x25 \<notin> set fmt"
  shows "\<exists>s'. kprintf fmt [] s = Some (Inr s') \<and> kprints fmt s s'"
  using kprintf_prints [OF assms(1,2) expand_plain [OF assms(3), of "[]"], of "[]"] by simp

lemma spin_prints:
  assumes "console_ok s" and "literal (line_lit msg)" and "0x25 \<notin> set (line_lit msg)"
  shows "\<exists>s'. print_and_spin msg s = Some (Inr (Spin, s')) \<and> kprints (line_lit msg) s s'"
  using kprintf_plain [OF assms] by (auto simp: print_and_spin_def)

text \<open>The message of the handler of an exception.\<close>

fun exception_message :: "handler \<Rightarrow> string option" where
  "exception_message Unused_exception_h = Some ''unused_exception''"
| "exception_message Divide_error_h = Some ''divide_error''"
| "exception_message Debug_h = Some ''debug''"
| "exception_message Nmi_h = Some ''nmi''"
| "exception_message Int3_h = Some ''int3''"
| "exception_message Overflow_h = Some ''overflow''"
| "exception_message Bounds_h = Some ''bounds''"
| "exception_message Invalid_op_h = Some ''invalid_operation''"
| "exception_message Device_not_available_h = Some ''device_not_available''"
| "exception_message Double_fault_h = Some ''double_fault''"
| "exception_message Coprocesseur_segment_overrun_h = Some ''coprocesseur_segment_overrun''"
| "exception_message Invalid_tss_h = Some ''invalid_tss''"
| "exception_message Segment_no_present_h = Some ''segment_no_presnt''"
| "exception_message Stack_segment_h = Some ''stack_segment''"
| "exception_message General_protection_h = Some ''general_protection''"
| "exception_message Page_fault_h = Some ''pretty boi''"
| "exception_message None_h = Some ''none''"
| "exception_message Coprocessor_error_h = Some ''coprocessor_error()''"
| "exception_message Alignement_check_h = Some ''alignment_check''"
| "exception_message Machine_check_h = Some ''machine_check''"
| "exception_message _ = None"

lemma message_literal:
  "exception_message h = Some msg \<Longrightarrow> literal (line_lit msg) \<and> 0x25 \<notin> set (line_lit msg)"
  by (cases h) (auto simp: line_lit_def lit_def literal_def)

theorem exception_stops:
  assumes "console_ok s" and "exception_message h = Some msg"
  shows "\<exists>s'. run_handler hw ex irqs check x0 regs h s = Some (Inr (Spin, s')) \<and> kprints (line_lit msg) s s'"
proof -
  have "run_handler hw ex irqs check x0 regs h s = print_and_spin msg s"
    using assms(2) by (cases h; cases regs) (auto simp: exception_defs)
  then show ?thesis using spin_prints [OF assms(1)] message_literal [OF assms(2)] by simp
qed

end
