(* ===== verification/User_Lib.thy ===== *)
theory User_Lib
  imports Handlers
begin

text \<open>
  What the user programs of src/syscalls share: the system calls (ece391syscall.h, ece391sysnum.h)
  and the support library (ece391support.c).

  A program runs on an operating system \<open>os\<close>: its memory, the object an address stands for, and
  the instruction \<open>int 0x80\<close>.  The arrays of a program and its string literals are at addresses the
  compiler and the linker chose, which are parameters (\<open>la\<close> gives the address of a literal).
  The wrappers of ece391syscall.S load three registers from the stack for every call; a register
  that stands for no argument is 0 here, and the kernel does not look at it (\<open>unused_registers\<close> of
  \<open>Kernel_Os\<close>).
\<close>


record 'w os =
  mem_of :: "'w \<Rightarrow> mem"
  set_mem :: "mem \<Rightarrow> 'w \<Rightarrow> 'w"
  at_addr :: "'w \<Rightarrow> u32 \<Rightarrow> ptr"
  int80 :: "u32 \<Rightarrow> u32 \<Rightarrow> u32 \<Rightarrow> u32 \<Rightarrow> 'w \<Rightarrow> (u32 \<times> 'w) run"

text \<open>\<open>a[i]\<close> and \<open>a[i] = v\<close> for an array at address \<open>a\<close>.\<close>

definition uld :: "'w os \<Rightarrow> 'w \<Rightarrow> u32 \<Rightarrow> u32 \<Rightarrow> u8" where
  "uld os w a i = ld (mem_of os w) (at_addr os w a) i"

definition ust :: "'w os \<Rightarrow> u32 \<Rightarrow> u32 \<Rightarrow> u8 \<Rightarrow> 'w \<Rightarrow> 'w" where
  "ust os a i v w = set_mem os (st (mem_of os w) (at_addr os w a) i v) w"

subsection \<open>The system calls\<close>

definition ece391_halt :: "'w os \<Rightarrow> u8 \<Rightarrow> 'w \<Rightarrow> (u32 \<times> 'w) run" where
  "ece391_halt os status w = int80 os 1 (ucast status) 0 0 w"

definition ece391_execute :: "'w os \<Rightarrow> u32 \<Rightarrow> 'w \<Rightarrow> (u32 \<times> 'w) run" where
  "ece391_execute os command w = int80 os 2 command 0 0 w"

definition ece391_read :: "'w os \<Rightarrow> u32 \<Rightarrow> u32 \<Rightarrow> u32 \<Rightarrow> 'w \<Rightarrow> (u32 \<times> 'w) run" where
  "ece391_read os fd buf nbytes w = int80 os 3 fd buf nbytes w"

definition ece391_write :: "'w os \<Rightarrow> u32 \<Rightarrow> u32 \<Rightarrow> u32 \<Rightarrow> 'w \<Rightarrow> (u32 \<times> 'w) run" where
  "ece391_write os fd buf nbytes w = int80 os 4 fd buf nbytes w"

definition ece391_open :: "'w os \<Rightarrow> u32 \<Rightarrow> 'w \<Rightarrow> (u32 \<times> 'w) run" where
  "ece391_open os filename w = int80 os 5 filename 0 0 w"

definition ece391_close :: "'w os \<Rightarrow> u32 \<Rightarrow> 'w \<Rightarrow> (u32 \<times> 'w) run" where
  "ece391_close os fd w = int80 os 6 fd 0 0 w"

definition ece391_getargs :: "'w os \<Rightarrow> u32 \<Rightarrow> u32 \<Rightarrow> 'w \<Rightarrow> (u32 \<times> 'w) run" where
  "ece391_getargs os buf nbytes w = int80 os 7 buf nbytes 0 w"

definition ece391_vidmap :: "'w os \<Rightarrow> u32 \<Rightarrow> 'w \<Rightarrow> (u32 \<times> 'w) run" where
  "ece391_vidmap os screen_start w = int80 os 8 screen_start 0 0 w"

definition ece391_set_handler :: "'w os \<Rightarrow> u32 \<Rightarrow> u32 \<Rightarrow> 'w \<Rightarrow> (u32 \<times> 'w) run" where
  "ece391_set_handler os signum handler w = int80 os 9 signum handler 0 w"

subsection \<open>The support library\<close>

partial_function (option) ece391_strlen_loop :: "mem \<Rightarrow> ptr \<Rightarrow> u32 \<Rightarrow> u32 option" where
  "ece391_strlen_loop m s len = (if ld m s 0 \<noteq> 0 then ece391_strlen_loop m (padd s 1) (len + 1) else Some len)"

definition ece391_strlen :: "mem \<Rightarrow> ptr \<Rightarrow> u32 option" where
  "ece391_strlen m s = ece391_strlen_loop m s 0"

partial_function (option) ece391_strcpy :: "mem \<Rightarrow> ptr \<Rightarrow> ptr \<Rightarrow> mem option" where
  "ece391_strcpy m dst src =
     (let c = ld m src 0; m = st m dst 0 c
      in if c \<noteq> 0 then ece391_strcpy m (padd dst 1) (padd src 1) else Some m)"

definition ece391_fdputs :: "'w os \<Rightarrow> u32 \<Rightarrow> u32 \<Rightarrow> 'w \<Rightarrow> 'w run" where
  "ece391_fdputs os fd s w =
     (case ece391_strlen (mem_of os w) (at_addr os w s) of
        None \<Rightarrow> None
      | Some n \<Rightarrow> obind (ece391_write os fd s n w) (\<lambda>(r, w). Some (Inr w)))"

text \<open>The characters are \<open>uint8_t\<close>, so the difference is that of unsigned bytes.\<close>

partial_function (option) ece391_strcmp :: "mem \<Rightarrow> ptr \<Rightarrow> ptr \<Rightarrow> u32 option" where
  "ece391_strcmp m s1 s2 =
     (if ld m s1 0 = ld m s2 0 then
        if ld m s1 0 = 0 then Some 0 else ece391_strcmp m (padd s1 1) (padd s2 1)
      else Some (ucast (ld m s1 0) - ucast (ld m s2 0)))"

function ece391_strncmp_loop :: "mem \<Rightarrow> ptr \<Rightarrow> ptr \<Rightarrow> u32 \<Rightarrow> u32" where
  "ece391_strncmp_loop m s1 s2 n =
     (if ld m s1 0 = ld m s2 0 then
        if ld m s1 0 = 0 \<or> n - 1 = 0 then 0 else ece391_strncmp_loop m (padd s1 1) (padd s2 1) (n - 1)
      else ucast (ld m s1 0) - ucast (ld m s2 0))"
  by pat_completeness auto
termination
proof (relation "measure (\<lambda>(m, s1, s2, n). unat (n - 1))")
  fix m :: mem and s1 s2 :: ptr and n :: u32 assume "\<not> (ld m s1 0 = 0 \<or> n - 1 = 0)"
  then have "unat (n - 1 - 1) < unat (n - 1)" by (metis diff_0_right measure_unat word_less_nat_alt)
  then show "((m, padd s1 1, padd s2 1, n - 1), (m, s1, s2, n)) \<in> measure (\<lambda>(m, s1, s2, n). unat (n - 1))" by simp
qed simp

declare ece391_strncmp_loop.simps [simp del]

definition ece391_strncmp :: "mem \<Rightarrow> ptr \<Rightarrow> ptr \<Rightarrow> u32 \<Rightarrow> u32" where
  "ece391_strncmp m s1 s2 n = (if 0 = n then 0 else ece391_strncmp_loop m s1 s2 n)"

text \<open>\<open>ece391_strrev\<close> and \<open>ece391_itoa\<close> have the loops of \<open>strrev\<close> and \<open>itoa\<close> of lib.c; only the
  reversal returns early here.\<close>

definition ece391_strrev :: "mem \<Rightarrow> ptr \<Rightarrow> mem option" where
  "ece391_strrev m s =
     (case ece391_strlen m s of
        None \<Rightarrow> None
      | Some len \<Rightarrow> if sint (len - 1) \<le> 0 then Some m else Some (strrev_loop m s 0 (len - 1)))"

definition ece391_itoa :: "u32 \<Rightarrow> mem \<Rightarrow> ptr \<Rightarrow> u32 \<Rightarrow> mem run" where
  "ece391_itoa val m buf radix =
     (if val = 0 then Some (Inr (st (st m buf 0 48) buf 1 0))
      else case itoa_loop m buf 0 val radix of
        None \<Rightarrow> None
      | Some (Inl e) \<Rightarrow> Some (Inl e)
      | Some (Inr (m, k)) \<Rightarrow> map_option Inr (ece391_strrev (st m buf k 0) buf))"

subsection \<open>Correctness of the library\<close>

lemma ld_padd_0: "ld m (padd p i) 0 = ld m p i"
  by (simp add: ld_def padd_def)

lemma ece391_strlen_loop_cstr:
  assumes "cstr m s xs" and "i \<le> length xs"
  shows "ece391_strlen_loop m (padd s (of_nat i)) (of_nat i) = Some (of_nat (length xs))"
  using assms(2)
proof (induction "length xs - i" arbitrary: i)
  case 0
  then have "i = length xs" by simp
  then show ?case using assms(1) by (subst ece391_strlen_loop.simps) (simp add: ld_padd_0 cstr_def)
next
  case (Suc n)
  then have i: "i < length xs" by simp
  have "ld m s (of_nat i) \<noteq> 0" using cstr_ld [OF assms(1) i] cstr_nz [OF assms(1) i] by simp
  moreover have "padd (padd s (of_nat i)) 1 = padd s (of_nat (Suc i))" by (simp add: padd_def add.commute add.left_commute)
  ultimately show ?case using Suc.hyps(1) [of "Suc i"] Suc.hyps(2) i
    by (subst ece391_strlen_loop.simps) (simp add: ld_padd_0 add.commute)
qed

lemma ece391_strlen_cstr: "cstr m s xs \<Longrightarrow> ece391_strlen m s = Some (of_nat (length xs))"
  using ece391_strlen_loop_cstr [of m s xs 0] by (simp add: ece391_strlen_def padd_def)

text \<open>Comparison: 0 exactly for equal strings.\<close>

lemma cstr_tail: "cstr m p (x # xs) \<Longrightarrow> ld m p 0 = x \<and> x \<noteq> 0 \<and> cstr m (padd p 1) xs"
proof -
  assume c: "cstr m p (x # xs)"
  have "ld m (padd p 1) (of_nat i) = xs ! i" if "i < length xs" for i
    using cstr_ld [OF c, of "Suc i"] that by (simp add: ld_def padd_def add.assoc)
  then have "bytes m (padd p 1) (length xs) = xs" by (intro nth_equalityI) simp_all
  moreover have "ld m (padd p 1) (of_nat (length xs)) = 0" using c by (simp add: cstr_def ld_def padd_def add.assoc)
  ultimately show ?thesis using c cstr_ld [OF c, of 0] cstr_nz [OF c, of 0] by (simp add: cstr_def)
qed

lemma cstr_nil: "cstr m p [] \<Longrightarrow> ld m p 0 = 0"
  by (simp add: cstr_def)

lemma ucast_u8_back: "(ucast (ucast (a :: u8) :: u32) :: u8) = a"
  by (rule bit_word_eqI) (simp add: bit_simps)

lemma ucast_u8_inj [simp]: "(ucast (a :: u8) :: u32) = ucast b \<longleftrightarrow> a = b" "(ucast (a :: u8) :: u32) = 0 \<longleftrightarrow> a = 0" "0 = (ucast (a :: u8) :: u32) \<longleftrightarrow> a = 0"
  using ucast_u8_back [of a] ucast_u8_back [of b] by (metis, metis ucast_0, metis ucast_0)

theorem ece391_strcmp_eq:
  assumes "cstr m p xs" and "cstr m q ys"
  shows "\<exists>v. ece391_strcmp m p q = Some v \<and> (v = 0 \<longleftrightarrow> xs = ys)"
  using assms
proof (induction xs arbitrary: p q ys)
  case Nil
  then show ?case using cstr_nil [OF Nil.prems(1)] cstr_tail [of m q] cstr_nil [of m q]
    by (cases ys) (auto simp: ece391_strcmp.simps [of m p q])
next
  case (Cons x xs)
  note x = cstr_tail [OF Cons.prems(1)]
  show ?case
  proof (cases ys)
    case Nil
    then show ?thesis using x cstr_nil [of m q] Cons.prems(2) by (subst ece391_strcmp.simps) auto
  next
    case (Cons y ys')
    then have y: "ld m q 0 = y" "y \<noteq> 0" "cstr m (padd q 1) ys'" using cstr_tail [of m q y ys'] Cons.prems(2) by auto
    show ?thesis using Cons.IH [of "padd p 1" "padd q 1" ys'] x y Cons by (subst ece391_strcmp.simps) auto
  qed
qed


text \<open>Comparison of the first \<open>n\<close> characters with a string of that length.\<close>

lemma ece391_strncmp_loop_prefix:
  "cstr m q ys \<Longrightarrow> ys \<noteq> [] \<Longrightarrow> ece391_strncmp_loop m p q (of_nat (length ys)) = 0 \<longleftrightarrow> bytes m p (length ys) = ys"
proof (induction ys arbitrary: p q)
  case (Cons y ys)
  note y = cstr_tail [OF Cons.prems(1)]
  have b: "bytes m p (Suc (length ys)) = ld m p 0 # bytes m (padd p 1) (length ys)"
    by (rule nth_equalityI) (auto simp: nth_Cons' ld_def padd_def nth_bytes split: nat.splits)
  have n: "(of_nat (length (y # ys)) :: u32) - 1 = of_nat (length ys)" by simp
  have z: "(of_nat (length ys) :: u32) = 0 \<longleftrightarrow> ys = []"
    using Cons.prems(1) unat_u32_of_nat [of "length ys"] by (auto simp: cstr_def)
  show ?case
  proof (cases "ys = []")
    case True
    then show ?thesis using y b by (subst ece391_strncmp_loop.simps) auto
  next
    case False
    then show ?thesis using y b n z Cons.IH [of "padd q 1" "padd p 1"] by (subst ece391_strncmp_loop.simps) auto
  qed
qed simp

theorem ece391_strncmp_prefix:
  "cstr m q ys \<Longrightarrow> ece391_strncmp m p q (of_nat (length ys)) = 0 \<longleftrightarrow> bytes m p (length ys) = ys"
  using ece391_strncmp_loop_prefix [of m q ys p] unat_u32_of_nat [of "length ys"]
  by (cases "ys = []") (auto simp: ece391_strncmp_def cstr_def)

text \<open>The number conversion equals that of the kernel.\<close>

lemma strrev_loop_short: "sint e \<le> 0 \<Longrightarrow> strrev_loop m s 0 e = m"
  by (subst strrev_loop.simps) simp

lemma ece391_strrev_eq: "cstr m s xs \<Longrightarrow> ece391_strrev m s = strrev m s"
  by (simp add: ece391_strrev_def strrev_def ece391_strlen_cstr strlen_cstr strrev_loop_short)

theorem ece391_itoa_stores:
  assumes "2 \<le> unat radix" "unat radix \<le> 36"
  shows "ece391_itoa val m buf radix = Some (Inr (stores m buf (itoa_string (unat radix) (unat val) @ [0])))"
proof -
  have i: "itoa m val buf radix = Some (Inr (stores m buf (itoa_string (unat radix) (unat val) @ [0])))"
    by (rule itoa_stores [OF assms])
  have "ece391_itoa val m buf radix = itoa m val buf radix"
  proof (cases "val = 0")
    case False
    then obtain m' k where l: "itoa_loop m buf 0 val radix = Some (Inr (m', k))" using i
      by (auto simp: itoa_def split: option.splits sum.splits)
    then obtain n where "strlen (st m' buf k 0) buf = Some n" using i False by (auto simp: itoa_def strrev_def)
    then have "cstr (st m' buf k 0) buf (bytes (st m' buf k 0) buf (unat n))" by (rule strlen_SomeD)
    from ece391_strrev_eq [OF this] show ?thesis using False l by (simp add: ece391_itoa_def itoa_def)
  qed (simp add: ece391_itoa_def itoa_def)
  then show ?thesis using i by simp
qed

end
