(* ===== verification/User_Programs.thy ===== *)
theory User_Programs
  imports User_Lib
begin

text \<open>
  The programs of src/syscalls: \<open>main\<close> of each, over the interface \<open>os\<close>.  \<open>buf\<close> is the address of
  the local array, \<open>la\<close> gives the addresses of the string literals; a result is what \<open>main\<close> returns.
  The main loops have no bound, so they are partial: \<open>None\<close> is a program that does not return.
\<close>

text \<open>\<open>ece391_fdputs (1, "...")\<close>.\<close>

definition puts_lit :: "'w os \<Rightarrow> (u8 list \<Rightarrow> u32) \<Rightarrow> u8 list \<Rightarrow> 'w \<Rightarrow> 'w run" where
  "puts_lit os la xs w = ece391_fdputs os 1 (la xs) w"

text \<open>Printing a message and returning from \<open>main\<close>.\<close>

definition puts_return :: "'w os \<Rightarrow> (u8 list \<Rightarrow> u32) \<Rightarrow> u8 list \<Rightarrow> u32 \<Rightarrow> 'w \<Rightarrow> (u32 \<times> 'w) run" where
  "puts_return os la xs v w = obind (puts_lit os la xs w) (\<lambda>w. Some (Inr (v, w)))"

subsection \<open>testprint, hello\<close>

definition testprint_main :: "'w os \<Rightarrow> (u8 list \<Rightarrow> u32) \<Rightarrow> 'w \<Rightarrow> (u32 \<times> 'w) run" where
  "testprint_main os la w = puts_return os la (line_lit ''Hello, if this ran, the program was correct. Yay!'') 0 w"

definition hello_main :: "'w os \<Rightarrow> (u8 list \<Rightarrow> u32) \<Rightarrow> u32 \<Rightarrow> 'w \<Rightarrow> (u32 \<times> 'w) run" where
  "hello_main os la buf w =
     obind (puts_lit os la (lit ''Hi, what's your name? '') w) (\<lambda>w.
     obind (ece391_read os 0 buf 1023 w) (\<lambda>(cnt, w).
     if - 1 = cnt then puts_return os la (line_lit ''Can't read name from keyboard.'') 3 w
     else
       let w = ust os buf cnt 0 w
       in obind (puts_lit os la (lit ''Hello, '') w) (\<lambda>w.
          obind (ece391_fdputs os 1 buf w) (\<lambda>w. Some (Inr (0, w))))))"

subsection \<open>cat\<close>

partial_function (option) cat_loop :: "'w os \<Rightarrow> (u8 list \<Rightarrow> u32) \<Rightarrow> u32 \<Rightarrow> u32 \<Rightarrow> 'w \<Rightarrow> (fault + u32 \<times> 'w) option" where
  "cat_loop os la buf fd w =
     obind (ece391_read os fd buf 1024 w) (\<lambda>(cnt, w).
     if 0 = cnt then Some (Inr (0, w))
     else if - 1 = cnt then puts_return os la (line_lit ''file read failed'') 3 w
     else obind (ece391_write os 1 buf cnt w) (\<lambda>(r, w).
       if - 1 = r then Some (Inr (3, w)) else cat_loop os la buf fd w))"

definition cat_main :: "'w os \<Rightarrow> (u8 list \<Rightarrow> u32) \<Rightarrow> u32 \<Rightarrow> 'w \<Rightarrow> (u32 \<times> 'w) run" where
  "cat_main os la buf w =
     obind (ece391_getargs os buf 1024 w) (\<lambda>(r, w).
     if 0 \<noteq> r then puts_return os la (line_lit ''could not read arguments'') 3 w
     else obind (ece391_open os buf w) (\<lambda>(fd, w).
       if - 1 = fd then puts_return os la (line_lit ''file not found'') 2 w
       else cat_loop os la buf fd w))"

subsection \<open>ls\<close>

partial_function (option) ls_loop :: "'w os \<Rightarrow> (u8 list \<Rightarrow> u32) \<Rightarrow> u32 \<Rightarrow> u32 \<Rightarrow> 'w \<Rightarrow> (fault + u32 \<times> 'w) option" where
  "ls_loop os la buf fd w =
     obind (ece391_read os fd buf 32 w) (\<lambda>(cnt, w).
     if 0 = cnt then Some (Inr (0, w))
     else if - 1 = cnt then puts_return os la (line_lit ''directory entry read failed'') 3 w
     else obind (ece391_write os 1 buf (cnt + 1) (ust os buf cnt 0x0A w)) (\<lambda>(r, w).
       if - 1 = r then Some (Inr (3, w)) else ls_loop os la buf fd w))"

definition ls_main :: "'w os \<Rightarrow> (u8 list \<Rightarrow> u32) \<Rightarrow> u32 \<Rightarrow> 'w \<Rightarrow> (u32 \<times> 'w) run" where
  "ls_main os la buf w =
     obind (ece391_open os (la (lit ''.'')) w) (\<lambda>(fd, w).
     if - 1 = fd then puts_return os la (line_lit ''directory open failed'') 2 w
     else ls_loop os la buf fd w)"

subsection \<open>counter\<close>

text \<open>\<open>for (i = 0; i < max; i++)\<close>, from \<open>i\<close> on for \<open>n\<close> rounds.\<close>

fun counter_loop :: "'w os \<Rightarrow> (u8 list \<Rightarrow> u32) \<Rightarrow> u32 \<Rightarrow> nat \<Rightarrow> u32 \<Rightarrow> 'w \<Rightarrow> 'w run" where
  "counter_loop os la buf 0 i w = Some (Inr w)"
| "counter_loop os la buf (Suc n) i w =
     obind (ece391_itoa (i + 1) (mem_of os w) (at_addr os w buf) 10) (\<lambda>m.
     obind (ece391_fdputs os 1 buf (set_mem os m w)) (\<lambda>w.
     obind (puts_lit os la [0x0A] w) (\<lambda>w. counter_loop os la buf n (i + 1) w)))"

definition counter_main :: "'w os \<Rightarrow> (u8 list \<Rightarrow> u32) \<Rightarrow> u32 \<Rightarrow> 'w \<Rightarrow> (u32 \<times> 'w) run" where
  "counter_main os la buf w =
     obind (puts_lit os la (line_lit ''Enter the Test Number: (0): 100, (1): 10000, (2): 100000'') w) (\<lambda>w.
     obind (ece391_read os 0 buf 1023 w) (\<lambda>(cnt, w).
     if - 1 = cnt then puts_return os la (line_lit ''Can't read the number from keyboard.'') 3 w
     else
       let w = ust os buf cnt 0 w
       in case ece391_strlen (mem_of os w) (at_addr os w buf) of
            None \<Rightarrow> None
          | Some n \<Rightarrow>
              let c = uld os w buf 0
              in if n > 1 \<or> n = 1 \<and> (c < 0x30 \<or> c > 0x32) then puts_return os la (line_lit ''Wrong Choice!'') 0 w
                 else
                   let max = (if c = 0x30 then 100 else if c = 0x31 then 10000 else if c = 0x32 then 100000 else 0)
                   in obind (counter_loop os la buf max 0 w) (\<lambda>w. Some (Inr (0, w)))))"

subsection \<open>shell\<close>

text \<open>What the shell says about the result of \<open>execute\<close>.\<close>

definition shell_report :: "'w os \<Rightarrow> (u8 list \<Rightarrow> u32) \<Rightarrow> u32 \<Rightarrow> 'w \<Rightarrow> 'w run" where
  "shell_report os la rval w =
     (if - 1 = rval then puts_lit os la (line_lit ''no such command'') w
      else if 256 = rval then puts_lit os la (line_lit ''program terminated by exception'') w
      else if 0 \<noteq> rval then puts_lit os la (line_lit ''program terminated abnormally'') w
      else Some (Inr w))"

partial_function (option) shell_loop :: "'w os \<Rightarrow> (u8 list \<Rightarrow> u32) \<Rightarrow> u32 \<Rightarrow> 'w \<Rightarrow> (fault + u32 \<times> 'w) option" where
  "shell_loop os la buf w =
     obind (puts_lit os la (lit ''391OS> '') w) (\<lambda>w.
     obind (ece391_read os 0 buf 1023 w) (\<lambda>(cnt, w).
     if - 1 = cnt then puts_return os la (line_lit ''read from keyboard failed'') 3 w
     else
       let cnt = (if 0 < sint cnt \<and> uld os w buf (cnt - 1) = 0x0A then cnt - 1 else cnt);
           w = ust os buf cnt 0 w
       in Option.bind (ece391_strcmp (mem_of os w) (at_addr os w buf) (at_addr os w (la (lit ''exit'')))) (\<lambda>d.
          if 0 = d then Some (Inr (0, w))
          else if 0 = uld os w buf 0 then shell_loop os la buf w
          else obind (ece391_execute os buf w) (\<lambda>(rval, w).
               obind (shell_report os la rval w) (\<lambda>w. shell_loop os la buf w)))))"

definition shell_main :: "'w os \<Rightarrow> (u8 list \<Rightarrow> u32) \<Rightarrow> u32 \<Rightarrow> 'w \<Rightarrow> (u32 \<times> 'w) run" where
  "shell_main os la buf w = obind (puts_lit os la (line_lit ''Starting 391 Shell'') w) (shell_loop os la buf)"

end
