(* ===== verification/User_Syserr.thy ===== *)
theory User_Syserr
  imports User_Programs
begin

text \<open>
  src/syscalls/ece391syserr.c: the repository's own test of the system calls' error behaviour.  Every
  test returns 0 and prints \<open>PASS\<close> when the kernel answers as the test expects.
\<close>

abbreviation NEG_FD :: u32 where "NEG_FD \<equiv> - 1073741823"
abbreviation BIG_FD :: u32 where "BIG_FD \<equiv> 1073741823"
abbreviation BIG_NUM :: u32 where "BIG_NUM \<equiv> 1073741823"
abbreviation NEG_NUM :: u32 where "NEG_NUM \<equiv> - 1073741823"

text \<open>\<open>regs\<close> are the other registers, which the assembly of \<open>call_sys\<close> leaves as they are.\<close>

definition call_sys :: "'w os \<Rightarrow> u32 \<times> u32 \<times> u32 \<Rightarrow> u32 \<Rightarrow> 'w \<Rightarrow> (u32 \<times> 'w) run" where
  "call_sys os regs num w = (case regs of (ebx, ecx, edx) \<Rightarrow> int80 os num ebx ecx edx w)"

text \<open>\<open>if (-1 != call) { fail = 2; ece391_fdputs (1, msg); }\<close> and the verdict at the end of a test.\<close>

definition expect_error :: "'w os \<Rightarrow> (u8 list \<Rightarrow> u32) \<Rightarrow> string \<Rightarrow> u32 \<Rightarrow> (u32 \<times> 'w) run \<Rightarrow> (u32 \<times> 'w) run" where
  "expect_error os la msg fail r =
     obind r (\<lambda>(v, w). if - 1 \<noteq> v then puts_return os la (line_lit msg) 2 w else Some (Inr (fail, w)))"

definition verdict :: "'w os \<Rightarrow> (u8 list \<Rightarrow> u32) \<Rightarrow> string \<Rightarrow> u32 \<Rightarrow> 'w \<Rightarrow> (u32 \<times> 'w) run" where
  "verdict os la name fail w = puts_return os la (line_lit (name @ (if fail \<noteq> 0 then '': FAIL'' else '': PASS''))) fail w"

definition err_bad_fd :: "'w os \<Rightarrow> (u8 list \<Rightarrow> u32) \<Rightarrow> u32 \<Rightarrow> string \<Rightarrow> u32 \<Rightarrow> 'w \<Rightarrow> (u32 \<times> 'w) run" where
  "err_bad_fd os la buf name fd w =
     obind (expect_error os la ''read fail'' 0 (ece391_read os fd buf 31 w)) (\<lambda>(fail, w).
     obind (expect_error os la ''write fail'' fail (ece391_write os fd buf 31 w)) (\<lambda>(fail, w).
     obind (expect_error os la ''close fail'' fail (ece391_close os fd w)) (\<lambda>(fail, w).
     verdict os la name fail w)))"

definition err_neg_fd :: "'w os \<Rightarrow> (u8 list \<Rightarrow> u32) \<Rightarrow> u32 \<Rightarrow> 'w \<Rightarrow> (u32 \<times> 'w) run" where
  "err_neg_fd os la buf w = err_bad_fd os la buf ''err_neg_fd'' NEG_FD w"

definition err_big_fd :: "'w os \<Rightarrow> (u8 list \<Rightarrow> u32) \<Rightarrow> u32 \<Rightarrow> 'w \<Rightarrow> (u32 \<times> 'w) run" where
  "err_big_fd os la buf w = err_bad_fd os la buf ''err_big_fd'' BIG_FD w"

fun open_lots :: "'w os \<Rightarrow> (u8 list \<Rightarrow> u32) \<Rightarrow> nat \<Rightarrow> nat \<Rightarrow> 'w \<Rightarrow> (nat \<times> 'w) run" where
  "open_lots os la 0 cnt w = Some (Inr (cnt, w))"
| "open_lots os la (Suc n) cnt w =
     obind (ece391_open os (la (lit ''.'')) w) (\<lambda>(r, w). open_lots os la n (if - 1 = r then Suc cnt else cnt) w)"

fun close_all :: "'w os \<Rightarrow> nat list \<Rightarrow> 'w \<Rightarrow> 'w run" where
  "close_all os [] w = Some (Inr w)"
| "close_all os (i # is) w = obind (ece391_close os (of_nat i) w) (\<lambda>(r, w). close_all os is w)"

definition err_open_lots :: "'w os \<Rightarrow> (u8 list \<Rightarrow> u32) \<Rightarrow> 'w \<Rightarrow> (u32 \<times> 'w) run" where
  "err_open_lots os la w =
     obind (open_lots os la 7 0 w) (\<lambda>(cnt, w).
     obind (close_all os [2..<8] w) (\<lambda>w.
     verdict os la ''err_open_lots'' (if cnt = 1 then 0 else 2) w))"

definition err_open :: "'w os \<Rightarrow> (u8 list \<Rightarrow> u32) \<Rightarrow> 'w \<Rightarrow> (u32 \<times> 'w) run" where
  "err_open os la w =
     obind (expect_error os la (CHR 0x27 # ''helloo'' @ CHR 0x27 # '' fail'') 0 (ece391_open os (la (lit ''helloo'')) w)) (\<lambda>(fail, w).
     obind (expect_error os la (CHR 0x27 # ''shel'' @ CHR 0x27 # '' fail'') fail (ece391_open os (la (lit ''shel'')) w)) (\<lambda>(fail, w).
     obind (expect_error os la ''empty string fail'' fail (ece391_open os (la []) w)) (\<lambda>(fail, w).
     verdict os la ''err_open'' fail w)))"

text \<open>A loop over descriptors, each of which should be refused.\<close>

fun expect_errors :: "'w os \<Rightarrow> (u8 list \<Rightarrow> u32) \<Rightarrow> string \<Rightarrow> (nat \<Rightarrow> 'w \<Rightarrow> (u32 \<times> 'w) run) \<Rightarrow> nat list \<Rightarrow> u32 \<Rightarrow> 'w \<Rightarrow> (u32 \<times> 'w) run" where
  "expect_errors os la msg f [] fail w = Some (Inr (fail, w))"
| "expect_errors os la msg f (i # is) fail w =
     obind (expect_error os la msg fail (f i w)) (\<lambda>(fail, w). expect_errors os la msg f is fail w)"

definition err_unopened :: "'w os \<Rightarrow> (u8 list \<Rightarrow> u32) \<Rightarrow> u32 \<Rightarrow> 'w \<Rightarrow> (u32 \<times> 'w) run" where
  "err_unopened os la buf w =
     obind (expect_errors os la ''close unopened or invalid fd fail'' (\<lambda>i. ece391_close os (of_nat i)) [0..<8] 0 w) (\<lambda>(fail, w).
     obind (expect_errors os la ''read from unopened fd fail'' (\<lambda>i. ece391_read os (of_nat i) buf 31) [2..<8] fail w) (\<lambda>(fail, w).
     obind (expect_errors os la ''write to unopened fd fail'' (\<lambda>i. ece391_write os (of_nat i) buf 31) [2..<8] fail w) (\<lambda>(fail, w).
     verdict os la ''err_unopened'' fail w)))"

definition err_vidmap :: "'w os \<Rightarrow> (u8 list \<Rightarrow> u32) \<Rightarrow> 'w \<Rightarrow> (u32 \<times> 'w) run" where
  "err_vidmap os la w =
     obind (expect_error os la ''Null pointer fail'' 0 (ece391_vidmap os 0 w)) (\<lambda>(fail, w).
     obind (expect_error os la ''Kernel pointer fail fail'' fail (ece391_vidmap os 0x400000 w)) (\<lambda>(fail, w).
     verdict os la ''err_vidmap'' fail w))"

definition err_stdin_out :: "'w os \<Rightarrow> (u8 list \<Rightarrow> u32) \<Rightarrow> u32 \<Rightarrow> 'w \<Rightarrow> (u32 \<times> 'w) run" where
  "err_stdin_out os la buf w =
     obind (expect_error os la ''write to stdin fail'' 0 (ece391_write os 0 buf 31 w)) (\<lambda>(fail, w).
     obind (expect_error os la ''read from stdout fail'' fail (ece391_read os 1 buf 31 w)) (\<lambda>(fail, w).
     verdict os la ''err_stdin_out'' fail w))"

definition err_syscall_num :: "'w os \<Rightarrow> (u8 list \<Rightarrow> u32) \<Rightarrow> u32 \<times> u32 \<times> u32 \<Rightarrow> 'w \<Rightarrow> (u32 \<times> 'w) run" where
  "err_syscall_num os la regs w =
     obind (expect_error os la ''syscall 0 fail'' 0 (call_sys os regs BIG_NUM w)) (\<lambda>(fail, w).
     obind (expect_error os la ''big num syscall fail'' fail (call_sys os regs NEG_NUM w)) (\<lambda>(fail, w).
     obind (expect_error os la ''neg num syscall fail'' fail (call_sys os regs 0 w)) (\<lambda>(fail, w).
     verdict os la ''err_syscall_num'' fail w)))"

text \<open>The tests in the order of \<open>main\<close>, and \<open>fail += test ()\<close> over them; \<open>buf\<close> stands for the local array
  of a test.\<close>

definition syserr_tests :: "'w os \<Rightarrow> (u8 list \<Rightarrow> u32) \<Rightarrow> u32 \<times> u32 \<times> u32 \<Rightarrow> u32 \<Rightarrow> ('w \<Rightarrow> (u32 \<times> 'w) run) list" where
  "syserr_tests os la regs buf = [err_neg_fd os la buf, err_big_fd os la buf, err_open_lots os la, err_open os la,
     err_unopened os la buf, err_vidmap os la, err_stdin_out os la buf, err_syscall_num os la regs]"

fun sum_tests :: "('w \<Rightarrow> (u32 \<times> 'w) run) list \<Rightarrow> u32 \<Rightarrow> 'w \<Rightarrow> (u32 \<times> 'w) run" where
  "sum_tests [] fail w = Some (Inr (fail, w))"
| "sum_tests (t # ts) fail w = obind (t w) (\<lambda>(f, w). sum_tests ts (fail + f) w)"

text \<open>
  The switch of \<open>main\<close> on the first character \<open>c\<close> of the answer.  What \<open>main\<close> does before it is not modelled: it reads the
  answer into an array of 128 bytes, and the kernel copies the whole line buffer of 1024 bytes there
  (\<open>clear_buffer\<close>), over the frame of \<open>main\<close>.
\<close>

definition syserr_select :: "'w os \<Rightarrow> (u8 list \<Rightarrow> u32) \<Rightarrow> u32 \<times> u32 \<times> u32 \<Rightarrow> u32 \<Rightarrow> u8 \<Rightarrow> 'w \<Rightarrow> (u32 \<times> 'w) run" where
  "syserr_select os la regs buf c w =
     (let select = uint c - 48; tests = syserr_tests os la regs buf
      in if select = 0 then
           obind (sum_tests tests 0 w) (\<lambda>(fail, w).
             puts_return os la (0x0A # line_lit (if fail \<noteq> 0 then ''Overall Tests: FAIL'' else ''Overall Tests: PASS'')) fail w)
         else if 1 \<le> select \<and> select \<le> 8 then (tests ! nat (select - 1)) w
         else puts_return os la (lit ''Invalid test number. Choose from tests 1-8 or 0'') 0 w)"

end
