(* ===== verification/User_Os.thy ===== *)
theory User_Os
  imports User_Syserr
begin

text \<open>
  What the user programs rely on: the interface between programs and kernel as locales.  \<open>uview\<close> is
  what a program can observe of the kernel; the laws say how each system call moves it and which
  bytes of the program's page it writes.  The programs are verified against these laws alone.
\<close>

text \<open>An open descriptor: the rest of a file, the directory, the clock, a terminal.\<close>

datatype fdesc = Reads "u8 list" | Lists | Ticks | Term

record uview =
  v_screen :: screen
  v_fds :: "nat \<Rightarrow> fdesc option"
  v_disk :: "u8 list \<Rightarrow> fdesc option"
  v_names :: "u8 list list"
  v_dir :: "u8 list list"
  v_keys :: "u8 list list"
  v_arg :: "u8 list option"

text \<open>Opening and closing on views.\<close>

definition v_open :: "u8 list \<Rightarrow> uview \<Rightarrow> u32 \<times> uview" where
  "v_open name v =
     (let i = scan (\<lambda>i. v_fds v i = None) 2 8
      in if 8 \<le> i then (- 1, v)
         else case v_disk v name of None \<Rightarrow> (- 1, v) | Some d \<Rightarrow> (of_nat i, v\<lparr>v_fds := (v_fds v)(i := Some d)\<rparr>))"

definition v_close :: "u32 \<Rightarrow> uview \<Rightarrow> u32 \<times> uview" where
  "v_close fd v =
     (if fd < 2 \<or> fd > 7 \<or> v_fds v (unat fd) = None then (- 1, v)
      else (0, v\<lparr>v_fds := (v_fds v)(unat fd := None)\<rparr>))"

lemma v_open_found:
  "v_disk v name = Some d \<Longrightarrow> 2 \<le> i \<Longrightarrow> i < 8 \<Longrightarrow> v_fds v i = None \<Longrightarrow> (\<And>j. 2 \<le> j \<Longrightarrow> j < i \<Longrightarrow> v_fds v j \<noteq> None) \<Longrightarrow>
   v_open name v = (of_nat i, v\<lparr>v_fds := (v_fds v)(i := Some d)\<rparr>)"
  using scan_eqI [of 2 i 8 "\<lambda>i. v_fds v i = None"] by (simp add: v_open_def)

text \<open>Calls the kernel refuses: it returns -1 and nothing changes.\<close>

fun v_refuses :: "u32 \<Rightarrow> u32 \<Rightarrow> uview \<Rightarrow> bool" where
  "v_refuses n b v \<longleftrightarrow>
     (n = 3 \<and> (b > 7 \<or> b = 1 \<or> v_fds v (unat b) = None)) \<or>
     (n = 4 \<and> (b > 7 \<or> b = 0 \<or> v_fds v (unat b) = None)) \<or>
     (n = 8 \<and> (b = 0 \<or> b = 0x400000)) \<or> n = 9 \<or> n = 10 \<or> n = 0 \<or> n > 10"

text \<open>The literals \<open>L\<close> of a program are in its page, at the addresses \<open>la\<close>.\<close>

definition has_lits :: "block \<Rightarrow> (u32 \<Rightarrow> u32) \<Rightarrow> (u32 \<Rightarrow> bool) \<Rightarrow> (u8 list \<Rightarrow> u32) \<Rightarrow> u8 list set \<Rightarrow> mem \<Rightarrow> bool" where
  "has_lits page off uaddr la L m \<longleftrightarrow>
     (\<forall>xs\<in>L. uaddr (la xs) \<and> length xs < 2 ^ 31 \<and> cstr m (page, off (la xs)) xs)"

text \<open>An array of \<open>n\<close> bytes at offset \<open>a\<close> of the page is apart from the literals.\<close>

definition apart :: "(u32 \<Rightarrow> u32) \<Rightarrow> (u8 list \<Rightarrow> u32) \<Rightarrow> u8 list set \<Rightarrow> u32 \<Rightarrow> nat \<Rightarrow> bool" where
  "apart off la L a n \<longleftrightarrow>
     (\<forall>xs\<in>L. \<forall>i\<le>length xs. n \<le> unat (off (la xs) + of_nat i - off a))"

lemma apart_lits:
  assumes "has_lits page off uaddr la L m" and "apart off la L a n" and "length ys \<le> n"
    and "m' page = stores m (page, off a) ys page"
  shows "has_lits page off uaddr la L m'"
proof -
  have "ld m' (page, off (la xs)) (of_nat i) = ld m (page, off (la xs)) (of_nat i)" if "xs \<in> L" "i \<le> length xs" for xs i
    using assms(2-4) that by (fastforce simp: ld_def stores_def apart_def)
  note ld = this
  have "cstr m' (page, off (la xs)) xs = cstr m (page, off (la xs)) xs" if "xs \<in> L" for xs
  proof -
    have "bytes m' (page, off (la xs)) (length xs) = bytes m (page, off (la xs)) (length xs)"
      using ld [OF that] by (simp add: bytes_def)
    then show ?thesis using ld [OF that, of "length xs"] by (simp add: cstr_def)
  qed
  then show ?thesis using assms(1) by (simp add: has_lits_def)
qed

text \<open>A list in pieces of \<open>n\<close>, the last one shorter.\<close>

function chunks :: "nat \<Rightarrow> 'b list \<Rightarrow> 'b list list" where
  "chunks n xs = (if n = 0 \<or> xs = [] then [] else take n xs # chunks n (drop n xs))"
  by pat_completeness auto
termination
  by (relation "measure (\<lambda>(n, xs). length xs)") auto

declare chunks.simps [simp del]

lemma chunks_Nil [simp]: "chunks n [] = []"
  by (simp add: chunks.simps)

lemma concat_chunks: "0 < n \<Longrightarrow> concat (chunks n xs) = xs"
  by (induction n xs rule: chunks.induct) (subst chunks.simps, simp)

lemma small_not_minus_one: "k < 2 ^ 31 \<Longrightarrow> (of_nat k :: u32) \<noteq> - 1"
proof
  assume k: "k < 2 ^ 31" and "(of_nat k :: u32) = - 1"
  then have "(of_nat (Suc k) :: u32) = 0" by simp
  moreover have "unat (of_nat (Suc k) :: u32) = Suc k" using k by (intro unat_u32_of_nat) simp
  ultimately show False by simp
qed

lemma bytes_of_stores:
  "m' page = stores m (page, a) ys page \<Longrightarrow> length ys < 2 ^ 32 \<Longrightarrow> bytes m' (page, a) (length ys) = ys"
  using bytes_stores_same [of ys m "(page, a)"] by (simp add: bytes_def ld_def)

lemma bytes_then_two:
  assumes "bytes m p 32 = xs" and "e = ld (st m p 32 c) p 33"
  shows "bytes (st m p 32 c) p (Suc 33) = xs @ [c, e]"
proof -
  have "bytes (st m p 32 c) p 32 = xs"
    unfolding assms(1) [symmetric] by (rule nth_equalityI) (use of_nat_u32_inj [of _ 32] in auto)
  then show ?thesis using bytes_Suc [of "st m p 32 c" p 32] bytes_Suc [of "st m p 32 c" p 33] assms(2) by simp
qed

subsection \<open>Output\<close>

text \<open>A program in a good state owns \<open>page\<close>, where its addresses \<open>uaddr\<close> are at \<open>off\<close>.\<close>

locale text_os =
  fixes os :: "'w os" and good :: "'w \<Rightarrow> bool" and page :: block and off :: "u32 \<Rightarrow> u32" and uaddr :: "u32 \<Rightarrow> bool"
    and view :: "'w \<Rightarrow> uview"
  assumes addr: "good w \<Longrightarrow> uaddr a \<Longrightarrow> at_addr os w a = (page, off a)"
    and mem_set: "good w \<Longrightarrow> (\<And>b. b \<noteq> page \<Longrightarrow> m b = mem_of os w b) \<Longrightarrow>
      good (set_mem os m w) \<and> mem_of os (set_mem os m w) = m \<and> view (set_mem os m w) = view w"
    and write_out: "good w \<Longrightarrow> uaddr a \<Longrightarrow> unat n < 2 ^ 31 \<Longrightarrow>
      \<exists>w'. int80 os 4 1 a n w = Some (Inr (n, w')) \<and> good w' \<and> mem_of os w' page = mem_of os w page \<and>
        view w' = (view w)\<lparr>v_screen := shown (bytes (mem_of os w) (page, off a) (Suc (unat n))) (v_screen (view w))\<rparr>"
begin

text \<open>Going from \<open>w\<close> to \<open>w'\<close> the program has sent the byte strings \<open>xss\<close> to the terminal, one write each,
  and nothing else has changed.\<close>

definition says :: "u8 list list \<Rightarrow> 'w \<Rightarrow> 'w \<Rightarrow> bool" where
  "says xss w w' \<longleftrightarrow> good w' \<and> mem_of os w' page = mem_of os w page \<and>
     view w' = (view w)\<lparr>v_screen := fold shown xss (v_screen (view w))\<rparr>"

lemma says_good: "says xss w w' \<Longrightarrow> good w'"
  by (simp add: says_def)

lemma says_refl: "good w \<Longrightarrow> says [] w w"
  by (simp add: says_def)

lemma says_trans: "says xss w w' \<Longrightarrow> says yss w' w'' \<Longrightarrow> says (xss @ yss) w w''"
  by (simp add: says_def)

abbreviation lits :: "(u8 list \<Rightarrow> u32) \<Rightarrow> u8 list set \<Rightarrow> 'w \<Rightarrow> bool" where
  "lits la L w \<equiv> has_lits page off uaddr la L (mem_of os w)"

lemma bytes_page: "mem_of os w' page = mem_of os w page \<Longrightarrow> bytes (mem_of os w') (page, a) n = bytes (mem_of os w) (page, a) n"
  by (simp add: bytes_def ld_def)

lemma cstr_page: "mem_of os w' page = mem_of os w page \<Longrightarrow> cstr (mem_of os w') (page, a) xs = cstr (mem_of os w) (page, a) xs"
  by (simp add: cstr_def bytes_def ld_def)

lemma lits_page: "lits la L w \<Longrightarrow> mem_of os w' page = mem_of os w page \<Longrightarrow> lits la L w'"
  by (simp add: has_lits_def cstr_page [of w' w])

lemma lits_says: "lits la L w \<Longrightarrow> says xss w w' \<Longrightarrow> lits la L w'"
  by (erule lits_page) (simp add: says_def)

lemma bytes_cstr: "cstr m p xs \<Longrightarrow> bytes m p (Suc (length xs)) = xs @ [0]"
  by (simp add: cstr_def bytes_Suc)

lemma fdputs_says:
  assumes "good w" and "uaddr a" and "cstr (mem_of os w) (page, off a) xs" and "length xs < 2 ^ 31"
  shows "\<exists>w'. ece391_fdputs os 1 a w = Some (Inr w') \<and> says [xs @ [0]] w w'"
proof -
  have u: "unat (of_nat (length xs) :: u32) = length xs" using assms(4) by (intro unat_u32_of_nat) simp
  from write_out [OF assms(1,2), of "of_nat (length xs)"] obtain w' where
    "int80 os 4 1 a (of_nat (length xs)) w = Some (Inr (of_nat (length xs), w'))" "good w'" "mem_of os w' page = mem_of os w page"
    "view w' = (view w)\<lparr>v_screen := shown (bytes (mem_of os w) (page, off a) (Suc (length xs))) (v_screen (view w))\<rparr>"
    using assms(4) unfolding u by auto
  then show ?thesis using addr [OF assms(1,2)] ece391_strlen_cstr [OF assms(3)] bytes_cstr [OF assms(3)]
    by (simp add: ece391_fdputs_def ece391_write_def says_def)
qed

lemma puts_lit_says:
  "good w \<Longrightarrow> lits la L w \<Longrightarrow> xs \<in> L \<Longrightarrow> \<exists>w'. puts_lit os la xs w = Some (Inr w') \<and> says [xs @ [0]] w w'"
  unfolding puts_lit_def has_lits_def by (rule fdputs_says) auto

lemma puts_return_says:
  "good w \<Longrightarrow> lits la L w \<Longrightarrow> xs \<in> L \<Longrightarrow> \<exists>w'. puts_return os la xs v w = Some (Inr (v, w')) \<and> says [xs @ [0]] w w'"
  using puts_lit_says [of w la L xs] by (auto simp: puts_return_def)

text \<open>A store into the page.\<close>

lemma ust_page:
  assumes "good w" and "uaddr a"
  shows "good (ust os a i v w)" "mem_of os (ust os a i v w) = st (mem_of os w) (page, off a) i v" "view (ust os a i v w) = view w"
proof -
  have "st (mem_of os w) (page, off a) i v b = mem_of os w b" if "b \<noteq> page" for b using that by (simp add: st_def)
  from mem_set [OF assms(1) this] addr [OF assms]
  show "good (ust os a i v w)" "mem_of os (ust os a i v w) = st (mem_of os w) (page, off a) i v" "view (ust os a i v w) = view w"
    by (simp_all add: ust_def)
qed

end

subsection \<open>Files\<close>

text \<open>One call: it returns \<open>r\<close>, stores \<open>ys\<close> at address \<open>a\<close> of the page, and moves the view to \<open>v\<close>.\<close>

locale file_os = text_os os good page off uaddr view
  for os :: "'w os" and good and page and off and uaddr and view +
  assumes call_open: "good w \<Longrightarrow> uaddr a \<Longrightarrow> cstr (mem_of os w) (page, off a) name \<Longrightarrow> length name \<le> 31 \<Longrightarrow>
      \<exists>w'. int80 os 5 a 0 0 w = Some (Inr (fst (v_open name (view w)), w')) \<and> good w' \<and>
        mem_of os w' page = mem_of os w page \<and> view w' = snd (v_open name (view w))"
    and call_close: "good w \<Longrightarrow>
      \<exists>w'. int80 os 6 fd 0 0 w = Some (Inr (fst (v_close fd (view w)), w')) \<and> good w' \<and>
        mem_of os w' page = mem_of os w page \<and> view w' = snd (v_close fd (view w))"
    and read_file: "good w \<Longrightarrow> uaddr a \<Longrightarrow> 2 \<le> i \<Longrightarrow> i < 8 \<Longrightarrow> v_fds (view w) i = Some (Reads xs) \<Longrightarrow> 0 < n \<Longrightarrow>
      \<exists>w'. int80 os 3 (of_nat i) a n w = Some (Inr (of_nat (length (take (unat n) xs)), w')) \<and> good w' \<and>
        mem_of os w' page = stores (mem_of os w) (page, off a) (take (unat n) xs) page \<and>
        view w' = (view w)\<lparr>v_fds := (v_fds (view w))(i := Some (Reads (drop (unat n) xs)))\<rparr>"
    and read_dir: "good w \<Longrightarrow> uaddr a \<Longrightarrow> 2 \<le> i \<Longrightarrow> i < 8 \<Longrightarrow> v_fds (view w) i = Some Lists \<Longrightarrow> v_dir (view w) = nm # ns \<Longrightarrow>
      \<exists>w'. int80 os 3 (of_nat i) a n w = Some (Inr (32, w')) \<and> good w' \<and>
        mem_of os w' page = stores (mem_of os w) (page, off a) (pad32 nm) page \<and> length nm \<le> 32 \<and>
        view w' = (view w)\<lparr>v_dir := ns\<rparr>"
    and read_dir_end: "good w \<Longrightarrow> uaddr a \<Longrightarrow> 2 \<le> i \<Longrightarrow> i < 8 \<Longrightarrow> v_fds (view w) i = Some Lists \<Longrightarrow> v_dir (view w) = [] \<Longrightarrow>
      \<exists>w'. int80 os 3 (of_nat i) a n w = Some (Inr (0, w')) \<and> good w' \<and>
        mem_of os w' page = mem_of os w page \<and> view w' = (view w)\<lparr>v_dir := v_names (view w)\<rparr>"
    and refused: "good w \<Longrightarrow> uaddr c \<or> n \<noteq> 3 \<and> n \<noteq> 4 \<Longrightarrow> v_refuses n b (view w) \<Longrightarrow>
      \<exists>w'. int80 os n b c d w = Some (Inr (- 1, w')) \<and> good w' \<and> mem_of os w' page = mem_of os w page \<and> view w' = view w"
begin

text \<open>The file is opened, printed in chunks of 1024 bytes, each followed on the screen by the byte that happens
  to come after it in the buffer (which the write takes back).\<close>

lemma cat_loop_prints:
  assumes "good w" and "uaddr buf" and "2 \<le> i" "i < 8" and "v_fds (view w) i = Some (Reads xs)" and "length xs < 2 ^ 31"
  shows "\<exists>w' es. cat_loop os la buf (of_nat i) w = Some (Inr (0, w')) \<and> good w' \<and> length es = length (chunks 1024 xs) \<and>
    view w' = (view w)\<lparr>v_screen := fold shown (map2 (\<lambda>c e. c @ [e]) (chunks 1024 xs) es) (v_screen (view w)),
      v_fds := (v_fds (view w))(i := Some (Reads []))\<rparr>"
  using assms
proof (induction xs arbitrary: w rule: measure_induct_rule [where f = length])
  case (less xs)
  let ?c = "take 1024 xs"
  have u: "unat (1024 :: u32) = 1024" by simp
  from read_file [OF less.prems(1-5), of 1024] obtain w1 where w1:
    "int80 os 3 (of_nat i) buf 1024 w = Some (Inr (of_nat (length ?c), w1))" "good w1"
    "mem_of os w1 page = stores (mem_of os w) (page, off buf) ?c page"
    "view w1 = (view w)\<lparr>v_fds := (v_fds (view w))(i := Some (Reads (drop 1024 xs)))\<rparr>"
    unfolding u by auto
  have lc: "length ?c < 2 ^ 31" by (rule le_less_trans [of _ 1024]) simp_all
  have uc: "unat (of_nat (length ?c) :: u32) = length ?c" by (rule unat_u32_of_nat) (use lc in simp)
  show ?case
  proof (cases "xs = []")
    case True
    then show ?thesis using w1 by (subst cat_loop.simps) (auto simp: ece391_read_def)
  next
    case False
    then have nz: "length ?c \<noteq> 0" by simp
    then have c0: "(of_nat (length ?c) :: u32) \<noteq> 0" using uc by (metis unat_0)
    have cm: "(of_nat (length ?c) :: u32) \<noteq> - 1" by (rule small_not_minus_one [OF lc])
    from write_out [OF w1(2) less.prems(2), of "of_nat (length ?c)"] obtain w2 where w2:
      "int80 os 4 1 buf (of_nat (length ?c)) w1 = Some (Inr (of_nat (length ?c), w2))" "good w2"
      "view w2 = (view w1)\<lparr>v_screen := shown (bytes (mem_of os w1) (page, off buf) (Suc (length ?c))) (v_screen (view w1))\<rparr>"
      using lc unfolding uc by blast
    define e where "e = ld (mem_of os w1) (page, off buf) (of_nat (length ?c))"
    have by1: "bytes (mem_of os w1) (page, off buf) (Suc (length ?c)) = ?c @ [e]"
      using bytes_of_stores [of "mem_of os w1" page "mem_of os w" "off buf" ?c] w1(3) lc unfolding bytes_Suc e_def by simp
    have lt: "length (drop 1024 xs) < length xs" "length (drop 1024 xs) < 2 ^ 31" using False less.prems(6) by simp_all
    have fd: "v_fds (view w2) i = Some (Reads (drop 1024 xs))" using w2(3) w1(4) by simp
    obtain w' es where w': "cat_loop os la buf (of_nat i) w2 = Some (Inr (0, w'))" "good w'"
      "length es = length (chunks 1024 (drop 1024 xs))"
      "view w' = (view w2)\<lparr>v_screen := fold shown (map2 (\<lambda>c e. c @ [e]) (chunks 1024 (drop 1024 xs)) es) (v_screen (view w2)),
        v_fds := (v_fds (view w2))(i := Some (Reads []))\<rparr>"
      using less.IH [OF lt(1) w2(2) less.prems(2-4) fd lt(2)] by blast
    have "cat_loop os la buf (of_nat i) w = Some (Inr (0, w'))"
      using w1(1) w2(1) w'(1) c0 cm by (subst cat_loop.simps) (auto simp: ece391_read_def ece391_write_def)
    moreover have ch: "chunks 1024 xs = ?c # chunks 1024 (drop 1024 xs)" using False by (simp add: chunks.simps [of _ xs])
    moreover have "view w' = (view w)\<lparr>v_screen := fold shown (map2 (\<lambda>c e. c @ [e]) (chunks 1024 xs) (e # es)) (v_screen (view w)),
        v_fds := (v_fds (view w))(i := Some (Reads []))\<rparr>"
      unfolding w'(4) w2(3) w1(4) by1 ch by simp
    ultimately show ?thesis using w'(2,3) ch by (intro exI [of _ w'] exI [of _ "e # es"] conjI) (simp_all add: fun_upd_def)
  qed
qed

text \<open>The directory is printed one padded name per line.\<close>

lemma ls_loop_prints:
  assumes "good w" and "uaddr buf" and "2 \<le> i" "i < 8" and "v_fds (view w) i = Some Lists" and "v_dir (view w) = ns"
  shows "\<exists>w' es. ls_loop os la buf (of_nat i) w = Some (Inr (0, w')) \<and> good w' \<and> length es = length ns \<and>
    view w' = (view w)\<lparr>v_screen := fold shown (map2 (\<lambda>nm e. pad32 nm @ [0x0A, e]) ns es) (v_screen (view w)),
      v_dir := v_names (view w)\<rparr>"
  using assms
proof (induction ns arbitrary: w)
  case Nil
  from read_dir_end [OF Nil, of 32] show ?case by (subst ls_loop.simps) (auto simp: ece391_read_def)
next
  case (Cons nm ns)
  from read_dir [OF Cons.prems, of 32] obtain w1 where w1: "int80 os 3 (of_nat i) buf 32 w = Some (Inr (32, w1))" "good w1"
    "mem_of os w1 page = stores (mem_of os w) (page, off buf) (pad32 nm) page" "length nm \<le> 32" "view w1 = (view w)\<lparr>v_dir := ns\<rparr>"
    by blast
  let ?w = "ust os buf 32 0x0A w1"
  note u = ust_page [OF w1(2) Cons.prems(2), of 32 "0x0A"]
  have lp: "length (pad32 nm) = 32" using w1(4) by (simp add: pad32_def)
  define e where "e = ld (mem_of os ?w) (page, off buf) 33"
  have "bytes (mem_of os w1) (page, off buf) 32 = pad32 nm"
    using bytes_of_stores [of "mem_of os w1" page "mem_of os w" "off buf" "pad32 nm"] w1(3) lp by simp
  then have by1: "bytes (mem_of os ?w) (page, off buf) (Suc 33) = pad32 nm @ [0x0A, e]"
    unfolding u(2) e_def by (intro bytes_then_two) simp_all
  from write_out [OF u(1) Cons.prems(2), of 33] obtain w2 where w2: "int80 os 4 1 buf 33 ?w = Some (Inr (33, w2))" "good w2"
    "view w2 = (view ?w)\<lparr>v_screen := shown (bytes (mem_of os ?w) (page, off buf) (Suc 33)) (v_screen (view ?w))\<rparr>" by auto
  have v2: "view w2 = (view w)\<lparr>v_dir := ns, v_screen := shown (pad32 nm @ [0x0A, e]) (v_screen (view w))\<rparr>"
    unfolding w2(3) by1 u(3) w1(5) by simp
  obtain w' es where w': "ls_loop os la buf (of_nat i) w2 = Some (Inr (0, w'))" "good w'" "length es = length ns"
    "view w' = (view w2)\<lparr>v_screen := fold shown (map2 (\<lambda>nm e. pad32 nm @ [0x0A, e]) ns es) (v_screen (view w2)),
      v_dir := v_names (view w2)\<rparr>"
    using Cons.IH [OF w2(2) Cons.prems(2-4)] Cons.prems(5) by (auto simp: v2)
  have "ls_loop os la buf (of_nat i) w = Some (Inr (0, w'))"
    using w1(1) w2(1) w'(1) by (subst ls_loop.simps) (simp add: ece391_read_def ece391_write_def)
  then show ?case using w'(2-4) by (intro exI [of _ w'] exI [of _ "e # es"]) (simp add: v2)
qed

end

end
