(* ===== verification/User_Tests.thy ===== *)
theory User_Tests
  imports User_Os
begin

text \<open>
  The error tests of ece391syserr.c pass on every kernel that keeps the file laws: each returns 0 and
  prints its \<open>PASS\<close> line, and the view of the kernel is otherwise as before.
\<close>

text \<open>What the error tests presuppose: no descriptor open but the two of the terminal, a directory, and
  none of the names that should be missing.\<close>

definition sys_clean :: "uview \<Rightarrow> bool" where
  "sys_clean v \<longleftrightarrow> (\<forall>i. 2 \<le> i \<longrightarrow> i < 8 \<longrightarrow> v_fds v i = None) \<and> v_disk v (lit ''.'') \<noteq> None \<and>
     (\<forall>name\<in>{lit ''helloo'', lit ''shel'', []}. v_disk v name = None)"

definition pass_line :: "string \<Rightarrow> u8 list" where
  "pass_line name = line_lit (name @ '': PASS'')"

definition syserr_names :: "string list" where
  "syserr_names = [''err_neg_fd'', ''err_big_fd'', ''err_open_lots'', ''err_open'', ''err_unopened'', ''err_vidmap'',
     ''err_stdin_out'', ''err_syscall_num'']"

context file_os
begin

lemma says_Nil: "good w' \<Longrightarrow> mem_of os w' page = mem_of os w page \<Longrightarrow> view w' = view w \<Longrightarrow> says [] w w'"
  by (simp add: says_def)

lemma says_view: "says [] w w' \<Longrightarrow> view w' = view w"
  by (simp add: says_def)

lemma says_clean: "says xss w w' \<Longrightarrow> sys_clean (view w') = sys_clean (view w)"
  by (simp add: says_def sys_clean_def)

lemma refused_says:
  "good w \<Longrightarrow> uaddr c \<or> n \<noteq> 3 \<and> n \<noteq> 4 \<Longrightarrow> v_refuses n b (view w) \<Longrightarrow> \<exists>w'. int80 os n b c d w = Some (Inr (- 1, w')) \<and> says [] w w'"
proof -
  assume "good w" "uaddr c \<or> n \<noteq> 3 \<and> n \<noteq> 4" "v_refuses n b (view w)"
  from refused [OF this, of d] show ?thesis using says_Nil by blast
qed

lemma close_refused_says:
  "good w \<Longrightarrow> v_close fd (view w) = (- 1, view w) \<Longrightarrow> \<exists>w'. ece391_close os fd w = Some (Inr (- 1, w')) \<and> says [] w w'"
proof -
  assume "good w" "v_close fd (view w) = (- 1, view w)"
  then show ?thesis using call_close [of w fd] says_Nil [of _ w] unfolding ece391_close_def by auto
qed

lemma open_refused_says:
  assumes "good w" and "lits la L w" and "name \<in> L" and "length name \<le> 31" and "v_disk (view w) name = None"
  shows "\<exists>w'. ece391_open os (la name) w = Some (Inr (- 1, w')) \<and> says [] w w'"
proof -
  have "v_open name (view w) = (- 1, view w)" using assms(5) by (simp add: v_open_def Let_def)
  then show ?thesis using call_open [of w "la name" name] assms says_Nil unfolding has_lits_def ece391_open_def by (metis fst_conv snd_conv)
qed

lemma expect_error_ok: "r = Some (Inr (- 1, w)) \<Longrightarrow> expect_error os la msg fail r = Some (Inr (fail, w))"
  by (simp add: expect_error_def)

text \<open>A test passes: it returns 0 and prints its name with \<open>PASS\<close>.\<close>

definition passes :: "(u8 list \<Rightarrow> u32) \<Rightarrow> u8 list set \<Rightarrow> ('w \<Rightarrow> (u32 \<times> 'w) run) \<Rightarrow> string \<Rightarrow> bool" where
  "passes la L t name \<longleftrightarrow> (\<forall>w. good w \<longrightarrow> lits la L w \<longrightarrow> sys_clean (view w) \<longrightarrow>
     (\<exists>w'. t w = Some (Inr (0, w')) \<and> says [pass_line name @ [0]] w w'))"

lemma verdict_passes:
  assumes "says [] w0 w" and "lits la L w0" and "pass_line name \<in> L"
  shows "\<exists>w'. verdict os la name 0 w = Some (Inr (0, w')) \<and> says [pass_line name @ [0]] w0 w'"
  using puts_return_says [OF says_good [OF assms(1)] lits_says [OF assms(2,1)] assms(3), of 0] says_trans [OF assms(1)]
  by (fastforce simp: verdict_def pass_line_def)

lemma err_bad_fd_passes:
  assumes "fd > 7" and "uaddr buf" and "pass_line name \<in> L"
  shows "passes la L (err_bad_fd os la buf name fd) name"
  unfolding passes_def
proof (intro allI impI)
  fix w assume w: "good w" "lits la L w"
  obtain w1 where w1: "ece391_read os fd buf 31 w = Some (Inr (- 1, w1))" "says [] w w1"
    unfolding ece391_read_def using refused_says [of w buf 3 fd 31] w assms by auto
  obtain w2 where w2: "ece391_write os fd buf 31 w1 = Some (Inr (- 1, w2))" "says [] w1 w2"
    unfolding ece391_write_def using refused_says [of w1 buf 4 fd 31] says_good [OF w1(2)] assms by auto
  obtain w3 where w3: "ece391_close os fd w2 = Some (Inr (- 1, w3))" "says [] w2 w3"
    using close_refused_says [OF says_good [OF w2(2)], of fd] assms(1) by (auto simp: v_close_def)
  have "says [] w w3" using says_trans [OF says_trans [OF w1(2) w2(2)] w3(2)] by simp
  from verdict_passes [OF this w(2) assms(3)] show "\<exists>w'. err_bad_fd os la buf name fd w = Some (Inr (0, w')) \<and> says [pass_line name @ [0]] w w'"
    by (simp add: err_bad_fd_def expect_error_ok [OF w1(1)] expect_error_ok [OF w2(1)] expect_error_ok [OF w3(1)])
qed

lemma expect_errors_ok:
  assumes "good w" and "\<And>i w'. i \<in> set is \<Longrightarrow> says [] w w' \<Longrightarrow> \<exists>w''. f i w' = Some (Inr (- 1, w'')) \<and> says [] w' w''"
  shows "\<exists>w'. expect_errors os la msg f is fail w = Some (Inr (fail, w')) \<and> says [] w w'"
  using assms
proof (induction "is" arbitrary: w)
  case Nil
  then show ?case using says_refl by simp
next
  case (Cons i "is")
  obtain w1 where w1: "f i w = Some (Inr (- 1, w1))" "says [] w w1" using Cons.prems(2) [of i w] says_refl [OF Cons.prems(1)] by auto
  have "\<exists>w'. expect_errors os la msg f is fail w1 = Some (Inr (fail, w')) \<and> says [] w1 w'"
    using Cons.IH [OF says_good [OF w1(2)]] Cons.prems(2) says_trans [OF w1(2)] by auto
  then show ?case using expect_error_ok [OF w1(1)] says_trans [OF w1(2)] by fastforce
qed

lemma err_unopened_passes:
  assumes "uaddr buf" and "pass_line ''err_unopened'' \<in> L"
  shows "passes la L (err_unopened os la buf) ''err_unopened''"
  unfolding passes_def
proof (intro allI impI)
  fix w assume w: "good w" "lits la L w" and c: "sys_clean (view w)"
  have none: "v_fds (view w') i = None" if "2 \<le> i" "i < 8" "says [] w w'" for i w'
    using c that(1,2) says_view [OF that(3)] by (simp add: sys_clean_def)
  have "\<exists>w''. ece391_close os (of_nat i) w' = Some (Inr (- 1, w'')) \<and> says [] w' w''" if "i \<in> set [0..<8]" "says [] w w'" for i w'
  proof (rule close_refused_says [OF says_good [OF that(2)]])
    show "v_close (of_nat i) (view w') = (- 1, view w')"
      using none [OF _ _ that(2), of i] that(1) of_nat_fd(1) [of i] by (cases "i < 2") (auto simp: v_close_def word_less_nat_alt)
  qed
  from expect_errors_ok [OF w(1), of "[0..<8]" "\<lambda>i. ece391_close os (of_nat i)", OF this] obtain w1 where w1:
    "expect_errors os la ''close unopened or invalid fd fail'' (\<lambda>i. ece391_close os (of_nat i)) [0..<8] 0 w = Some (Inr (0, w1))" "says [] w w1"
    by blast
  have "\<exists>w''. int80 os n (of_nat i) buf 31 w' = Some (Inr (- 1, w'')) \<and> says [] w' w''"
    if "i \<in> set [2..<8]" "n = 3 \<or> n = 4" "says [] w w'" for i w' and n :: u32
    using refused_says [OF says_good [OF that(3)], of buf n "of_nat i" 31] none [OF _ _ that(3), of i] that(1,2) of_nat_fd(1) [of i] assms(1) by auto
  note rw = this
  have ee: "\<exists>w2. expect_errors os la msg (\<lambda>i. int80 os n (of_nat i) buf 31) [2..<8] 0 w1 = Some (Inr (0, w2)) \<and> says [] w w2"
    if q: "says [] w w1" and n: "n = 3 \<or> n = 4" for w1 msg and n :: u32
  proof -
    have "\<exists>w2. expect_errors os la msg (\<lambda>i. int80 os n (of_nat i) buf 31) [2..<8] 0 w1 = Some (Inr (0, w2)) \<and> says [] w1 w2"
    proof (rule expect_errors_ok [OF says_good [OF q]])
      fix i w' assume "i \<in> set [2..<8]" "says [] w1 w'"
      then show "\<exists>w''. int80 os n (of_nat i) buf 31 w' = Some (Inr (- 1, w'')) \<and> says [] w' w''"
        using rw [OF _ n] says_trans [OF q] by simp
    qed
    then obtain w2 where w2: "expect_errors os la msg (\<lambda>i. int80 os n (of_nat i) buf 31) [2..<8] 0 w1 = Some (Inr (0, w2))" "says [] w1 w2"
      by blast
    show ?thesis using w2(1) says_trans [OF q w2(2)] by (intro exI conjI) simp_all
  qed
  obtain w2 where w2: "expect_errors os la ''read from unopened fd fail'' (\<lambda>i. ece391_read os (of_nat i) buf 31) [2..<8] 0 w1 = Some (Inr (0, w2))"
    "says [] w w2" unfolding ece391_read_def using ee [OF w1(2), of 3] by blast
  obtain w3 where w3: "expect_errors os la ''write to unopened fd fail'' (\<lambda>i. ece391_write os (of_nat i) buf 31) [2..<8] 0 w2 = Some (Inr (0, w3))"
    "says [] w w3" unfolding ece391_write_def using ee [OF w2(2), of 4] by blast
  from verdict_passes [OF w3(2) w(2) assms(2)] show "\<exists>w'. err_unopened os la buf w = Some (Inr (0, w')) \<and> says [pass_line ''err_unopened'' @ [0]] w w'"
    by (simp add: err_unopened_def w1(1) w2(1) w3(1) del: upt_rec_numeral)
qed

text \<open>Three tests of the same form: calls that are refused one after the other.\<close>

lemma two_refused_pass:
  assumes "good w" and "lits la L w" and "pass_line name \<in> L"
    and "\<And>w'. says [] w w' \<Longrightarrow> \<exists>w''. f w' = Some (Inr (- 1, w'')) \<and> says [] w' w''"
    and "\<And>w'. says [] w w' \<Longrightarrow> \<exists>w''. g w' = Some (Inr (- 1, w'')) \<and> says [] w' w''"
  shows "\<exists>w'. obind (expect_error os la x 0 (f w)) (\<lambda>(fail, w). obind (expect_error os la y fail (g w)) (\<lambda>(fail, w).
      verdict os la name fail w)) = Some (Inr (0, w')) \<and> says [pass_line name @ [0]] w w'"
proof -
  obtain w1 where w1: "f w = Some (Inr (- 1, w1))" "says [] w w1" using assms(4) [OF says_refl [OF assms(1)]] by blast
  obtain w2 where w2: "g w1 = Some (Inr (- 1, w2))" "says [] w1 w2" using assms(5) [OF w1(2)] by blast
  have "says [] w w2" using says_trans [OF w1(2) w2(2)] by simp
  from verdict_passes [OF this assms(2,3)] show ?thesis by (simp add: expect_error_ok [OF w1(1)] expect_error_ok [OF w2(1)])
qed

lemma three_refused_pass:
  assumes "good w" and "lits la L w" and "pass_line name \<in> L"
    and "\<And>w'. says [] w w' \<Longrightarrow> \<exists>w''. f w' = Some (Inr (- 1, w'')) \<and> says [] w' w''"
    and "\<And>w'. says [] w w' \<Longrightarrow> \<exists>w''. g w' = Some (Inr (- 1, w'')) \<and> says [] w' w''"
    and "\<And>w'. says [] w w' \<Longrightarrow> \<exists>w''. h w' = Some (Inr (- 1, w'')) \<and> says [] w' w''"
  shows "\<exists>w'. obind (expect_error os la x 0 (f w)) (\<lambda>(fail, w). obind (expect_error os la y fail (g w)) (\<lambda>(fail, w).
      obind (expect_error os la z fail (h w)) (\<lambda>(fail, w). verdict os la name fail w))) = Some (Inr (0, w')) \<and>
      says [pass_line name @ [0]] w w'"
proof -
  obtain w1 where w1: "f w = Some (Inr (- 1, w1))" "says [] w w1" using assms(4) [OF says_refl [OF assms(1)]] by blast
  obtain w2 where w2: "g w1 = Some (Inr (- 1, w2))" "says [] w1 w2" using assms(5) [OF w1(2)] by blast
  have q: "says [] w w2" using says_trans [OF w1(2) w2(2)] by simp
  obtain w3 where w3: "h w2 = Some (Inr (- 1, w3))" "says [] w2 w3" using assms(6) [OF q] by blast
  have "says [] w w3" using says_trans [OF q w3(2)] by simp
  from verdict_passes [OF this assms(2,3)] show ?thesis
    by (simp add: expect_error_ok [OF w1(1)] expect_error_ok [OF w2(1)] expect_error_ok [OF w3(1)])
qed

lemma err_open_passes:
  assumes "{lit ''helloo'', lit ''shel'', [], pass_line ''err_open''} \<subseteq> L"
  shows "passes la L (err_open os la) ''err_open''"
  unfolding passes_def
proof (intro allI impI)
  fix w assume w: "good w" "lits la L w" "sys_clean (view w)"
  have o: "\<exists>w''. ece391_open os (la name) w' = Some (Inr (- 1, w'')) \<and> says [] w' w''"
    if "name \<in> {lit ''helloo'', lit ''shel'', []}" "says [] w w'" for name w'
    using that assms w(3) says_view [OF that(2)]
    by (intro open_refused_says [OF says_good [OF that(2)] lits_says [OF w(2) that(2)]]) (auto simp: sys_clean_def lit_def)
  show "\<exists>w'. err_open os la w = Some (Inr (0, w')) \<and> says [pass_line ''err_open'' @ [0]] w w'"
    unfolding err_open_def by (rule three_refused_pass [OF w(1,2)]) (use assms o in auto)
qed

lemma err_vidmap_passes: "pass_line ''err_vidmap'' \<in> L \<Longrightarrow> passes la L (err_vidmap os la) ''err_vidmap''"
  unfolding passes_def err_vidmap_def ece391_vidmap_def
  by (intro allI impI, rule two_refused_pass, assumption+) (intro refused_says says_good, auto)+

lemma err_stdin_out_passes:
  "uaddr buf \<Longrightarrow> pass_line ''err_stdin_out'' \<in> L \<Longrightarrow> passes la L (err_stdin_out os la buf) ''err_stdin_out''"
  unfolding passes_def err_stdin_out_def ece391_write_def ece391_read_def
  by (intro allI impI, rule two_refused_pass, assumption+) (intro refused_says says_good, auto)+

lemma err_syscall_num_passes:
  "pass_line ''err_syscall_num'' \<in> L \<Longrightarrow> passes la L (err_syscall_num os la regs) ''err_syscall_num''"
  unfolding passes_def err_syscall_num_def call_sys_def
  by (cases regs, clarify) (rule three_refused_pass, assumption+, (intro refused_says says_good, auto)+)

text \<open>Opening seven times: the six free descriptors, then none.\<close>

lemma open_lots_fill:
  assumes "good w" and "lits la L w" and "lit ''.'' \<in> L" and "v_disk (view w) (lit ''.'') = Some d"
    and "\<And>i. 2 \<le> i \<Longrightarrow> i < 8 \<Longrightarrow> v_fds (view w) i = (if i < j then Some d else None)" and "2 \<le> j" and "j + n = 9" and "j \<le> 8"
  shows "\<exists>w'. open_lots os la n cnt w = Some (Inr (cnt + 1, w')) \<and> good w' \<and> mem_of os w' page = mem_of os w page \<and>
    view w' = (view w)\<lparr>v_fds := (\<lambda>i. if 2 \<le> i \<and> i < 8 then Some d else v_fds (view w) i)\<rparr>"
  using assms
proof (induction n arbitrary: w j cnt)
  case (Suc n)
  have la: "uaddr (la (lit ''.''))" "cstr (mem_of os w) (page, off (la (lit ''.''))) (lit ''.'')"
    using Suc.prems(2,3) by (simp_all add: has_lits_def)
  obtain w1 where w1: "ece391_open os (la (lit ''.'')) w = Some (Inr (fst (v_open (lit ''.'') (view w)), w1))" "good w1"
    "mem_of os w1 page = mem_of os w page" "view w1 = snd (v_open (lit ''.'') (view w))"
    using call_open [OF Suc.prems(1) la] by (auto simp: ece391_open_def lit_def)
  show ?case
  proof (cases "j = 8")
    case True
    then have "scan (\<lambda>i. v_fds (view w) i = None) 2 8 = 8" by (intro scan_none) (use Suc.prems(5) in auto)
    then have "v_open (lit ''.'') (view w) = (- 1, view w)" by (simp add: v_open_def)
    moreover have "view w = (view w)\<lparr>v_fds := (\<lambda>i. if 2 \<le> i \<and> i < 8 then Some d else v_fds (view w) i)\<rparr>"
    proof -
      have "(\<lambda>i. if 2 \<le> i \<and> i < 8 then Some d else v_fds (view w) i) = v_fds (view w)" using Suc.prems(5) True by (intro ext) simp
      then show ?thesis by simp
    qed
    moreover have "n = 0" using True Suc.prems(7) by simp
    ultimately show ?thesis using w1 by simp
  next
    case False
    then have j: "j < 8" using Suc.prems(7) by simp
    have "scan (\<lambda>i. v_fds (view w) i = None) 2 8 = j" by (rule scan_eqI) (use Suc.prems(5,6) j in auto)
    then have vo: "v_open (lit ''.'') (view w) = (of_nat j, (view w)\<lparr>v_fds := (v_fds (view w))(j := Some d)\<rparr>)"
      using j Suc.prems(4) by (simp add: v_open_def)
    have v1: "view w1 = (view w)\<lparr>v_fds := (v_fds (view w))(j := Some d)\<rparr>" using w1(4) vo by simp
    have "\<exists>w'. open_lots os la n cnt w1 = Some (Inr (cnt + 1, w')) \<and> good w' \<and> mem_of os w' page = mem_of os w1 page \<and>
      view w' = (view w1)\<lparr>v_fds := (\<lambda>i. if 2 \<le> i \<and> i < 8 then Some d else v_fds (view w1) i)\<rparr>"
      using Suc.prems(3-7) j by (intro Suc.IH [OF w1(2) lits_page [OF Suc.prems(2) w1(3)], of "Suc j"]) (auto simp: v1)
    then obtain w' where w': "open_lots os la n cnt w1 = Some (Inr (cnt + 1, w'))" "good w'" "mem_of os w' page = mem_of os w1 page"
      "view w' = (view w1)\<lparr>v_fds := (\<lambda>i. if 2 \<le> i \<and> i < 8 then Some d else v_fds (view w1) i)\<rparr>" by blast
    have "(\<lambda>i. if 2 \<le> i \<and> i < 8 then Some d else v_fds (view w1) i) = (\<lambda>i. if 2 \<le> i \<and> i < 8 then Some d else v_fds (view w) i)"
      using j Suc.prems(6) by (intro ext) (simp add: v1)
    then have "view w' = (view w)\<lparr>v_fds := (\<lambda>i. if 2 \<le> i \<and> i < 8 then Some d else v_fds (view w) i)\<rparr>" unfolding w'(4) by (simp add: v1)
    then show ?thesis using w1(1,3) w'(1-3) vo of_nat_fd(2) [OF j] by auto
  qed
qed simp

lemma close_all_view:
  "good w \<Longrightarrow> set is \<subseteq> {2..<8} \<Longrightarrow> \<exists>w'. close_all os is w = Some (Inr w') \<and> good w' \<and> mem_of os w' page = mem_of os w page \<and>
    view w' = (view w)\<lparr>v_fds := (\<lambda>i. if i \<in> set is then None else v_fds (view w) i)\<rparr>"
proof (induction "is" arbitrary: w)
  case (Cons i "is")
  have i: "2 \<le> i" "i < 8" using Cons.prems(2) by simp_all
  obtain w1 where w1: "ece391_close os (of_nat i) w = Some (Inr (fst (v_close (of_nat i) (view w)), w1))" "good w1"
    "mem_of os w1 page = mem_of os w page" "view w1 = snd (v_close (of_nat i) (view w))"
    using call_close [OF Cons.prems(1), of "of_nat i"] by (auto simp: ece391_close_def)
  have "snd (v_close (of_nat i) (view w)) = (view w)\<lparr>v_fds := (v_fds (view w))(i := None)\<rparr>"
    using i of_nat_fd(1) [OF i(2)] by (auto simp: v_close_def word_less_nat_alt fun_upd_idem)
  then have v1: "view w1 = (view w)\<lparr>v_fds := (v_fds (view w))(i := None)\<rparr>" using w1(4) by simp
  obtain w' where w': "close_all os is w1 = Some (Inr w')" "good w'" "mem_of os w' page = mem_of os w1 page"
    "view w' = (view w1)\<lparr>v_fds := (\<lambda>i. if i \<in> set is then None else v_fds (view w1) i)\<rparr>"
    using Cons.IH [OF w1(2)] Cons.prems(2) by auto
  have "(\<lambda>j. if j \<in> set is then None else v_fds (view w1) j) = (\<lambda>j. if j \<in> set (i # is) then None else v_fds (view w) j)"
    by (intro ext) (simp add: v1)
  then have "view w' = (view w)\<lparr>v_fds := (\<lambda>j. if j \<in> set (i # is) then None else v_fds (view w) j)\<rparr>" unfolding w'(4) by (simp add: v1)
  then show ?case using w1(1,3) w'(1-3) by auto
qed simp

lemma err_open_lots_passes:
  assumes "{lit ''.'', pass_line ''err_open_lots''} \<subseteq> L"
  shows "passes la L (err_open_lots os la) ''err_open_lots''"
  unfolding passes_def
proof (intro allI impI)
  fix w assume w: "good w" "lits la L w" and c: "sys_clean (view w)"
  obtain d where d: "v_disk (view w) (lit ''.'') = Some d" using c by (auto simp: sys_clean_def)
  obtain w1 where w1: "open_lots os la 7 0 w = Some (Inr (1, w1))" "good w1" "mem_of os w1 page = mem_of os w page"
    "view w1 = (view w)\<lparr>v_fds := (\<lambda>i. if 2 \<le> i \<and> i < 8 then Some d else v_fds (view w) i)\<rparr>"
    using open_lots_fill [OF w _ d, of 2 7 0] assms c by (auto simp: sys_clean_def)
  obtain w2 where w2: "close_all os [2..<8] w1 = Some (Inr w2)" "good w2" "mem_of os w2 page = mem_of os w1 page"
    "view w2 = (view w1)\<lparr>v_fds := (\<lambda>i. if i \<in> set [2..<8] then None else v_fds (view w1) i)\<rparr>"
    using close_all_view [OF w1(2), of "[2..<8]"] by auto
  have "(\<lambda>i. if i \<in> set [2..<8] then None else v_fds (view w1) i) = v_fds (view w)"
    using c by (intro ext) (simp add: w1(4) sys_clean_def del: upt_rec_numeral)
  then have "view w2 = view w" unfolding w2(4) by (simp add: w1(4))
  then have "says [] w w2" using w2(2,3) w1(3) by (intro says_Nil) simp_all
  from verdict_passes [OF this w(2), of "''err_open_lots''"] assms show "\<exists>w'. err_open_lots os la w = Some (Inr (0, w')) \<and> says [pass_line ''err_open_lots'' @ [0]] w w'"
    by (simp add: err_open_lots_def w1(1) w2(1) del: upt_rec_numeral open_lots.simps)
qed

lemma sum_tests_pass:
  assumes "list_all2 (passes la L) ts names" and "good w" and "lits la L w" and "sys_clean (view w)"
  shows "\<exists>w'. sum_tests ts fail w = Some (Inr (fail, w')) \<and> says (map (\<lambda>name. pass_line name @ [0]) names) w w'"
  using assms
proof (induction arbitrary: w rule: list_all2_induct)
  case Nil
  then show ?case using says_refl by simp
next
  case (Cons t ts name names)
  obtain w1 where w1: "t w = Some (Inr (0, w1))" "says [pass_line name @ [0]] w w1" using Cons.hyps(1) Cons.prems by (auto simp: passes_def)
  obtain w' where "sum_tests ts fail w1 = Some (Inr (fail, w'))" "says (map (\<lambda>name. pass_line name @ [0]) names) w1 w'"
    using Cons.IH [OF says_good [OF w1(2)] lits_says [OF Cons.prems(2) w1(2)]] Cons.prems(3) says_clean [OF w1(2)] by blast
  then show ?case using w1(1) says_trans [OF w1(2)] by fastforce
qed

end

end
