(* ===== verification/User_Term.thy ===== *)
theory User_Term
  imports User_Tests
begin

text \<open>
  The interactive part of the interface: lines typed at the terminal, the arguments of the command
  line, and commands that name no file; and the programs that use it.
\<close>

lemma line_cstr:
  assumes "m' page = stores m (page, a) (l @ c # zs) page" and "length (l @ c # zs) \<le> 1024" and "0 \<notin> set (l @ [c])"
  shows "cstr (st m' (page, a) (of_nat (length l + 1)) 0) (page, a) (l @ [c])" "cstr (st m' (page, a) (of_nat (length l)) 0) (page, a) l"
proof -
  have ld: "ld m' (page, a) (of_nat i) = (l @ [c]) ! i" if "i \<le> length l" for i
    using assms(1,2) that ld_stores_nth [of i "l @ c # zs" m "(page, a)"] by (simp add: ld_def nth_append)
  have of: "(of_nat i :: u32) = of_nat j \<longleftrightarrow> i = j" if "i \<le> 1024" "j \<le> 1024" for i j using that by (intro of_nat_u32_inj) simp_all
  show "cstr (st m' (page, a) (of_nat (length l + 1)) 0) (page, a) (l @ [c])"
    using assms(2,3) ld of [of _ "length l + 1"] unfolding cstr_def
    by (intro conjI nth_equalityI) (simp_all del: of_nat_add of_nat_Suc)
  have "bytes (st m' (page, a) (of_nat (length l)) 0) (page, a) (length l) = l"
    using assms(2) ld of [of _ "length l"] by (intro nth_equalityI) (simp_all add: nth_append)
  then show "cstr (st m' (page, a) (of_nat (length l)) 0) (page, a) l"
    using assms(2,3) by (simp add: cstr_def)
qed

lemma apart_lits_st:
  assumes "has_lits page off uaddr la L m" and "apart off la L a n" and "k < n" "n < 2 ^ 32"
  shows "has_lits page off uaddr la L (st m (page, off a) (of_nat k) v)"
proof -
  have "ld (st m (page, off a) (of_nat k) v) (page, off (la xs)) (of_nat i) = ld m (page, off (la xs)) (of_nat i)"
    if "xs \<in> L" "i \<le> length xs" for xs i
  proof -
    have "n \<le> unat (off (la xs) + of_nat i - off a)" using assms(2) that by (simp add: apart_def)
    moreover have "unat (of_nat k :: u32) = k" using assms(3,4) by (intro unat_u32_of_nat) simp
    ultimately have "off (la xs) + of_nat i \<noteq> off a + of_nat k" using assms(3) by (metis add_diff_cancel_left' leD)
    then show ?thesis by (simp add: ld_st)
  qed
  note ld = this
  have "cstr (st m (page, off a) (of_nat k) v) (page, off (la xs)) xs = cstr m (page, off (la xs)) xs" if "xs \<in> L" for xs
  proof -
    have "bytes (st m (page, off a) (of_nat k) v) (page, off (la xs)) (length xs) = bytes m (page, off (la xs)) (length xs)"
      using ld [OF that] by (simp add: bytes_def)
    then show ?thesis using ld [OF that, of "length xs"] by (simp add: cstr_def)
  qed
  then show ?thesis using assms(1) by (simp add: has_lits_def)
qed

text \<open>A line that can be typed, and a command of one word that names no file.\<close>

definition plain_line :: "u8 list \<Rightarrow> bool" where
  "plain_line l \<longleftrightarrow> length l < 127 \<and> 0 \<notin> set l \<and> 0x0A \<notin> set l"

definition no_command :: "uview \<Rightarrow> u8 list \<Rightarrow> bool" where
  "no_command v l \<longleftrightarrow> l \<noteq> [] \<and> length l < 20 \<and> 0x20 \<notin> set l \<and> v_disk v l = None"

subsection \<open>The string literals of the programs\<close>

definition cat_lits :: "u8 list list" where
  "cat_lits = map line_lit [''could not read arguments'', ''file not found'', ''file read failed'']"

definition ls_lits :: "u8 list list" where
  "ls_lits = lit ''.'' # map line_lit [''directory open failed'', ''directory entry read failed'']"

definition counter_lits :: "u8 list list" where
  "counter_lits = [0x0A] # map line_lit [''Enter the Test Number: (0): 100, (1): 10000, (2): 100000'', ''Can't read the number from keyboard.'', ''Wrong Choice!'']"

definition hello_lits :: "u8 list list" where
  "hello_lits = [lit ''Hi, what's your name? '', lit ''Hello, '', line_lit ''Can't read name from keyboard.'']"

definition shell_lits :: "u8 list list" where
  "shell_lits = [lit ''391OS> '', lit ''exit''] @ map line_lit [''Starting 391 Shell'', ''read from keyboard failed'',
     ''no such command'', ''program terminated by exception'', ''program terminated abnormally'']"

definition syserr_lits :: "u8 list list" where
  "syserr_lits = [lit ''Choose from tests 1-8. 0 to run all: '', lit ''.'', lit ''helloo'', lit ''shel'', [],
     0x0A # line_lit ''Overall Tests: PASS'', 0x0A # line_lit ''Overall Tests: FAIL'', line_lit ''Can't read test #'',
     lit ''Invalid test number. Choose from tests 1-8 or 0''] @
     map pass_line syserr_names @ map (\<lambda>name. line_lit (name @ '': FAIL'')) syserr_names @
     map line_lit [''read fail'', ''write fail'', ''close fail'', CHR 0x27 # ''helloo'' @ CHR 0x27 # '' fail'',
       CHR 0x27 # ''shel'' @ CHR 0x27 # '' fail'', ''empty string fail'', ''close unopened or invalid fd fail'',
       ''read from unopened fd fail'', ''write to unopened fd fail'', ''Null pointer fail'', ''Kernel pointer fail fail'',
       ''write to stdin fail'', ''read from stdout fail'', ''syscall 0 fail'', ''big num syscall fail'', ''neg num syscall fail'']"

subsection \<open>The laws of the terminal\<close>

text \<open>What one line other than \<open>exit\<close> puts on the screen: the prompt, the echo of the line, and the complaint
  about a command that does not exist.\<close>

definition shell_turn :: "u8 list \<Rightarrow> screen \<Rightarrow> screen" where
  "shell_turn l v =
     (let v = fold screen_put (l @ [0x0A]) (shown (lit ''391OS> '' @ [0]) v)
      in if l = [] then v else shown (line_lit ''no such command'' @ [0]) v)"

locale term_os = file_os os good page off uaddr view
  for os :: "'w os" and good and page and off and uaddr and view +
  assumes read_line: "good w \<Longrightarrow> uaddr a \<Longrightarrow> v_keys (view w) = l # ls \<Longrightarrow> n \<in> {127, 1023} \<Longrightarrow>
      \<exists>w' zs. int80 os 3 0 a n w = Some (Inr (of_nat (length l + 1), w')) \<and> good w' \<and> plain_line l \<and>
        length (l @ 0x0A # zs) \<le> 1024 \<and> mem_of os w' page = stores (mem_of os w) (page, off a) (l @ 0x0A # zs) page \<and>
        view w' = (view w)\<lparr>v_screen := fold screen_put (l @ [0x0A]) (v_screen (view w)), v_keys := ls\<rparr>"
    and get_arg: "good w \<Longrightarrow> uaddr a \<Longrightarrow> v_arg (view w) = Some x \<Longrightarrow>
      \<exists>w' ys. int80 os 7 a 1024 0 w = Some (Inr (0, w')) \<and> good w' \<and> length ys \<le> 1024 \<and>
        mem_of os w' page = stores (mem_of os w) (page, off a) ys page \<and> cstr (mem_of os w') (page, off a) x \<and>
        length x \<le> 30 \<and> view w' = view w"
    and no_arg: "good w \<Longrightarrow> uaddr a \<Longrightarrow> v_arg (view w) = None \<Longrightarrow>
      \<exists>w' ys. int80 os 7 a 1024 0 w = Some (Inr (- 1, w')) \<and> good w' \<and> length ys \<le> 1024 \<and>
        mem_of os w' page = stores (mem_of os w) (page, off a) ys page \<and> view w' = view w"
    and exec_missing: "good w \<Longrightarrow> uaddr a \<Longrightarrow> cstr (mem_of os w) (page, off a) x \<Longrightarrow> plain_line x \<Longrightarrow> no_command (view w) x \<Longrightarrow>
      \<exists>w' y. int80 os 2 a 0 0 w = Some (Inr (- 1, w')) \<and> good w' \<and> mem_of os w' page = mem_of os w page \<and>
        view w' = (view w)\<lparr>v_arg := y\<rparr>"
begin

text \<open>A line is read and terminated after its line end.\<close>

lemma read_terminated:
  assumes "good w" and "uaddr buf" and "v_keys (view w) = l # ls" and "lits la L w" and "apart off la L buf 1024"
  obtains w1 where "ece391_read os 0 buf 1023 w = Some (Inr (of_nat (length l + 1), w1))" and "good w1" and "plain_line l"
    and "(of_nat (length l + 1) :: u32) \<noteq> - 1"
    and "view w1 = (view w)\<lparr>v_screen := fold screen_put (l @ [0x0A]) (v_screen (view w)), v_keys := ls\<rparr>"
    and "lits la L w1" and "\<And>k c. k < 1024 \<Longrightarrow> lits la L (ust os buf (of_nat k) c w1)"
    and "cstr (mem_of os (ust os buf (of_nat (length l + 1)) 0 w1)) (page, off buf) (l @ [0x0A])"
    and "cstr (mem_of os (ust os buf (of_nat (length l)) 0 w1)) (page, off buf) l"
    and "uld os w1 buf (of_nat (length l)) = 0x0A"
proof -
  obtain w1 zs where w1: "int80 os 3 0 buf 1023 w = Some (Inr (of_nat (length l + 1), w1))" "good w1" "plain_line l"
    "length (l @ 0x0A # zs) \<le> 1024" "mem_of os w1 page = stores (mem_of os w) (page, off buf) (l @ 0x0A # zs) page"
    "view w1 = (view w)\<lparr>v_screen := fold screen_put (l @ [0x0A]) (v_screen (view w)), v_keys := ls\<rparr>"
    using read_line [OF assms(1-3), of 1023] by auto
  have nz: "0 \<notin> set (l @ [0x0A])" using w1(3) by (simp add: plain_line_def)
  have li: "lits la L w1" by (rule apart_lits [OF assms(4,5) w1(4)]) (rule w1(5))
  note u = ust_page(2) [OF w1(2) assms(2)]
  show ?thesis
  proof (rule that [OF _ w1(2,3) _ w1(6) li])
    show "ece391_read os 0 buf 1023 w = Some (Inr (of_nat (length l + 1), w1))" using w1(1) by (simp add: ece391_read_def)
    show "(of_nat (length l + 1) :: u32) \<noteq> - 1" by (rule small_not_minus_one) (use w1(3) in \<open>simp add: plain_line_def\<close>)
    show "lits la L (ust os buf (of_nat k) c w1)" if "k < 1024" for k c
      using apart_lits_st [OF li assms(5) that] by (simp add: u)
    show "cstr (mem_of os (ust os buf (of_nat (length l + 1)) 0 w1)) (page, off buf) (l @ [0x0A])"
      unfolding u by (rule line_cstr(1), rule w1(5), rule w1(4), rule nz)
    show "cstr (mem_of os (ust os buf (of_nat (length l)) 0 w1)) (page, off buf) l"
      unfolding u by (rule line_cstr(2), rule w1(5), rule w1(4), rule nz)
    show "uld os w1 buf (of_nat (length l)) = 0x0A"
      using w1(4,5) addr [OF w1(2) assms(2)] ld_stores_nth [of "length l" "l @ 0x0A # zs" "mem_of os w" "(page, off buf)"]
      by (simp add: uld_def ld_def)
  qed
qed

text \<open>A prompt, then a line.\<close>

lemma prompt_line:
  assumes "good w" and "uaddr buf" and "v_keys (view w) = l # ls" and "lits la L w" and "apart off la L buf 1024" and "p \<in> L"
  shows "\<exists>w0 w1 cnt. puts_lit os la p w = Some (Inr w0) \<and> ece391_read os 0 buf 1023 w0 = Some (Inr (cnt, w1)) \<and>
    cnt = of_nat (length l + 1) \<and> good w1 \<and> plain_line l \<and> cnt \<noteq> - 1 \<and>
    view w1 = (view w)\<lparr>v_screen := fold screen_put (l @ [0x0A]) (shown (p @ [0]) (v_screen (view w))), v_keys := ls\<rparr> \<and>
    (\<forall>k c. k < 1024 \<longrightarrow> lits la L (ust os buf (of_nat k) c w1)) \<and>
    cstr (mem_of os (ust os buf cnt 0 w1)) (page, off buf) (l @ [0x0A]) \<and>
    cstr (mem_of os (ust os buf (of_nat (length l)) 0 w1)) (page, off buf) l \<and> uld os w1 buf (of_nat (length l)) = 0x0A"
proof -
  obtain w0 where w0: "puts_lit os la p w = Some (Inr w0)" "says [p @ [0]] w w0"
    using puts_lit_says [OF assms(1,4,6)] by blast
  have v0: "view w0 = (view w)\<lparr>v_screen := shown (p @ [0]) (v_screen (view w))\<rparr>" using w0(2) by (simp add: says_def)
  have k0: "v_keys (view w0) = l # ls" using assms(3) v0 by simp
  show ?thesis
  proof (rule read_terminated [OF says_good [OF w0(2)] assms(2) k0 lits_says [OF assms(4) w0(2)] assms(5)], goal_cases)
    case (1 w1)
    have "view w1 = (view w)\<lparr>v_screen := fold screen_put (l @ [0x0A]) (shown (p @ [0]) (v_screen (view w))), v_keys := ls\<rparr>"
      unfolding 1(5) v0 by simp
    then show ?case using w0(1) 1(1-4,7-10) by blast
  qed
qed

subsection \<open>hello, counter\<close>

lemma hello_greets:
  assumes "good w" and "uaddr buf" and "v_keys (view w) = l # ls" and "lits la L w" and "apart off la L buf 1024"
    and "{lit ''Hi, what's your name? '', lit ''Hello, ''} \<subseteq> L"
  shows "\<exists>w'. hello_main os la buf w = Some (Inr (0, w')) \<and> good w' \<and>
    view w' = (view w)\<lparr>v_screen := fold shown [lit ''Hello, '' @ [0], l @ [0x0A, 0]] (fold screen_put (l @ [0x0A])
      (shown (lit ''Hi, what's your name? '' @ [0]) (v_screen (view w)))), v_keys := ls\<rparr>"
proof -
  obtain w0 w1 cnt where w1: "puts_lit os la (lit ''Hi, what's your name? '') w = Some (Inr w0)"
    "ece391_read os 0 buf 1023 w0 = Some (Inr (cnt, w1))" "good w1" "plain_line l" "cnt \<noteq> - 1"
    "view w1 = (view w)\<lparr>v_screen := fold screen_put (l @ [0x0A]) (shown (lit ''Hi, what's your name? '' @ [0]) (v_screen (view w))), v_keys := ls\<rparr>"
    "\<And>k c. k < 1024 \<Longrightarrow> lits la L (ust os buf (of_nat k) c w1)"
    "cstr (mem_of os (ust os buf cnt 0 w1)) (page, off buf) (l @ [0x0A])" "cnt = of_nat (length l + 1)"
    using prompt_line [OF assms(1-5)] assms(6) by blast
  let ?w = "ust os buf cnt 0 w1"
  note u = ust_page [OF w1(3) assms(2), of cnt 0]
  have ll: "length l < 127" using w1(4) by (simp add: plain_line_def)
  obtain w2 where w2: "puts_lit os la (lit ''Hello, '') ?w = Some (Inr w2)" "says [lit ''Hello, '' @ [0]] ?w w2"
    using puts_lit_says [OF u(1), of la L] w1(7) [of "length l + 1" 0, folded w1(9)] ll assms(6) by auto
  have "cstr (mem_of os w2) (page, off buf) (l @ [0x0A])" using w1(8) cstr_page [of w2 ?w] w2(2) by (simp add: says_def)
  then obtain w3 where w3: "ece391_fdputs os 1 buf w2 = Some (Inr w3)" "says [(l @ [0x0A]) @ [0]] w2 w3"
    using fdputs_says [OF says_good [OF w2(2)] assms(2), of "l @ [0x0A]"] ll by auto
  have "hello_main os la buf w = Some (Inr (0, w3))"
    using w1(5) by (simp add: hello_main_def w1(1,2) w2(1) w3(1) Let_def)
  moreover have "says [lit ''Hello, '' @ [0], l @ [0x0A, 0]] ?w w3" using says_trans [OF w2(2) w3(2)] by simp
  ultimately show ?thesis using w1(6) u(3) by (simp add: says_def)
qed

text \<open>The line a program reads keeps its line end, which the counter does not expect: it takes no number at all.\<close>

lemma counter_refuses:
  assumes "good w" and "uaddr buf" and "v_keys (view w) = l # ls" and "lits la L w" and "apart off la L buf 1024"
    and "{line_lit ''Enter the Test Number: (0): 100, (1): 10000, (2): 100000'', line_lit ''Wrong Choice!''} \<subseteq> L"
  shows "\<exists>w'. counter_main os la buf w = Some (Inr (0, w')) \<and> good w' \<and>
    view w' = (view w)\<lparr>v_screen := shown (line_lit ''Wrong Choice!'' @ [0]) (fold screen_put (l @ [0x0A])
      (shown (line_lit ''Enter the Test Number: (0): 100, (1): 10000, (2): 100000'' @ [0]) (v_screen (view w)))), v_keys := ls\<rparr>"
proof -
  let ?p = "line_lit ''Enter the Test Number: (0): 100, (1): 10000, (2): 100000''"
  obtain w0 w1 cnt where w1: "puts_lit os la ?p w = Some (Inr w0)"
    "ece391_read os 0 buf 1023 w0 = Some (Inr (cnt, w1))" "good w1" "plain_line l" "cnt \<noteq> - 1"
    "view w1 = (view w)\<lparr>v_screen := fold screen_put (l @ [0x0A]) (shown (?p @ [0]) (v_screen (view w))), v_keys := ls\<rparr>"
    "\<And>k c. k < 1024 \<Longrightarrow> lits la L (ust os buf (of_nat k) c w1)"
    "cstr (mem_of os (ust os buf cnt 0 w1)) (page, off buf) (l @ [0x0A])" "cnt = of_nat (length l + 1)"
    using prompt_line [OF assms(1-5)] assms(6) by blast
  let ?w = "ust os buf cnt 0 w1"
  note u = ust_page [OF w1(3) assms(2), of cnt 0]
  have ll: "length l < 127" using w1(4) by (simp add: plain_line_def)
  obtain w2 where w2: "puts_return os la (line_lit ''Wrong Choice!'') 0 ?w = Some (Inr (0, w2))" "says [line_lit ''Wrong Choice!'' @ [0]] ?w w2"
    using puts_return_says [OF u(1), of la L] w1(7) [of "length l + 1" 0, folded w1(9)] ll assms(6) by auto
  have at: "at_addr os ?w buf = (page, off buf)" by (rule addr [OF u(1) assms(2)])
  have n: "ece391_strlen (mem_of os ?w) (at_addr os ?w buf) = Some cnt"
    unfolding at using ece391_strlen_cstr [OF w1(8)] by (simp add: w1(9))
  have un: "unat cnt = length l + 1" unfolding w1(9) using ll by (intro unat_u32_of_nat) simp
  have "cnt > 1 \<or> cnt = 1 \<and> uld os ?w buf 0 < 0x30"
  proof (cases l)
    case Nil
    then have "ld (mem_of os ?w) (page, off buf) 0 = 0x0A" "cnt = 1"
      using cstr_tail [of "mem_of os ?w" "(page, off buf)" "0x0A" "[]"] w1(8,9) by auto
    then show ?thesis unfolding uld_def at by simp
  next
    case (Cons x xs)
    then show ?thesis using un by (simp add: word_less_nat_alt)
  qed
  then have "counter_main os la buf w = Some (Inr (0, w2))"
    using w1(5) w2(1) by (auto simp: counter_main_def w1(1,2) n Let_def)
  then show ?thesis using w1(6) u(3) w2(2) by (simp add: says_def)
qed

subsection \<open>cat and ls\<close>

lemma cat_prints:
  assumes "good w" and "uaddr buf" and "v_arg (view w) = Some name" and "v_disk (view w) name = Some (Reads xs)" "length xs < 2 ^ 31"
    and "2 \<le> i" "i < 8" "v_fds (view w) i = None" "\<And>j. 2 \<le> j \<Longrightarrow> j < i \<Longrightarrow> v_fds (view w) j \<noteq> None"
  shows "\<exists>w' es. cat_main os la buf w = Some (Inr (0, w')) \<and> good w' \<and> length es = length (chunks 1024 xs) \<and>
    view w' = (view w)\<lparr>v_screen := fold shown (map2 (\<lambda>c e. c @ [e]) (chunks 1024 xs) es) (v_screen (view w)),
      v_fds := (v_fds (view w))(i := Some (Reads []))\<rparr>"
proof -
  obtain w1 where w1: "int80 os 7 buf 1024 0 w = Some (Inr (0, w1))" "good w1" "cstr (mem_of os w1) (page, off buf) name"
    "length name \<le> 30" "view w1 = view w" using get_arg [OF assms(1-3)] by blast
  have vo: "v_open name (view w1) = (of_nat i, (view w)\<lparr>v_fds := (v_fds (view w))(i := Some (Reads xs))\<rparr>)"
    unfolding w1(5) by (rule v_open_found [OF assms(4,6-9)])
  obtain w2 where w2: "int80 os 5 buf 0 0 w1 = Some (Inr (of_nat i, w2))" "good w2"
    "view w2 = (view w)\<lparr>v_fds := (v_fds (view w))(i := Some (Reads xs))\<rparr>"
    using call_open [OF w1(2) assms(2) w1(3)] w1(4) unfolding vo by auto
  obtain w' es where w': "cat_loop os la buf (of_nat i) w2 = Some (Inr (0, w'))" "good w'" "length es = length (chunks 1024 xs)"
    "view w' = (view w2)\<lparr>v_screen := fold shown (map2 (\<lambda>c e. c @ [e]) (chunks 1024 xs) es) (v_screen (view w2)),
      v_fds := (v_fds (view w2))(i := Some (Reads []))\<rparr>"
    using cat_loop_prints [OF w2(2) assms(2,6,7) _ assms(5), of la] w2(3) by auto
  have "cat_main os la buf w = Some (Inr (0, w'))"
    using w1(1) w2(1) w'(1) of_nat_fd(2) [OF assms(7)] by (auto simp: cat_main_def ece391_getargs_def ece391_open_def)
  moreover have "view w' = (view w)\<lparr>v_screen := fold shown (map2 (\<lambda>c e. c @ [e]) (chunks 1024 xs) es) (v_screen (view w)),
      v_fds := (v_fds (view w))(i := Some (Reads []))\<rparr>" unfolding w'(4) w2(3) by simp
  ultimately show ?thesis using w'(2,3) by blast
qed

lemma cat_complains:
  assumes "good w" and "uaddr buf" and "lits la L w" and "apart off la L buf 1024"
    and "{line_lit ''could not read arguments'', line_lit ''file not found''} \<subseteq> L"
    and "v_arg (view w) = None \<or> v_arg (view w) = Some name \<and> v_disk (view w) name = None"
  shows "\<exists>w'. cat_main os la buf w = Some (Inr (if v_arg (view w) = None then 3 else 2, w')) \<and> good w' \<and>
    view w' = (view w)\<lparr>v_screen := shown ((if v_arg (view w) = None then line_lit ''could not read arguments''
      else line_lit ''file not found'') @ [0]) (v_screen (view w))\<rparr>"
proof (cases "v_arg (view w)")
  case None
  obtain w1 ys where w1: "int80 os 7 buf 1024 0 w = Some (Inr (- 1, w1))" "good w1" "length ys \<le> 1024"
    "mem_of os w1 page = stores (mem_of os w) (page, off buf) ys page" "view w1 = view w" using no_arg [OF assms(1,2) None] by blast
  have "lits la L w1" by (rule apart_lits [OF assms(3,4) w1(3)]) (rule w1(4))
  from puts_return_says [OF w1(2) this, of "line_lit ''could not read arguments''" 3] obtain w2 where
    "puts_return os la (line_lit ''could not read arguments'') 3 w1 = Some (Inr (3, w2))" "says [line_lit ''could not read arguments'' @ [0]] w1 w2"
    using assms(5) by auto
  then show ?thesis using w1(1,5) None by (simp add: cat_main_def ece391_getargs_def says_def)
next
  case (Some x)
  then have x: "v_arg (view w) = Some name" "v_disk (view w) name = None" using assms(6) by auto
  obtain w1 ys where w1: "int80 os 7 buf 1024 0 w = Some (Inr (0, w1))" "good w1" "length ys \<le> 1024"
    "mem_of os w1 page = stores (mem_of os w) (page, off buf) ys page" "cstr (mem_of os w1) (page, off buf) name" "length name \<le> 30"
    "view w1 = view w" using get_arg [OF assms(1,2) x(1)] by blast
  have li: "lits la L w1" by (rule apart_lits [OF assms(3,4) w1(3)]) (rule w1(4))
  have vo: "v_open name (view w1) = (- 1, view w)" using x(2) w1(7) by (simp add: v_open_def Let_def)
  obtain w2 where w2: "int80 os 5 buf 0 0 w1 = Some (Inr (- 1, w2))" "good w2" "mem_of os w2 page = mem_of os w1 page" "view w2 = view w"
    using call_open [OF w1(2) assms(2) w1(5)] w1(6) unfolding vo by auto
  from puts_return_says [OF w2(2) lits_page [OF li w2(3)], of "line_lit ''file not found''" 2] obtain w3 where
    "puts_return os la (line_lit ''file not found'') 2 w2 = Some (Inr (2, w3))" "says [line_lit ''file not found'' @ [0]] w2 w3"
    using assms(5) by auto
  then show ?thesis using w1(1) w2(1,4) Some by (simp add: cat_main_def ece391_getargs_def ece391_open_def says_def)
qed

lemma ls_prints:
  assumes "good w" and "uaddr buf" and "lits la L w" and "lit ''.'' \<in> L" and "v_disk (view w) (lit ''.'') = Some Lists"
    and "2 \<le> i" "i < 8" "v_fds (view w) i = None" "\<And>j. 2 \<le> j \<Longrightarrow> j < i \<Longrightarrow> v_fds (view w) j \<noteq> None"
    and "v_dir (view w) = ns"
  shows "\<exists>w' es. ls_main os la buf w = Some (Inr (0, w')) \<and> good w' \<and> length es = length ns \<and>
    view w' = (view w)\<lparr>v_screen := fold shown (map2 (\<lambda>nm e. pad32 nm @ [0x0A, e]) ns es) (v_screen (view w)),
      v_fds := (v_fds (view w))(i := Some Lists), v_dir := v_names (view w)\<rparr>"
proof -
  have la: "uaddr (la (lit ''.''))" "cstr (mem_of os w) (page, off (la (lit ''.''))) (lit ''.'')"
    using assms(3,4) by (simp_all add: has_lits_def)
  have vo: "v_open (lit ''.'') (view w) = (of_nat i, (view w)\<lparr>v_fds := (v_fds (view w))(i := Some Lists)\<rparr>)"
    by (rule v_open_found [OF assms(5-9)])
  obtain w1 where w1: "int80 os 5 (la (lit ''.'')) 0 0 w = Some (Inr (of_nat i, w1))" "good w1"
    "view w1 = (view w)\<lparr>v_fds := (v_fds (view w))(i := Some Lists)\<rparr>"
    using call_open [OF assms(1) la] unfolding vo by (auto simp: lit_def)
  obtain w' es where w': "ls_loop os la buf (of_nat i) w1 = Some (Inr (0, w'))" "good w'" "length es = length ns"
    "view w' = (view w1)\<lparr>v_screen := fold shown (map2 (\<lambda>nm e. pad32 nm @ [0x0A, e]) ns es) (v_screen (view w1)),
      v_dir := v_names (view w1)\<rparr>"
    using ls_loop_prints [OF w1(2) assms(2,6,7), of ns la] assms(10) w1(3) by auto
  have "ls_main os la buf w = Some (Inr (0, w'))"
    using w1(1) w'(1) of_nat_fd(2) [OF assms(7)] by (auto simp: ls_main_def ece391_open_def)
  moreover have "view w' = (view w)\<lparr>v_screen := fold shown (map2 (\<lambda>nm e. pad32 nm @ [0x0A, e]) ns es) (v_screen (view w)),
      v_fds := (v_fds (view w))(i := Some Lists), v_dir := v_names (view w)\<rparr>" unfolding w'(4) w1(3) by simp
  ultimately show ?thesis using w'(2,3) by blast
qed

subsection \<open>The shell\<close>

text \<open>The shell reads a line and has it, without its line end, in the buffer.\<close>

lemma shell_reads:
  assumes "good w" and "uaddr buf" and "v_keys (view w) = l # ls" and "lits la L w" and "apart off la L buf 1024"
    and "{lit ''391OS> '', lit ''exit''} \<subseteq> L"
  obtains w1 where "good w1" and "plain_line l" and "lits la L w1"
    and "view w1 = (view w)\<lparr>v_screen := fold screen_put (l @ [0x0A]) (shown (lit ''391OS> '' @ [0]) (v_screen (view w))), v_keys := ls\<rparr>"
    and "cstr (mem_of os w1) (page, off buf) l"
    and "shell_loop os la buf w =
      (if l = lit ''exit'' then Some (Inr (0, w1))
       else if l = [] then shell_loop os la buf w1
       else obind (ece391_execute os buf w1) (\<lambda>(rval, w). obind (shell_report os la rval w) (\<lambda>w. shell_loop os la buf w)))"
proof -
  obtain w0 w1 cnt where w1: "puts_lit os la (lit ''391OS> '') w = Some (Inr w0)"
    "ece391_read os 0 buf 1023 w0 = Some (Inr (cnt, w1))" "good w1" "plain_line l" "cnt \<noteq> - 1"
    "view w1 = (view w)\<lparr>v_screen := fold screen_put (l @ [0x0A]) (shown (lit ''391OS> '' @ [0]) (v_screen (view w))), v_keys := ls\<rparr>"
    "\<And>k c. k < 1024 \<Longrightarrow> lits la L (ust os buf (of_nat k) c w1)"
    "cstr (mem_of os (ust os buf (of_nat (length l)) 0 w1)) (page, off buf) l" "uld os w1 buf (of_nat (length l)) = 0x0A"
    "cnt = of_nat (length l + 1)"
    using prompt_line [OF assms(1-5)] assms(6) by blast
  let ?w = "ust os buf (of_nat (length l)) 0 w1"
  note u = ust_page [OF w1(3) assms(2), of "of_nat (length l)" 0]
  have ll: "length l < 127" using w1(4) by (simp add: plain_line_def)
  have li: "lits la L ?w" using w1(7) ll by simp
  have "unat cnt = length l + 1" unfolding w1(10) using ll by (intro unat_u32_of_nat) simp
  then have "0 < sint cnt" using ll sint_u32_small [of cnt] by simp
  then have cnt: "(if 0 < sint cnt \<and> uld os w1 buf (cnt - 1) = 0x0A then cnt - 1 else cnt) = of_nat (length l)"
    using w1(9,10) by simp
  have lx: "uaddr (la (lit ''exit''))" "cstr (mem_of os ?w) (page, off (la (lit ''exit''))) (lit ''exit'')"
    using li assms(6) by (simp_all add: has_lits_def)
  obtain d where d: "ece391_strcmp (mem_of os ?w) (at_addr os ?w buf) (at_addr os ?w (la (lit ''exit''))) = Some d"
    "d = 0 \<longleftrightarrow> l = lit ''exit''"
    using ece391_strcmp_eq [OF w1(8) lx(2)] unfolding addr [OF u(1) assms(2)] addr [OF u(1) lx(1)] by blast
  have z: "0 = uld os ?w buf 0 \<longleftrightarrow> l = []"
    using w1(8) cstr_nil [of "mem_of os ?w" "(page, off buf)"] cstr_tail [of "mem_of os ?w" "(page, off buf)"]
    unfolding uld_def addr [OF u(1) assms(2)] by (cases l) auto
  have "shell_loop os la buf w =
      (if l = lit ''exit'' then Some (Inr (0, ?w))
       else if l = [] then shell_loop os la buf ?w
       else obind (ece391_execute os buf ?w) (\<lambda>(rval, w). obind (shell_report os la rval w) (\<lambda>w. shell_loop os la buf w)))"
    using w1(5) d by (subst shell_loop.simps) (auto simp: w1(1,2) cnt z Let_def)
  then show ?thesis using that [OF u(1) w1(4) li _ w1(8)] u(3) w1(6) by simp
qed

lemma shell_session:
  assumes "good w" and "uaddr buf" and "v_keys (view w) = cmds @ lit ''exit'' # ls" and "lits la L w" and "apart off la L buf 1024"
    and "{lit ''391OS> '', lit ''exit'', line_lit ''no such command''} \<subseteq> L"
    and "\<And>l. l \<in> set cmds \<Longrightarrow> l = [] \<or> no_command (view w) l \<and> l \<noteq> lit ''exit''"
  shows "\<exists>w' y. shell_loop os la buf w = Some (Inr (0, w')) \<and> good w' \<and>
    view w' = (view w)\<lparr>v_screen := fold screen_put (lit ''exit'' @ [0x0A]) (shown (lit ''391OS> '' @ [0]) (fold shell_turn cmds (v_screen (view w)))),
      v_keys := ls, v_arg := y\<rparr>"
  using assms(1,3,4,7)
proof (induction cmds arbitrary: w)
  case Nil
  have k: "v_keys (view w) = lit ''exit'' # ls" using Nil.prems(2) by simp
  show ?case
  proof (rule shell_reads [OF Nil.prems(1) assms(2) k Nil.prems(3) assms(5)], goal_cases)
    case 1
    then show ?case using assms(6) by simp
  next
    case (2 w1)
    then show ?case by (intro exI [of _ w1] exI [of _ "v_arg (view w)"]) simp
  qed
next
  case (Cons l cmds)
  have k: "v_keys (view w) = l # (cmds @ lit ''exit'' # ls)" using Cons.prems(2) by simp
  have sub: "{lit ''391OS> '', lit ''exit''} \<subseteq> L" using assms(6) by simp
  obtain w1 where w1: "good w1" "plain_line l" "lits la L w1"
    "view w1 = (view w)\<lparr>v_screen := fold screen_put (l @ [0x0A]) (shown (lit ''391OS> '' @ [0]) (v_screen (view w))), v_keys := cmds @ lit ''exit'' # ls\<rparr>"
    "cstr (mem_of os w1) (page, off buf) l"
    "shell_loop os la buf w =
      (if l = lit ''exit'' then Some (Inr (0, w1))
       else if l = [] then shell_loop os la buf w1
       else obind (ece391_execute os buf w1) (\<lambda>(rval, w). obind (shell_report os la rval w) (\<lambda>w. shell_loop os la buf w)))"
    by (rule shell_reads [OF Cons.prems(1) assms(2) k Cons.prems(3) assms(5) sub])
  have "\<exists>w2 y. shell_loop os la buf w = shell_loop os la buf w2 \<and> good w2 \<and> lits la L w2 \<and>
    view w2 = (view w)\<lparr>v_screen := shell_turn l (v_screen (view w)), v_keys := cmds @ lit ''exit'' # ls, v_arg := y\<rparr>"
  proof (cases "l = []")
    case True
    then show ?thesis using w1(1,3,4,6)
      by (intro exI [of _ w1] exI [of _ "v_arg (view w)"]) (simp add: shell_turn_def lit_def)
  next
    case False
    then have nc: "no_command (view w) l" "l \<noteq> lit ''exit''" using Cons.prems(4) [of l] by auto
    have nc1: "no_command (view w1) l" using nc(1) w1(4) by (simp add: no_command_def)
    obtain w2 y where w2: "int80 os 2 buf 0 0 w1 = Some (Inr (- 1, w2))" "good w2" "mem_of os w2 page = mem_of os w1 page"
      "view w2 = (view w1)\<lparr>v_arg := y\<rparr>" using exec_missing [OF w1(1) assms(2) w1(5,2) nc1] by blast
    obtain w3 where w3: "puts_lit os la (line_lit ''no such command'') w2 = Some (Inr w3)" "says [line_lit ''no such command'' @ [0]] w2 w3"
      using puts_lit_says [OF w2(2) lits_page [OF w1(3) w2(3)]] assms(6) by auto
    have "shell_loop os la buf w = shell_loop os la buf w3"
      using w1(6) nc(2) False w2(1) w3(1) by (simp add: ece391_execute_def shell_report_def)
    moreover have "view w3 = (view w)\<lparr>v_screen := shell_turn l (v_screen (view w)), v_keys := cmds @ lit ''exit'' # ls, v_arg := y\<rparr>"
      using w3(2) w2(4) w1(4) False by (simp add: says_def shell_turn_def)
    ultimately show ?thesis using says_good [OF w3(2)] lits_says [OF lits_page [OF w1(3) w2(3)] w3(2)] by blast
  qed
  then obtain w2 y where w2: "shell_loop os la buf w = shell_loop os la buf w2" "good w2" "lits la L w2"
    "view w2 = (view w)\<lparr>v_screen := shell_turn l (v_screen (view w)), v_keys := cmds @ lit ''exit'' # ls, v_arg := y\<rparr>" by blast
  have k2: "v_keys (view w2) = cmds @ lit ''exit'' # ls" using w2(4) by simp
  have n2: "l' = [] \<or> no_command (view w2) l' \<and> l' \<noteq> lit ''exit''" if "l' \<in> set cmds" for l'
    using Cons.prems(4) [of l'] that w2(4) by (simp add: no_command_def)
  obtain w' y' where "shell_loop os la buf w2 = Some (Inr (0, w'))" "good w'"
    "view w' = (view w2)\<lparr>v_screen := fold screen_put (lit ''exit'' @ [0x0A]) (shown (lit ''391OS> '' @ [0]) (fold shell_turn cmds (v_screen (view w2)))),
      v_keys := ls, v_arg := y'\<rparr>" using Cons.IH [OF w2(2) k2 w2(3) n2] by blast
  then show ?case using w2(1,4) by (intro exI [of _ w'] exI [of _ y']) simp
qed

text \<open>The whole program.\<close>

lemma shell_main_session:
  assumes "good w" and "uaddr buf" and "v_keys (view w) = cmds @ lit ''exit'' # ls" and "lits la L w" and "apart off la L buf 1024"
    and "{line_lit ''Starting 391 Shell'', lit ''391OS> '', lit ''exit'', line_lit ''no such command''} \<subseteq> L"
    and "\<And>l. l \<in> set cmds \<Longrightarrow> l = [] \<or> no_command (view w) l \<and> l \<noteq> lit ''exit''"
  shows "\<exists>w' y. shell_main os la buf w = Some (Inr (0, w')) \<and> good w' \<and>
    view w' = (view w)\<lparr>v_screen := fold screen_put (lit ''exit'' @ [0x0A]) (shown (lit ''391OS> '' @ [0])
        (fold shell_turn cmds (shown (line_lit ''Starting 391 Shell'' @ [0]) (v_screen (view w))))),
      v_keys := ls, v_arg := y\<rparr>"
proof -
  obtain w0 where w0: "puts_lit os la (line_lit ''Starting 391 Shell'') w = Some (Inr w0)" "says [line_lit ''Starting 391 Shell'' @ [0]] w w0"
    using puts_lit_says [OF assms(1,4)] assms(6) by blast
  have v0: "view w0 = (view w)\<lparr>v_screen := shown (line_lit ''Starting 391 Shell'' @ [0]) (v_screen (view w))\<rparr>" using w0(2) by (simp add: says_def)
  have k0: "v_keys (view w0) = cmds @ lit ''exit'' # ls" using assms(3) v0 by simp
  have n0: "l = [] \<or> no_command (view w0) l \<and> l \<noteq> lit ''exit''" if "l \<in> set cmds" for l
    using assms(7) [OF that] v0 by (simp add: no_command_def)
  have sub: "{lit ''391OS> '', lit ''exit'', line_lit ''no such command''} \<subseteq> L" using assms(6) by simp
  obtain w' y where "shell_loop os la buf w0 = Some (Inr (0, w'))" "good w'"
    "view w' = (view w0)\<lparr>v_screen := fold screen_put (lit ''exit'' @ [0x0A]) (shown (lit ''391OS> '' @ [0]) (fold shell_turn cmds (v_screen (view w0)))),
      v_keys := ls, v_arg := y\<rparr>"
    using shell_session [OF says_good [OF w0(2)] assms(2) k0 lits_says [OF assms(4) w0(2)] assms(5) sub n0] by blast
  then show ?thesis using w0(1) v0 by (intro exI [of _ w'] exI [of _ y]) (simp add: shell_main_def)
qed

subsection \<open>syserr\<close>

lemma syserr_tests_pass:
  assumes "uaddr buf" and "{lit ''.'', lit ''helloo'', lit ''shel'', []} \<subseteq> L" and "pass_line ` set syserr_names \<subseteq> L"
  shows "list_all2 (passes la L) (syserr_tests os la regs buf) syserr_names"
proof -
  have pl: "pass_line name \<in> L" if "name \<in> set syserr_names" for name using assms(3) that by blast
  show ?thesis
    unfolding syserr_tests_def syserr_names_def err_neg_fd_def [abs_def] err_big_fd_def [abs_def]
    using assms(1,2) pl by (intro list_all2_Cons [THEN iffD2] conjI list_all2_Nil [THEN iffD2] TrueI err_bad_fd_passes err_open_lots_passes
        err_open_passes err_unopened_passes err_vidmap_passes err_stdin_out_passes err_syscall_num_passes) (auto simp: syserr_names_def)
qed

lemma syserr_all_pass:
  assumes "good w" and "uaddr buf" and "sys_clean (view w)" and "lits la L w"
    and "{lit ''.'', lit ''helloo'', lit ''shel'', [], 0x0A # line_lit ''Overall Tests: PASS''} \<subseteq> L" and "pass_line ` set syserr_names \<subseteq> L"
  shows "\<exists>w'. syserr_select os la regs buf 0x30 w = Some (Inr (0, w')) \<and>
    says (map (\<lambda>name. pass_line name @ [0]) syserr_names @ [0x0A # line_lit ''Overall Tests: PASS'' @ [0]]) w w'"
proof -
  have "list_all2 (passes la L) (syserr_tests os la regs buf) syserr_names" using assms by (intro syserr_tests_pass) auto
  from sum_tests_pass [OF this assms(1,4,3), of 0] obtain w2 where w2:
    "sum_tests (syserr_tests os la regs buf) 0 w = Some (Inr (0, w2))" "says (map (\<lambda>name. pass_line name @ [0]) syserr_names) w w2" by blast
  obtain w3 where w3: "puts_return os la (0x0A # line_lit ''Overall Tests: PASS'') 0 w2 = Some (Inr (0, w3))"
    "says [(0x0A # line_lit ''Overall Tests: PASS'') @ [0]] w2 w3"
    using puts_return_says [OF says_good [OF w2(2)] lits_says [OF assms(4) w2(2)]] assms(5) by blast
  have "syserr_select os la regs buf 0x30 w = Some (Inr (0, w3))" using w2(1) w3(1) by (simp add: syserr_select_def)
  then show ?thesis using says_trans [OF w2(2) w3(2)] by simp
qed

lemma syserr_one_passes:
  assumes "good w" and "uaddr buf" and "sys_clean (view w)" and "lits la L w"
    and "{lit ''.'', lit ''helloo'', lit ''shel'', []} \<subseteq> L" and "pass_line ` set syserr_names \<subseteq> L" and n: "n < 8"
  shows "\<exists>w'. syserr_select os la regs buf (0x31 + of_nat n) w = Some (Inr (0, w')) \<and> says [pass_line (syserr_names ! n) @ [0]] w w'"
proof -
  have "length syserr_names = 8" by (simp add: syserr_names_def)
  then have "passes la L (syserr_tests os la regs buf ! n) (syserr_names ! n)"
    using syserr_tests_pass [OF assms(2,5,6)] n by (auto simp: list_all2_conv_all_nth)
  moreover have "uint (0x31 + of_nat n :: u8) = 49 + int n"
  proof -
    have "uint (of_nat n :: u8) = int n" using n by (simp add: unsigned_of_nat take_bit_nat_eq_self)
    then show ?thesis using n by (simp add: uint_plus_if')
  qed
  ultimately show ?thesis using assms(1,3,4) n by (auto simp: passes_def syserr_select_def Let_def)
qed

end

end
