(* ===== verification/User_Grep.thy ===== *)
theory User_Grep
  imports User_Term
begin

text \<open>
  src/syscalls/ece391grep.c: the search for a string in a file, read in pieces through a buffer of
  1024 bytes in which an unfinished line is moved to the front before the next piece is read.
  The \<open>int32_t\<close> locals are integers; \<open>data\<close> is the address of the buffer.
\<close>

text \<open>\<open>while (line_end < last && '\n' != data[line_end]) line_end++;\<close>; the local \<open>last\<close> is \<open>last0\<close> here.\<close>

function line_end_from :: "'w os \<Rightarrow> u32 \<Rightarrow> int \<Rightarrow> int \<Rightarrow> 'w \<Rightarrow> int" where
  "line_end_from os data last0 line_end w =
     (if line_end < last0 \<and> uld os w data (of_int line_end) \<noteq> 0x0A then line_end_from os data last0 (line_end + 1) w else line_end)"
  by pat_completeness auto
termination
  by (relation "measure (\<lambda>(os, data, last0, line_end, w). nat (last0 - line_end))") auto

text \<open>The loop over \<open>check\<close>, up to the first match.  \<open>s\<close> points to \<open>char\<close>, which is signed, \<open>data\<close> to \<open>uint8_t\<close>.\<close>

function grep_match :: "'w os \<Rightarrow> u32 \<Rightarrow> u32 \<Rightarrow> u32 \<Rightarrow> int \<Rightarrow> int \<Rightarrow> 'w \<Rightarrow> bool" where
  "grep_match os s s_len data line_end check w =
     (if check < line_end then
        if sint (uld os w s 0) = uint (uld os w data (of_int check)) \<and>
           ece391_strncmp (mem_of os w) (at_addr os w (data + of_int check)) (at_addr os w s) s_len = 0 then True
        else grep_match os s s_len data line_end (check + 1) w
      else False)"
  by pat_completeness auto
termination
  by (relation "measure (\<lambda>(os, s, s_len, data, line_end, check, w). nat (line_end - check))") auto

declare line_end_from.simps [simp del] grep_match.simps [simp del]

definition grep_show :: "'w os \<Rightarrow> (u8 list \<Rightarrow> u32) \<Rightarrow> u32 \<Rightarrow> u32 \<Rightarrow> int \<Rightarrow> 'w \<Rightarrow> 'w run" where
  "grep_show os la fname data line_start w =
     obind (ece391_fdputs os 1 fname w) (\<lambda>w.
     obind (puts_lit os la [0x3A] w) (\<lambda>w.
     obind (ece391_fdputs os 1 (data + of_int line_start) w) (\<lambda>w. puts_lit os la [0x0A] w)))"

definition grep_search :: "'w os \<Rightarrow> (u8 list \<Rightarrow> u32) \<Rightarrow> u32 \<Rightarrow> u32 \<Rightarrow> u32 \<Rightarrow> u32 \<Rightarrow> int \<Rightarrow> int \<Rightarrow> 'w \<Rightarrow> 'w run" where
  "grep_search os la s s_len fname data line_start line_end w =
     (let w = ust os data (of_int line_end) 0 w
      in if grep_match os s s_len data line_end line_start w then grep_show os la fname data line_start w else Some (Inr w))"

text \<open>The loop over the lines in the buffer: the number of bytes kept for the next piece.\<close>

partial_function (option) grep_lines ::
  "'w os \<Rightarrow> (u8 list \<Rightarrow> u32) \<Rightarrow> u32 \<Rightarrow> u32 \<Rightarrow> u32 \<Rightarrow> u32 \<Rightarrow> u32 \<Rightarrow> int \<Rightarrow> int \<Rightarrow> 'w \<Rightarrow> (fault + int \<times> 'w) option" where
  "grep_lines os la s s_len fname data cnt last0 line_start w =
     (let line_end = line_end_from os data last0 line_start w
      in if 0x0A \<noteq> uld os w data (of_int line_end) \<and> 0 \<noteq> cnt \<and> line_start \<noteq> 0 then
           let w = ust os data (of_int line_end) 0 w
           in Option.bind (ece391_strcpy (mem_of os w) (at_addr os w data) (at_addr os w (data + of_int line_start))) (\<lambda>m.
              Some (Inr (last0 - line_start, set_mem os m w)))
         else
           obind (grep_search os la s s_len fname data line_start line_end w) (\<lambda>w.
           if line_end + 1 \<ge> last0 then Some (Inr (0, w))
           else grep_lines os la s s_len fname data cnt last0 (line_end + 1) w))"

definition grep_close :: "'w os \<Rightarrow> (u8 list \<Rightarrow> u32) \<Rightarrow> u32 \<Rightarrow> 'w \<Rightarrow> (u32 \<times> 'w) run" where
  "grep_close os la fd w =
     obind (ece391_close os fd w) (\<lambda>(r, w).
     if - 1 = r then puts_return os la (line_lit ''file close failed'') (- 1) w else Some (Inr (0, w)))"

partial_function (option) grep_loop ::
  "'w os \<Rightarrow> (u8 list \<Rightarrow> u32) \<Rightarrow> u32 \<Rightarrow> u32 \<Rightarrow> u32 \<Rightarrow> u32 \<Rightarrow> u32 \<Rightarrow> int \<Rightarrow> 'w \<Rightarrow> (fault + u32 \<times> 'w) option" where
  "grep_loop os la s s_len fname data fd last0 w =
     obind (ece391_read os fd (data + of_int last0) (of_int (1024 - last0)) w) (\<lambda>(cnt, w).
     if - 1 = cnt then puts_return os la (line_lit ''file read failed'') (- 1) w
     else obind (grep_lines os la s s_len fname data cnt (last0 + sint cnt) 0 w) (\<lambda>(last0, w).
       if 0 = cnt then grep_close os la fd w else grep_loop os la s s_len fname data fd last0 w))"

definition do_one_file :: "'w os \<Rightarrow> (u8 list \<Rightarrow> u32) \<Rightarrow> u32 \<Rightarrow> u32 \<Rightarrow> u32 \<Rightarrow> 'w \<Rightarrow> (u32 \<times> 'w) run" where
  "do_one_file os la data s fname w =
     Option.bind (ece391_strlen (mem_of os w) (at_addr os w s)) (\<lambda>s_len.
     obind (ece391_open os fname w) (\<lambda>(fd, w).
     if - 1 = fd then puts_return os la (line_lit ''file open failed'') (- 1) w
     else grep_loop os la s s_len fname data fd 0 w))"

partial_function (option) grep_dir_loop ::
  "'w os \<Rightarrow> (u8 list \<Rightarrow> u32) \<Rightarrow> u32 \<Rightarrow> u32 \<Rightarrow> u32 \<Rightarrow> u32 \<Rightarrow> 'w \<Rightarrow> (fault + u32 \<times> 'w) option" where
  "grep_dir_loop os la data buf search fd w =
     obind (ece391_read os fd buf 32 w) (\<lambda>(cnt, w).
     if 0 = cnt then Some (Inr (0, w))
     else if - 1 = cnt then puts_return os la (line_lit ''directory entry read failed'') 3 w
     else if 0x2E = uld os w buf 0 then grep_dir_loop os la data buf search fd w
     else obind (do_one_file os la data search buf (ust os buf cnt 0 w)) (\<lambda>(r, w).
       if 0 \<noteq> r then Some (Inr (3, w)) else grep_dir_loop os la data buf search fd w))"

definition grep_main :: "'w os \<Rightarrow> (u8 list \<Rightarrow> u32) \<Rightarrow> u32 \<Rightarrow> u32 \<Rightarrow> u32 \<Rightarrow> 'w \<Rightarrow> (u32 \<times> 'w) run" where
  "grep_main os la data buf search w =
     obind (ece391_getargs os search 1024 w) (\<lambda>(r, w).
     if 0 \<noteq> r then puts_return os la (line_lit ''could not read argument'') 3 w
     else obind (ece391_open os (la (lit ''.'')) w) (\<lambda>(fd, w).
       if - 1 = fd then puts_return os la (line_lit ''directory open failed'') 2 w
       else grep_dir_loop os la data buf search fd w))"

subsection \<open>Lines of a text\<close>

definition ended :: "u8 list \<Rightarrow> u8 list" where
  "ended l = l @ [0x0A]"

definition text_of :: "u8 list list \<Rightarrow> u8 list \<Rightarrow> u8 list" where
  "text_of ls t = concat (map ended ls) @ t"

definition plain_text :: "u8 list \<Rightarrow> bool" where
  "plain_text l \<longleftrightarrow> 0 \<notin> set l \<and> 0x0A \<notin> set l"

definition contains :: "u8 list \<Rightarrow> u8 list \<Rightarrow> bool" where
  "contains z l \<longleftrightarrow> (\<exists>i<length l. take (length z) (drop i l) = z)"

text \<open>What is written for a line.\<close>

definition report :: "u8 list \<Rightarrow> u8 list \<Rightarrow> u8 list \<Rightarrow> u8 list list" where
  "report z nm l = (if contains z l then [nm @ [0], [0x3A, 0], l @ [0], [0x0A, 0]] else [])"

lemma text_of_simps [simp]: "text_of [] t = t" "text_of (l # ls) t = l @ 0x0A # text_of ls t" "text_of (ls @ ls') t = text_of ls (text_of ls' t)"
  by (simp_all add: text_of_def ended_def)

lemma text_of_length: "length t \<le> length (text_of ls t)"
  by (simp add: text_of_def)

lemma report_Nil [simp]: "report z nm [] = []"
  by (simp add: report_def contains_def)

lemma plain_text_take [simp]: "plain_text l \<Longrightarrow> plain_text (take n l)"
  by (auto simp: plain_text_def dest: in_set_takeD)

text \<open>A prefix of a text ends within one of its lines.\<close>

lemma text_prefix:
  assumes "text_of ls t = b @ c" and "list_all plain_text (ls @ [t])"
  shows "\<exists>ls1 ls2 t1. ls = ls1 @ ls2 \<and> b = text_of ls1 t1 \<and> plain_text t1 \<and> t1 @ c = text_of ls2 t"
  using assms
proof (induction ls arbitrary: b)
  case Nil
  then have "plain_text b" by (auto simp: plain_text_def)
  then show ?case using Nil by (intro exI [of _ "[]"] exI [of _ b]) simp
next
  case (Cons l ls)
  show ?case
  proof (cases "length b \<le> length l")
    case True
    then have "b = take (length b) l" using arg_cong [OF Cons.prems(1), of "take (length b)"] by simp
    moreover have "plain_text (take (length b) l)" using Cons.prems(2) by (intro plain_text_take) simp
    ultimately have "plain_text b" by simp
    then show ?thesis using Cons.prems(1) by (intro exI [of _ "[]"] exI [of _ "l # ls"] exI [of _ b]) simp
  next
    case False
    let ?b = "drop (Suc (length l)) b"
    have "take (Suc (length l)) b = l @ [0x0A]" using arg_cong [OF Cons.prems(1), of "take (Suc (length l))"] False by simp
    then have b: "b = l @ 0x0A # ?b" using append_take_drop_id [of "Suc (length l)" b] by simp
    have "(l @ 0x0A # ?b) @ c = l @ 0x0A # text_of ls t" using Cons.prems(1) b by simp
    then have "text_of ls t = ?b @ c" by simp
    then obtain ls1 ls2 t1 where "ls = ls1 @ ls2" "?b = text_of ls1 t1" "plain_text t1" "t1 @ c = text_of ls2 t"
      using Cons.IH [of ?b] Cons.prems(2) by auto
    then show ?thesis using b by (intro exI [of _ "l # ls1"] exI [of _ ls2] exI [of _ t1]) simp
  qed
qed

lemma text_one_line: "plain_text (text_of ls t) \<Longrightarrow> ls = []"
  by (cases ls) (auto simp: plain_text_def)

lemma long_line:
  assumes "t1 @ c = text_of ls t" and "plain_text t1" and "t1 \<noteq> []" and "c \<noteq> []"
  shows "\<exists>l\<in>set (ls @ [t]). length t1 \<le> length l"
proof (cases ls)
  case Nil
  then show ?thesis using assms(1) by (metis append.left_neutral in_set_conv_decomp le_add1 length_append text_of_simps(1))
next
  case (Cons l ls')
  have "length t1 \<le> length l"
  proof (rule ccontr)
    assume "\<not> length t1 \<le> length l"
    then have "t1 ! length l = 0x0A" using arg_cong [OF assms(1), of "\<lambda>xs. xs ! length l"] Cons by (simp add: nth_append)
    then show False using assms(2) \<open>\<not> length t1 \<le> length l\<close> nth_mem [of "length l" t1] by (simp add: plain_text_def)
  qed
  then show ?thesis using Cons by auto
qed

subsection \<open>Moving a string down\<close>

lemma ece391_strcpy_down:
  assumes c: "cstr m (padd p (of_nat k)) xs" and k: "0 < k" "k + length xs < 2 ^ 32" and "j \<le> length xs"
  shows "ece391_strcpy (stores m p (take j xs)) (padd p (of_nat j)) (padd p (of_nat (k + j))) = Some (stores m p (xs @ [0]))"
  using assms(4)
proof (induction rule: inc_induct)
  case base
  have "ld (stores m p xs) p (of_nat (k + length xs)) = 0"
    using c k by (subst ld_stores_same) (simp add: unat_u32_of_nat cstr_def del: of_nat_add, simp add: cstr_def)
  then show ?case
    by (subst ece391_strcpy.simps) (use k in \<open>simp add: stores_snoc Let_def del: of_nat_add\<close>)
next
  case (step j)
  have l: "ld (stores m p (take j xs)) p (of_nat (k + j)) = xs ! j"
    using step.hyps k cstr_ld [OF c, of j] by (subst ld_stores_same) (simp add: unat_u32_of_nat del: of_nat_add, simp)
  have nz: "xs ! j \<noteq> 0" using cstr_nz [OF c] cstr_ld [OF c] step.hyps by metis
  have s: "st (stores m p (take j xs)) p (of_nat j) (xs ! j) = stores m p (take (Suc j) xs)"
    using stores_snoc [of "take j xs" m p "xs ! j"] step.hyps k by (simp add: take_Suc_conv_app_nth)
  have q: "padd (padd p (of_nat j)) 1 = padd p (of_nat (Suc j))" "padd (padd p (of_nat (k + j))) 1 = padd p (of_nat (k + Suc j))"
    by (simp_all add: padd_def algebra_simps)
  show ?case
    by (subst ece391_strcpy.simps) (use l nz s q step.IH in \<open>simp add: Let_def del: of_nat_add of_nat_Suc\<close>)
qed

lemma ece391_strcpy_front:
  "cstr m (padd p (of_nat k)) xs \<Longrightarrow> 0 < k \<Longrightarrow> k + length xs < 2 ^ 32 \<Longrightarrow>
   ece391_strcpy m p (padd p (of_nat k)) = Some (stores m p (xs @ [0]))"
  using ece391_strcpy_down [of m p k xs 0] by (simp add: padd_def)

lemma sint_u8_low: "(x :: u8) < 0x80 \<Longrightarrow> sint x = uint x"
proof -
  assume "x < 0x80"
  then have "uint x < 128" by (simp add: word_less_def)
  moreover have "- 128 \<le> uint x" using uint_ge_0 [of x] by linarith
  ultimately show ?thesis by (simp add: sint_uint signed_take_bit_int_eq_self_iff)
qed

text \<open>A string without NUL at the start of another.\<close>

lemma bytes_prefix:
  assumes "cstr m p ys" and "0 \<notin> set z"
  shows "bytes m p (length z) = z \<longleftrightarrow> take (length z) ys = z"
proof (cases "length z \<le> length ys")
  case True
  then show ?thesis using take_bytes [of "length z" "length ys" m p] assms(1) by (simp add: cstr_def)
next
  case False
  then have "bytes m p (length z) ! length ys = 0" using assms(1) by (simp add: cstr_def)
  then have "bytes m p (length z) \<noteq> z" using False assms(2) nth_mem [of "length ys" z] by (metis not_le)
  moreover have "take (length z) ys \<noteq> z" using False arg_cong [of "take (length z) ys" z length] by auto
  ultimately show ?thesis by simp
qed

text \<open>An array of \<open>n\<close> bytes in the page, and a string of the program that is not in the array.\<close>

definition array_at :: "(u32 \<Rightarrow> u32) \<Rightarrow> (u32 \<Rightarrow> bool) \<Rightarrow> u32 \<Rightarrow> nat \<Rightarrow> bool" where
  "array_at off uaddr data n \<longleftrightarrow> (\<forall>i<n. uaddr (data + of_nat i) \<and> off (data + of_nat i) = off data + of_nat i)"

definition str_at :: "block \<Rightarrow> (u32 \<Rightarrow> u32) \<Rightarrow> (u32 \<Rightarrow> bool) \<Rightarrow> u32 \<Rightarrow> nat \<Rightarrow> mem \<Rightarrow> u32 \<Rightarrow> u8 list \<Rightarrow> bool" where
  "str_at page off uaddr data n m a xs \<longleftrightarrow> uaddr a \<and> length xs < 2 ^ 31 \<and> cstr m (page, off a) xs \<and>
     (\<forall>i\<le>length xs. n \<le> unat (off a + of_nat i - off data))"

context file_os
begin

subsection \<open>The buffer\<close>

abbreviation buffer :: "u32 \<Rightarrow> bool" where
  "buffer data \<equiv> array_at off uaddr data 1025"

abbreviation str :: "u32 \<Rightarrow> u32 \<Rightarrow> u8 list \<Rightarrow> 'w \<Rightarrow> bool" where
  "str data a xs w \<equiv> str_at page off uaddr data 1025 (mem_of os w) a xs"

abbreviation arr :: "u32 \<Rightarrow> 'w \<Rightarrow> nat \<Rightarrow> u8" where
  "arr data w i \<equiv> ld (mem_of os w) (page, off data) (of_nat i)"

text \<open>Writing \<open>xss\<close> to the terminal and changing nothing in the page but the buffer.\<close>

definition outs :: "u32 \<Rightarrow> u8 list list \<Rightarrow> 'w \<Rightarrow> 'w \<Rightarrow> bool" where
  "outs data xss w w' \<longleftrightarrow> good w' \<and> view w' = (view w)\<lparr>v_screen := fold shown xss (v_screen (view w))\<rparr> \<and>
     (\<forall>a. 1025 \<le> unat (a - off data) \<longrightarrow> mem_of os w' page a = mem_of os w page a)"

lemma outs_refl: "good w \<Longrightarrow> outs data [] w w"
  by (simp add: outs_def)

lemma outs_good: "outs data xss w w' \<Longrightarrow> good w'"
  by (simp add: outs_def)

lemma outs_trans: "outs data xss w w' \<Longrightarrow> outs data yss w' w'' \<Longrightarrow> outs data (xss @ yss) w w''"
  by (simp add: outs_def)

lemma says_outs: "says xss w w' \<Longrightarrow> outs data xss w w'"
  by (simp add: says_def outs_def)

lemma str_at_outs:
  assumes "str data a xs w" and "\<And>b. 1025 \<le> unat (b - off data) \<Longrightarrow> mem_of os w' page b = mem_of os w page b"
  shows "str data a xs w'"
proof -
  have "ld (mem_of os w') (page, off a) (of_nat i) = ld (mem_of os w) (page, off a) (of_nat i)" if "i \<le> length xs" for i
    using assms that by (simp add: ld_def str_at_def)
  then have "bytes (mem_of os w') (page, off a) (length xs) = bytes (mem_of os w) (page, off a) (length xs)"
    "ld (mem_of os w') (page, off a) (of_nat (length xs)) = ld (mem_of os w) (page, off a) (of_nat (length xs))"
    by (simp_all add: bytes_eq_iff)
  then show ?thesis using assms(1) by (simp add: str_at_def cstr_def)
qed

lemma str_at_moves: "str data a xs w \<Longrightarrow> outs data xss w w' \<Longrightarrow> str data a xs w'"
  by (erule str_at_outs) (simp add: outs_def)

lemma str_at_puts: "str data a xs w \<Longrightarrow> good w \<Longrightarrow> \<exists>w'. ece391_fdputs os 1 a w = Some (Inr w') \<and> says [xs @ [0]] w w'"
  unfolding str_at_def by (rule fdputs_says) auto

lemma array_addr: "buffer data \<Longrightarrow> i \<le> 1024 \<Longrightarrow> good w \<Longrightarrow> at_addr os w (data + of_nat i) = (page, off data + of_nat i)"
  using addr [of w "data + of_nat i"] by (simp add: array_at_def)

lemma array_uaddr: "buffer data \<Longrightarrow> uaddr data"
  unfolding array_at_def by (drule spec [of _ 0]) simp

lemma arr_uld: "buffer data \<Longrightarrow> good w \<Longrightarrow> uld os w data (of_nat i) = arr data w i"
  using addr [of w data] array_uaddr by (simp add: uld_def)

lemma ust_outs:
  assumes "buffer data" and "good w" and "k \<le> 1024"
  shows "outs data [] w (ust os data (of_nat k) c w)" "i \<le> 1024 \<Longrightarrow> arr data (ust os data (of_nat k) c w) i = (if i = k then c else arr data w i)"
proof -
  note u = ust_page [OF assms(2) array_uaddr [OF assms(1)], of "of_nat k" c]
  have "unat (of_nat k :: u32) = k" using assms(3) by (intro unat_u32_of_nat) simp
  then show "outs data [] w (ust os data (of_nat k) c w)"
    unfolding outs_def u(3) using u(1) assms(3) by (auto simp: u(2) st_def)
  show "i \<le> 1024 \<Longrightarrow> arr data (ust os data (of_nat k) c w) i = (if i = k then c else arr data w i)"
    using of_nat_u32_inj [of i k] assms(3) by (simp add: u(2))
qed

subsection \<open>Searching a line\<close>

lemma line_end_found:
  assumes "buffer data" and "good w" and "k + length l \<le> n" and "\<And>i. i < length l \<Longrightarrow> arr data w (k + i) \<noteq> 0x0A"
    and "k + length l = n \<or> arr data w (k + length l) = 0x0A"
  shows "line_end_from os data (int n) (int k) w = int (k + length l)"
  using assms(3-5)
proof (induction l arbitrary: k)
  case Nil
  then show ?case using arr_uld [OF assms(1,2), of k] by (subst line_end_from.simps) auto
next
  case (Cons x l)
  have "arr data w k \<noteq> 0x0A" using Cons.prems(2) [of 0] by simp
  moreover have "line_end_from os data (int n) (int (Suc k)) w = int (Suc k + length l)"
    using Cons.prems Cons.prems(2) [of "Suc _"] by (intro Cons.IH) auto
  ultimately show ?case using Cons.prems(1) arr_uld [OF assms(1,2), of k] by (subst line_end_from.simps) (simp add: add.commute)
qed

text \<open>The line is in the buffer from \<open>k\<close> on, with a NUL after it.\<close>

lemma line_in_buffer:
  assumes "\<And>i. i < length l \<Longrightarrow> arr data w (k + i) = l ! i" and "arr data w (k + length l) = 0" and "0 \<notin> set l" and "length l < 2 ^ 32" and "j \<le> length l"
  shows "cstr (mem_of os w) (page, off data + of_nat (k + j)) (drop j l)"
proof -
  have e: "ld (mem_of os w) (page, off data + of_nat (k + j)) (of_nat i) = arr data w (k + (j + i))" for i
    by (simp add: ld_def add.assoc)
  have "bytes (mem_of os w) (page, off data + of_nat (k + j)) (length l - j) = drop j l"
    using assms(1,5) by (intro nth_equalityI) (simp_all add: e del: of_nat_add)
  moreover have "ld (mem_of os w) (page, off data + of_nat (k + j)) (of_nat (length l - j)) = 0"
    unfolding e using assms(2,5) by simp
  ultimately show ?thesis using assms(3,4) by (auto simp: cstr_def dest: in_set_dropD)
qed

lemma grep_match_iff:
  assumes b: "buffer data" and g: "good w" and s: "str data s z w" and z: "z \<noteq> []" "hd z < 0x80"
    and l: "\<And>i. i < length l \<Longrightarrow> arr data w (k + i) = l ! i" "arr data w (k + length l) = 0" "0 \<notin> set l" "k + length l \<le> 1024" and "j \<le> length l"
  shows "grep_match os s (of_nat (length z)) data (int (k + length l)) (int (k + j)) w \<longleftrightarrow> (\<exists>i. j \<le> i \<and> i < length l \<and> take (length z) (drop i l) = z)"
  using assms(10)
proof (induction rule: inc_induct)
  case base
  show ?case by (subst grep_match.simps) auto
next
  case (step j)
  have sz: "cstr (mem_of os w) (page, off s) z" "uaddr s" using s by (simp_all add: str_at_def)
  have z0: "0 \<notin> set z" using sz by (simp add: cstr_def)
  have c: "cstr (mem_of os w) (page, off data + of_nat (k + j)) (drop j l)"
    using l step.hyps by (intro line_in_buffer) simp_all
  have at: "at_addr os w (data + of_nat (k + j)) = (page, off data + of_nat (k + j))" "at_addr os w s = (page, off s)"
    using array_addr [OF b _ g, of "k + j"] addr [OF g sz(2)] l(4) step.hyps by (simp_all del: of_nat_add)
  have cmp: "ece391_strncmp (mem_of os w) (at_addr os w (data + of_nat (k + j))) (at_addr os w s) (of_nat (length z)) = 0 \<longleftrightarrow> take (length z) (drop j l) = z"
    unfolding at ece391_strncmp_prefix [OF sz(1)] by (rule bytes_prefix [OF c z0])
  have hz: "uld os w s 0 = hd z" using cstr_tail [of "mem_of os w" "(page, off s)" "hd z" "tl z"] sz z(1) at(2) by (simp add: uld_def)
  have "sint (hd z) = uint (hd z)" by (rule sint_u8_low [OF z(2)])
  moreover have "uint (hd z) = uint (arr data w (k + j)) \<longleftrightarrow> hd z = l ! j" using l(1) step.hyps by (simp add: word_uint_eq_iff)
  ultimately have fst: "sint (uld os w s 0) = uint (uld os w data (of_nat (k + j))) \<longleftrightarrow> hd z = l ! j"
    using arr_uld [OF b g, of "k + j"] hz by (simp del: of_nat_add)
  have first: "hd z = l ! j" if "take (length z) (drop j l) = z"
  proof -
    have "hd (take (length z) (drop j l)) = hd z" using that by simp
    then show ?thesis using z(1) step.hyps by (simp add: hd_drop_conv_nth)
  qed
  have split: "(\<exists>i. j \<le> i \<and> i < length l \<and> take (length z) (drop i l) = z) \<longleftrightarrow>
    take (length z) (drop j l) = z \<or> (\<exists>i. Suc j \<le> i \<and> i < length l \<and> take (length z) (drop i l) = z)"
    using step.hyps by (metis Suc_leD Suc_leI le_neq_implies_less order_refl)
  have i: "int (k + j) + 1 = int (k + Suc j)" "int (k + j) < int (k + length l)" using step.hyps by simp_all
  have "grep_match os s (of_nat (length z)) data (int (k + length l)) (int (k + j)) w \<longleftrightarrow>
    sint (uld os w s 0) = uint (uld os w data (of_nat (k + j))) \<and>
      ece391_strncmp (mem_of os w) (at_addr os w (data + of_nat (k + j))) (at_addr os w s) (of_nat (length z)) = 0 \<or>
    grep_match os s (of_nat (length z)) data (int (k + length l)) (int (k + Suc j)) w"
    by (subst grep_match.simps, simp only: i if_True of_int_of_nat_eq simp_thms split: if_splits, blast)
  then show ?case unfolding split using cmp fst first step.IH by blast
qed

abbreviation strs :: "u32 \<Rightarrow> (u8 list \<Rightarrow> u32) \<Rightarrow> u32 \<Rightarrow> u8 list \<Rightarrow> u32 \<Rightarrow> u8 list \<Rightarrow> 'w \<Rightarrow> bool" where
  "strs data la s z fname nm w \<equiv> str data s z w \<and> str data fname nm w \<and> str data (la [0x3A]) [0x3A] w \<and> str data (la [0x0A]) [0x0A] w"

lemma strs_moves: "strs data la s z fname nm w \<Longrightarrow> outs data xss w w' \<Longrightarrow> strs data la s z fname nm w'"
  using str_at_moves by blast

lemma grep_show_spec:
  assumes b: "buffer data" and g: "good w" and s: "strs data la s z fname nm w"
    and c: "cstr (mem_of os w) (page, off data + of_nat k) l" "k \<le> 1024" "length l \<le> 1024"
  shows "\<exists>w'. grep_show os la fname data (int k) w = Some (Inr w') \<and> says [nm @ [0], [0x3A, 0], l @ [0], [0x0A, 0]] w w'"
proof -
  obtain w1 where w1: "ece391_fdputs os 1 fname w = Some (Inr w1)" "says [nm @ [0]] w w1" using str_at_puts [of data w fname nm] s g by blast
  note s1 = strs_moves [OF s says_outs [OF w1(2)]]
  obtain w2 where w2: "puts_lit os la [0x3A] w1 = Some (Inr w2)" "says [[0x3A] @ [0]] w1 w2"
    unfolding puts_lit_def using str_at_puts [of data w1 "la [0x3A]" "[0x3A]"] s1 says_good [OF w1(2)] by blast
  note s2 = strs_moves [OF s1 says_outs [OF w2(2)]]
  have u: "uaddr (data + of_nat k)" "off (data + of_nat k) = off data + of_nat k" using b c(2) by (simp_all add: array_at_def)
  have "cstr (mem_of os w2) (page, off (data + of_nat k)) l"
    unfolding u(2) using c(1) cstr_page [of w2 w] w1(2) w2(2) by (simp add: says_def)
  then obtain w3 where w3: "ece391_fdputs os 1 (data + of_nat k) w2 = Some (Inr w3)" "says [l @ [0]] w2 w3"
    using fdputs_says [OF says_good [OF w2(2)] u(1), of l] c(3) by auto
  note s3 = strs_moves [OF s2 says_outs [OF w3(2)]]
  obtain w4 where w4: "puts_lit os la [0x0A] w3 = Some (Inr w4)" "says [[0x0A] @ [0]] w3 w4"
    unfolding puts_lit_def using str_at_puts [of data w3 "la [0x0A]" "[0x0A]"] s3 says_good [OF w3(2)] by blast
  have "grep_show os la fname data (int k) w = Some (Inr w4)" by (simp add: grep_show_def w1(1) w2(1) w3(1) w4(1))
  moreover have "says [nm @ [0], [0x3A, 0], l @ [0], [0x0A, 0]] w w4"
    using says_trans [OF says_trans [OF w1(2) w2(2)] says_trans [OF w3(2) w4(2)]] by simp
  ultimately show ?thesis by blast
qed

lemma grep_search_spec:
  assumes b: "buffer data" and g: "good w" and s: "strs data la s z fname nm w" and z: "z \<noteq> []" "hd z < 0x80"
    and l: "\<And>i. i < length l \<Longrightarrow> arr data w (k + i) = l ! i" "0 \<notin> set l" "k + length l \<le> 1024"
  shows "\<exists>w'. grep_search os la s (of_nat (length z)) fname data (int k) (int (k + length l)) w = Some (Inr w') \<and>
    outs data (report z nm l) w w' \<and> (\<forall>i\<le>1024. arr data w' i = (if i = k + length l then 0 else arr data w i))"
proof -
  let ?w = "ust os data (of_nat (k + length l)) 0 w"
  note u = ust_outs [OF b g l(3), where c = 0]
  note gu = outs_good [OF u(1)] and su = strs_moves [OF s u(1)]
  have lu: "arr data ?w (k + i) = l ! i" if "i < length l" for i using l(1) [OF that] u(2) [of "k + i"] that l(3) by simp
  have z0: "arr data ?w (k + length l) = 0" using u(2) [of "k + length l"] l(3) by simp
  have m: "grep_match os s (of_nat (length z)) data (int (k + length l)) (int k) ?w \<longleftrightarrow> contains z l"
    using grep_match_iff [OF b gu _ z lu z0 l(2,3), where j = 0 and s = s] su by (auto simp: contains_def)
  have c: "cstr (mem_of os ?w) (page, off data + of_nat k) l" using line_in_buffer [OF lu z0 l(2), of 0] l(3) by simp
  show ?thesis
  proof (cases "contains z l")
    case True
    obtain w' where w': "grep_show os la fname data (int k) ?w = Some (Inr w')" "says [nm @ [0], [0x3A, 0], l @ [0], [0x0A, 0]] ?w w'"
      using grep_show_spec [OF b gu su c] l(3) by auto
    have "grep_search os la s (of_nat (length z)) fname data (int k) (int (k + length l)) w = Some (Inr w')"
      using m True w'(1) unfolding grep_search_def Let_def of_int_of_nat_eq by simp
    moreover have "outs data (report z nm l) w w'" using outs_trans [OF u(1) says_outs [OF w'(2)]] True by (simp add: report_def)
    moreover have "arr data w' i = arr data ?w i" for i using w'(2) by (simp add: says_def ld_def)
    ultimately show ?thesis using u(2) by auto
  next
    case False
    then have "grep_search os la s (of_nat (length z)) fname data (int k) (int (k + length l)) w = Some (Inr ?w)"
      using m unfolding grep_search_def Let_def of_int_of_nat_eq by simp
    then show ?thesis using u False by (auto simp: report_def)
  qed
qed

subsection \<open>The lines of the buffer\<close>

text \<open>Moving an unfinished line to the front.\<close>

lemma carry_spec:
  assumes b: "buffer data" and g: "good w" and t: "\<And>i. i < length t \<Longrightarrow> arr data w (k + i) = t ! i" "0 \<notin> set t"
    and k: "0 < k" "k + length t \<le> 1024"
  defines "w1 \<equiv> ust os data (of_nat (k + length t)) 0 w"
  shows "\<exists>m. ece391_strcpy (mem_of os w1) (at_addr os w1 data) (at_addr os w1 (data + of_nat k)) = Some m \<and>
    outs data [] w (set_mem os m w1) \<and> (\<forall>i<length t. arr data (set_mem os m w1) i = t ! i) \<and>
    arr data (set_mem os m w1) 1024 = (if k + length t = 1024 then 0 else arr data w 1024)"
proof -
  note u = ust_outs [OF b g k(2), where c = 0, folded w1_def]
  note g1 = outs_good [OF u(1)]
  have l1: "arr data w1 (k + i) = t ! i" if "i < length t" for i using t(1) [OF that] u(2) [of "k + i"] that k(2) by simp
  have c: "cstr (mem_of os w1) (page, off data + of_nat k) t"
    using line_in_buffer [OF l1 _ t(2), of 0] u(2) [of "k + length t"] k(2) by simp
  let ?p = "(page, off data)"
  let ?m = "stores (mem_of os w1) ?p (t @ [0])"
  have at: "at_addr os w1 data = ?p" "at_addr os w1 (data + of_nat k) = padd ?p (of_nat k)"
    using addr [OF g1 array_uaddr [OF b]] array_addr [OF b _ g1, of k] k(2) by (simp_all add: padd_def)
  have cp: "ece391_strcpy (mem_of os w1) (at_addr os w1 data) (at_addr os w1 (data + of_nat k)) = Some ?m"
    unfolding at using c k by (intro ece391_strcpy_front) (simp_all add: padd_def)
  have mb: "?m b = mem_of os w1 b" if "b \<noteq> page" for b using that by (simp add: stores_other_block)
  note ms = mem_set [OF g1 mb, simplified]
  have o: "outs data [] w (set_mem os ?m w1)"
    using u(1) ms k(2) by (auto simp: outs_def stores_def)
  have a: "arr data (set_mem os ?m w1) i = (if i < length t then t ! i else if i = length t then 0 else arr data w1 i)" if "i \<le> 1024" for i
    using ms that unat_u32_of_nat [of i] by (auto simp: ld_stores_same nth_append)
  show ?thesis
    using cp o a a [of 1024] u(2) [of 1024] k by (intro exI [of _ ?m]) auto
qed

lemma grep_lines_spec:
  fixes cnt :: u32
  assumes b: "buffer data" and z: "z \<noteq> []" "hd z < 0x80" and n: "n \<le> 1024" and pt: "list_all plain_text (ls @ [t])"
    and "good w" and "strs data la s z fname nm w" and "\<And>i. i < n - k \<Longrightarrow> arr data w (k + i) = text_of ls t ! i"
    and "length (text_of ls t) = n - k" "k \<le> n" "k < n \<or> k = 0"
  defines "carry \<equiv> t \<noteq> [] \<and> arr data w n \<noteq> 0x0A \<and> cnt \<noteq> 0 \<and> (k \<noteq> 0 \<or> ls \<noteq> [])"
  shows "\<exists>w'. grep_lines os la s (of_nat (length z)) fname data cnt (int n) (int k) w = Some (Inr (int (if carry then length t else 0), w')) \<and>
    outs data (concat (map (report z nm) (if carry then ls else ls @ [t]))) w w' \<and>
    (carry \<longrightarrow> (\<forall>i<length t. arr data w' i = t ! i)) \<and> (arr data w 1024 \<noteq> 0x0A \<longrightarrow> arr data w' 1024 \<noteq> 0x0A)"
  using pt assms(6-11) unfolding carry_def
proof (induction ls arbitrary: k w)
  case Nil
  note g = Nil.prems(2) and s = Nil.prems(3)
  have nt: "length t = n - k" "k + length t = n" using Nil.prems(5,6) by simp_all
  have pt: "0 \<notin> set t" "0x0A \<notin> set t" using Nil.prems(1) by (simp_all add: plain_text_def)
  have tt: "arr data w (k + i) = t ! i" if "i < length t" for i using Nil.prems(4) that nt by simp
  have le: "line_end_from os data (int n) (int k) w = int n"
    using line_end_found [OF b g, of k t n] tt pt nt nth_mem [of _ t] by fastforce
  have un: "uld os w data (of_nat n) = arr data w n" by (rule arr_uld [OF b g])
  show ?case
  proof (cases "t \<noteq> [] \<and> arr data w n \<noteq> 0x0A \<and> cnt \<noteq> 0 \<and> k \<noteq> 0")
    case True
    obtain m where m: "ece391_strcpy (mem_of os (ust os data (of_nat n) 0 w)) (at_addr os (ust os data (of_nat n) 0 w) data)
        (at_addr os (ust os data (of_nat n) 0 w) (data + of_nat k)) = Some m"
      "outs data [] w (set_mem os m (ust os data (of_nat n) 0 w))" "\<forall>i<length t. arr data (set_mem os m (ust os data (of_nat n) 0 w)) i = t ! i"
      "arr data (set_mem os m (ust os data (of_nat n) 0 w)) 1024 = (if n = 1024 then 0 else arr data w 1024)"
      using carry_spec [OF b g tt pt(1)] True nt n by auto
    have "grep_lines os la s (of_nat (length z)) fname data cnt (int n) (int k) w =
      Some (Inr (int (length t), set_mem os m (ust os data (of_nat n) 0 w)))"
      using True m(1) nt(1) Nil.prems(6) by (subst grep_lines.simps) (simp add: le un Let_def of_nat_diff)
    then show ?thesis using True m(2-4) by auto
  next
    case False
    obtain w' where w': "grep_search os la s (of_nat (length z)) fname data (int k) (int n) w = Some (Inr w')"
      "outs data (report z nm t) w w'" "\<forall>i\<le>1024. arr data w' i = (if i = n then 0 else arr data w i)"
      using grep_search_spec [OF b g s z tt pt(1)] nt n by auto
    have "\<not> (0x0A \<noteq> arr data w n \<and> 0 \<noteq> cnt \<and> int k \<noteq> 0)" using False Nil.prems(7) nt by auto
    then have "grep_lines os la s (of_nat (length z)) fname data cnt (int n) (int k) w = Some (Inr (0, w'))"
      using w'(1) by (subst grep_lines.simps) (auto simp: le un Let_def)
    then show ?thesis using False w'(2) spec [OF w'(3), of 1024] by (auto split: if_splits)
  qed
next
  case (Cons l ls)
  note g = Cons.prems(2) and s = Cons.prems(3)
  let ?k = "k + length l" and ?k' = "Suc (k + length l)"
  have ln: "length l + Suc (length (text_of ls t)) = n - k" using Cons.prems(5) by simp
  have kn: "?k < n" "?k' \<le> n" using ln Cons.prems(6) by simp_all
  have pl: "0 \<notin> set l" "0x0A \<notin> set l" using Cons.prems(1) by (simp_all add: plain_text_def)
  have ll: "arr data w (k + i) = l ! i" if "i < length l" for i using Cons.prems(4) [of i] that kn by (simp add: nth_append)
  have nl: "arr data w ?k = 0x0A" using Cons.prems(4) [of "length l"] kn by (simp add: nth_append)
  have rest: "arr data w (?k' + i) = text_of ls t ! i" if "i < n - ?k'" for i
    using Cons.prems(4) [of "length l + Suc i"] that by (simp add: nth_append add.assoc)
  have le: "line_end_from os data (int n) (int k) w = int ?k"
    using line_end_found [OF b g, of k l n] ll pl nl kn nth_mem [of _ l] by fastforce
  obtain w1 where w1: "grep_search os la s (of_nat (length z)) fname data (int k) (int ?k) w = Some (Inr w1)"
    "outs data (report z nm l) w w1" "\<forall>i\<le>1024. arr data w1 i = (if i = ?k then 0 else arr data w i)"
    using grep_search_spec [OF b g s z ll pl(1)] kn n by auto
  have step: "grep_lines os la s (of_nat (length z)) fname data cnt (int n) (int k) w =
      (if n \<le> ?k' then Some (Inr (0, w1)) else grep_lines os la s (of_nat (length z)) fname data cnt (int n) (int ?k') w1)"
    using w1(1) nl arr_uld [OF b g, of ?k] by (subst grep_lines.simps) (simp add: le Let_def add.commute)
  have a1: "arr data w1 n = arr data w n" "arr data w1 1024 = arr data w 1024" using w1(3) kn n by auto
  show ?case
  proof (cases "n \<le> ?k'")
    case True
    then have "text_of ls t = []" using ln kn by simp
    then have e: "ls = []" "t = []" by (auto simp: text_of_def ended_def)
    then show ?thesis using step True w1(2) a1 by auto
  next
    case False
    have ar: "arr data w1 (?k' + i) = text_of ls t ! i" if "i < n - ?k'" for i 
      using rest [OF that] spec [OF w1(3), of "?k' + i"] that n by (simp del: of_nat_add of_nat_Suc)
    have len: "length (text_of ls t) = n - ?k'" using ln by simp
    have p': "list_all plain_text (ls @ [t])" using Cons.prems(1) by simp
    from Cons.IH [OF p' outs_good [OF w1(2)] strs_moves [OF s w1(2)] ar len kn(2)] False obtain w' where w':
      "grep_lines os la s (of_nat (length z)) fname data cnt (int n) (int ?k') w1 =
        Some (Inr (int (if t \<noteq> [] \<and> arr data w1 n \<noteq> 0x0A \<and> cnt \<noteq> 0 then length t else 0), w'))"
      "outs data (concat (map (report z nm) (if t \<noteq> [] \<and> arr data w1 n \<noteq> 0x0A \<and> cnt \<noteq> 0 then ls else ls @ [t]))) w1 w'"
      "t \<noteq> [] \<and> arr data w1 n \<noteq> 0x0A \<and> cnt \<noteq> 0 \<longrightarrow> (\<forall>i<length t. arr data w' i = t ! i)"
      "arr data w1 1024 \<noteq> 0x0A \<longrightarrow> arr data w' 1024 \<noteq> 0x0A" by auto
    then show ?thesis using step False outs_trans [OF w1(2) w'(2)] a1 by (intro exI [of _ w']) (auto split: if_splits)
  qed
qed

subsection \<open>The file\<close>

lemma grep_read:
  assumes b: "buffer data" and g: "good w" and i: "2 \<le> i" "i < 8" and fd: "v_fds (view w) i = Some (Reads ys)"
    and r: "\<And>j. j < length r \<Longrightarrow> arr data w j = r ! j" "length r \<le> 1023"
  defines "c \<equiv> take (1024 - length r) ys"
  shows "\<exists>w1. ece391_read os (of_nat i) (data + of_nat (length r)) (of_int (1024 - int (length r))) w = Some (Inr (of_nat (length c), w1)) \<and>
    good w1 \<and> view w1 = (view w)\<lparr>v_fds := (v_fds (view w))(i := Some (Reads (drop (1024 - length r) ys)))\<rparr> \<and>
    (\<forall>a. 1025 \<le> unat (a - off data) \<longrightarrow> mem_of os w1 page a = mem_of os w page a) \<and>
    (\<forall>j<length (r @ c). arr data w1 j = (r @ c) ! j) \<and> arr data w1 1024 = arr data w 1024"
proof -
  have n: "of_int (1024 - int (length r)) = (of_nat (1024 - length r) :: u32)" using r(2) by (simp add: of_nat_diff)
  have un: "unat (of_nat (1024 - length r) :: u32) = 1024 - length r" by (intro unat_u32_of_nat) simp
  then have pos: "(0 :: u32) < of_nat (1024 - length r)" using r(2) by (simp add: word_less_nat_alt del: of_nat_diff)
  have u: "uaddr (data + of_nat (length r))" "off (data + of_nat (length r)) = off data + of_nat (length r)" using b r(2) by (simp_all add: array_at_def)
  obtain w1 where w1: "int80 os 3 (of_nat i) (data + of_nat (length r)) (of_nat (1024 - length r)) w = Some (Inr (of_nat (length c), w1))" "good w1"
    "mem_of os w1 page = stores (mem_of os w) (page, off data + of_nat (length r)) c page"
    "view w1 = (view w)\<lparr>v_fds := (v_fds (view w))(i := Some (Reads (drop (1024 - length r) ys)))\<rparr>"
    using read_file [OF g u(1) i fd pos] unfolding un u(2) c_def by blast
  have lc: "length r + length c \<le> 1024" using r(2) by (simp add: c_def)
  have a: "arr data w1 j = (if length r \<le> j \<and> j < length r + length c then c ! (j - length r) else arr data w j)" if "j \<le> 1024" for j
  proof (cases "length r \<le> j")
    case True
    then have "(off data + of_nat j) - (off data + of_nat (length r)) = (of_nat (j - length r) :: u32)" by (simp add: of_nat_diff)
    moreover have "unat (of_nat (j - length r) :: u32) = j - length r" using that by (intro unat_u32_of_nat) simp
    ultimately show ?thesis using True w1(3) by (auto simp: ld_def stores_def simp del: of_nat_diff)
  next
    case False
    have "(off data + of_nat j) - (off data + of_nat (length r)) = (of_nat (2 ^ 32 + j - length r) :: u32)" using r(2) by (simp add: of_nat_diff)
    moreover have "unat (of_nat (2 ^ 32 + j - length r) :: u32) = 2 ^ 32 + j - length r" using False by (intro unat_u32_of_nat) simp
    ultimately show ?thesis using False w1(3) lc r(2) by (auto simp: ld_def stores_def simp del: of_nat_diff)
  qed
  have out: "mem_of os w1 page x = mem_of os w page x" if x: "1025 \<le> unat (x - off data)" for x
  proof -
    have "unat (x - off data - of_nat (length r)) = unat (x - off data) - length r"
      using x r(2) unat_u32_of_nat [of "length r"] by (subst unat_sub) (simp_all add: word_le_nat_alt)
    then have "\<not> unat (x - (off data + of_nat (length r))) < length c" using x lc by (simp add: diff_diff_eq)
    then show ?thesis using w1(3) by (simp add: stores_def)
  qed
  have "arr data w1 j = (r @ c) ! j" if "j < length (r @ c)" for j using a [of j] that lc r(1) by (auto simp: nth_append)
  moreover have "arr data w1 1024 = arr data w 1024" using a [of 1024] lc by simp
  ultimately show ?thesis using w1(1,2,4) out unfolding n ece391_read_def by blast
qed

text \<open>The same, with the descriptor \<open>i\<close> closed at the end.\<close>

definition outs_closing :: "u32 \<Rightarrow> nat \<Rightarrow> u8 list list \<Rightarrow> 'w \<Rightarrow> 'w \<Rightarrow> bool" where
  "outs_closing data i xss w w' \<longleftrightarrow> good w' \<and>
     view w' = (view w)\<lparr>v_screen := fold shown xss (v_screen (view w)), v_fds := (v_fds (view w))(i := None)\<rparr> \<and>
     (\<forall>a. 1025 \<le> unat (a - off data) \<longrightarrow> mem_of os w' page a = mem_of os w page a)"

lemma grep_close_spec:
  assumes "good w" and "2 \<le> i" "i < 8" and "v_fds (view w) i \<noteq> None"
  shows "\<exists>w'. grep_close os la (of_nat i) w = Some (Inr (0, w')) \<and> outs_closing data i [] w w'"
proof -
  have u: "unat (of_nat i :: u32) = i" using assms(3) by (intro unat_u32_of_nat) simp
  have "v_close (of_nat i) (view w) = (0, (view w)\<lparr>v_fds := (v_fds (view w))(i := None)\<rparr>)"
    using assms u by (auto simp: v_close_def word_less_nat_alt)
  then show ?thesis using call_close [OF assms(1), of "of_nat i"] by (auto simp: grep_close_def ece391_close_def outs_closing_def)
qed

lemma grep_loop_spec:
  assumes b: "buffer data" and z: "z \<noteq> []" "hd z < 0x80" and i: "2 \<le> i" "i < 8"
    and "good w" and "strs data la s z fname nm w" and "v_fds (view w) i = Some (Reads ys)" and "arr data w 1024 \<noteq> 0x0A"
    and "\<And>j. j < length r \<Longrightarrow> arr data w j = r ! j" and "length r \<le> 1023" and "plain_text r"
    and "text_of ls t = r @ ys" and "list_all plain_text (ls @ [t])" and "\<forall>l\<in>set (ls @ [t]). length l \<le> 1023"
  shows "\<exists>w'. grep_loop os la s (of_nat (length z)) fname data (of_nat i) (int (length r)) w = Some (Inr (0, w')) \<and>
    outs_closing data i (concat (map (report z nm) (ls @ [t]))) w w'"
  using assms(6-15)
proof (induction ys arbitrary: w r ls t rule: measure_induct_rule [where f = length])
  case (less ys)
  let ?c = "take (1024 - length r) ys" and ?rest = "drop (1024 - length r) ys" and ?rep = "\<lambda>ls. concat (map (report z nm) ls)"
  let ?n = "length (r @ ?c)"
  obtain w1 where w1: "ece391_read os (of_nat i) (data + of_nat (length r)) (of_int (1024 - int (length r))) w = Some (Inr (of_nat (length ?c), w1))"
    "good w1" "view w1 = (view w)\<lparr>v_fds := (v_fds (view w))(i := Some (Reads ?rest))\<rparr>"
    "\<forall>a. 1025 \<le> unat (a - off data) \<longrightarrow> mem_of os w1 page a = mem_of os w page a"
    "\<forall>j<?n. arr data w1 j = (r @ ?c) ! j" "arr data w1 1024 = arr data w 1024"
    using grep_read [OF b less.prems(1) i less.prems(3,5,6)] by blast
  have n: "?n \<le> 1024" using less.prems(6) by simp
  have s1: "strs data la s z fname nm w1" using less.prems(2) str_at_outs [of data w _ _ w1] w1(4) by blast
  have "text_of ls t = (r @ ?c) @ ?rest" using less.prems(8) by simp
  from text_prefix [OF this less.prems(9)] obtain ls1 ls2 t1 where sp: "ls = ls1 @ ls2" "r @ ?c = text_of ls1 t1" "plain_text t1" "t1 @ ?rest = text_of ls2 t"
    by blast
  have p1: "list_all plain_text (ls1 @ [t1])" using less.prems(9) sp by simp
  let ?cnt = "of_nat (length ?c) :: u32"
  define carry where "carry \<longleftrightarrow> t1 \<noteq> [] \<and> arr data w1 ?n \<noteq> 0x0A \<and> ?cnt \<noteq> 0 \<and> ((0 :: nat) \<noteq> 0 \<or> ls1 \<noteq> [])"
  have a1: "arr data w1 (0 + j) = text_of ls1 t1 ! j" if "j < ?n - 0" for j using w1(5) that sp(2) by simp
  have len: "length (text_of ls1 t1) = ?n - 0" unfolding sp(2) by simp
  obtain w2 where w2: "grep_lines os la s (of_nat (length z)) fname data ?cnt (int ?n) (int 0) w1 = Some (Inr (int (if carry then length t1 else 0), w2))"
    "outs data (?rep (if carry then ls1 else ls1 @ [t1])) w1 w2" "carry \<longrightarrow> (\<forall>j<length t1. arr data w2 j = t1 ! j)"
    "arr data w1 1024 \<noteq> 0x0A \<longrightarrow> arr data w2 1024 \<noteq> 0x0A"
    using grep_lines_spec [OF b z n p1 w1(2) s1 a1 len, of ?cnt, folded carry_def] by blast
  have lc: "length ?c < 2 ^ 31" by (rule le_less_trans [of _ 1024]) simp_all
  have uc: "unat ?cnt = length ?c" using lc by (intro unat_u32_of_nat) simp
  have "sint ?cnt = int (unat ?cnt)" by (rule sint_u32_small) (use lc in \<open>simp only: uc\<close>)
  then have sc: "int (length r) + sint ?cnt = int ?n" unfolding uc by simp
  have "length ?c = 0 \<longleftrightarrow> ys = []" using less.prems(6) by (auto simp: min_def split: if_splits)
  then have c0: "0 = ?cnt \<longleftrightarrow> ys = []" using uc by (metis unat_eq_0)
  have step: "grep_loop os la s (of_nat (length z)) fname data (of_nat i) (int (length r)) w =
    (if ys = [] then grep_close os la (of_nat i) w2
     else grep_loop os la s (of_nat (length z)) fname data (of_nat i) (int (if carry then length t1 else 0)) w2)"
    using w1(1) w2(1) small_not_minus_one [OF lc] c0 sc by (subst grep_loop.simps) (auto simp: of_int_of_nat_eq)
  have fd2: "v_fds (view w2) i = Some (Reads ?rest)" using w2(2) w1(3) by (simp add: outs_def)
  have glue: "outs_closing data i (?rep (if carry then ls1 else ls1 @ [t1]) @ xss) w w'" if "outs_closing data i xss w2 w'" for xss w'
    using that w2(2) w1(3,4) by (simp add: outs_closing_def outs_def)
  note s2 = strs_moves [OF s1 w2(2)] and g2 = outs_good [OF w2(2)]
  show ?case
  proof (cases "ys = []")
    case True
    then have "plain_text (text_of ls t)" using less.prems(7,8) by simp
    then have e: "ls = []" "t = r" using text_one_line [of ls t] less.prems(8) True by auto
    have "ls1 = []" "t1 = r" using sp(1,2) e True by auto
    then have nc: "\<not> carry" by (simp add: carry_def)
    obtain w' where "grep_close os la (of_nat i) w2 = Some (Inr (0, w'))" "outs_closing data i [] w2 w'"
      using grep_close_spec [OF g2 i] fd2 by blast
    then show ?thesis using step True glue [of "[]" w'] nc e \<open>ls1 = []\<close> \<open>t1 = r\<close> by auto
  next
    case False
    have sh: "length ?rest < length ys" unfolding length_drop by (rule diff_less) (use False less.prems(6) in auto)
    have k2: "arr data w2 1024 \<noteq> 0x0A" using w2(4) w1(6) less.prems(4) by simp
    show ?thesis
    proof (cases carry)
      case True
      have "length t1 \<le> 1023" using sp(2) n True text_of_length [of t1 "tl ls1"] by (cases ls1) (auto simp: carry_def)
      moreover have "arr data w2 j = t1 ! j" if "j < length t1" for j using w2(3) True that by simp
      ultimately obtain w' where w': "grep_loop os la s (of_nat (length z)) fname data (of_nat i) (int (length t1)) w2 = Some (Inr (0, w'))"
        "outs_closing data i (?rep (ls2 @ [t])) w2 w'"
        using less.IH [OF sh g2 s2 fd2 k2 _ _ sp(3) sp(4) [symmetric]] less.prems(9,10) sp(1) by auto
      then show ?thesis using step False True glue [OF w'(2)] sp(1) by (intro exI [of _ w']) simp
    next
      case nc: False
      obtain ls' t' where rest: "text_of ls' t' = ?rest" "list_all plain_text (ls' @ [t'])" "\<forall>l\<in>set (ls' @ [t']). length l \<le> 1023"
        "?rep (ls1 @ [t1]) @ ?rep (ls' @ [t']) = ?rep (ls @ [t])"
      proof (cases "t1 = []")
        case True
        then show thesis using that [of ls2 t] sp less.prems(9,10) by simp
      next
        case t1: False
        have "?rest = []"
        proof (rule ccontr)
          assume rest: "?rest \<noteq> []"
          then have full: "?n = 1024" using less.prems(6) by (simp add: min_def split: if_splits)
          have "arr data w1 ?n \<noteq> 0x0A" unfolding full using w1(6) less.prems(4) by simp
          then have "ls1 = []" using nc t1 c0 False unfolding carry_def by auto
          then have "length t1 = 1024" using sp(2) full by simp
          moreover obtain l where "l \<in> set (ls2 @ [t])" "length t1 \<le> length l" using long_line [OF sp(4,3) t1 rest] by blast
          ultimately show False using less.prems(10) sp(1) by force
        qed
        then have e: "text_of ls2 t = t1" using sp(4) by simp
        then have "ls2 = []" using text_one_line [of ls2 t] sp(3) by simp
        then show thesis using that [of "[]" "[]"] \<open>?rest = []\<close> e sp(1) by (simp add: plain_text_def)
      qed
      have pr: "plain_text []" by (simp add: plain_text_def)
      obtain w' where w': "grep_loop os la s (of_nat (length z)) fname data (of_nat i) (int (length ([] :: u8 list))) w2 = Some (Inr (0, w'))"
        "outs_closing data i (?rep (ls' @ [t'])) w2 w'"
        using less.IH [OF sh g2 s2 fd2 k2 _ _ pr _ rest(2,3)] rest(1) by auto
      then show ?thesis using step False nc glue [OF w'(2)] rest(4) by (intro exI [of _ w']) simp
    qed
  qed
qed

theorem do_one_file_spec:
  assumes b: "buffer data" and z: "z \<noteq> []" "hd z < 0x80" and i: "2 \<le> i" "i < 8" "v_fds (view w) i = None" "\<And>j. 2 \<le> j \<Longrightarrow> j < i \<Longrightarrow> v_fds (view w) j \<noteq> None"
    and g: "good w" and s: "strs data la s z fname nm w" and nl: "arr data w 1024 \<noteq> 0x0A" and nm: "length nm \<le> 31"
    and d: "v_disk (view w) nm = Some (Reads (text_of ls t))" and p: "list_all plain_text (ls @ [t])" "\<forall>l\<in>set (ls @ [t]). length l \<le> 1023"
  shows "\<exists>w'. do_one_file os la data s fname w = Some (Inr (0, w')) \<and> outs data (concat (map (report z nm) (ls @ [t]))) w w'"
proof -
  have vo: "v_open nm (view w) = (of_nat i, (view w)\<lparr>v_fds := (v_fds (view w))(i := Some (Reads (text_of ls t)))\<rparr>)"
    by (rule v_open_found [OF d i])
  have f: "uaddr fname" "cstr (mem_of os w) (page, off fname) nm" "uaddr s" "cstr (mem_of os w) (page, off s) z" using s by (simp_all add: str_at_def)
  obtain w1 where w1: "int80 os 5 fname 0 0 w = Some (Inr (of_nat i, w1))" "good w1" "mem_of os w1 page = mem_of os w page"
    "view w1 = (view w)\<lparr>v_fds := (v_fds (view w))(i := Some (Reads (text_of ls t)))\<rparr>"
    using call_open [OF g f(1,2) nm] unfolding vo by auto
  have s1: "strs data la s z fname nm w1" using s str_at_outs [of data w _ _ w1] w1(3) by simp
  have l: "ece391_strlen (mem_of os w) (at_addr os w s) = Some (of_nat (length z))"
    unfolding addr [OF g f(3)] by (rule ece391_strlen_cstr [OF f(4)])
  have fd: "v_fds (view w1) i = Some (Reads (text_of ls t))" "arr data w1 1024 \<noteq> 0x0A" using w1(3,4) nl by (simp_all add: ld_def)
  have pn: "plain_text []" by (simp add: plain_text_def)
  obtain w' where w': "grep_loop os la s (of_nat (length z)) fname data (of_nat i) (int (length ([] :: u8 list))) w1 = Some (Inr (0, w'))"
    "outs_closing data i (concat (map (report z nm) (ls @ [t]))) w1 w'"
    using grep_loop_spec [OF b z i(1,2) w1(2) s1 fd(1,2) _ _ pn _ p] by auto
  have "(of_nat i :: u32) \<noteq> - 1" by (rule small_not_minus_one) (use i(2) in simp)
  then have "do_one_file os la data s fname w = Some (Inr (0, w'))"
    using w1(1) w'(1) by (auto simp: do_one_file_def l ece391_open_def)
  moreover have "outs data (concat (map (report z nm) (ls @ [t]))) w w'"
    using w'(2) w1(3,4) i(3) by (auto simp: outs_closing_def outs_def fun_upd_idem)
  ultimately show ?thesis by blast
qed

end

end
