(* ===== verification/Protection.thy ===== *)
theory Protection
  imports Process Rtc
begin

text \<open>
  Memory protection for the whole kernel: a step relation that interleaves user code, system calls,
  clock ticks and key presses in any order, and the invariant of directories, slots and terminal
  table that every step keeps.
\<close>

subsection \<open>What an operation leaves if it returns\<close>

named_theorems wp_simps
named_theorems wp_rules

definition wlp :: "'a res \<Rightarrow> ('a \<Rightarrow> bool) \<Rightarrow> bool" where
  "wlp r Q \<longleftrightarrow> (\<forall>x. r = Inr x \<longrightarrow> Q x)"

definition owlp :: "'a run \<Rightarrow> ('a \<Rightarrow> bool) \<Rightarrow> bool" where
  "owlp r Q \<longleftrightarrow> (\<forall>x. r = Some (Inr x) \<longrightarrow> Q x)"

lemma wlp_simps [wp_simps]:
  "wlp (Inr x) Q = Q x" "wlp (Inl e) Q" "wlp (rbind r f) Q = wlp r (\<lambda>x. wlp (f x) Q)"
  "wlp (aget nm xs i) P = (0 \<le> i \<longrightarrow> i < int (length xs) \<longrightarrow> P (xs ! nat i))"
  "wlp (aset nm xs i v) R = (0 \<le> i \<longrightarrow> i < int (length xs) \<longrightarrow> R (xs[nat i := v]))"
  by (auto simp: wlp_def rbind_def aget_def aset_def split: sum.splits)

lemma owlp_simps [wp_simps]:
  "owlp None Q" "owlp (Some r) Q = wlp r Q" "owlp (obind p f) R = owlp p (\<lambda>x. owlp (f x) R)"
  by (auto simp: owlp_def wlp_def obind_def split: option.splits sum.splits)

lemma wlp_mono: "wlp r P \<Longrightarrow> (\<And>x. P x \<Longrightarrow> Q x) \<Longrightarrow> wlp r Q"
  by (simp add: wlp_def)

lemma owlp_mono: "owlp r P \<Longrightarrow> (\<And>x. P x \<Longrightarrow> Q x) \<Longrightarrow> owlp r Q"
  by (simp add: owlp_def)

lemma wlp_for_each:
  assumes "\<And>i t. I t \<Longrightarrow> wlp (body i t) I" and "I s" and "\<And>t. I t \<Longrightarrow> Q t"
  shows "wlp (for_each_res is body s) Q"
  using assms(2)
proof (induction "is" arbitrary: s)
  case (Cons i "is")
  show ?case unfolding for_each_res.simps wlp_simps by (rule wlp_mono [OF assms(1) [OF Cons.prems]]) (rule Cons.IH)
qed (simp add: wlp_simps assms(3))

subsection \<open>Operations that leave the address spaces alone\<close>

text \<open>What protection depends on: directories, page table, slots and the size of the terminal table.\<close>

definition maps :: "'a sched_scheme \<Rightarrow> (nat \<Rightarrow> nat \<Rightarrow> u32) \<times> (nat \<Rightarrow> u32) \<times> u32 \<times> u8 list \<times> nat" where
  "maps s = (PDE s, PTE s, PTE_base s, proc s, length (term_init s))"

lemma maps_simps [simp]:
  "maps (outb v p s) = maps s" "maps (snd (inb hw p s)) = maps s" "maps (cli s) = maps s" "maps (sti s) = maps s"
  by (simp_all add: maps_def outb_def inb_def cli_def sti_def Let_def)

lemma maps_send_eoi [simp]: "maps (send_eoi n s) = maps s"
proof -
  obtain es where "send_eoi n s = s\<lparr>io := io s @ es\<rparr>" using send_eoi_io [of n s] by blast
  then show ?thesis by (simp add: maps_def)
qed

lemma maps_updates [simp]:
  "maps (s\<lparr>screen_x := x\<rparr>) = maps s" "maps (s\<lparr>screen_y := y\<rparr>) = maps s" "maps (s\<lparr>frames := f\<rparr>) = maps s"
  "maps (s\<lparr>scr_buf := b\<rparr>) = maps s" "maps (k\<lparr>kbuf := kb\<rparr>) = maps k" "maps (k\<lparr>buf_index := bi\<rparr>) = maps k"
  "maps (k\<lparr>ind_entered := ie\<rparr>) = maps k" "maps (k\<lparr>fflag := ff\<rparr>) = maps k" "maps (k\<lparr>capson := c1\<rparr>) = maps k"
  "maps (k\<lparr>shift_on := c2\<rparr>) = maps k" "maps (k\<lparr>ctrl_on := c3\<rparr>) = maps k" "maps (k\<lparr>alt_on := c4\<rparr>) = maps k"
  "maps (u\<lparr>bg_term := b2\<rparr>) = maps u" "maps (u\<lparr>active_term := a2\<rparr>) = maps u" "maps (u\<lparr>fake_sti := f2\<rparr>) = maps u"
  "maps (u\<lparr>cursor_pos := cp\<rparr>) = maps u" "maps (u\<lparr>proc_esp := e1\<rparr>) = maps u" "maps (u\<lparr>proc_ebp := e2\<rparr>) = maps u"
  "maps (u\<lparr>proc_active := pa\<rparr>) = maps u" "maps (u\<lparr>cr3 := r3\<rparr>) = maps u" "maps (u\<lparr>esp := sp\<rparr>) = maps u" "maps (u\<lparr>ebp := bp\<rparr>) = maps u"
  "maps (u\<lparr>tss_ss0 := t1\<rparr>) = maps u" "maps (u\<lparr>tss_esp0 := t2\<rparr>) = maps u" "maps (u\<lparr>tss_esp := t3\<rparr>) = maps u" "maps (u\<lparr>tss_ebp := t4\<rparr>) = maps u"
  "maps (q\<lparr>ram := m\<rparr>) = maps q" "maps (q\<lparr>pcbs := pc\<rparr>) = maps q" "maps (g\<lparr>dir_index := di\<rparr>) = maps g" "maps (r\<lparr>interrupt_count := ic\<rparr>) = maps r"
  by (simp_all add: maps_def)

lemma maps_change_coord [simp]: "maps (change_coord x y s) = maps s" "maps (change_coord_silent x y s) = maps s"
  by (simp_all add: change_coord_eq maps_def change_coord_silent_def)

text \<open>\<open>still s\<close>: the address spaces are those of \<open>s\<close>.\<close>

abbreviation still :: "'b sched_scheme \<Rightarrow> 'a sched_scheme \<Rightarrow> bool" where
  "still s t \<equiv> maps t = maps s"

lemma video_put_still [wp_rules]: "(\<And>t. still s t \<Longrightarrow> Q t) \<Longrightarrow> wlp (video_put off v s) Q"
  by (simp add: video_put_def Let_def wp_simps)

lemma scr_set_still [wp_rules]: "(\<And>t. still s t \<Longrightarrow> Q t) \<Longrightarrow> wlp (scr_set i v s) Q"
  by (simp add: scr_set_def wp_simps)

lemma scr_get_still [wp_rules]: "(\<And>c. Q c) \<Longrightarrow> wlp (scr_get i s) Q"
  by (simp add: wlp_def)

lemma shift_down_still [wp_rules]: "(\<And>t. still s t \<Longrightarrow> Q t) \<Longrightarrow> wlp (shift_down s) Q"
  unfolding shift_down_def wlp_simps
proof (rule wlp_for_each [where I = "still s"], goal_cases)
  case (3 t)
  then show ?case by (intro wlp_for_each [where I = "still s"]) (auto simp: wp_simps intro!: wp_rules)
qed (auto simp: wp_simps intro!: wp_rules)

lemma clear_still [wp_rules]: "(\<And>t. still s t \<Longrightarrow> Q t) \<Longrightarrow> wlp (clear s) Q"
  unfolding clear_def wlp_simps
  by (rule wlp_for_each [where I = "still s"]) (auto simp: wp_simps intro!: wp_rules)

lemma putc_still [wp_rules]: "(\<And>t. still s t \<Longrightarrow> Q t) \<Longrightarrow> wlp (putc c s) Q"
  unfolding putc_def wlp_simps
  by (auto simp: wp_simps Let_def intro!: wp_rules)

lemma puts_still [wp_rules]: "(\<And>t. still s t \<Longrightarrow> Q t) \<Longrightarrow> wlp (for_each_res cs putc s) Q"
  by (rule wlp_for_each [where I = "still s"]) (auto intro!: wp_rules)

subsection \<open>Keyboard and terminal\<close>

lemma index_still [wp_rules]:
  "(\<And>c. P c) \<Longrightarrow> wlp (get_buf_index s) P"
  "(\<And>t. still s t \<Longrightarrow> Q t) \<Longrightarrow> wlp (set_buf_index i s) Q"
  "(\<And>t. still s t \<Longrightarrow> Q t) \<Longrightarrow> wlp (set_ind_entered i s) Q"
  "(\<And>t. still s t \<Longrightarrow> Q t) \<Longrightarrow> wlp (buf_put n i v s) Q"
  by (simp_all add: get_buf_index_def set_buf_index_def set_ind_entered_def buf_put_def wp_simps)

lemma rub_out_still [wp_rules]: "(\<And>t. still s t \<Longrightarrow> Q t) \<Longrightarrow> wlp (rub_out s) Q"
  unfolding rub_out_def by (auto simp: wp_simps intro!: wp_rules)

lemma backspacing_still [wp_rules]: "(\<And>t. still s t \<Longrightarrow> Q t) \<Longrightarrow> wlp (backspacing b s) Q"
  unfolding backspacing_def by (auto simp: wp_simps intro!: wp_rules)

lemma check_buf_still [wp_rules]: "(\<And>t. still s t \<Longrightarrow> Q t) \<Longrightarrow> wlp (check_buf n x s) Q"
  unfolding check_buf_def
  by (auto simp: wp_simps simp del: upt_rec_numeral intro!: wp_rules wlp_for_each [where I = "still s"])

lemma done_still [simp]: "maps (done_kbd_handle s) = maps s"
  by (simp add: done_kbd_handle_def)

lemma key_store_still [wp_rules]: "(\<And>t. still s t \<Longrightarrow> Q t) \<Longrightarrow> owlp (key_store x s) Q"
  unfolding key_store_def by (auto simp: wp_simps intro!: wp_rules)

lemma row_strcpy_any [wp_rules]: "(\<And>m'. Q m') \<Longrightarrow> wlp (row_strcpy m dest row i) Q"
  by (simp add: wlp_def)

lemma clear_buffer_still [wp_rules]: "(\<And>m' t. still s t \<Longrightarrow> Q (m', t)) \<Longrightarrow> wlp (clear_buffer m n buf s) Q"
  unfolding clear_buffer_def
  by (auto simp: wp_simps intro!: wp_rules wlp_for_each [where I = "still s"])

lemma write_terminal_still [wp_rules]: "(\<And>r t. still s t \<Longrightarrow> Q (r, t)) \<Longrightarrow> wlp (write_terminal m buf n s) Q"
  unfolding write_terminal_def wlp_simps
  by (rule wlp_for_each [where I = "still s"]) (auto simp: wp_simps intro!: wp_rules)

subsection \<open>The invariant\<close>

definition pinv :: "'a sched_scheme \<Rightarrow> bool" where
  "pinv s \<longleftrightarrow> dir_inv s \<and> slots_inv s \<and> length (term_init s) = 3"

lemma pinv_still: "still s t \<Longrightarrow> pinv s \<Longrightarrow> pinv t"
  by (simp add: maps_def pinv_def dir_inv_def slots_inv_def)

lemma pinv_change_pte: "pinv s \<Longrightarrow> unat v < 1024 \<Longrightarrow> pinv (change_pte i v s)"
  using change_pte_dir_inv [of s v i] by (simp add: pinv_def slots_inv_def change_pte_def pte_set_def)

text \<open>Interrupts and the start of a shell are parameters; \<open>safe f\<close> says that \<open>f\<close> keeps the invariant.\<close>

definition safe :: "('a sched_scheme \<Rightarrow> 'a sched_scheme run) \<Rightarrow> bool" where
  "safe f \<longleftrightarrow> (\<forall>s. pinv s \<longrightarrow> owlp (f s) pinv)"

lemma safeD: "safe f \<Longrightarrow> pinv s \<Longrightarrow> (\<And>t. pinv t \<Longrightarrow> Q t) \<Longrightarrow> owlp (f s) Q"
  by (auto simp: safe_def intro: owlp_mono)

lemma save_still [wp_rules]:
  "(\<And>t. still s t \<Longrightarrow> Q t) \<Longrightarrow> wlp (save_stack s) Q" "(\<And>t. still c t \<Longrightarrow> R t) \<Longrightarrow> wlp (save_cursor c) R"
  by (simp_all add: save_stack_def save_cursor_def wp_simps)

lemma run_proc_still [wp_rules]: "(\<And>t. still s t \<Longrightarrow> Q t) \<Longrightarrow> wlp (run_proc e n s) Q"
  by (simp add: run_proc_def wp_simps Let_def)

lemma page_copy_still [simp]: "maps (page_copy i j s) = maps s"
  by (simp add: page_copy_def)

lemma next_term_range: "owlp (next_term ti b) (\<lambda>r. 0 \<le> r \<and> r < int (length ti))"
  unfolding owlp_def
proof (intro allI impI)
  fix x assume nt: "next_term ti b = Some (Inr x)"
  have "case r of Inl e \<Rightarrow> True | Inr r \<Rightarrow> 0 \<le> r \<and> r < int (length ti)" if "next_term ti b = Some r" for r
    using that
  proof (rule next_term.raw_induct [where P = "\<lambda>ti b r. case r of Inl e \<Rightarrow> True | Inr r \<Rightarrow> 0 \<le> r \<and> r < int (length ti)", rotated])
    fix f :: "int list \<Rightarrow> int \<Rightarrow> int run" and ti :: "int list" and b :: int and r
    assume IH: "\<And>ti b r. f ti b = Some r \<Longrightarrow> (case r of Inl e \<Rightarrow> True | Inr r \<Rightarrow> 0 \<le> r \<and> r < int (length ti))"
      and st: "(let b = b + 1; b = if b = 3 then 0 else b
        in case aget ''term_init'' ti b of Inl e \<Rightarrow> Some (Inl e) | Inr v \<Rightarrow> if v \<noteq> 1 then f ti b else Some (Inr b)) = Some r"
    define b' where "b' = (if b + 1 = 3 then 0 else b + 1)"
    have "(case aget ''term_init'' ti b' of Inl e \<Rightarrow> Some (Inl e) | Inr v \<Rightarrow> if v \<noteq> 1 then f ti b' else Some (Inr b')) = Some r"
      using st [unfolded Let_def, folded b'_def] .
    then show "case r of Inl e \<Rightarrow> True | Inr r \<Rightarrow> 0 \<le> r \<and> r < int (length ti)"
      using IH [of ti b' r] by (cases "aget ''term_init'' ti b'") (auto simp: aget_def split: if_splits)
  qed
  from this [OF nt] show "0 \<le> x \<and> x < int (length ti)" by simp
qed

lemma unat_small_int: "0 \<le> b \<Longrightarrow> b < 1024 \<Longrightarrow> unat (word_of_int b :: u32) < 1024"
  by (simp add: unat_eq_nat_uint uint_word_of_int)

lemma run_proc_pinv: "pinv s \<Longrightarrow> wlp (run_proc e n s) pinv"
  by (rule run_proc_still) (rule pinv_still)

lemma draw_pinv:
  assumes "pinv u" and "0 \<le> bg_term u" "bg_term u < 3"
  shows "pinv (if active_term u = bg_term u then change_pte 0xB8 0xB8 (change_coord x y u)
      else change_pte 0xB8 (word_of_int (bg_term u)) (change_coord_silent x y u))"
proof -
  have "pinv (change_coord x y u)" "pinv (change_coord_silent x y u)" using assms(1) by (auto intro: pinv_still [where s = u])
  moreover have "unat (word_of_int (bg_term u) :: u32) < 1024" using assms by (intro unat_small_int) simp_all
  ultimately show ?thesis by (simp add: pinv_change_pte)
qed

lemma do_events_safe: "safe (do_events :: 'a console_scheme \<Rightarrow> 'a console_scheme run)"
  unfolding safe_def
proof (intro allI impI)
  fix s :: "'a console_scheme" assume inv: "pinv s"
  have tail: "owlp (next_term (term_init t) (bg_term t)) (\<lambda>b.
      owlp (let s = t\<lparr>bg_term := b\<rparr> in obind (Some (aget ''cursor_pos'' (cursor_pos s) (bg_term s))) (\<lambda>(x, y).
         let s = (if active_term s = bg_term s then change_pte 0xB8 0xB8 (change_coord x y s)
                  else change_pte 0xB8 (word_of_int (bg_term s)) (change_coord_silent x y s))
         in Some (run_proc 8 (bg_term s) s))) pinv)" if t: "still s t" for t
  proof (rule owlp_mono [OF next_term_range])
    fix b assume "0 \<le> b \<and> b < int (length (term_init t))"
    moreover have "pinv t" using t inv by (rule pinv_still)
    ultimately have b: "pinv (t\<lparr>bg_term := b\<rparr>)" "0 \<le> b" "b < 3" by (auto intro: pinv_still [where s = t]) (simp_all add: pinv_def)
    have "wlp (run_proc 8 n (if active_term (t\<lparr>bg_term := b\<rparr>) = bg_term (t\<lparr>bg_term := b\<rparr>) then change_pte 0xB8 0xB8 (change_coord x y (t\<lparr>bg_term := b\<rparr>))
      else change_pte 0xB8 (word_of_int (bg_term (t\<lparr>bg_term := b\<rparr>))) (change_coord_silent x y (t\<lparr>bg_term := b\<rparr>)))) pinv" for n x y
      by (rule run_proc_pinv [OF draw_pinv [OF b(1)]]) (use b in simp_all)
    then show "owlp (let s = t\<lparr>bg_term := b\<rparr> in obind (Some (aget ''cursor_pos'' (cursor_pos s) (bg_term s))) (\<lambda>(x, y).
         let s = (if active_term s = bg_term s then change_pte 0xB8 0xB8 (change_coord x y s)
                  else change_pte 0xB8 (word_of_int (bg_term s)) (change_coord_silent x y s))
         in Some (run_proc 8 (bg_term s) s))) pinv"
      unfolding Let_def wp_simps by (auto simp only: wp_simps split: prod.split)
  qed
  have "owlp (obind (Some (save_stack s)) (\<lambda>s. obind (Some (save_cursor s)) (\<lambda>s.
          obind (next_term (term_init s) (bg_term s)) (\<lambda>b.
          let s = s\<lparr>bg_term := b\<rparr>
          in obind (Some (aget ''cursor_pos'' (cursor_pos s) (bg_term s))) (\<lambda>(x, y).
             let s = (if active_term s = bg_term s
                      then change_pte 0xB8 0xB8 (change_coord x y s)
                      else change_pte 0xB8 (word_of_int (bg_term s)) (change_coord_silent x y s))
             in Some (run_proc 8 (bg_term s) s)))))) pinv"
    unfolding owlp_simps by (intro wp_rules tail) simp
  then show "owlp (do_events s) pinv"
    unfolding do_events_def Let_def using inv by (simp add: wp_simps)
qed

text \<open>Terminal switching and the interrupt handlers.\<close>

lemma term_init_upd: "pinv s \<Longrightarrow> pinv (s\<lparr>term_init := (term_init s)[i := v]\<rparr>)"
  by (simp add: pinv_def dir_inv_def slots_inv_def)

lemma clear_pinv: "pinv s \<Longrightarrow> (\<And>t. pinv t \<Longrightarrow> Q t) \<Longrightarrow> wlp (clear s) Q"
  by (rule clear_still) (auto intro: pinv_still)

lemma switchTerm_start:
  assumes "safe ex" and "pinv s"
  shows "owlp (obind (Some (aset ''term_init'' (term_init s) (active_term s) 1)) (\<lambda>ti.
     obind (Some (clear (s\<lparr>term_init := ti\<rparr>))) (\<lambda>s.
     let s = send_eoi 1 (sti s); s = s\<lparr>fake_sti := False\<rparr> in ex s))) pinv"
  unfolding owlp_simps wlp_simps Let_def
proof (intro impI clear_pinv)
  show "pinv (s\<lparr>term_init := (term_init s)[nat (active_term s) := 1]\<rparr>)" using assms(2) by (rule term_init_upd)
next
  fix t :: "'a console_scheme" assume "pinv t"
  then have "pinv (send_eoi 1 (sti t)\<lparr>fake_sti := False\<rparr>)" by (auto intro: pinv_still [where s = t])
  then show "owlp (ex (send_eoi 1 (sti t)\<lparr>fake_sti := False\<rparr>)) pinv" using assms(1) by (simp add: safe_def)
qed

lemma switchTerm_resume:
  assumes "pinv s"
  shows "owlp (let s = page_copy 0xB8 (nat (1 + active_term s)) s
     in obind (Some (aget ''cursor_pos'' (cursor_pos s) (active_term s))) (\<lambda>(x, y).
        let s = change_coord x y s; s = s\<lparr>bg_term := num\<rparr>; s = s\<lparr>fake_sti := False\<rparr>
        in Some (run_proc 1 (active_term s) s))) pinv"
proof -
  have "pinv ((change_coord x y (page_copy 0xB8 i s))\<lparr>bg_term := num, fake_sti := False\<rparr>)" for x y i
    using assms by (auto intro: pinv_still [where s = s])
  then show ?thesis unfolding Let_def owlp_simps wlp_simps by (auto simp only: owlp_simps split: prod.split intro!: run_proc_pinv)
qed

lemma switchTerm_safe:
  assumes ex: "safe ex"
  shows "safe (switchTerm ex num)"
  unfolding safe_def
proof (intro allI impI)
  fix s :: "'a console_scheme" assume inv: "pinv s"
  define s1 where "s1 = (let s = s\<lparr>fake_sti := True\<rparr> in if active_term s = bg_term s then page_copy (nat (1 + active_term s)) 0xB8 s else s)"
  have s1: "still s s1" by (simp add: s1_def Let_def)
  have rest: "owlp (let s = change_pte 0xB8 0xB8 t; s = s\<lparr>active_term := num\<rparr>
     in obind (Some (aget ''term_init'' (term_init s) num)) (\<lambda>init.
        if init \<noteq> 0 then
          let s = page_copy 0xB8 (nat (1 + active_term s)) s
          in obind (Some (aget ''cursor_pos'' (cursor_pos s) (active_term s))) (\<lambda>(x, y).
             let s = change_coord x y s; s = s\<lparr>bg_term := num\<rparr>; s = s\<lparr>fake_sti := False\<rparr>
             in Some (run_proc 1 (active_term s) s))
        else
          let s = s\<lparr>bg_term := num\<rparr>
          in obind (Some (aset ''term_init'' (term_init s) (active_term s) 1)) (\<lambda>ti.
             obind (Some (clear (s\<lparr>term_init := ti\<rparr>))) (\<lambda>s.
             let s = send_eoi 1 (sti s); s = s\<lparr>fake_sti := False\<rparr> in ex s)))) pinv" if t: "still s1 t" for t
  proof -
    have "pinv t" using t s1 inv by (auto intro: pinv_still [where s = s])
    then have "pinv (change_pte 0xB8 0xB8 t)" by (rule pinv_change_pte) simp
    then have u: "pinv ((change_pte 0xB8 0xB8 t)\<lparr>active_term := num\<rparr>)" "pinv ((change_pte 0xB8 0xB8 t)\<lparr>active_term := num, bg_term := num\<rparr>)"
      by (auto intro: pinv_still [where s = "change_pte 0xB8 0xB8 t"])
    note r = switchTerm_resume [OF u(1), of num] switchTerm_start [OF ex u(2)]
    show ?thesis unfolding Let_def owlp_simps wlp_simps by (intro impI) (use r in \<open>simp add: Let_def wp_simps\<close>)
  qed
  show "owlp (switchTerm ex num s) pinv"
    unfolding switchTerm_def Let_def s1_def [unfolded Let_def, symmetric] owlp_simps
    by (intro wp_rules) (rule rest [unfolded Let_def owlp_simps], simp)
qed

lemma key_store_pinv: "pinv s \<Longrightarrow> owlp (key_store x s) pinv"
  by (rule key_store_still) (rule pinv_still)

lemma putc_store_pinv: "pinv s \<Longrightarrow> owlp (obind (Some (putc c s)) (key_store x)) pinv"
  unfolding owlp_simps by (rule putc_still) (rule key_store_pinv, rule pinv_still)

lemma done_pinv: "pinv s \<Longrightarrow> pinv (done_kbd_handle s)"
  by (rule pinv_still [where s = s]) simp_all

lemma caps_wlp:
  assumes "pinv s" and "\<And>x t. pinv t \<Longrightarrow> P (x, t)"
  shows "wlp (if b then rbind (putc c s) (\<lambda>s. Inr (d, s)) else Inr (x0, s)) P"
  by (auto simp: wp_simps intro!: putc_still assms(2) pinv_still [OF _ assms(1)])

lemma key_press_pinv:
  assumes ex: "safe ex" and inv: "pinv s"
  shows "owlp (key_press ex x0 sc s) pinv"
proof -
  have sw: "owlp (switchTerm ex n t) (\<lambda>t. owlp (key_store x t) pinv)" if "pinv t" for n x t
    by (rule safeD [OF switchTerm_safe [OF ex] that]) (rule key_store_pinv)
  have rest: "owlp (if alt_on t then
       let newTerm = uint sc - 0x3B
       in if newTerm < 6 \<and> 0 \<le> newTerm then obind (switchTerm ex newTerm t) (key_store x) else Some (Inr (done_kbd_handle t))
     else if shift_on t then
       if is_letter k then obind (Some (putc (k - 32) t)) (key_store (k - 32))
       else (case shift_symbol k of Some x \<Rightarrow> obind (Some (putc x t)) (key_store x) | None \<Rightarrow> key_store x t)
     else obind (Some (putc k t)) (key_store k)) pinv" if "pinv t" for t x k
    using that sw putc_store_pinv key_store_pinv done_pinv
    by (auto simp: Let_def wp_simps split: option.split)
  show ?thesis unfolding key_press_def owlp_simps wlp_simps(4)
    by (intro impI caps_wlp [OF inv]) (simp only: prod.case, rule rest)
qed

lemma keyboard_handler_safe:
  assumes ex: "safe ex"
  shows "safe (keyboard_handler hw ex x0)"
  unfolding safe_def
proof (intro allI impI)
  fix s :: "'a keyboard_scheme" assume inv: "pinv s"
  obtain sc u where io: "inb hw 0x60 s = (sc, u)" by (cases "inb hw 0x60 s")
  have "still s (cli u)" using maps_simps(2) [of hw "0x60" s] io by simp
  then have u: "pinv (cli u)" using inv by (rule pinv_still)
  have flags: "pinv (done_kbd_handle (cli u\<lparr>capson := b\<rparr>))" "pinv (done_kbd_handle (cli u\<lparr>shift_on := b\<rparr>))"
    "pinv (done_kbd_handle (cli u\<lparr>ctrl_on := b\<rparr>))" "pinv (done_kbd_handle (cli u\<lparr>alt_on := b\<rparr>))" for b
    using u by (auto intro: pinv_still [where s = "cli u"])
  have "wlp (backspacing True (cli u)) (\<lambda>s. pinv (done_kbd_handle s))"
    by (rule backspacing_still) (rule done_pinv, rule pinv_still [OF _ u])
  moreover have "wlp (for_each_res tab_text putc (cli u)) (\<lambda>s. wlp (check_buf 0 0x20 s) (\<lambda>s. pinv (done_kbd_handle s)))"
    by (rule puts_still, rule check_buf_still) (rule done_pinv, rule pinv_still [OF _ u], simp)
  moreover have "wlp (clear (cli u)) (\<lambda>s. pinv (done_kbd_handle (change_coord 0 0 s)))"
    by (rule clear_still) (rule done_pinv, rule pinv_still [OF _ u], simp)
  moreover note key_press_pinv [OF ex u, of x0 sc] done_pinv [OF u]
  ultimately show "owlp (keyboard_handler hw ex x0 s) pinv"
    unfolding keyboard_handler_def io
    by (simp add: Let_def wp_simps flags)
qed

lemma wait_fflag_pinv: "\<lbrakk> \<forall>f\<in>set irqs. safe f; pinv s \<rbrakk> \<Longrightarrow> owlp (wait_fflag irqs s) pinv"
proof (induction irqs arbitrary: s)
  case (Cons f irqs)
  have "owlp (f s) (\<lambda>t. owlp (wait_fflag irqs t) pinv)"
    by (rule safeD [of f]) (use Cons in auto)
  then show ?case using Cons.prems by (simp add: wp_simps)
qed (simp add: wp_simps)

lemma read_terminal_pinv:
  assumes "\<forall>f\<in>set irqs. safe f" and "pinv s" and "\<And>r m' t. pinv t \<Longrightarrow> Q (r, m', t)"
  shows "owlp (read_terminal irqs m buf n s) Q"
  unfolding read_terminal_def owlp_simps
proof (intro wp_rules, rule owlp_mono [OF wait_fflag_pinv [OF assms(1)]])
  fix t t' :: "'a keyboard_scheme" assume "still s t" "still t t'"
  then show "pinv t'" using assms(2) by (auto intro: pinv_still [where s = s])
next
  fix t :: "'a keyboard_scheme" assume "pinv t"
  then show "owlp (let s = t\<lparr>fflag := False\<rparr> in obind (Some (clear_buffer m n buf s)) (\<lambda>(m, s).
      obind (Some (aget ''ind_entered'' (ind_entered s) (active_term s))) (\<lambda>r. Some (Inr (r, m, s))))) Q"
    unfolding Let_def owlp_simps
    by (intro wp_rules) (auto simp: wp_simps intro!: assms(3) pinv_still [where s = t])
qed

lemma rtc_write_still [simp]: "maps (rtc_write hw f s) = maps s"
  by (simp add: rtc_write_def inb_def Let_def outb_def maps_def split: option.split)

lemma periodic_safe: "safe (periodic_interrupt_handler hw :: 'a rtc_scheme \<Rightarrow> 'a rtc_scheme run)"
  unfolding safe_def
proof (intro allI impI)
  fix s :: "'a rtc_scheme" assume "pinv s"
  then have "pinv (snd (inb hw CMOS_PORT (outb 0x0C RTC_PORT (cli s\<lparr>interrupt_count := True\<rparr>))))"
    by (auto intro: pinv_still [where s = s])
  then show "owlp (periodic_interrupt_handler hw s) pinv"
    unfolding periodic_interrupt_handler_def Let_def owlp_simps wlp_simps
    by (rule safeD [OF do_events_safe]) (auto intro: pinv_still)
qed

lemma rtc_read_pinv: "\<lbrakk> \<forall>f\<in>set irqs. safe f; pinv s; \<And>r t. pinv t \<Longrightarrow> Q (r, t) \<rbrakk> \<Longrightarrow> owlp (rtc_read irqs s) Q"
proof (induction irqs arbitrary: s)
  case Nil
  then show ?case by (auto simp: wp_simps intro!: Nil.prems(3) pinv_still [where s = s])
next
  case (Cons f irqs)
  have "owlp (f s) (\<lambda>t. owlp (rtc_read irqs t) Q)"
    by (rule safeD [of f]) (use Cons in auto)
  then show ?case using Cons.prems by (auto simp: wp_simps intro!: Cons.prems(3) pinv_still [where s = s])
qed

subsection \<open>System calls\<close>

lemma fd_still [wp_rules]:
  "(\<And>e. P e) \<Longrightarrow> wlp (get_fd i s) P" "(\<And>a. R a) \<Longrightarrow> wlp (get_curr_pcb s) R" "(\<And>a. R a) \<Longrightarrow> wlp (pcb_phys u v) R"
  "(\<And>t. still s t \<Longrightarrow> Q t) \<Longrightarrow> wlp (upd_fd i f s) Q"
  by (auto simp: wlp_def upd_fd_def res_simps)

lemma file_open_still [wp_rules]: "(\<And>r t. still s t \<Longrightarrow> Q (r, t)) \<Longrightarrow> owlp (file_open check fd nm s) Q"
  unfolding file_open_def by (auto simp: wp_simps Let_def split: option.split intro!: wp_rules)

lemma fotp_open_still [wp_rules]: "(\<And>r t. still s t \<Longrightarrow> Q (r, t)) \<Longrightarrow> owlp (fotp_open k check fd nm s) Q"
  unfolding fotp_open_def fnc_fopen_def by (auto simp: wp_simps split: fotp.split intro!: wp_rules)

lemma sys_open_still [wp_rules]: "(\<And>r t. still s t \<Longrightarrow> Q (r, t)) \<Longrightarrow> owlp (sys_open check nm s) Q"
  unfolding sys_open_def by (auto simp: wp_simps Let_def split: option.split intro!: wp_rules)

lemma sys_close_still [wp_rules]: "(\<And>r t. still s t \<Longrightarrow> Q (r, t)) \<Longrightarrow> wlp (sys_close fd s) Q"
  unfolding sys_close_def by (auto simp: wp_simps intro!: wp_rules)

lemma dir_read_still: "dir_read m b g = (r, m', g') \<Longrightarrow> maps g' = maps g"
  by (auto simp: dir_read_def Let_def split: prod.splits if_splits)

lemma sys_read_pinv:
  assumes irq: "\<forall>f\<in>set irqs. safe f" and inv: "pinv s" and Q: "\<And>r t. pinv t \<Longrightarrow> Q (r, t)"
  shows "owlp (sys_read irqs fd buf n s) Q"
proof -
  have q: "Q (r, t)" if "still s t" for r t using Q pinv_still [OF that inv] by blast
  have inv': "pinv (sti s)" using inv by (rule pinv_still [rotated]) simp
  have tr: "owlp (fnc_term_read irqs buf n (sti s)) Q"
    unfolding fnc_term_read_def owlp_simps
    by (rule read_terminal_pinv [OF irq inv']) (simp only: prod.case owlp_simps wlp_simps, rule Q, erule pinv_still [rotated], simp)
  have dir: "Q (fnc_dir_read buf (sti s))"
    by (auto simp: fnc_dir_read_def dest!: dir_read_still intro!: q split: prod.split)
  have fl: "wlp (fnc_fread fd buf n (sti s)) Q"
    unfolding fnc_fread_def by (auto simp: wp_simps split: prod.split intro!: wp_rules q)
  have rt: "owlp (rtc_read irqs (sti s)) Q" by (rule rtc_read_pinv [OF irq inv']) (rule Q)
  have "owlp (fotp_read k irqs fd buf n (sti s)) Q" for k
    using tr dir fl rt by (simp add: fotp_read_def wp_simps split: fotp.split)
  then show ?thesis unfolding sys_read_def by (auto simp: wp_simps intro!: wp_rules q)
qed

lemma sys_write_still [wp_rules]:
  assumes q: "\<And>r t. still s t \<Longrightarrow> Q (r, t)"
  shows "wlp (sys_write hw fd buf n s) Q"
proof -
  have "wlp (fotp_write k hw buf n s) Q" for k
    by (auto simp: fotp_write_def fnc_term_write_def fnc_rtc_write_def wp_simps split: fotp.split intro!: wp_rules q)
  then show ?thesis unfolding sys_write_def by (auto simp: wp_simps intro!: wp_rules q)
qed

lemma getargs_still: "getargs buf n s = Some (r, t) \<Longrightarrow> still s t"
  by (auto simp: getargs_def split: prod.splits if_splits option.splits)

lemma sys_vidmap_pinv:
  assumes inv: "pinv s" and Q: "\<And>r t. pinv t \<Longrightarrow> Q (r, t)"
  shows "wlp (sys_vidmap addr s) Q"
proof -
  let ?d = "\<lambda>j. (PDE s)(j := (PDE s j)(12 := (PTE_base s AND 0xFFFFF000) OR CTRL_VIDEO_USR))"
  have "(PTE_base s AND 0xFFFFF000) OR CTRL_VIDEO_USR \<in> dir_entries (PTE_base s) j 12" for j by (simp add: dir_entries_def)
  then have "pinv (s\<lparr>PTE := (PTE s)(1 := 0xB8007), PDE := ?d j\<rparr>)" for j
    using inv by (auto simp: pinv_def dir_inv_def slots_inv_def)
  then have "pinv (s\<lparr>PTE := (PTE s)(1 := 0xB8007), PDE := ?d j, ram := m\<rparr>)" for j m
    by (auto intro: pinv_still [where s = "s\<lparr>PTE := (PTE s)(1 := 0xB8007), PDE := ?d j\<rparr>"])
  then show ?thesis
    unfolding sys_vidmap_def using inv
    by (auto simp: wp_simps Let_def pte_set_def pde_set_def intro!: wp_rules Q)
qed

lemma load_check_still: "load_check check s = Some (Inr (r, t)) \<Longrightarrow> still s t"
  by (auto simp: load_check_def Let_def split: option.splits prod.splits if_splits)

lemma new_pde_pinv:
  assumes inv: "pinv s" and v: "unat (drop_bit 22 v) \<notin> {0, 1, 12}" and Q: "\<And>r t. pinv t \<Longrightarrow> Q (r, t)"
  shows "wlp (new_pde v s) Q"
  unfolding wlp_def
proof (intro allI impI)
  fix x assume "new_pde v s = Inr x"
  then obtain r t where x: "x = (r, t)" and n: "new_pde v s = Inr (r, t)" by (cases x) auto
  have s: "dir_inv s" "slots_inv s" using inv by (simp_all add: pinv_def)
  have "dir_inv t" using new_pde_dir_inv [OF s v n] .
  moreover have "slots_inv t" using new_pde_result [OF s(2), of v] n s(2) by auto
  moreover have "length (term_init t) = length (term_init s)" by (subst new_pde_frame [OF n]) simp
  ultimately show "Q x" unfolding x using inv by (intro Q) (simp add: pinv_def)
qed

lemma start_process_pinv:
  assumes inv: "pinv s" and Q: "\<And>r t. pinv t \<Longrightarrow> Q (r, t)"
  shows "wlp (start_process inode n v k s) Q"
proof -
  have e: "Q (r, sti (snd (change_cr3 k (page_copy i 0xB8 (change_pte 0xB8 0xB8 t)))))" "Q (r, sti (snd (change_cr3 k (change_pte 0xB8 0xB8 t))))"
    if "still s t" for t :: "'a kernel_scheme" and i r
  proof -
    have "pinv (change_pte 0xB8 0xB8 t)" using pinv_still [OF that inv] by (rule pinv_change_pte) simp
    then show "Q (r, sti (snd (change_cr3 k (page_copy i 0xB8 (change_pte 0xB8 0xB8 t)))))"
      "Q (r, sti (snd (change_cr3 k (change_pte 0xB8 0xB8 t))))"
      by (auto intro!: Q elim!: pinv_still [rotated] simp: change_cr3_def)
  qed
  have q: "Q (r, t)" if "still s t" for r t using Q pinv_still [OF that inv] by blast
  show ?thesis
    unfolding start_process_def new_process_def init_pcb_def Let_def
    by (simp only: wlp_simps rbind_assoc, intro impI conjI wp_rules) (auto simp: wp_simps intro: e q)
qed

lemma halt_pinv:
  assumes inv: "pinv s" and Q: "\<And>r t. pinv t \<Longrightarrow> Q (r, t)"
  shows "wlp (halt status s) Q"
proof -
  have rp: "wlp (remove_page k s) (\<lambda>u. pinv u)" for k
    using inv by (auto simp: remove_page_def wp_simps pinv_def dir_inv_def slots_inv_def nth_list_update)
  show ?thesis
    unfolding halt_def Let_def
    by (simp only: wlp_simps, intro wp_rules)
      (auto simp: wp_simps is_active_def remove_process_def intro!: wlp_mono [OF rp] wp_rules Q [OF inv] Q elim!: pinv_still [rotated])
qed

text \<open>The program a command names is linked where a program page may be: not over the page table, the
  kernel or the video page.\<close>

definition linked :: "u32 \<Rightarrow> ptr \<Rightarrow> 'a kernel_scheme \<Rightarrow> bool" where
  "linked check command s \<longleftrightarrow> (\<forall>m inode n v t. parse_command command (ram s) = Some m \<longrightarrow>
     load_check check (s\<lparr>ram := m\<rparr>) = Some (Inr (Some (inode, n, v), t)) \<longrightarrow> unat (drop_bit 22 v) \<notin> {0, 1, 12})"

lemma linked_loaded:
  assumes cl: "command_line (ram s) command name k arg" and blk: "fst command \<notin> exec_blocks" and fs: "exec_fs s"
    and ef: "exec_file s name inode c" "elf c" and v: "unat (drop_bit 22 (elf_entry c)) \<notin> {0, 1, 12}"
  shows "linked check command s"
proof (rule parse_then [OF cl blk fs], goal_cases)
  case (1 m)
  obtain nm ty where d: "lookup_name name (dirents (ram s) s) = Some (nm, ty, inode)" using ef(1) by (auto simp: exec_file_def)
  obtain m' where "load_check check (s\<lparr>ram := m\<rparr>) = Some (Inr (Some (inode, file_size m s inode, elf_entry c), s\<lparr>ram := m'\<rparr>))"
    using load_check_found [OF 1(2), of name "(nm, ty, inode)" check] 1 d ef by (auto simp: exec_file_def file_buf_fits_def)
  then show ?case using 1(1) v by (auto simp: linked_def)
qed

lemma execute_pinv:
  assumes inv: "pinv s" and l: "linked check command s" and Q: "\<And>r t. pinv t \<Longrightarrow> Q (r, t)"
  shows "owlp (execute check command s) Q"
proof (cases "parse_command command (ram s)")
  case (Some m)
  have "owlp (load_check check (s\<lparr>ram := m\<rparr>)) (\<lambda>(r, t). still s t \<and>
      (\<forall>inode n v. r = Some (inode, n, v) \<longrightarrow> unat (drop_bit 22 v) \<notin> {0, 1, 12}))"
    using l Some by (auto simp: owlp_def linked_def dest: load_check_still)
  then show ?thesis
    unfolding execute_def Some option.case owlp_simps
  proof (rule owlp_mono, goal_cases)
    case (1 x)
    then obtain r t where x: "x = (r, t)" "pinv t" "\<forall>inode n v. r = Some (inode, n, v) \<longrightarrow> unat (drop_bit 22 v) \<notin> {0, 1, 12}"
      using inv by (cases x) (auto intro: pinv_still)
    then show ?case
      by (auto simp: wp_simps intro!: Q new_pde_pinv [OF x(2)] start_process_pinv split: option.split)
  qed
qed (simp add: execute_def wp_simps)

theorem sys_call_pinv:
  assumes irq: "\<forall>f\<in>set irqs. safe f" and inv: "pinv s" and l: "sint (eax - 1) = 1 \<Longrightarrow> linked check (user_ptr (cli s) ebx) (cli s)"
  shows "owlp (sys_call hw irqs check eax ebx ecx edx s) (\<lambda>(out, t). pinv t)"
proof -
  let ?P = "\<lambda>(out, t). pinv (case out of Ret v \<Rightarrow> sti t | _ \<Rightarrow> t)"
  have c: "pinv (cli s)" using inv by (auto intro: pinv_still)
  have p: "?P (out, t)" if "pinv t" for out t using that by (cases out) (auto intro: pinv_still)
  have pr: "pinv (sti t)" if "still (cli s) t" for t using pinv_still [OF that c] by (auto intro: pinv_still)
  have r: "owlp (ret x) ?P" if "owlp x (\<lambda>(v, t). pinv (sti t))" for x
    using that unfolding ret_def owlp_simps by (rule owlp_mono) (auto simp: wp_simps)
  have rd: "owlp (sys_read irqs b (user_ptr (cli s) e) n (cli s)) (\<lambda>(v, t). pinv (sti t))" for b e n
    by (rule sys_read_pinv [OF irq c]) (auto intro: pinv_still)
  have ar: "owlp (case getargs b e (cli s) of None \<Rightarrow> None | Some r \<Rightarrow> Some (Inr r)) (\<lambda>(v, t). pinv (sti t))" for b e
    by (auto simp: wp_simps dest!: getargs_still intro!: pr split: option.split)
  have vm: "wlp (sys_vidmap b (cli s)) (\<lambda>(v, t). pinv (sti t))" for b
    by (rule sys_vidmap_pinv [OF c]) (auto intro: pinv_still)
  have op: "owlp (sys_open check b (cli s)) (\<lambda>(v, t). pinv (sti t))" for b by (rule sys_open_still) (auto intro: pr)
  have wr: "wlp (sys_write hw b e n (cli s)) (\<lambda>(v, t). pinv (sti t))" for b e n by (rule sys_write_still) (auto intro: pr)
  have cl: "wlp (sys_close b (cli s)) (\<lambda>(v, t). pinv (sti t))" for b by (rule sys_close_still) (auto intro: pr)
  have ha: "wlp (halt b (cli s)) ?P" for b by (rule halt_pinv [OF c]) (rule p)
  have ec: "owlp (execute check (user_ptr (cli s) ebx) (cli s)) ?P" if "sint (eax - 1) = 1" by (rule execute_pinv [OF c l [OF that]]) (rule p)
  have st: "pinv (sti (cli s))" by (rule pr) simp
  have fin: "owlp (obind x (\<lambda>(out, s). Some (Inr (out, case out of Ret v \<Rightarrow> sti s | _ \<Rightarrow> s)))) (\<lambda>(out, t). pinv t)" if "owlp x ?P" for x
    using that unfolding owlp_simps by (rule owlp_mono) (auto simp: wp_simps)
  have th: "owlp (through c a u x) Q" if "owlp x Q" for c a u Q and x :: "'d run"
    using that by (simp add: through_def wp_simps)
  have rt: "owlp (obind (sys_read irqs b (user_ptr (cli s) e) n (cli s)) (\<lambda>(r, s'). through (c r) e (cli s) (Some (Inr (r, s')))))
      (\<lambda>(v, t). pinv (sti t))" for b e n c
    unfolding owlp_simps by (rule owlp_mono [OF rd]) (auto simp: wp_simps intro!: th)
  show ?thesis
    unfolding sys_call_def Let_def
    by (rule fin) (use st in \<open>auto simp: owlp_simps wlp_simps intro!: th r ha ec rt wr op cl ar vm\<close>)
qed

subsection \<open>The running system\<close>

text \<open>
  The shell of a new terminal: the last thing \<open>switchTerm\<close> does is \<open>execute("shell")\<close>.  The handler goes on
  when the shell has been entered; the code goes on when the shell has ended.  A file \<open>shell\<close> that is not linked
  where a program page may be is left out.
\<close>

abbreviation term_shell_p :: ptr where "term_shell_p \<equiv> (Obj ''switchTerm.shell'', 0)"

definition term_shell :: "u32 \<Rightarrow> 'a kernel_scheme \<Rightarrow> 'a kernel_scheme run" where
  "term_shell check s =
     (if linked check term_shell_p s then obind (execute check term_shell_p s) (\<lambda>(out, s). Some (Inr s)) else None)"

lemma term_shell_safe: "safe (term_shell check)"
  unfolding safe_def
proof (intro allI impI)
  fix s :: "'a kernel_scheme" assume inv: "pinv s"
  show "owlp (term_shell check s) pinv"
    by (simp add: term_shell_def wp_simps) (auto simp: wp_simps intro: execute_pinv [OF inv])
qed

text \<open>The interrupts that may arrive while a system call waits.\<close>

datatype irq = Tick_irq | Key_irq u8

definition serve :: "hardware \<Rightarrow> u32 \<Rightarrow> irq \<Rightarrow> 'a kernel_scheme \<Rightarrow> 'a kernel_scheme run" where
  "serve hw check i = (case i of Tick_irq \<Rightarrow> periodic_interrupt_handler hw | Key_irq x0 \<Rightarrow> keyboard_handler hw (term_shell check) x0)"

lemma serve_safe: "safe (serve hw check i)"
  using periodic_safe keyboard_handler_safe [OF term_shell_safe] by (cases i) (simp_all add: serve_def)

text \<open>One step of the running system: user code changes memory, control blocks and registers; a system call with
  its registers is served, during which interrupts may arrive; the kernel itself executes a command from a local
  array, as \<open>entry\<close> does; an interrupt is served.  A call or a command whose run ends with an error value is no step.\<close>

datatype event = User_code | Call "irq list" u32 u32 u32 u32 | Command string "u8 list" | Irq irq

inductive kstep :: "hardware \<Rightarrow> u32 \<Rightarrow> 'a kernel_scheme \<Rightarrow> event \<Rightarrow> 'a kernel_scheme \<Rightarrow> bool" for hw check where
  user: "kstep hw check s User_code (s\<lparr>ram := m, pcbs := h, esp := a, ebp := b\<rparr>)"
| call: "sys_call hw (map (serve hw check) irqs) check eax ebx ecx edx s = Some (Inr (out, s')) \<Longrightarrow>
    kstep hw check s (Call irqs eax ebx ecx edx) s'"
| command: "execute check (Obj nm, 0) (cli (s\<lparr>ram := stores (ram s) (Obj nm, 0) xs\<rparr>)) = Some (Inr (out, s')) \<Longrightarrow>
    kstep hw check s (Command nm xs) s'"
| irq: "serve hw check i s = Some (Inr s') \<Longrightarrow> kstep hw check s (Irq i) s'"

inductive_cases kstepE: "kstep hw check s e s'"

text \<open>
  What is asked of the programs, as the processor and the kernel do not enforce it: user code stores only to the page
  of the program (every directory maps the first 4 MB for user code as well, where the control blocks and the
  kernel stacks are); the buffers a call is handed end in that page; and an executed file is linked in a page
  that is neither the page table's, the kernel's nor the video page.
\<close>

definition buffers_inside :: "u32 \<Rightarrow> u32 \<Rightarrow> u32 \<Rightarrow> u32 \<Rightarrow> bool" where
  "buffers_inside eax ebx ecx edx \<longleftrightarrow>
     (eax = 3 \<longrightarrow> unat (ecx AND 0x3FFFFF) + max 1024 (unat edx) \<le> 0x400000) \<and>
     (eax = 7 \<longrightarrow> unat (ebx AND 0x3FFFFF) + 1024 \<le> 0x400000) \<and>
     (eax = 8 \<longrightarrow> unat (ebx AND 0x3FFFFF) + 4 \<le> 0x400000)"

fun well_behaved :: "u32 \<Rightarrow> 'a kernel_scheme \<times> event \<times> 'a kernel_scheme \<Rightarrow> bool" where
  "well_behaved check (s, User_code, s') \<longleftrightarrow>
     pcbs s' = pcbs s \<and> (\<exists>k. cr3 s = int k + 1 \<and> (\<forall>b. b \<noteq> User k \<longrightarrow> ram s' b = ram s b))"
| "well_behaved check (s, Call irqs eax ebx ecx edx, s') \<longleftrightarrow>
     buffers_inside eax ebx ecx edx \<and> (eax = 2 \<longrightarrow> linked check (user_ptr (cli s) ebx) (cli s))"
| "well_behaved check (s, Command nm xs, s') \<longleftrightarrow>
     linked check (Obj nm, 0) (cli (s\<lparr>ram := stores (ram s) (Obj nm, 0) xs\<rparr>))"
| "well_behaved check (s, Irq i, s') \<longleftrightarrow> True"

text \<open>A run of the system: its steps, first to last.\<close>

inductive kruns :: "hardware \<Rightarrow> u32 \<Rightarrow> 'a kernel_scheme \<Rightarrow> ('a kernel_scheme \<times> event \<times> 'a kernel_scheme) list \<Rightarrow> 'a kernel_scheme \<Rightarrow> bool"
  for hw check where
  start: "kruns hw check s [] s"
| next_step: "\<lbrakk> kruns hw check s tr u; kstep hw check u e s' \<rbrakk> \<Longrightarrow> kruns hw check s (tr @ [(u, e, s')]) s'"

lemma exec_number: "sint (eax - 1) = 1 \<Longrightarrow> eax = (2 :: u32)"
proof -
  assume "sint (eax - 1) = 1"
  then have "word_of_int (sint (eax - 1)) = (word_of_int 1 :: u32)" by simp
  then have "eax - 1 = 1" by simp
  then have "eax = 1 + 1" by (simp only: diff_eq_eq)
  then show ?thesis by simp
qed

lemma kstep_pinv:
  assumes "kstep hw check s e s'" and wb: "well_behaved check (s, e, s')" and inv: "pinv s"
  shows "pinv s'"
  using assms(1)
proof cases
  case (user m h a b)
  then show ?thesis using inv by (auto intro: pinv_still [where s = s])
next
  case (call irqs eax ebx ecx edx out)
  have "\<forall>f\<in>set (map (serve hw check) irqs). safe f" using serve_safe by auto
  from sys_call_pinv [OF this inv, of eax check ebx] call wb exec_number show ?thesis by (auto simp: owlp_def)
next
  case (command nm xs out)
  have "pinv (cli (s\<lparr>ram := stores (ram s) (Obj nm, 0) xs\<rparr>))" using inv by (auto intro: pinv_still)
  then have "owlp (execute check (Obj nm, 0) (cli (s\<lparr>ram := stores (ram s) (Obj nm, 0) xs\<rparr>))) (\<lambda>(out, t). pinv t)"
    by (rule execute_pinv) (use command(1) wb in simp_all)
  then show ?thesis using command(2) by (auto simp: owlp_def)
next
  case (irq i)
  then show ?thesis using safeD [OF serve_safe inv, of pinv hw check i] by (auto simp: owlp_def)
qed

theorem reachable_pinv:
  assumes "kruns hw check s tr s'" and "\<forall>x\<in>set tr. well_behaved check x" and "pinv s"
  shows "pinv s'"
  using assms by induction (auto intro: kstep_pinv)

text \<open>What the invariant means for user code.\<close>

lemma frame_numbers:
  assumes "i < 7" "j < 7"
  shows "(of_nat (i + 2) :: u32) = of_nat (j + 2) \<longleftrightarrow> i = j" "(of_nat (i + 2) :: u32) \<noteq> 0" "(of_nat (i + 2) :: u32) \<noteq> 1"
  using slot_cases [OF assms(1)] slot_cases [OF assms(2)] by auto

lemma low_frame: "p < 0x400000 \<Longrightarrow> drop_bit 22 p = (0 :: u32)"
proof -
  assume "p < 0x400000"
  then have "unat p < 2 ^ 22" by (simp add: word_less_nat_alt)
  then have "unat (drop_bit 22 p) = 0" by (simp add: drop_bit_eq_div unat_div)
  then show ?thesis by (simp add: unat_eq_0)
qed

lemma pinv_isolated:
  assumes "pinv s" and "cr3 s = int k + 1" and "k < 7" and "translate s v = Some (p, True, w)"
  shows "(p < 0x400000 \<or> drop_bit 22 p = of_nat (k + 2)) \<and> drop_bit 22 p \<noteq> 1 \<and>
    (\<forall>j. j < 7 \<longrightarrow> j \<noteq> k \<longrightarrow> drop_bit 22 p \<noteq> of_nat (j + 2))"
proof -
  have "dir_inv s" using assms(1) by (simp add: pinv_def)
  from user_reach [OF this assms(2-4)] low_frame frame_numbers assms(3) show ?thesis by (auto simp del: of_nat_add)
qed

text \<open>Booting leaves everything else alone.\<close>

lemma init_paging_frame:
  "init_paging s = s\<lparr>PDE := PDE (init_paging s), PTE := PTE (init_paging s), cr3 := 0, cr4 := cr4 (init_paging s), cr0 := cr0 (init_paging s)\<rparr>"
  by (simp add: init_paging_def Let_def pde_set_def pte_set_def)

lemma init_terminals_frame:
  "init_terminals s = s\<lparr>active_term := 0, term_init := [1, 0, 0], proc_active := [- 1, - 1, - 1], fake_sti := False, bg_term := 0,
     frames := frames (init_terminals s)\<rparr>"
  by (simp add: init_terminals_def Let_def for_loop_def upt_rec page_frame_def)

end
