(* ===== verification/Fish_Blink.thy ===== *)
theory Fish_Blink
  imports Slot_Alloc User_Lib
begin

text \<open>
  The blinking characters of src/fish: the pool and the byte routines of fish.c, and blink.S, which
  keeps the blinks in a linked list through that pool.  A structure is a record; its \<open>next\<close> is null
  or the index of an element of \<open>blink_array\<close>, the only memory \<open>mp1_malloc\<close> hands out.  \<open>vmem\<close> is
  the page at \<open>vmem_base_addr\<close>, by offset.  The list of blinks, as a list, is the specification.
\<close>

record mp1_blink_struct =
  b_location :: u16
  b_on_char :: u8
  b_off_char :: u8
  b_on_length :: u16
  b_off_length :: u16
  b_countdown :: u16
  b_status :: u16
  b_next :: "nat option"

record fish =
  blink_array :: "mp1_blink_struct list"
  mp1_list_head :: "nat option"
  vmem :: "u32 \<Rightarrow> u8"

subsection \<open>The byte routines and the pool (fish.c)\<close>

definition ece391_memset :: "mem \<Rightarrow> ptr \<Rightarrow> u8 \<Rightarrow> nat \<Rightarrow> mem" where
  "ece391_memset m memory c n = for_loop 0 n (\<lambda>i m. st m memory (of_nat i) c) m"

definition ece391_memcpy :: "mem \<Rightarrow> ptr \<Rightarrow> ptr \<Rightarrow> nat \<Rightarrow> u32 \<times> mem" where
  "ece391_memcpy m dest src n = (0, for_loop 0 n (\<lambda>i m. st m dest (of_nat i) (ld m src (of_nat i))) m)"

text \<open>A structure of zero bytes.\<close>

definition zero_blink :: mp1_blink_struct where
  "zero_blink = \<lparr>b_location = 0, b_on_char = 0, b_off_char = 0, b_on_length = 0, b_off_length = 0,
     b_countdown = 0, b_status = 0, b_next = None\<rparr>"

definition mp1_malloc :: "fish \<Rightarrow> nat option" where
  "mp1_malloc f =
     (let i = scan (\<lambda>i. b_location (blink_array f ! i) = 0) 0 (80 * 25) in if i < 80 * 25 then Some i else None)"

definition at_blink :: "nat \<Rightarrow> (mp1_blink_struct \<Rightarrow> mp1_blink_struct) \<Rightarrow> fish \<Rightarrow> fish" where
  "at_blink i g f = f\<lparr>blink_array := (blink_array f)[i := g (blink_array f ! i)]\<rparr>"

definition mp1_free :: "nat \<Rightarrow> fish \<Rightarrow> fish" where
  "mp1_free i = at_blink i (\<lambda>b. zero_blink)"

subsection \<open>The list (blink.S)\<close>

definition mp1_poke :: "u8 \<Rightarrow> u32 \<Rightarrow> fish \<Rightarrow> fish" where
  "mp1_poke cl eax f = f\<lparr>vmem := (vmem f)(eax := cl)\<rparr>"

text \<open>The body of \<open>tasklet_loop\<close> for the structure at \<open>ebx\<close>, up to \<open>next_loop\<close>.\<close>

definition tasklet_blink :: "nat \<Rightarrow> fish \<Rightarrow> fish" where
  "tasklet_blink ebx f =
     (let f = at_blink ebx (\<lambda>b. b\<lparr>b_countdown := b_countdown b - 1\<rparr>) f;
          b = blink_array f ! ebx
      in if 0 < sint (b_countdown b) then f
         else
           let eax = push_bit 1 (ucast (b_location b));
               (f, dx) = (if b_status b AND 1 \<noteq> 0 then (mp1_poke (b_off_char b) eax f, b_off_length b)
                          else (mp1_poke (b_on_char b) eax f, b_on_length b))
           in at_blink ebx (\<lambda>b. b\<lparr>b_countdown := dx, b_status := b_status b XOR 1\<rparr>) f)"

partial_function (option) tasklet_loop :: "nat option \<Rightarrow> fish \<Rightarrow> fish option" where
  "tasklet_loop ebx f =
     (case ebx of
        None \<Rightarrow> Some f
      | Some i \<Rightarrow> let f = tasklet_blink i f in tasklet_loop (b_next (blink_array f ! i)) f)"

definition mp1_rtc_tasklet :: "fish \<Rightarrow> fish option" where
  "mp1_rtc_tasklet f = tasklet_loop (mp1_list_head f) f"

definition mp1_ioctl_add :: "mp1_blink_struct \<Rightarrow> fish \<Rightarrow> u32 \<times> fish" where
  "mp1_ioctl_add arg f =
     (let b = arg
      in if 80 * 25 \<le> b_location b then (- 1, f)
         else
           let b = b\<lparr>b_status := 1\<rparr>;
               b = b\<lparr>b_countdown := b_on_length b\<rparr>
           in case mp1_malloc f of
                None \<Rightarrow> (- 1, f)
              | Some edx \<Rightarrow>
                  let f = at_blink edx (\<lambda>_. b) f;
                      f = at_blink edx (\<lambda>b. b\<lparr>b_next := mp1_list_head f\<rparr>) f;
                      f = f\<lparr>mp1_list_head := Some edx\<rparr>;
                      b = blink_array f ! edx
                  in (0, mp1_poke (b_on_char b) (push_bit 1 (ucast (b_location b))) f))"

partial_function (option) find_loop :: "mp1_blink_struct list \<Rightarrow> u16 \<Rightarrow> nat option \<Rightarrow> nat option option" where
  "find_loop bs ax ebx =
     (case ebx of
        None \<Rightarrow> Some None
      | Some i \<Rightarrow> if b_location (bs ! i) = ax then Some (Some i) else find_loop bs ax (b_next (bs ! i)))"

definition mp1_find_helper :: "u32 \<Rightarrow> fish \<Rightarrow> nat option option" where
  "mp1_find_helper loc f = find_loop (blink_array f) (ucast loc) (mp1_list_head f)"

text \<open>The cell \<open>edx\<close> points to in \<open>remove_find_prev\<close>: the head of the list or the \<open>next\<close> of an element.\<close>

definition link_of :: "fish \<Rightarrow> nat option \<Rightarrow> nat option" where
  "link_of f edx = (case edx of None \<Rightarrow> mp1_list_head f | Some j \<Rightarrow> b_next (blink_array f ! j))"

definition set_link :: "nat option \<Rightarrow> nat option \<Rightarrow> fish \<Rightarrow> fish" where
  "set_link edx p f = (case edx of None \<Rightarrow> f\<lparr>mp1_list_head := p\<rparr> | Some j \<Rightarrow> at_blink j (\<lambda>b. b\<lparr>b_next := p\<rparr>) f)"

text \<open>Past the end the search would take the link at address 12.\<close>

partial_function (option) remove_find_prev :: "fish \<Rightarrow> nat \<Rightarrow> nat option \<Rightarrow> (fault + nat option) option" where
  "remove_find_prev f eax edx =
     (if link_of f edx = Some eax then Some (Inr edx)
      else case link_of f edx of
        None \<Rightarrow> Some (Inl (Bad_index ''NEXT'' 0))
      | Some j \<Rightarrow> remove_find_prev f eax (Some j))"

definition mp1_ioctl_remove :: "u32 \<Rightarrow> fish \<Rightarrow> (u32 \<times> fish) run" where
  "mp1_ioctl_remove arg f =
     (case mp1_find_helper arg f of
        None \<Rightarrow> None
      | Some None \<Rightarrow> Some (Inr (- 1, f))
      | Some (Some eax) \<Rightarrow>
          obind (remove_find_prev f eax None) (\<lambda>edx.
          Some (Inr (0, mp1_free eax (set_link edx (b_next (blink_array f ! eax)) f)))))"

text \<open>\<open>testb\<close> clears the overflow flag and \<open>cmovl\<close> moves when the sign flag differs from it.\<close>

definition mp1_ioctl_sync :: "u32 \<Rightarrow> fish \<Rightarrow> (u32 \<times> fish) run" where
  "mp1_ioctl_sync arg f =
     (case mp1_find_helper (drop_bit 16 arg) f of
        None \<Rightarrow> None
      | Some None \<Rightarrow> Some (Inr (- 1, f))
      | Some (Some esi) \<Rightarrow>
     (case mp1_find_helper (arg AND 0xFFFF) f of
        None \<Rightarrow> None
      | Some None \<Rightarrow> Some (Inr (- 1, f))
      | Some (Some edi) \<Rightarrow>
          let src = blink_array f ! esi;
              f = at_blink edi (\<lambda>b. b\<lparr>b_on_length := b_on_length src\<rparr>) f;
              f = at_blink edi (\<lambda>b. b\<lparr>b_off_length := b_off_length src\<rparr>) f;
              f = at_blink edi (\<lambda>b. b\<lparr>b_countdown := b_countdown src\<rparr>) f;
              f = at_blink edi (\<lambda>b. b\<lparr>b_status := b_status src\<rparr>) f;
              b = blink_array f ! edi;
              eax = push_bit 1 (ucast (b_location b));
              ecx = b_off_char b;
              ebx = b_on_char b;
              SF = bit (ucast (b_status b) AND 1 :: u8) 7;
              OF = False;
              ecx = (if SF \<noteq> OF then ebx else ecx)
          in Some (Inr (0, mp1_poke ecx eax f))))"

definition mp1_ioctl_find :: "mp1_blink_struct \<Rightarrow> fish \<Rightarrow> (u32 \<times> mp1_blink_struct) run" where
  "mp1_ioctl_find u f =
     (case mp1_find_helper (ucast (b_location u)) f of
        None \<Rightarrow> None
      | Some None \<Rightarrow> Some (Inr (- 1, u))
      | Some (Some eax) \<Rightarrow> Some (Inr (0, blink_array f ! eax)))"

text \<open>\<open>arg\<close> is the argument and \<open>u\<close> the structure at that address, for the commands that take one.\<close>

definition mp1_ioctl :: "u32 \<Rightarrow> mp1_blink_struct \<Rightarrow> u32 \<Rightarrow> fish \<Rightarrow> (u32 \<times> mp1_blink_struct \<times> fish) run" where
  "mp1_ioctl arg u cmd f =
     (if cmd = 0 then (case mp1_ioctl_add u f of (r, f) \<Rightarrow> Some (Inr (r, u, f)))
      else if cmd = 1 then obind (mp1_ioctl_remove arg f) (\<lambda>(r, f). Some (Inr (r, u, f)))
      else if cmd = 2 then obind (mp1_ioctl_find u f) (\<lambda>(r, u). Some (Inr (r, u, f)))
      else if cmd = 3 then obind (mp1_ioctl_sync arg f) (\<lambda>(r, f). Some (Inr (r, u, f)))
      else Some (Inl (Bad_index ''call_table'' (uint cmd))))"

subsection \<open>The list of blinks\<close>

text \<open>From pointer \<open>p\<close> the elements \<open>is\<close> follow, and then null.\<close>

fun chain :: "mp1_blink_struct list \<Rightarrow> nat option \<Rightarrow> nat list \<Rightarrow> bool" where
  "chain bs p [] \<longleftrightarrow> p = None"
| "chain bs p (i # is) \<longleftrightarrow> p = Some i \<and> chain bs (b_next (bs ! i)) is"

text \<open>The elements of the list are exactly the elements of the array that \<open>mp1_malloc\<close> takes for used.\<close>

definition fish_inv :: "nat list \<Rightarrow> fish \<Rightarrow> bool" where
  "fish_inv is f \<longleftrightarrow> length (blink_array f) = 2000 \<and> chain (blink_array f) (mp1_list_head f) is \<and> distinct is \<and>
     set is = {i. i < 2000 \<and> b_location (blink_array f ! i) \<noteq> 0} \<and>
     (\<forall>i\<in>set is. b_location (blink_array f ! i) < 2000)"

definition strip :: "mp1_blink_struct \<Rightarrow> mp1_blink_struct" where
  "strip b = b\<lparr>b_next := None\<rparr>"

definition blinks :: "fish \<Rightarrow> mp1_blink_struct list \<Rightarrow> bool" where
  "blinks f bs \<longleftrightarrow> (\<exists>is. fish_inv is f \<and> bs = map (\<lambda>i. strip (blink_array f ! i)) is)"

subsection \<open>The operations on the list\<close>

definition fresh_blink :: "mp1_blink_struct \<Rightarrow> mp1_blink_struct" where
  "fresh_blink b = b\<lparr>b_status := 1, b_countdown := b_on_length b, b_next := None\<rparr>"

definition cell :: "mp1_blink_struct \<Rightarrow> u32" where
  "cell b = 2 * ucast (b_location b)"

definition blink_tick :: "mp1_blink_struct \<Rightarrow> mp1_blink_struct" where
  "blink_tick b =
     (if 0 < sint (b_countdown b - 1) then b\<lparr>b_countdown := b_countdown b - 1\<rparr>
      else b\<lparr>b_countdown := (if b_status b AND 1 \<noteq> 0 then b_off_length b else b_on_length b), b_status := b_status b XOR 1\<rparr>)"

definition tick_video :: "mp1_blink_struct \<Rightarrow> (u32 \<Rightarrow> u8) \<Rightarrow> u32 \<Rightarrow> u8" where
  "tick_video b v =
     (if 0 < sint (b_countdown b - 1) then v
      else v(cell b := (if b_status b AND 1 \<noteq> 0 then b_off_char b else b_on_char b)))"

type_synonym blinking = "mp1_blink_struct list \<times> (u32 \<Rightarrow> u8)"

definition l_tick :: "blinking \<Rightarrow> blinking" where
  "l_tick s = (map blink_tick (fst s), fold tick_video (fst s) (snd s))"

definition l_add :: "mp1_blink_struct \<Rightarrow> blinking \<Rightarrow> u32 \<times> blinking" where
  "l_add b s =
     (if 2000 \<le> b_location b \<or> 2000 \<le> length (fst s) then (- 1, s)
      else (0, fresh_blink b # fst s, (snd s)(cell b := b_on_char b)))"

fun drop_first :: "u16 \<Rightarrow> mp1_blink_struct list \<Rightarrow> mp1_blink_struct list" where
  "drop_first l [] = []"
| "drop_first l (b # bs) = (if b_location b = l then bs else b # drop_first l bs)"

fun change_first :: "u16 \<Rightarrow> (mp1_blink_struct \<Rightarrow> mp1_blink_struct) \<Rightarrow> mp1_blink_struct list \<Rightarrow> mp1_blink_struct list" where
  "change_first l g [] = []"
| "change_first l g (b # bs) = (if b_location b = l then g b # bs else b # change_first l g bs)"

definition l_find :: "u16 \<Rightarrow> mp1_blink_struct list \<Rightarrow> mp1_blink_struct option" where
  "l_find l bs = find (\<lambda>b. b_location b = l) bs"

definition l_remove :: "u16 \<Rightarrow> blinking \<Rightarrow> u32 \<times> blinking" where
  "l_remove l s = (case l_find l (fst s) of None \<Rightarrow> (- 1, s) | Some b \<Rightarrow> (0, drop_first l (fst s), snd s))"

definition l_sync :: "u16 \<Rightarrow> u16 \<Rightarrow> blinking \<Rightarrow> u32 \<times> blinking" where
  "l_sync l1 l2 s =
     (case (l_find l1 (fst s), l_find l2 (fst s)) of
        (Some a, Some b) \<Rightarrow>
          (0, change_first l2 (\<lambda>b. b\<lparr>b_on_length := b_on_length a, b_off_length := b_off_length a,
               b_countdown := b_countdown a, b_status := b_status a\<rparr>) (fst s), (snd s)(cell b := b_off_char b))
      | _ \<Rightarrow> (- 1, s))"

subsection \<open>Chains\<close>

lemma chain_other [simp]: "j \<notin> set is \<Longrightarrow> chain (bs[j := x]) p is = chain bs p is"
  by (induction "is" arbitrary: p) auto

lemma chain_same_next: "b_next x = b_next (bs ! j) \<Longrightarrow> chain (bs[j := x]) p is = chain bs p is"
proof (induction "is" arbitrary: p)
  case (Cons i "is")
  have "b_next (bs[j := x] ! i) = b_next (bs ! i)" using Cons.prems by (cases "i = j \<and> j < length bs") (auto simp: nth_list_update list_update_beyond)
  then show ?case using Cons.IH [OF Cons.prems] by simp
qed simp

lemma chain_next: "chain bs p is \<Longrightarrow> (\<And>i. i \<in> set is \<Longrightarrow> b_next (bs' ! i) = b_next (bs ! i)) \<Longrightarrow> chain bs' p is"
  by (induction "is" arbitrary: p) auto

lemma find_chain: "chain bs p is \<Longrightarrow> find_loop bs l p = Some (find (\<lambda>i. b_location (bs ! i) = l) is)"
proof (induction "is" arbitrary: p)
  case Nil
  then show ?case by (subst find_loop.simps) simp
next
  case (Cons i "is")
  then show ?case by (subst find_loop.simps) simp
qed

lemma at_blink_simps [simp]:
  "mp1_list_head (at_blink i g f) = mp1_list_head f" "vmem (at_blink i g f) = vmem f" "length (blink_array (at_blink i g f)) = length (blink_array f)"
  "i < length (blink_array f) \<Longrightarrow> blink_array (at_blink i g f) ! j = (if j = i then g (blink_array f ! i) else blink_array f ! j)"
  by (simp_all add: at_blink_def nth_list_update)

lemma at_blink_twice: "i < length (blink_array f) \<Longrightarrow> at_blink i g (at_blink i h f) = at_blink i (\<lambda>b. g (h b)) f"
  by (simp add: at_blink_def)

lemma inv_lt: "fish_inv is f \<Longrightarrow> i \<in> set is \<Longrightarrow> i < 2000"
  by (auto simp: fish_inv_def)

lemma strip_simps [simp]:
  "b_location (strip b) = b_location b" "b_countdown (strip b) = b_countdown b" "b_status (strip b) = b_status b"
  "b_on_char (strip b) = b_on_char b" "b_off_char (strip b) = b_off_char b" "b_on_length (strip b) = b_on_length b"
  "b_off_length (strip b) = b_off_length b" "b_next (strip b) = None"
  by (simp_all add: strip_def)

lemma find_in: "find P xs = Some x \<Longrightarrow> x \<in> set xs \<and> P x"
  by (auto simp: find_Some_iff)

text \<open>Changing one element of the list, but not where it is or what follows it.\<close>

lemma change_map:
  "distinct is \<Longrightarrow> find (\<lambda>i. b_location (bs ! i) = l) is = Some j \<Longrightarrow> j < length bs \<Longrightarrow>
   map (\<lambda>i. strip (bs[j := x] ! i)) is = change_first l (\<lambda>_. strip x) (map (\<lambda>i. strip (bs ! i)) is)"
proof (induction "is")
  case (Cons i "is")
  have "map (\<lambda>i. strip (bs[j := x] ! i)) is = map (\<lambda>i. strip (bs ! i)) is" if "j = i"
    using Cons.prems(1) that by (intro map_cong refl) (metis distinct.simps(2) nth_list_update_neq)
  moreover have "j \<noteq> i" if "b_location (bs ! i) \<noteq> l" using Cons.prems(2) that find_in [of _ "is" j] by auto
  ultimately show ?case using Cons by (cases "b_location (bs ! i) = l") auto
qed simp

lemma find_blinks:
  assumes "fish_inv is f"
  shows "mp1_find_helper l f = Some (find (\<lambda>i. b_location (blink_array f ! i) = ucast l) is)"
    "l_find (ucast l) (map (\<lambda>i. strip (blink_array f ! i)) is) =
       map_option (\<lambda>i. strip (blink_array f ! i)) (find (\<lambda>i. b_location (blink_array f ! i) = ucast l) is)"
proof -
  have c: "chain (blink_array f) (mp1_list_head f) is" using assms by (simp add: fish_inv_def)
  show "mp1_find_helper l f = Some (find (\<lambda>i. b_location (blink_array f ! i) = ucast l) is)"
    unfolding mp1_find_helper_def by (rule find_chain [OF c])
  show "l_find (ucast l) (map (\<lambda>i. strip (blink_array f ! i)) is) =
       map_option (\<lambda>i. strip (blink_array f ! i)) (find (\<lambda>i. b_location (blink_array f ! i) = ucast l) is)"
    unfolding l_find_def by (induction "is") auto
qed

subsection \<open>One clock tick\<close>

lemma tick_keeps [simp]:
  "b_next (blink_tick b) = b_next b" "b_location (blink_tick b) = b_location b" "strip (blink_tick b) = blink_tick (strip b)"
  by (simp_all add: blink_tick_def strip_def)

lemma tick_video_strip [simp]: "tick_video (strip b) = tick_video b"
  by (simp add: tick_video_def cell_def fun_eq_iff)

lemma tasklet_blink_eq:
  "i < length (blink_array f) \<Longrightarrow>
   tasklet_blink i f = (at_blink i blink_tick f)\<lparr>vmem := tick_video (blink_array f ! i) (vmem f)\<rparr>"
  by (simp add: tasklet_blink_def Let_def blink_tick_def tick_video_def mp1_poke_def cell_def push_bit_eq_mult mult.commute)
     (simp add: at_blink_def blink_tick_def cell_def)

lemma tasklet_chain:
  "chain (blink_array f) p is \<Longrightarrow> distinct is \<Longrightarrow> \<forall>i\<in>set is. i < length (blink_array f) \<Longrightarrow>
   \<exists>f'. tasklet_loop p f = Some f' \<and> mp1_list_head f' = mp1_list_head f \<and> length (blink_array f') = length (blink_array f) \<and>
     (\<forall>i. blink_array f' ! i = (if i \<in> set is then blink_tick (blink_array f ! i) else blink_array f ! i)) \<and>
     vmem f' = fold tick_video (map (\<lambda>i. blink_array f ! i) is) (vmem f)"
proof (induction "is" arbitrary: p f)
  case Nil
  then show ?case by (subst tasklet_loop.simps) simp
next
  case (Cons i "is")
  let ?f = "tasklet_blink i f"
  have i: "i < length (blink_array f)" "i \<notin> set is" using Cons.prems by simp_all
  note e = tasklet_blink_eq [OF i(1)]
  have n: "blink_array ?f ! j = (if j = i then blink_tick (blink_array f ! i) else blink_array f ! j)" for j
    using i(1) unfolding e by simp
  have "chain (blink_array ?f) (b_next (blink_array f ! i)) is"
    by (rule chain_next [where bs = "blink_array f"]) (use Cons.prems i n in auto)
  from Cons.IH [OF this] Cons.prems(2,3) obtain f' where f': "tasklet_loop (b_next (blink_array f ! i)) ?f = Some f'"
    "mp1_list_head f' = mp1_list_head ?f" "length (blink_array f') = length (blink_array ?f)"
    "\<forall>j. blink_array f' ! j = (if j \<in> set is then blink_tick (blink_array ?f ! j) else blink_array ?f ! j)"
    "vmem f' = fold tick_video (map (\<lambda>i. blink_array ?f ! i) is) (vmem ?f)"
    unfolding e by auto
  have "map (\<lambda>i. blink_array ?f ! i) is = map (\<lambda>i. blink_array f ! i) is" using i n by (intro map_cong) auto
  moreover have "tasklet_loop p f = Some f'"
    using Cons.prems(1) f'(1) by (subst tasklet_loop.simps) (simp add: Let_def n)
  moreover have "vmem ?f = tick_video (blink_array f ! i) (vmem f)" "mp1_list_head ?f = mp1_list_head f"
    "length (blink_array ?f) = length (blink_array f)" by (simp_all add: e)
  ultimately show ?case using f'(2-4) i n by (intro exI [of _ f']) (auto simp: f'(5) simp del: map_eq_conv)
qed

theorem tasklet_blinks:
  assumes "blinks f bs"
  shows "\<exists>f'. mp1_rtc_tasklet f = Some f' \<and> blinks f' (fst (l_tick (bs, vmem f))) \<and> vmem f' = snd (l_tick (bs, vmem f))"
proof -
  obtain "is" where v: "fish_inv is f" and bs: "bs = map (\<lambda>i. strip (blink_array f ! i)) is" using assms by (auto simp: blinks_def)
  note d = v [unfolded fish_inv_def]
  obtain f' where f': "mp1_rtc_tasklet f = Some f'" "mp1_list_head f' = mp1_list_head f" "length (blink_array f') = 2000"
    "\<forall>i. blink_array f' ! i = (if i \<in> set is then blink_tick (blink_array f ! i) else blink_array f ! i)"
    "vmem f' = fold tick_video (map (\<lambda>i. blink_array f ! i) is) (vmem f)"
    using tasklet_chain [of f "mp1_list_head f" "is"] d unfolding mp1_rtc_tasklet_def by auto
  have "fish_inv is f'"
    using d f' chain_next [of "blink_array f" "mp1_list_head f" "is" "blink_array f'"] by (auto simp: fish_inv_def)
  moreover have "map (\<lambda>i. strip (blink_array f' ! i)) is = map blink_tick bs" using f'(4) by (simp add: bs)
  moreover have "vmem f' = fold tick_video bs (vmem f)" unfolding f'(5) bs by (simp add: fold_map comp_def)
  ultimately show ?thesis using f'(1) by (auto simp: blinks_def l_tick_def)
qed

subsection \<open>Adding\<close>

lemma malloc_some:
  assumes "mp1_malloc f = Some i"
  shows "i < 2000" "b_location (blink_array f ! i) = 0"
  using assms scan_hit [of "\<lambda>i. b_location (blink_array f ! i) = 0" 0 2000] by (auto simp: mp1_malloc_def Let_def split: if_splits)

lemma malloc_none:
  assumes "fish_inv is f"
  shows "mp1_malloc f = None \<longleftrightarrow> length is = 2000"
proof -
  define P where "P i \<longleftrightarrow> b_location (blink_array f ! i) = 0" for i
  define n where "n = (2000 :: nat)"
  have s: "set is = {i. i < n \<and> \<not> P i}" and ds: "distinct is" using assms by (simp_all add: fish_inv_def P_def n_def)
  have "mp1_malloc f = None \<longleftrightarrow> \<not> scan P 0 n < n" by (simp add: mp1_malloc_def Let_def P_def [abs_def] n_def)
  also have "\<dots> \<longleftrightarrow> (\<forall>i<n. \<not> P i)"
  proof
    assume "\<not> scan P 0 n < n"
    then show "\<forall>i<n. \<not> P i" using scan_before [of 0 _ P n] by simp
  qed (use scan_hit [of P 0 n] in blast)
  also have "\<dots> \<longleftrightarrow> set is = {..<n}" unfolding s by auto
  also have "\<dots> \<longleftrightarrow> card (set is) = card {..<n}"
  proof -
    have "set is \<subseteq> {..<n}" using s by auto
    then show ?thesis using card_subset_eq [OF finite_lessThan, of "set is" n] by metis
  qed
  finally show ?thesis using distinct_card [OF ds] by (simp add: n_def)
qed

theorem add_blinks:
  assumes "blinks f bs" and "b_location b \<noteq> 0"
  shows "\<exists>f'. mp1_ioctl_add b f = (fst (l_add b (bs, vmem f)), f') \<and> blinks f' (fst (snd (l_add b (bs, vmem f)))) \<and>
    vmem f' = snd (snd (l_add b (bs, vmem f)))"
proof -
  obtain "is" where v: "fish_inv is f" and bs: "bs = map (\<lambda>i. strip (blink_array f ! i)) is" using assms(1) by (auto simp: blinks_def)
  note d = v [unfolded fish_inv_def]
  have "length is = card (set is)" using d distinct_card [of "is"] by presburger
  moreover have "card (set is) \<le> card {..<2000::nat}" using d by (intro card_mono) auto
  ultimately have le: "length is \<le> 2000" by simp
  consider "2000 \<le> b_location b" | "b_location b < 2000" "length is = 2000" | i where "b_location b < 2000" "length is < 2000" "mp1_malloc f = Some i"
    using malloc_none [OF v] le by (cases "mp1_malloc f") (auto simp: not_less [symmetric])
  then show ?thesis
  proof cases
    case 1
    then show ?thesis using assms(1) by (simp add: mp1_ioctl_add_def l_add_def)
  next
    case 2
    then show ?thesis using assms(1) malloc_none [OF v] by (auto simp: mp1_ioctl_add_def l_add_def bs)
  next
    case (3 i)
    note m = malloc_some [OF 3(3)]
    let ?b = "b\<lparr>b_status := 1, b_countdown := b_on_length b, b_next := mp1_list_head f\<rparr>"
    let ?f = "(at_blink i (\<lambda>_. ?b) f)\<lparr>mp1_list_head := Some i, vmem := (vmem f)(cell b := b_on_char b)\<rparr>"
    have il: "i < length (blink_array f)" "i \<notin> set is" using m d by auto
    have "mp1_ioctl_add b f = (0, ?f)"
      using 3(1,3) il(1) by (simp add: mp1_ioctl_add_def Let_def at_blink_twice mp1_poke_def cell_def push_bit_eq_mult mult.commute not_le at_blink_def)
    moreover have "fish_inv (i # is) ?f"
      using d il m(1) assms(2) 3(1) chain_other [OF il(2), of "blink_array f" ?b]
      by (auto simp: fish_inv_def) (auto simp: at_blink_def)
    moreover have "map (\<lambda>j. strip (blink_array ?f ! j)) (i # is) = fresh_blink b # bs"
      using il unfolding bs by (auto simp: strip_def fresh_blink_def)
    ultimately show ?thesis using 3(1,2) by (auto simp: blinks_def l_add_def bs not_le [symmetric])
  qed
qed

subsection \<open>Removing\<close>

lemma drop_map:
  "distinct is \<Longrightarrow> find (\<lambda>i. b_location (bs ! i) = l) is = Some j \<Longrightarrow>
   drop_first l (map (\<lambda>i. strip (bs ! i)) is) = map (\<lambda>i. strip (bs ! i)) (remove1 j is)"
  by (induction "is") (auto dest: find_in split: if_splits)

lemma chain_link:
  "chain (blink_array f) (link_of f c) is \<Longrightarrow> distinct is \<Longrightarrow> i \<in> set is \<Longrightarrow> c \<notin> Some ` set is \<Longrightarrow>
   \<exists>c'. remove_find_prev f i c = Some (Inr c') \<and> link_of f c' = Some i \<and> (c' = c \<or> (\<exists>j\<in>set is. c' = Some j \<and> j \<noteq> i)) \<and>
     (\<forall>bs. (\<forall>j\<in>set is. j \<noteq> i \<longrightarrow> b_next (bs ! j) = (if c' = Some j then b_next (blink_array f ! i) else b_next (blink_array f ! j))) \<longrightarrow>
       chain bs (if c' = c then b_next (blink_array f ! i) else link_of f c) (remove1 i is))"
proof (induction "is" arbitrary: c)
  case (Cons j "is")
  have c: "link_of f c = Some j" "chain (blink_array f) (link_of f (Some j)) is" using Cons.prems(1) by (simp_all add: link_of_def)
  show ?case
  proof (cases "j = i")
    case True
    then have "remove_find_prev f i c = Some (Inr c)" using c(1) by (subst remove_find_prev.simps) simp
    moreover have "chain bs (b_next (blink_array f ! i)) is"
      if "\<forall>j\<in>set is. j \<noteq> i \<longrightarrow> b_next (bs ! j) = b_next (blink_array f ! j)" for bs
      by (rule chain_next [where bs = "blink_array f"]) (use c(2) True that Cons.prems(2) in \<open>auto simp: link_of_def\<close>)
    moreover have "c \<noteq> Some k" if "k \<in> set is" for k using Cons.prems(4) that by auto
    ultimately show ?thesis using True c(1) Cons.prems(2) by (intro exI [of _ c]) auto
  next
    case False
    then have i: "i \<in> set is" "distinct is" using Cons.prems by auto
    have nj: "Some j \<notin> Some ` set is" using Cons.prems(2) by auto
    from Cons.IH [OF c(2) i(2,1) nj] obtain c' where c': "remove_find_prev f i (Some j) = Some (Inr c')" "link_of f c' = Some i"
      "c' = Some j \<or> (\<exists>j\<in>set is. c' = Some j \<and> j \<noteq> i)"
      "\<And>bs. (\<forall>j\<in>set is. j \<noteq> i \<longrightarrow> b_next (bs ! j) = (if c' = Some j then b_next (blink_array f ! i) else b_next (blink_array f ! j))) \<Longrightarrow>
         chain bs (if c' = Some j then b_next (blink_array f ! i) else link_of f (Some j)) (remove1 i is)" by blast
    have "c' \<noteq> c" using c'(2) c(1) False by auto
    moreover have "remove_find_prev f i c = Some (Inr c')" using c(1) c'(1) False by (subst remove_find_prev.simps) simp
    ultimately show ?thesis using c' c(1) False by (intro exI [of _ c']) (auto simp: link_of_def)
  qed
qed simp

theorem remove_blinks:
  assumes "blinks f bs"
  shows "\<exists>f'. mp1_ioctl_remove l f = Some (Inr (fst (l_remove (ucast l) (bs, vmem f)), f')) \<and>
    blinks f' (fst (snd (l_remove (ucast l) (bs, vmem f)))) \<and> vmem f' = snd (snd (l_remove (ucast l) (bs, vmem f)))"
proof -
  obtain "is" where v: "fish_inv is f" and bs: "bs = map (\<lambda>i. strip (blink_array f ! i)) is" using assms by (auto simp: blinks_def)
  note d = v [unfolded fish_inv_def] and fb = find_blinks [OF v, of l]
  show ?thesis
  proof (cases "find (\<lambda>i. b_location (blink_array f ! i) = ucast l) is")
    case None
    then show ?thesis using fb assms by (simp add: mp1_ioctl_remove_def l_remove_def bs)
  next
    case (Some i)
    then have i: "i \<in> set is" using find_in by fast
    have lh: "link_of f None = mp1_list_head f" by (simp add: link_of_def)
    obtain c where c: "remove_find_prev f i None = Some (Inr c)" "c = None \<or> (\<exists>j\<in>set is. c = Some j \<and> j \<noteq> i)"
      "\<And>bs. (\<forall>j\<in>set is. j \<noteq> i \<longrightarrow> b_next (bs ! j) = (if c = Some j then b_next (blink_array f ! i) else b_next (blink_array f ! j))) \<Longrightarrow>
         chain bs (if c = None then b_next (blink_array f ! i) else mp1_list_head f) (remove1 i is)"
      using chain_link [of f None "is" i] d i unfolding lh by auto
    define f' where "f' = mp1_free i (set_link c (b_next (blink_array f ! i)) f)"
    have run: "mp1_ioctl_remove l f = Some (Inr (0, f'))"
      using fb(1) Some c(1) by (simp add: mp1_ioctl_remove_def f'_def)
    have il: "i < 2000" "\<And>j. j \<in> set is \<Longrightarrow> j < 2000" using inv_lt [OF v] i by auto
    have len: "length (blink_array f') = 2000" "vmem f' = vmem f"
      and hd: "mp1_list_head f' = (if c = None then b_next (blink_array f ! i) else mp1_list_head f)"
      using d by (auto simp: f'_def mp1_free_def set_link_def split: option.splits)
    have nth: "blink_array f' ! j = (if j = i then zero_blink else if c = Some j then (blink_array f ! j)\<lparr>b_next := b_next (blink_array f ! i)\<rparr>
        else blink_array f ! j)" if "j < 2000" for j
    proof (cases c)
      case None
      then show ?thesis using d il(1) by (simp add: f'_def mp1_free_def set_link_def)
    next
      case (Some k)
      then have "k < 2000" "k \<noteq> i" using c(2) il(2) by auto
      then show ?thesis using Some d il(1) by (simp add: f'_def mp1_free_def set_link_def)
    qed
    have "chain (blink_array f') (mp1_list_head f') (remove1 i is)" unfolding hd by (rule c(3)) (use nth il in auto)
    moreover have loc: "b_location (blink_array f' ! j) = (if j = i then 0 else b_location (blink_array f ! j))" if "j < 2000" for j
      using nth [OF that] by (simp add: zero_blink_def)
    have rm: "set (remove1 i is) = set is - {i}" using d by (simp add: set_remove1_eq)
    then have "set (remove1 i is) = {j. j < 2000 \<and> b_location (blink_array f' ! j) \<noteq> 0}" using d loc by (auto split: if_splits)
    moreover have "b_location (blink_array f' ! j) < 2000" if "j \<in> set (remove1 i is)" for j
    proof -
      have "j \<in> set is" "j \<noteq> i" using that unfolding rm by simp_all
      then have "b_location (blink_array f ! j) < 2000" "j < 2000" using d il(2) by blast+
      then show ?thesis using loc \<open>j \<noteq> i\<close> by simp
    qed
    moreover have ds: "distinct is" using d by blast
    ultimately have "fish_inv (remove1 i is) f'" using len(1) by (simp add: fish_inv_def)
    moreover have "map (\<lambda>j. strip (blink_array f' ! j)) (remove1 i is) = map (\<lambda>j. strip (blink_array f ! j)) (remove1 i is)"
    proof (rule map_cong)
      fix j assume "j \<in> set (remove1 i is)"
      then have "j < 2000" "j \<noteq> i" using il(2) unfolding rm by simp_all
      then show "strip (blink_array f' ! j) = strip (blink_array f ! j)" using nth by (simp add: strip_def)
    qed simp
    ultimately have "blinks f' (drop_first (ucast l) bs)" using drop_map [OF ds Some] by (auto simp: blinks_def bs)
    then show ?thesis using run fb(2) Some len(2) by (simp add: l_remove_def bs)
  qed
qed

subsection \<open>Finding and synchronising\<close>

theorem find_spec:
  assumes "blinks f bs"
  shows "\<exists>b. mp1_ioctl_find u f = Some (Inr (case l_find (b_location u) bs of None \<Rightarrow> (- 1, u) | Some b' \<Rightarrow> (0, b))) \<and>
    (\<forall>b'. l_find (b_location u) bs = Some b' \<longrightarrow> strip b = b')"
proof -
  obtain "is" where v: "fish_inv is f" and bs: "bs = map (\<lambda>i. strip (blink_array f ! i)) is" using assms by (auto simp: blinks_def)
  have "ucast (ucast (b_location u) :: u32) = b_location u" by (simp add: bit_eq_iff bit_simps)
  note fb = find_blinks [OF v, of "ucast (b_location u)", unfolded this]
  show ?thesis
    by (cases "find (\<lambda>i. b_location (blink_array f ! i) = b_location u) is") (use fb in \<open>auto simp: mp1_ioctl_find_def bs\<close>)
qed

lemma change_first_find: "l_find l bs = Some b \<Longrightarrow> change_first l (\<lambda>_. g b) bs = change_first l g bs"
  by (induction bs) (auto simp: l_find_def)

theorem sync_blinks:
  assumes "blinks f bs"
  shows "\<exists>f'. mp1_ioctl_sync arg f = Some (Inr (fst (l_sync (ucast (drop_bit 16 arg)) (ucast (arg AND 0xFFFF)) (bs, vmem f)), f')) \<and>
    blinks f' (fst (snd (l_sync (ucast (drop_bit 16 arg)) (ucast (arg AND 0xFFFF)) (bs, vmem f)))) \<and>
    vmem f' = snd (snd (l_sync (ucast (drop_bit 16 arg)) (ucast (arg AND 0xFFFF)) (bs, vmem f)))"
proof -
  obtain "is" where v: "fish_inv is f" and bs: "bs = map (\<lambda>i. strip (blink_array f ! i)) is" using assms by (auto simp: blinks_def)
  let ?l1 = "ucast (drop_bit 16 arg) :: u16" and ?l2 = "ucast (arg AND 0xFFFF) :: u16"
  note d = v [unfolded fish_inv_def] and f1 = find_blinks [OF v, of "drop_bit 16 arg"] and f2 = find_blinks [OF v, of "arg AND 0xFFFF"]
  consider "find (\<lambda>i. b_location (blink_array f ! i) = ?l1) is = None" | "find (\<lambda>i. b_location (blink_array f ! i) = ?l2) is = None"
    | i j where "find (\<lambda>i. b_location (blink_array f ! i) = ?l1) is = Some i" "find (\<lambda>i. b_location (blink_array f ! i) = ?l2) is = Some j"
    by fastforce
  then show ?thesis
  proof cases
    case 1
    then show ?thesis using f1 assms by (auto simp: mp1_ioctl_sync_def l_sync_def bs)
  next
    case 2
    then show ?thesis using f1 f2 assms by (auto simp: mp1_ioctl_sync_def l_sync_def bs split: option.splits)
  next
    case (3 i j)
    let ?a = "blink_array f ! i"
    let ?g = "\<lambda>b. b\<lparr>b_on_length := b_on_length ?a, b_off_length := b_off_length ?a, b_countdown := b_countdown ?a, b_status := b_status ?a\<rparr>"
    let ?f = "(at_blink j ?g f)\<lparr>vmem := (vmem f)(cell (blink_array f ! j) := b_off_char (blink_array f ! j))\<rparr>"
    have j: "j \<in> set is" "j < length (blink_array f)"
      using find_in [OF 3(2)] inv_lt [OF v conjunct1 [OF find_in [OF 3(2)]]] conjunct1 [OF d] by simp_all
    have sf: "\<not> bit (ucast (b_status ?a) AND 1 :: u8) 7" by (simp add: bit_simps)
    have run: "mp1_ioctl_sync arg f = Some (Inr (0, ?f))"
      using f1(1) f2(1) 3 j(2) sf by (simp add: mp1_ioctl_sync_def Let_def mp1_poke_def cell_def push_bit_eq_mult mult.commute at_blink_def)
    have nth: "blink_array ?f ! k = (if k = j then ?g (blink_array f ! j) else blink_array f ! k)" for k using j(2) by simp
    have "chain (blink_array ?f) (mp1_list_head f) is" by (rule chain_next [where bs = "blink_array f"]) (use d nth in auto)
    moreover have "b_location (blink_array ?f ! k) = b_location (blink_array f ! k)" for k unfolding nth by simp
    ultimately have "fish_inv is ?f" using d by (simp add: fish_inv_def)
    moreover have "map (\<lambda>k. strip (blink_array ?f ! k)) is = change_first ?l2 ?g bs"
    proof -
      have "map (\<lambda>k. strip (blink_array ?f ! k)) is = change_first ?l2 (\<lambda>_. strip (?g (blink_array f ! j))) bs"
        using change_map [of "is" "blink_array f" ?l2 j "?g (blink_array f ! j)"] d 3(2) j(2) by (simp add: bs at_blink_def)
      also have "strip (?g (blink_array f ! j)) = ?g (strip (blink_array f ! j))" by (simp add: strip_def)
      also have "change_first ?l2 (\<lambda>_. ?g (strip (blink_array f ! j))) bs = change_first ?l2 ?g bs"
        using change_first_find [of ?l2 bs "strip (blink_array f ! j)" ?g] f2(2) 3(2) by (simp add: bs)
      finally show ?thesis .
    qed
    ultimately show ?thesis using run f1(2) f2(2) 3 by (auto simp: blinks_def l_sync_def bs cell_def)
  qed
qed

end
