(* ===== verification/Fish_Time.thy ===== *)
theory Fish_Time
  imports Fish_Blink
begin

text \<open>
  What a user of the blinks sees: any sequence of requests and clock ticks, how long each character
  stays on the screen, and what the copies of whole structures do to the bytes.
\<close>

subsection \<open>Sequences of requests\<close>

datatype request = Ioctl u32 mp1_blink_struct u32 | Tick

definition serve :: "request \<Rightarrow> fish \<Rightarrow> (u32 \<times> fish) run" where
  "serve q f = (case q of
      Ioctl arg u cmd \<Rightarrow> obind (mp1_ioctl arg u cmd f) (\<lambda>(r, u, f). Some (Inr (r, f)))
    | Tick \<Rightarrow> (case mp1_rtc_tasklet f of None \<Rightarrow> None | Some f \<Rightarrow> Some (Inr (0, f))))"

fun serve_all :: "request list \<Rightarrow> fish \<Rightarrow> (u32 list \<times> fish) run" where
  "serve_all [] f = Some (Inr ([], f))"
| "serve_all (q # qs) f = obind (serve q f) (\<lambda>(r, f). obind (serve_all qs f) (\<lambda>(rs, f). Some (Inr (r # rs, f))))"

definition l_serve :: "request \<Rightarrow> blinking \<Rightarrow> u32 \<times> blinking" where
  "l_serve q s = (case q of
      Ioctl arg u cmd \<Rightarrow>
        if cmd = 0 then l_add u s else if cmd = 1 then l_remove (ucast arg) s
        else if cmd = 2 then (if l_find (b_location u) (fst s) = None then - 1 else 0, s)
        else l_sync (ucast (drop_bit 16 arg)) (ucast (arg AND 0xFFFF)) s
    | Tick \<Rightarrow> (0, l_tick s))"

fun l_serve_all :: "request list \<Rightarrow> blinking \<Rightarrow> u32 list \<times> blinking" where
  "l_serve_all [] s = ([], s)"
| "l_serve_all (q # qs) s = (case l_serve q s of (r, s) \<Rightarrow> case l_serve_all qs s of (rs, s) \<Rightarrow> (r # rs, s))"

text \<open>The four commands; a blink is never added at location 0.\<close>

definition proper :: "request \<Rightarrow> bool" where
  "proper q \<longleftrightarrow> (case q of Ioctl arg u cmd \<Rightarrow> cmd \<le> 3 \<and> (cmd = 0 \<longrightarrow> b_location u \<noteq> 0) | Tick \<Rightarrow> True)"

lemma serve_blinks:
  assumes "blinks f bs" and "proper q"
  shows "\<exists>f'. serve q f = Some (Inr (fst (l_serve q (bs, vmem f)), f')) \<and> blinks f' (fst (snd (l_serve q (bs, vmem f)))) \<and>
    vmem f' = snd (snd (l_serve q (bs, vmem f)))"
proof (cases q)
  case (Ioctl arg u cmd)
  then have "unat cmd \<le> 3" using assms(2) by (simp add: proper_def word_le_nat_alt)
  then have "unat cmd = 0 \<or> unat cmd = 1 \<or> unat cmd = 2 \<or> unat cmd = 3" by arith
  moreover have "cmd = of_nat (unat cmd)" by simp
  ultimately consider "cmd = 0" | "cmd = 1" | "cmd = 2" | "cmd = 3" by (elim disjE) simp_all
  then show ?thesis
  proof cases
    case 1
    then show ?thesis using add_blinks [OF assms(1), of u] assms(2) Ioctl
      by (auto simp: proper_def serve_def l_serve_def mp1_ioctl_def)
  next
    case 2
    then show ?thesis using remove_blinks [OF assms(1), of arg] Ioctl by (auto simp: serve_def l_serve_def mp1_ioctl_def)
  next
    case 3
    then show ?thesis using find_spec [OF assms(1), of u] assms(1) Ioctl
      by (auto simp: serve_def l_serve_def mp1_ioctl_def split: option.splits)
  next
    case 4
    then show ?thesis using sync_blinks [OF assms(1), of arg] Ioctl by (auto simp: serve_def l_serve_def mp1_ioctl_def)
  qed
next
  case Tick
  then show ?thesis using tasklet_blinks [OF assms(1)] by (auto simp: serve_def l_serve_def)
qed

theorem serve_all_blinks:
  "blinks f bs \<Longrightarrow> \<forall>q\<in>set qs. proper q \<Longrightarrow>
   \<exists>f'. serve_all qs f = Some (Inr (fst (l_serve_all qs (bs, vmem f)), f')) \<and>
     blinks f' (fst (snd (l_serve_all qs (bs, vmem f)))) \<and> vmem f' = snd (snd (l_serve_all qs (bs, vmem f)))"
proof (induction qs arbitrary: f bs)
  case (Cons q qs)
  obtain f1 where f1: "serve q f = Some (Inr (fst (l_serve q (bs, vmem f)), f1))" "blinks f1 (fst (snd (l_serve q (bs, vmem f))))"
    "vmem f1 = snd (snd (l_serve q (bs, vmem f)))" using serve_blinks [OF Cons.prems(1), of q] Cons.prems(2) by auto
  have s1: "snd (l_serve q (bs, vmem f)) = (fst (snd (l_serve q (bs, vmem f))), vmem f1)" using f1(3) by (simp add: prod_eq_iff)
  from Cons.IH [OF f1(2)] Cons.prems(2) show ?case
    using f1(1) by (auto simp: split_def simp flip: s1)
qed simp

subsection \<open>How long a character is shown\<close>

text \<open>\<open>b\<close> after \<open>t\<close> clock ticks.\<close>

definition blinked :: "mp1_blink_struct \<Rightarrow> nat \<Rightarrow> mp1_blink_struct" where
  "blinked b t =
     (let on = unat (b_on_length b); off = unat (b_off_length b); p = t mod (on + off)
      in (fresh_blink b)\<lparr>b_status := (if p < on then 1 else 0), b_countdown := of_nat (if p < on then on - p else on + off - p)\<rparr>)"

definition shows_on :: "mp1_blink_struct \<Rightarrow> nat \<Rightarrow> bool" where
  "shows_on b t \<longleftrightarrow> t mod (unat (b_on_length b) + unat (b_off_length b)) < unat (b_on_length b)"

text \<open>The lengths are at least one tick, and not negative as the signed numbers they are compared as.\<close>

definition times_ok :: "mp1_blink_struct \<Rightarrow> bool" where
  "times_ok b \<longleftrightarrow> 0 < b_on_length b \<and> b_on_length b < 0x8000 \<and> 0 < b_off_length b \<and> b_off_length b < 0x8000"

lemma sint_pos_u16: "n < 2 ^ 15 \<Longrightarrow> 0 < sint (of_nat n :: u16) \<longleftrightarrow> 0 < n"
proof -
  assume n: "n < 2 ^ 15"
  then have "unat (of_nat n :: u16) = n" by (simp add: unat_of_nat take_bit_nat_eq_self)
  moreover have "sint (of_nat n :: u16) = int n"
    using n by (simp add: sint_uint signed_take_bit_int_eq_self unsigned_of_nat take_bit_nat_eq_self flip: of_nat_power)
  ultimately show ?thesis by simp
qed

lemma blinked_0: "times_ok b \<Longrightarrow> blinked b 0 = fresh_blink b"
  by (simp add: blinked_def fresh_blink_def times_ok_def word_less_nat_alt)

text \<open>One tick: while more than one is left the count goes down, else the other character is written.\<close>

lemma blinked_Suc:
  assumes "times_ok b"
  shows "blink_tick (blinked b t) = blinked b (Suc t)"
    "tick_video (blinked b t) v =
       (if shows_on b (Suc t) = shows_on b t then v else v(cell b := (if shows_on b (Suc t) then b_on_char b else b_off_char b)))"
proof -
  define on off n p where "on = unat (b_on_length b)" "off = unat (b_off_length b)" "n = on + off" "p = t mod n"
  note ds = on_off_n_p_def
  have lim: "0 < on" "on < 2 ^ 15" "0 < off" "off < 2 ^ 15" using assms by (auto simp: times_ok_def ds word_less_nat_alt)
  have np: "p < n" using lim ds by simp
  have sp: "Suc t mod n = (if Suc p = n then 0 else Suc p)" using ds by (simp add: mod_Suc)
  have cd: "(of_nat k :: u16) - 1 = of_nat (k - 1)" if "0 < k" for k using that by (simp add: of_nat_diff)
  have ln: "b_on_length b = of_nat on" "b_off_length b = of_nat off" by (simp_all add: ds)
  have bt: "blinked b t = (fresh_blink b)\<lparr>b_status := (if p < on then 1 else 0), b_countdown := of_nat (if p < on then on - p else n - p)\<rparr>"
    by (simp add: blinked_def Let_def ds)
  have bs: "blinked b (Suc t) = (let q = (if Suc p = n then 0 else Suc p) in
      (fresh_blink b)\<lparr>b_status := (if q < on then 1 else 0), b_countdown := of_nat (if q < on then on - q else n - q)\<rparr>)"
    unfolding sp [symmetric] by (simp add: blinked_def Let_def ds)
  have so: "shows_on b t \<longleftrightarrow> p < on" "shows_on b (Suc t) \<longleftrightarrow> (if Suc p = n then 0 else Suc p) < on"
    unfolding sp [symmetric] by (simp_all add: shows_on_def ds)
  have pos: "0 < sint (b_countdown (blinked b t) - 1) \<longleftrightarrow> (if p < on then Suc p < on else Suc p < n)"
    using np lim sint_pos_u16 [of "on - p - 1"] sint_pos_u16 [of "n - p - 1"] ds(3) by (auto simp: bt cd simp del: of_nat_diff)
  have e: "n - Suc p = off" if "p < on" "\<not> Suc p < on" using ds(3) that by arith
  have "on < n" using ds(3) lim by simp
  then show "blink_tick (blinked b t) = blinked b (Suc t)"
    unfolding blink_tick_def pos bs unfolding bt
    using np lim ln by (auto simp: Let_def cd fresh_blink_def e simp del: of_nat_diff)
  have st: "b_status (blinked b t) AND 1 \<noteq> 0 \<longleftrightarrow> p < on" by (simp add: bt)
  have ch: "b_on_char (blinked b t) = b_on_char b" "b_off_char (blinked b t) = b_off_char b" "cell (blinked b t) = cell b"
    by (simp_all add: bt fresh_blink_def cell_def)
  show "tick_video (blinked b t) v =
       (if shows_on b (Suc t) = shows_on b t then v else v(cell b := (if shows_on b (Suc t) then b_on_char b else b_off_char b)))"
    unfolding tick_video_def pos st ch so using np lim ds(3) by auto
qed

lemma cell_inj: "cell a = cell b \<longleftrightarrow> b_location a = b_location b"
proof
  have u: "unat (cell x) = 2 * unat (b_location x)" for x
  proof -
    have "unat (b_location x) < 2 ^ LENGTH(16)" by (rule unsigned_less)
    then show ?thesis by (simp add: cell_def unat_word_ariths unsigned_ucast_eq take_bit_nat_eq_self)
  qed
  assume "cell a = cell b"
  from arg_cong [OF this, of unat] show "b_location a = b_location b" unfolding u by (simp add: word_unat_eq_iff)
qed (simp add: cell_def)

text \<open>Blinks elsewhere leave a cell alone.\<close>

lemma tick_video_other: "b_location a \<noteq> b_location b \<Longrightarrow> tick_video a v (cell b) = v (cell b)"
  using cell_inj [of a b] by (simp add: tick_video_def)

lemma fold_video_other: "\<forall>a\<in>set bs. b_location a \<noteq> b_location b \<Longrightarrow> fold tick_video bs v (cell b) = v (cell b)"
  by (induction bs arbitrary: v) (auto simp: tick_video_other)

lemma blinked_location [simp]: "b_location (blinked b t) = b_location b" "cell (blinked b t) = cell b"
  by (simp_all add: blinked_def Let_def fresh_blink_def cell_def)

lemma ticks_show:
  assumes "times_ok b" and "\<forall>a\<in>set xs \<union> set ys. b_location a \<noteq> b_location b" and "v (cell b) = b_on_char b"
  shows "\<exists>xs' ys' v'. (l_tick ^^ t) (xs @ fresh_blink b # ys, v) = (xs' @ blinked b t # ys', v') \<and>
    (\<forall>a\<in>set xs' \<union> set ys'. b_location a \<noteq> b_location b) \<and> v' (cell b) = (if shows_on b t then b_on_char b else b_off_char b)"
proof (induction t)
  case 0
  have "shows_on b 0" using assms(1) by (simp add: shows_on_def times_ok_def word_less_nat_alt)
  then show ?case using assms by (auto simp: blinked_0)
next
  case (Suc t)
  then obtain xs' ys' v' where s: "(l_tick ^^ t) (xs @ fresh_blink b # ys, v) = (xs' @ blinked b t # ys', v')"
    "\<forall>a\<in>set xs' \<union> set ys'. b_location a \<noteq> b_location b" "v' (cell b) = (if shows_on b t then b_on_char b else b_off_char b)" by blast
  have "(l_tick ^^ Suc t) (xs @ fresh_blink b # ys, v) =
      (map blink_tick xs' @ blinked b (Suc t) # map blink_tick ys', fold tick_video ys' (tick_video (blinked b t) (fold tick_video xs' v')))"
    using s(1) blinked_Suc(1) [OF assms(1)] by (simp add: l_tick_def)
  moreover have "fold tick_video ys' (tick_video (blinked b t) (fold tick_video xs' v')) (cell b) =
      (if shows_on b (Suc t) then b_on_char b else b_off_char b)"
    using s(2,3) fold_video_other [of ys' b] fold_video_other [of xs' b v'] blinked_Suc(2) [OF assms(1)] by simp
  ultimately show ?case using s(2) by (intro exI [of _ "map blink_tick xs'"] exI [of _ "map blink_tick ys'"] exI) auto
qed

text \<open>The clock ticks \<open>t\<close> times.\<close>

fun tasklets :: "nat \<Rightarrow> fish \<Rightarrow> fish option" where
  "tasklets 0 f = Some f"
| "tasklets (Suc t) f = (case tasklets t f of None \<Rightarrow> None | Some f \<Rightarrow> mp1_rtc_tasklet f)"

lemma tasklets_blinks:
  "blinks f bs \<Longrightarrow> \<exists>f'. tasklets t f = Some f' \<and> blinks f' (fst ((l_tick ^^ t) (bs, vmem f))) \<and> vmem f' = snd ((l_tick ^^ t) (bs, vmem f))"
proof (induction t)
  case (Suc t)
  then obtain f1 where f1: "tasklets t f = Some f1" "blinks f1 (fst ((l_tick ^^ t) (bs, vmem f)))" "vmem f1 = snd ((l_tick ^^ t) (bs, vmem f))"
    by blast
  have "(fst ((l_tick ^^ t) (bs, vmem f)), vmem f1) = (l_tick ^^ t) (bs, vmem f)" by (simp add: f1(3))
  from tasklet_blinks [OF f1(2), unfolded this] f1(1) show ?case by auto
qed auto

theorem blink_period:
  assumes "blinks f bs" and "b_location b \<noteq> 0" "b_location b < 2000" "length bs < 2000" and "times_ok b"
    and "\<forall>a\<in>set bs. b_location a \<noteq> b_location b"
  shows "\<exists>f' f''. mp1_ioctl_add b f = (0, f') \<and> tasklets t f' = Some f'' \<and>
    vmem f'' (2 * ucast (b_location b)) =
      (if t mod (unat (b_on_length b) + unat (b_off_length b)) < unat (b_on_length b) then b_on_char b else b_off_char b)"
proof -
  have "l_add b (bs, vmem f) = (0, fresh_blink b # bs, (vmem f)(cell b := b_on_char b))"
    using assms(3,4) by (auto simp: l_add_def dest: leD)
  then obtain f' where f': "mp1_ioctl_add b f = (0, f')" "blinks f' (fresh_blink b # bs)" "vmem f' = (vmem f)(cell b := b_on_char b)"
    using add_blinks [OF assms(1,2)] by auto
  obtain f'' where f'': "tasklets t f' = Some f''" "vmem f'' = snd ((l_tick ^^ t) (fresh_blink b # bs, vmem f'))"
    using tasklets_blinks [OF f'(2), of t] by blast
  have "vmem f'' (cell b) = (if shows_on b t then b_on_char b else b_off_char b)"
    using ticks_show [OF assms(5), of "[]" bs "vmem f'" t] assms(6) f''(2) f'(3) by auto
  then show ?thesis using f'(1) f''(1) by (simp add: cell_def shows_on_def)
qed

subsection \<open>A blink at location 0\<close>

text \<open>Its slot still looks free, so the next blink takes it and becomes its own successor.\<close>

lemma self_loop:
  assumes "tasklet_loop p f = Some y"
  shows "\<not> (p = Some i \<and> i < length (blink_array f) \<and> b_next (blink_array f ! i) = Some i)"
  by (rule tasklet_loop.raw_induct [OF _ assms]) (fastforce simp: Let_def tasklet_blink_eq split: option.splits)

theorem zero_location_hangs:
  assumes "blinks f bs" and "length bs < 2000" and "b_location b = 0" "b_location c = 0"
  shows "mp1_rtc_tasklet (snd (mp1_ioctl_add c (snd (mp1_ioctl_add b f)))) = None"
proof -
  obtain "is" where v: "fish_inv is f" and bs: "bs = map (\<lambda>i. strip (blink_array f ! i)) is" using assms by (auto simp: blinks_def)
  obtain i where i: "mp1_malloc f = Some i" using malloc_none [OF v] assms(2) bs by (cases "mp1_malloc f") auto
  note m = malloc_some [OF i]
  have len: "length (blink_array f) = 2000" using v by (simp add: fish_inv_def)
  let ?b = "b\<lparr>b_status := 1, b_countdown := b_on_length b, b_next := mp1_list_head f\<rparr>"
  define g where "g = snd (mp1_ioctl_add b f)"
  have g: "g = mp1_poke (b_on_char b) 0 ((at_blink i (\<lambda>_. ?b) f)\<lparr>mp1_list_head := Some i\<rparr>)"
    using i m(1) len assms(3) by (simp add: g_def mp1_ioctl_add_def Let_def at_blink_def)
  have "(b_location (blink_array g ! j) = 0) = (b_location (blink_array f ! j) = 0)" for j
    using m len assms(3) by (simp add: g mp1_poke_def)
  then have "mp1_malloc g = Some i" using i by (simp add: mp1_malloc_def)
  then obtain h where h: "mp1_ioctl_add c g = (0, h)" "mp1_list_head h = Some i" "length (blink_array h) = 2000" "b_next (blink_array h ! i) = Some i"
    using m(1) len assms(4) by (simp add: mp1_ioctl_add_def Let_def mp1_poke_def g)
  then have "tasklet_loop (Some i) h = None" using self_loop [of "Some i" h _ i] m(1) by (cases "tasklet_loop (Some i) h") auto
  then show ?thesis using h(1,2) by (simp add: g_def [symmetric] mp1_rtc_tasklet_def)
qed

subsection \<open>The bytes of a structure\<close>

definition le16 :: "u16 \<Rightarrow> u8 list" where
  "le16 x = [ucast x, ucast (drop_bit 8 x)]"

definition le32 :: "u32 \<Rightarrow> u8 list" where
  "le32 x = [ucast x, ucast (drop_bit 8 x), ucast (drop_bit 16 x), ucast (drop_bit 24 x)]"

text \<open>The packed structure, its elements at the offsets blink.S names; \<open>addr\<close> gives the addresses of the elements of the array.\<close>

definition blink_bytes :: "(nat option \<Rightarrow> u32) \<Rightarrow> mp1_blink_struct \<Rightarrow> u8 list" where
  "blink_bytes addr b = le16 (b_location b) @ [b_on_char b, b_off_char b] @ le16 (b_on_length b) @ le16 (b_off_length b) @
     le16 (b_countdown b) @ le16 (b_status b) @ le32 (addr (b_next b))"

lemma for_loop_Suc: "for_loop 0 (Suc n) body s = body n (for_loop 0 n body s)"
  by (simp add: for_loop_def)

lemma ece391_memset_stores: "n \<le> 2 ^ 32 \<Longrightarrow> ece391_memset m p c n = stores m p (replicate n c)"
proof (induction n)
  case (Suc n)
  then show ?case using stores_snoc [of "replicate n c" m p c]
    by (simp add: ece391_memset_def for_loop_Suc replicate_append_same [symmetric])
qed (simp add: ece391_memset_def for_loop_def)

lemma ece391_memcpy_stores:
  assumes "n \<le> 2 ^ 32" and "region dest n \<inter> region src n = {}"
  shows "ece391_memcpy m dest src n = (0, stores m dest (bytes m src n))"
proof -
  have "for_loop 0 k (\<lambda>i m. st m dest (of_nat i) (ld m src (of_nat i))) m = stores m dest (bytes m src k)" if "k \<le> n" for k
    using that
  proof (induction k)
    case (Suc k)
    have "ld (stores m dest (bytes m src k)) src (of_nat k) = ld m src (of_nat k)"
      by (rule ld_stores_disj [OF assms(2)]) (use Suc.prems in simp_all)
    then show ?case using Suc assms(1) stores_snoc [of "bytes m src k" m dest "ld m src (of_nat k)"]
      by (simp add: for_loop_Suc bytes_Suc)
  qed (simp add: for_loop_def)
  then show ?thesis by (simp add: ece391_memcpy_def)
qed

text \<open>Copying 16 bytes copies a structure; clearing 16 bytes leaves the structure of zeros.\<close>

theorem struct_copies:
  assumes "region dest 16 \<inter> region src 16 = {}" and "bytes m src 16 = blink_bytes addr b"
  shows "fst (ece391_memcpy m dest src 16) = 0" "bytes (snd (ece391_memcpy m dest src 16)) dest 16 = blink_bytes addr b"
    "addr None = 0 \<Longrightarrow> bytes (ece391_memset m dest 0 16) dest 16 = blink_bytes addr zero_blink"
proof -
  have c: "ece391_memcpy m dest src 16 = (0, stores m dest (bytes m src 16))" by (rule ece391_memcpy_stores) (use assms(1) in simp_all)
  show "fst (ece391_memcpy m dest src 16) = 0" by (simp add: c)
  show "bytes (snd (ece391_memcpy m dest src 16)) dest 16 = blink_bytes addr b"
    using bytes_stores_same [of "bytes m src 16" m dest] by (simp add: c assms(2) [symmetric])
  assume "addr None = 0"
  moreover have "bytes (ece391_memset m dest 0 16) dest 16 = replicate 16 0"
    using bytes_stores_same [of "replicate 16 (0::u8)" m dest] by (simp add: ece391_memset_stores)
  ultimately show "bytes (ece391_memset m dest 0 16) dest 16 = blink_bytes addr zero_blink"
    by (simp add: blink_bytes_def zero_blink_def le16_def le32_def eval_nat_numeral)
qed

lemma blink_bytes_inj:
  assumes "blink_bytes addr a = blink_bytes addr b" and "inj addr"
  shows "a = b"
proof -
  have "x = y" if "le16 x = le16 y" for x y
  proof (rule bit_word_eqI)
    fix n assume n: "n < LENGTH(16)"
    have "bit (ucast x :: u8) n = bit (ucast y :: u8) n" "bit (ucast (drop_bit 8 x) :: u8) (n - 8) = bit (ucast (drop_bit 8 y) :: u8) (n - 8)"
      using that by (simp_all add: le16_def)
    moreover have "n - 8 < 8" using n by simp
    ultimately show "bit x n = bit y n" by (cases "n < 8") (simp_all add: bit_simps)
  qed
  moreover have "x = y" if "le32 x = le32 y" for x y
  proof (rule bit_word_eqI)
    fix n assume n: "n < LENGTH(32)"
    have "bit (ucast x :: u8) n = bit (ucast y :: u8) n" "bit (ucast (drop_bit 8 x) :: u8) (n - 8) = bit (ucast (drop_bit 8 y) :: u8) (n - 8)"
      "bit (ucast (drop_bit 16 x) :: u8) (n - 16) = bit (ucast (drop_bit 16 y) :: u8) (n - 16)"
      "bit (ucast (drop_bit 24 x) :: u8) (n - 24) = bit (ucast (drop_bit 24 y) :: u8) (n - 24)"
      using that by (simp_all add: le32_def)
    then show "bit x n = bit y n" using n
      by (cases "n < 8"; cases "n < 16"; cases "n < 24") (simp_all add: bit_simps less_diff_conv2)
  qed
  moreover have "le16 (b_location a) = le16 (b_location b)" "b_on_char a = b_on_char b" "b_off_char a = b_off_char b"
    "le16 (b_on_length a) = le16 (b_on_length b)" "le16 (b_off_length a) = le16 (b_off_length b)"
    "le16 (b_countdown a) = le16 (b_countdown b)" "le16 (b_status a) = le16 (b_status b)" "le32 (addr (b_next a)) = le32 (addr (b_next b))"
    using assms(1) by (simp_all add: blink_bytes_def le16_def le32_def)
  ultimately show ?thesis using injD [OF assms(2)] by (intro mp1_blink_struct.equality) simp_all
qed

end
