(* ===== verification/User_Clock.thy ===== *)
theory User_Clock
  imports User_Os
begin

text \<open>
  What the programs that use the clock rely on besides files: a read of the clock returns at the next
  tick, a write sets its rate, \<open>vidmap\<close> stores an address that is not null.
\<close>

text \<open>An assignment to a 32-bit variable at address \<open>a\<close>.\<close>

definition ust32 :: "'w os \<Rightarrow> u32 \<Rightarrow> u32 \<Rightarrow> 'w \<Rightarrow> 'w" where
  "ust32 os a v w = set_mem os (st32 (mem_of os w) (at_addr os w a) v) w"

lemma st32_stores:
  "st32 m p v = stores m p [ucast v, ucast (drop_bit 8 v), ucast (drop_bit 16 v), ucast (drop_bit 24 v)]"
  using stores_snoc [of "[]" m p "ucast v"] stores_snoc [of "[ucast v]" m p "ucast (drop_bit 8 v)"]
    stores_snoc [of "[ucast v, ucast (drop_bit 8 v)]" m p "ucast (drop_bit 16 v)"]
    stores_snoc [of "[ucast v, ucast (drop_bit 8 v), ucast (drop_bit 16 v)]" m p "ucast (drop_bit 24 v)"]
  by (simp add: st32_def)

locale clock_os = file_os os good page off uaddr view
  for os :: "'w os" and good and page and off and uaddr and view +
  assumes read_clock: "good w \<Longrightarrow> uaddr a \<Longrightarrow> 2 \<le> i \<Longrightarrow> i < 8 \<Longrightarrow> v_fds (view w) i = Some Ticks \<Longrightarrow>
      \<exists>w'. int80 os 3 (of_nat i) a n w = Some (Inr (0, w')) \<and> good w' \<and> mem_of os w' page = mem_of os w page \<and> view w' = view w"
    and set_rate: "good w \<Longrightarrow> uaddr a \<Longrightarrow> 2 \<le> i \<Longrightarrow> i < 8 \<Longrightarrow> v_fds (view w) i = Some Ticks \<Longrightarrow>
      \<exists>w'. int80 os 4 (of_nat i) a n w = Some (Inr (0, w')) \<and> good w' \<and> mem_of os w' page = mem_of os w page \<and> view w' = view w"
    and map_video: "good w \<Longrightarrow> uaddr a \<Longrightarrow>
      \<exists>w' v. int80 os 8 a 0 0 w = Some (Inr (0, w')) \<and> v \<noteq> 0 \<and> good w' \<and>
        mem_of os w' page = st32 (mem_of os w) (page, off a) v page \<and> view w' = view w"
begin

lemma ust32_good: "good w \<Longrightarrow> uaddr a \<Longrightarrow> good (ust32 os a v w) \<and> view (ust32 os a v w) = view w"
  unfolding ust32_def by (subst (1 2) addr) (auto simp: mem_set st32_other_block)

end

end
