(* ===== verification/Fish_Main.thy ===== *)
theory Fish_Main
  imports Fish_Time User_Clock
begin

text \<open>
  src/fish/fish.c: \<open>add_frames\<close>, which reads two pictures from files and makes a blink of every place
  where one of them is not blank, and \<open>main\<close>.  The characters \<open>c0\<close> and \<open>c1\<close> are in memory, where
  \<open>read\<close> puts them, at the addresses \<open>a0\<close> and \<open>a1\<close>; \<open>u\<close> is the local \<open>blink_struct\<close> at address \<open>ua\<close>.
\<close>

text \<open>\<open>if (c != '\n')\<close>: the next character of one picture.\<close>

definition frame_char :: "'w os \<Rightarrow> u32 \<Rightarrow> u32 \<Rightarrow> bool \<Rightarrow> 'w \<Rightarrow> (bool \<times> 'w) run" where
  "frame_char os fd a eof w =
     (if uld os w a 0 \<noteq> 0x0A then
        obind (ece391_read os fd a 1 w) (\<lambda>(num_bytes, w).
        if num_bytes = 0 then Some (Inr (True, ust os a 0 0x0A w)) else Some (Inr (eof, w)))
      else Some (Inr (eof, w)))"

text \<open>The inner loop: the columns of one row.\<close>

partial_function (option) frame_cols ::
  "'w os \<Rightarrow> u32 \<Rightarrow> u32 \<Rightarrow> u32 \<Rightarrow> u32 \<Rightarrow> u32 \<Rightarrow> u32 \<Rightarrow> u32 \<Rightarrow> bool \<Rightarrow> bool \<Rightarrow> mp1_blink_struct \<Rightarrow> 'w \<Rightarrow> fish \<Rightarrow>
   (fault + bool \<times> bool \<times> mp1_blink_struct \<times> 'w \<times> fish) option" where
  "frame_cols os a0 a1 ua fd0 fd1 row col eof0 eof1 u w f =
     obind (frame_char os fd0 a0 eof0 w) (\<lambda>(eof0, w).
     obind (frame_char os fd1 a1 eof1 w) (\<lambda>(eof1, w).
     let c0 = uld os w a0 0; c1 = uld os w a1 0
     in if c0 = 0x0A \<and> c1 = 0x0A then Some (Inr (eof0, eof1, u, w, f))
        else if c0 \<noteq> 0x20 \<and> c0 \<noteq> 0x0A \<or> c1 \<noteq> 0x20 \<and> c1 \<noteq> 0x0A then
          let u = u\<lparr>b_on_char := (if c0 = 0x0A then 0x20 else c0)\<rparr>;
              u = u\<lparr>b_off_char := (if c1 = 0x0A then 0x20 else c1)\<rparr>;
              u = u\<lparr>b_location := ucast (row * 80 + col + 40)\<rparr>
          in obind (mp1_ioctl ua u 0 f) (\<lambda>(r, u, f). frame_cols os a0 a1 ua fd0 fd1 row (col + 1) eof0 eof1 u w f)
        else frame_cols os a0 a1 ua fd0 fd1 row (col + 1) eof0 eof1 u w f))"

text \<open>The end of a row, for one picture.\<close>

definition frame_end :: "'w os \<Rightarrow> u32 \<Rightarrow> u32 \<Rightarrow> bool \<Rightarrow> 'w \<Rightarrow> 'w run" where
  "frame_end os fd a eof w =
     (if eof then obind (ece391_close os fd (ust os a 0 0x0A w)) (\<lambda>(r, w). Some (Inr w))
      else Some (Inr (ust os a 0 0x30 w)))"

partial_function (option) frame_rows ::
  "'w os \<Rightarrow> u32 \<Rightarrow> u32 \<Rightarrow> u32 \<Rightarrow> u32 \<Rightarrow> u32 \<Rightarrow> u32 \<Rightarrow> bool \<Rightarrow> bool \<Rightarrow> mp1_blink_struct \<Rightarrow> 'w \<Rightarrow> fish \<Rightarrow>
   (fault + 'w \<times> fish) option" where
  "frame_rows os a0 a1 ua fd0 fd1 row eof0 eof1 u w f =
     (if \<not> eof0 \<or> \<not> eof1 then
        obind (frame_cols os a0 a1 ua fd0 fd1 row 0 eof0 eof1 u w f) (\<lambda>(eof0, eof1, u, w, f).
        obind (frame_end os fd0 a0 eof0 w) (\<lambda>w.
        obind (frame_end os fd1 a1 eof1 w) (\<lambda>w.
        frame_rows os a0 a1 ua fd0 fd1 (row + 1) eof0 eof1 u w f)))
      else Some (Inr (w, f)))"

text \<open>\<open>if ((fd = ece391_open(f)) < 0) ece391_halt(-1);\<close>\<close>

definition open_frame :: "'w os \<Rightarrow> u32 \<Rightarrow> 'w \<Rightarrow> (u32 \<times> 'w) run" where
  "open_frame os f w =
     obind (ece391_open os f w) (\<lambda>(fd, w).
     if sint fd < 0 then obind (ece391_halt os (- 1) w) (\<lambda>(r, w). Some (Inr (fd, w))) else Some (Inr (fd, w)))"

definition add_frames ::
  "'w os \<Rightarrow> u32 \<Rightarrow> u32 \<Rightarrow> u32 \<Rightarrow> mp1_blink_struct \<Rightarrow> u32 \<Rightarrow> u32 \<Rightarrow> 'w \<Rightarrow> fish \<Rightarrow> ('w \<times> fish) run" where
  "add_frames os a0 a1 ua u f0 f1 w f =
     (let w = ust os a0 0 0x30 w;
          w = ust os a1 0 0x30 w;
          u = u\<lparr>b_on_length := 15\<rparr>;
          u = u\<lparr>b_off_length := 15\<rparr>
      in obind (open_frame os f0 w) (\<lambda>(fd0, w).
         obind (open_frame os f1 w) (\<lambda>(fd1, w).
         frame_rows os a0 a1 ua fd0 fd1 0 False False u w f)))"

subsection \<open>main\<close>

definition mp1_set_video_mode :: "'w os \<Rightarrow> u32 \<Rightarrow> 'w \<Rightarrow> (u32 \<times> 'w) run" where
  "mp1_set_video_mode os va w =
     obind (ece391_vidmap os va w) (\<lambda>(r, w).
     if r = - 1 then Some (Inr (0, w)) else Some (Inr (ld32 (mem_of os w) (at_addr os w va), w)))"

text \<open>\<open>for (i = 0; i < n; i++)\<close>: wait for the clock, then let the blinks go on.\<close>

fun fish_wait :: "'w os \<Rightarrow> u32 \<Rightarrow> u32 \<Rightarrow> nat \<Rightarrow> 'w \<Rightarrow> fish \<Rightarrow> ('w \<times> fish) run" where
  "fish_wait os rtc_fd ga 0 w f = Some (Inr (w, f))"
| "fish_wait os rtc_fd ga (Suc n) w f =
     obind (ece391_read os rtc_fd ga 4 w) (\<lambda>(r, w).
     case mp1_rtc_tasklet f of None \<Rightarrow> None | Some f \<Rightarrow> fish_wait os rtc_fd ga n w f)"

text \<open>
  The variables of the program that have an address: \<open>vmem_base_addr\<close>, \<open>ret_val\<close>, \<open>garbage\<close>, the two
  structures, \<open>c0\<close> and \<open>c1\<close>.  \<open>u\<close> and \<open>u'\<close> are what the structures happen to hold.
\<close>

record fish_vars =
  x_vmem_base_addr :: u32
  x_ret_val :: u32
  x_garbage :: u32
  x_blink_struct :: u32
  x_frame_struct :: u32
  x_c0 :: u32
  x_c1 :: u32

text \<open>\<open>main\<close> once the clock runs.\<close>

definition fish_tail :: "'w os \<Rightarrow> fish_vars \<Rightarrow> u32 \<Rightarrow> mp1_blink_struct \<Rightarrow> 'w \<Rightarrow> fish \<Rightarrow> (u32 \<times> 'w \<times> fish) run" where
  "fish_tail os x rtc_fd u w f =
     obind (fish_wait os rtc_fd (x_garbage x) 200 w f) (\<lambda>(w, f).
     let u = u\<lparr>b_on_char := 0x49, b_off_char := 0x4D, b_on_length := 7, b_off_length := 6, b_location := 6 * 80 + 60\<rparr>
     in obind (mp1_ioctl (x_blink_struct x) u 0 f) (\<lambda>(r, u, f).
     obind (fish_wait os rtc_fd (x_garbage x) 200 w f) (\<lambda>(w, f).
     obind (mp1_ioctl (push_bit 16 40 OR (6 * 80 + 60)) u 3 f) (\<lambda>(r, u, f).
     obind (fish_wait os rtc_fd (x_garbage x) 200 w f) (\<lambda>(w, f).
     let i = 200; u = u\<lparr>b_location := 60\<rparr>
     in obind (mp1_ioctl i u 1 f) (\<lambda>(r, u, f).
     obind (fish_wait os rtc_fd (x_garbage x) (80 * 25) w f) (\<lambda>(w, f).
     obind (ece391_close os rtc_fd w) (\<lambda>(r, w).
     Some (Inr (0, w, f))))))))))"

text \<open>The strings of the program.\<close>

definition fish_lits :: "u8 list list" where
  "fish_lits = [lit ''rtc'', lit ''frame0.txt'', lit ''frame1.txt'']"

definition fish_main ::
  "'w os \<Rightarrow> (u8 list \<Rightarrow> u32) \<Rightarrow> fish_vars \<Rightarrow> mp1_blink_struct \<Rightarrow> mp1_blink_struct \<Rightarrow> 'w \<Rightarrow> fish \<Rightarrow> (u32 \<times> 'w \<times> fish) run" where
  "fish_main os la x u u' w f =
     (let f = f\<lparr>blink_array := replicate (80 * 25) zero_blink\<rparr>
      in obind (mp1_set_video_mode os (x_vmem_base_addr x) w) (\<lambda>(p, w).
         if p = 0 then Some (Inr (- 1, w, f))
         else
         obind (ece391_open os (la (lit ''rtc'')) w) (\<lambda>(rtc_fd, w).
         obind (add_frames os (x_c0 x) (x_c1 x) (x_frame_struct x) u' (la (lit ''frame0.txt'')) (la (lit ''frame1.txt'')) w f) (\<lambda>(w, f).
         obind (ece391_write os rtc_fd (x_ret_val x) 4 (ust32 os (x_ret_val x) 32 w)) (\<lambda>(ret_val, w).
         let w = ust32 os (x_ret_val x) ret_val w
         in fish_tail os x rtc_fd u w f)))))"

subsection \<open>The pictures\<close>

text \<open>The lines of a file; a line past the end is empty and a character past the end of a line is blank.\<close>

function lines_of :: "u8 list \<Rightarrow> u8 list list" where
  "lines_of xs = takeWhile (\<lambda>c. c \<noteq> 0x0A) xs #
     (if 0x0A \<in> set xs then lines_of (tl (dropWhile (\<lambda>c. c \<noteq> 0x0A) xs)) else [])"
  by pat_completeness auto
termination
proof (relation "measure length")
  fix xs :: "u8 list" assume "0x0A \<in> set xs"
  then have "length (dropWhile (\<lambda>c. c \<noteq> 0x0A) xs) \<noteq> 0" by (metis (mono_tags) dropWhile_eq_Nil_conv length_0_conv)
  moreover have "length (dropWhile (\<lambda>c. c \<noteq> 0x0A) xs) \<le> length xs" by (rule length_dropWhile_le)
  ultimately show "(tl (dropWhile (\<lambda>c. c \<noteq> 0x0A) xs), xs) \<in> measure length" by (cases xs) auto
qed simp

declare lines_of.simps [simp del]

definition head_or :: "'b \<Rightarrow> 'b list \<Rightarrow> 'b" where
  "head_or d xs = (case xs of [] \<Rightarrow> d | x # _ \<Rightarrow> x)"

text \<open>The places of a row that are not blank in both pictures: column and the two characters.\<close>

function row_cells :: "nat \<Rightarrow> u8 list \<Rightarrow> u8 list \<Rightarrow> (nat \<times> u8 \<times> u8) list" where
  "row_cells col xs ys =
     (if xs = [] \<and> ys = [] then []
      else (if head_or 0x20 xs \<noteq> 0x20 \<or> head_or 0x20 ys \<noteq> 0x20 then [(col, head_or 0x20 xs, head_or 0x20 ys)] else []) @
        row_cells (Suc col) (tl xs) (tl ys))"
  by pat_completeness auto
termination
  by (relation "measure (\<lambda>(c, xs, ys). length xs + length ys)") (auto simp: neq_Nil_conv)

declare row_cells.simps [simp del]

function frame_cells :: "nat \<Rightarrow> u8 list list \<Rightarrow> u8 list list \<Rightarrow> (nat \<times> nat \<times> u8 \<times> u8) list" where
  "frame_cells row ls ks =
     (if ls = [] \<and> ks = [] then []
      else map (Pair row) (row_cells 0 (head_or [] ls) (head_or [] ks)) @ frame_cells (Suc row) (tl ls) (tl ks))"
  by pat_completeness auto
termination
  by (relation "measure (\<lambda>(c, xs, ys). length xs + length ys)") (auto simp: neq_Nil_conv)

declare frame_cells.simps [simp del]

definition frame_blink :: "nat \<times> nat \<times> u8 \<times> u8 \<Rightarrow> mp1_blink_struct" where
  "frame_blink c = (case c of (row, col, x, y) \<Rightarrow>
     zero_blink\<lparr>b_location := of_nat (80 * row + col + 40), b_on_char := x, b_off_char := y, b_on_length := 15, b_off_length := 15\<rparr>)"

definition add_all :: "mp1_blink_struct list \<Rightarrow> blinking \<Rightarrow> blinking" where
  "add_all = fold (\<lambda>b s. snd (l_add b s))"

subsection \<open>One picture within a row\<close>

text \<open>What is left of a picture in the current row: \<open>None\<close> once its line has ended, or the unread part of its file.\<close>

definition next_char :: "u8 list option \<Rightarrow> u8" where
  "next_char l = (case l of None \<Rightarrow> 0x0A | Some xs \<Rightarrow> head_or 0x0A xs)"

definition next_part :: "u8 list option \<Rightarrow> u8 list option" where
  "next_part l = (if next_char l = 0x0A then None else map_option tl l)"

definition line_of :: "u8 list option \<Rightarrow> u8 list" where
  "line_of l = (case l of None \<Rightarrow> [] | Some xs \<Rightarrow> takeWhile (\<lambda>c. c \<noteq> 0x0A) xs)"

definition ends :: "u8 list option \<Rightarrow> bool" where
  "ends l = (case l of None \<Rightarrow> False | Some xs \<Rightarrow> 0x0A \<notin> set xs)"

definition read_on :: "(u8 list \<Rightarrow> u8 list) \<Rightarrow> nat \<Rightarrow> u8 list option \<Rightarrow> (nat \<Rightarrow> fdesc option) \<Rightarrow> nat \<Rightarrow> fdesc option" where
  "read_on g i l fds = (case l of None \<Rightarrow> fds | Some xs \<Rightarrow> fds(i := Some (Reads (g xs))))"

abbreviation line_rest :: "u8 list \<Rightarrow> u8 list" where
  "line_rest xs \<equiv> tl (dropWhile (\<lambda>c. c \<noteq> 0x0A) xs)"

definition part_size :: "u8 list option \<Rightarrow> nat" where
  "part_size l = (case l of None \<Rightarrow> 0 | Some xs \<Rightarrow> Suc (length xs))"

lemmas part_defs = next_char_def next_part_def line_of_def ends_def read_on_def part_size_def head_or_def

lemma part_step:
  "line_of l = (if next_char l = 0x0A then [] else next_char l # line_of (next_part l))"
  "ends l \<longleftrightarrow> l = Some [] \<or> ends (next_part l)"
  "read_on line_rest i (next_part l) (read_on tl i l fds) = read_on line_rest i l fds"
  "next_char l \<noteq> 0x0A \<Longrightarrow> part_size (next_part l) < part_size l" "part_size (next_part l) \<le> part_size l"
  by (auto simp: part_defs split: option.splits list.splits)

lemma read_on_other: "i \<noteq> j \<Longrightarrow> read_on g i l fds j = fds j" "i \<noteq> j \<Longrightarrow> read_on g i l (read_on h j k fds) = read_on h j k (read_on g i l fds)"
  by (auto simp: read_on_def fun_upd_twist split: option.splits)

lemma l_add_fresh: "fresh_blink a = fresh_blink b \<Longrightarrow> l_add a s = l_add b s"
proof -
  assume e: "fresh_blink a = fresh_blink b"
  have "b_location a = b_location b" "b_on_char a = b_on_char b"
    using arg_cong [OF e, of b_location] arg_cong [OF e, of b_on_char] by (simp_all add: fresh_blink_def)
  then show "l_add a s = l_add b s" using e by (simp add: l_add_def cell_def)
qed

lemma ucast_location: "(ucast (of_nat row * 80 + of_nat col + 40 :: u32) :: u16) = of_nat (80 * row + col + 40)"
proof -
  have "(of_nat row * 80 + of_nat col + 40 :: u32) = of_nat (80 * row + col + 40)" by simp
  moreover have "(ucast (of_nat n :: u32) :: u16) = of_nat n" for n
    by (rule bit_word_eqI) (simp add: bit_simps bit_of_nat_iff)
  ultimately show ?thesis by presburger
qed

lemma row_cells_step:
  assumes "\<not> (next_char l = 0x0A \<and> next_char k = 0x0A)"
  shows "row_cells col (line_of l) (line_of k) =
    (let x = (if next_char l = 0x0A then 0x20 else next_char l); y = (if next_char k = 0x0A then 0x20 else next_char k)
     in (if x \<noteq> 0x20 \<or> y \<noteq> 0x20 then [(col, x, y)] else []) @ row_cells (Suc col) (line_of (next_part l)) (line_of (next_part k)))"
proof -
  have e: "line_of (next_part m) = tl (line_of m)" "(if next_char m = 0x0A then 0x20 else next_char m) = head_or 0x20 (line_of m)"
    "line_of m = [] \<longleftrightarrow> next_char m = 0x0A" for m
    by (auto simp: part_defs split: option.splits list.splits)
  show ?thesis using assms unfolding e Let_def by (subst row_cells.simps) (simp only: e(3), simp)
qed

lemma frame_add_cell:
  fixes u x y row col
  defines "u' \<equiv> u\<lparr>b_on_char := x, b_off_char := y, b_location := of_nat (80 * row + col + 40)\<rparr>" and "b \<equiv> frame_blink (row, col, x, y)"
  assumes "blinks f bs" and "b_on_length u = 15" "b_off_length u = 15" and "hit \<Longrightarrow> b_location b \<noteq> 0"
  shows "\<exists>f'. (if hit then mp1_ioctl ua u' 0 f else Some (Inr (0, u', f))) =
        Some (Inr (if hit then fst (l_add b (bs, vmem f)) else 0, u', f')) \<and>
      blinks f' (fst (if hit then snd (l_add b (bs, vmem f)) else (bs, vmem f))) \<and>
      vmem f' = snd (if hit then snd (l_add b (bs, vmem f)) else (bs, vmem f))"
proof (cases hit)
  case True
  have "fresh_blink u' = fresh_blink b" using assms(4,5) by (simp add: u'_def b_def fresh_blink_def frame_blink_def zero_blink_def)
  note la = l_add_fresh [OF this]
  have "b_location u' \<noteq> 0" using assms(6) [OF True] by (simp add: u'_def b_def frame_blink_def)
  from add_blinks [OF assms(3) this] show ?thesis using True unfolding la by (auto simp: mp1_ioctl_def)
next
  case False
  then show ?thesis using assms(3) by auto
qed

subsection \<open>The rows\<close>

text \<open>What is left of a picture at the start of a row: \<open>None\<close> once its file has ended.\<close>

definition next_pic :: "u8 list option \<Rightarrow> u8 list option" where
  "next_pic p = (case p of None \<Rightarrow> None | Some xs \<Rightarrow> if 0x0A \<in> set xs then Some (line_rest xs) else None)"

definition pic_lines :: "u8 list option \<Rightarrow> u8 list list" where
  "pic_lines p = (case p of None \<Rightarrow> [] | Some xs \<Rightarrow> lines_of xs)"

lemma pic_step:
  "pic_lines p = [] \<longleftrightarrow> p = None" "head_or [] (pic_lines p) = line_of p" "tl (pic_lines p) = pic_lines (next_pic p)"
  "(p = None \<or> ends p) \<longleftrightarrow> next_pic p = None"
proof -
  have "(pic_lines p = [] \<longleftrightarrow> p = None) \<and> head_or [] (pic_lines p) = line_of p \<and> tl (pic_lines p) = pic_lines (next_pic p) \<and>
    ((p = None \<or> ends p) \<longleftrightarrow> next_pic p = None)"
  proof (cases p)
    case (Some xs)
    show ?thesis unfolding Some pic_lines_def next_pic_def line_of_def ends_def head_or_def option.case
      by (subst (1 2 3) lines_of.simps) auto
  qed (simp add: pic_lines_def next_pic_def line_of_def ends_def head_or_def)
  then show "pic_lines p = [] \<longleftrightarrow> p = None" "head_or [] (pic_lines p) = line_of p" "tl (pic_lines p) = pic_lines (next_pic p)"
    "(p = None \<or> ends p) \<longleftrightarrow> next_pic p = None" by simp_all
qed

lemma pic_size: "part_size (next_pic p) \<le> part_size p" "p \<noteq> None \<Longrightarrow> part_size (next_pic p) < part_size p"
proof -
  have "length (dropWhile (\<lambda>c. c \<noteq> 0x0A) xs) < Suc (length xs)" for xs :: "u8 list"
    using length_dropWhile_le by (rule le_imp_less_Suc)
  then show "part_size (next_pic p) \<le> part_size p" "p \<noteq> None \<Longrightarrow> part_size (next_pic p) < part_size p"
    by (auto simp: part_size_def next_pic_def less_imp_le split: option.splits)
qed

text \<open>What \<open>main\<close> does to the list of blinks and the screen, for pictures \<open>xs\<close> and \<open>ys\<close>.\<close>

definition fish_blinks :: "u8 list \<Rightarrow> u8 list \<Rightarrow> mp1_blink_struct list" where
  "fish_blinks xs ys = map frame_blink (frame_cells 0 (lines_of xs) (lines_of ys))"

definition im_blink :: mp1_blink_struct where
  "im_blink = zero_blink\<lparr>b_on_char := 0x49, b_off_char := 0x4D, b_on_length := 7, b_off_length := 6, b_location := 540\<rparr>"

definition fish_tail_show :: "blinking \<Rightarrow> blinking" where
  "fish_tail_show s =
     (let s = snd (l_add im_blink ((l_tick ^^ 200) s));
          s = snd (l_sync 40 540 ((l_tick ^^ 200) s));
          s = snd (l_remove 200 ((l_tick ^^ 200) s))
      in (l_tick ^^ 2000) s)"

definition fish_show :: "u8 list \<Rightarrow> u8 list \<Rightarrow> (u32 \<Rightarrow> u8) \<Rightarrow> blinking" where
  "fish_show xs ys v = fish_tail_show (add_all (fish_blinks xs ys) ([], v))"

lemma blinks_start:
  assumes "mp1_list_head f = None"
  shows "blinks (f\<lparr>blink_array := replicate (80 * 25) zero_blink\<rparr>) []"
proof -
  let ?bs = "replicate (80 * 25) zero_blink"
  have "b_location (?bs ! i) = 0" if "i < 2000" for i
  proof -
    have "?bs ! i = zero_blink" by (rule nth_replicate) (use that in simp)
    then show ?thesis by (simp add: zero_blink_def)
  qed
  moreover have "length ?bs = 2000" by (simp only: length_replicate)
  ultimately have "fish_inv [] (f\<lparr>blink_array := ?bs\<rparr>)" using assms by (auto simp: fish_inv_def)
  then show ?thesis by (auto simp: blinks_def)
qed

context file_os
begin

abbreviation chr_at :: "u32 \<Rightarrow> 'w \<Rightarrow> u8" where
  "chr_at a w \<equiv> ld (mem_of os w) (page, off a) 0"

definition in_line :: "'w \<Rightarrow> nat \<Rightarrow> u32 \<Rightarrow> u8 list option \<Rightarrow> bool" where
  "in_line w i a l \<longleftrightarrow> (case l of None \<Rightarrow> chr_at a w = 0x0A | Some xs \<Rightarrow> chr_at a w \<noteq> 0x0A \<and> v_fds (view w) i = Some (Reads xs))"

lemma frame_char_step:
  assumes "good w" and "uaddr a" and "2 \<le> i" "i < 8" and "in_line w i a l"
  shows "\<exists>w'. frame_char os (of_nat i) a eof w = Some (Inr (eof \<or> l = Some [], w')) \<and> good w' \<and> chr_at a w' = next_char l \<and>
    (\<forall>b. off b \<noteq> off a \<longrightarrow> chr_at b w' = chr_at b w) \<and> view w' = (view w)\<lparr>v_fds := read_on tl i l (v_fds (view w))\<rparr>"
proof (cases l)
  case None
  then show ?thesis using assms by (auto simp: frame_char_def uld_def addr in_line_def part_defs)
next
  case (Some xs)
  then have x: "chr_at a w \<noteq> 0x0A" "v_fds (view w) i = Some (Reads xs)" using assms(5) by (simp_all add: in_line_def)
  from read_file [OF assms(1-4) x(2), of 1] obtain w1 where w1:
    "int80 os 3 (of_nat i) a 1 w = Some (Inr (of_nat (length (take 1 xs)), w1))" "good w1"
    "mem_of os w1 page = stores (mem_of os w) (page, off a) (take 1 xs) page"
    "view w1 = (view w)\<lparr>v_fds := (v_fds (view w))(i := Some (Reads (drop 1 xs)))\<rparr>" by auto
  have ch: "ld (mem_of os w1) (page, b) 0 = ld (stores (mem_of os w) (page, off a) (take 1 xs)) (page, b) 0" for b
    using w1(3) by (simp add: ld_def)
  show ?thesis
  proof (cases xs)
    case Nil
    let ?w = "ust os a 0 0x0A w1"
    note u = ust_page [OF w1(2) assms(2), of 0 "0x0A"]
    have "frame_char os (of_nat i) a eof w = Some (Inr (True, ?w))"
      using w1(1) x(1) Nil assms(1,2) by (simp add: frame_char_def uld_def addr ece391_read_def)
    moreover have "chr_at b ?w = (if off b = off a then 0x0A else chr_at b w)" for b
      using u(2) ch Nil by (simp add: ld_st)
    ultimately show ?thesis using Some Nil u(1,3) w1(4) x(2) by (intro exI [of _ ?w]) (auto simp: part_defs)
  next
    case (Cons y ys)
    have "frame_char os (of_nat i) a eof w = Some (Inr (eof, w1))"
      using w1(1) x(1) Cons assms(1,2) by (simp add: frame_char_def uld_def addr ece391_read_def)
    moreover have "chr_at a w1 = y" "\<And>b. off b \<noteq> off a \<Longrightarrow> chr_at b w1 = chr_at b w"
      using ch Cons by (simp_all add: ld_stores unsigned_eq_0_iff)
    ultimately show ?thesis using Some Cons w1(2,4) by (intro exI [of _ w1]) (auto simp: part_defs)
  qed
qed

lemma frame_cols_adds:
  assumes "good w" and "uaddr a0" "uaddr a1" "off a0 \<noteq> off a1" and "2 \<le> i" "i < 8" "2 \<le> j" "j < 8" "i \<noteq> j"
    and "in_line w i a0 l" and "in_line w j a1 k" and "blinks f bs"
    and "\<forall>c\<in>set (row_cells col (line_of l) (line_of k)). b_location (frame_blink (row, c)) \<noteq> 0"
    and "b_on_length u = 15" "b_off_length u = 15"
  shows "\<exists>u' w' f'. frame_cols os a0 a1 ua (of_nat i) (of_nat j) (of_nat row) (of_nat col) eof0 eof1 u w f =
      Some (Inr (eof0 \<or> ends l, eof1 \<or> ends k, u', w', f')) \<and> b_on_length u' = 15 \<and> b_off_length u' = 15 \<and> good w' \<and>
    view w' = (view w)\<lparr>v_fds := read_on line_rest i l (read_on line_rest j k (v_fds (view w)))\<rparr> \<and>
    blinks f' (fst (add_all (map (\<lambda>c. frame_blink (row, c)) (row_cells col (line_of l) (line_of k))) (bs, vmem f))) \<and>
    vmem f' = snd (add_all (map (\<lambda>c. frame_blink (row, c)) (row_cells col (line_of l) (line_of k))) (bs, vmem f))"
  using assms
proof (induction "part_size l + part_size k" arbitrary: l k col eof0 eof1 u w f bs rule: less_induct)
  case less
  note g = less.prems(1) and a = less.prems(2-4) and ij = less.prems(5-9)
  obtain w1 where w1: "frame_char os (of_nat i) a0 eof0 w = Some (Inr (eof0 \<or> l = Some [], w1))" "good w1" "chr_at a0 w1 = next_char l"
    "\<And>b. off b \<noteq> off a0 \<Longrightarrow> chr_at b w1 = chr_at b w" "view w1 = (view w)\<lparr>v_fds := read_on tl i l (v_fds (view w))\<rparr>"
    using frame_char_step [OF g a(1) ij(1,2) less.prems(10)] by blast
  have "in_line w1 j a1 k" using less.prems(11) w1(4) [of a1] w1(5) a(3) ij(5) by (auto simp: in_line_def read_on_other split: option.splits)
  from frame_char_step [OF w1(2) a(2) ij(3,4) this] obtain w2 where w2:
    "frame_char os (of_nat j) a1 eof1 w1 = Some (Inr (eof1 \<or> k = Some [], w2))" "good w2" "chr_at a1 w2 = next_char k"
    "\<And>b. off b \<noteq> off a1 \<Longrightarrow> chr_at b w2 = chr_at b w1" "view w2 = (view w1)\<lparr>v_fds := read_on tl j k (v_fds (view w1))\<rparr>" by blast
  have c: "uld os w2 a0 0 = next_char l" "uld os w2 a1 0 = next_char k" "chr_at a0 w2 = next_char l"
    using w1(3) w2(3) w2(4) [of a0] a addr [OF w2(2)] by (simp_all add: uld_def)
  let ?fc = "\<lambda>col eof0 eof1 u w f. frame_cols os a0 a1 ua (of_nat i) (of_nat j) (of_nat row) col eof0 eof1 u w f"
  have v2: "view w2 = (view w)\<lparr>v_fds := read_on tl i l (read_on tl j k (v_fds (view w)))\<rparr>"
    using w1(5) w2(5) ij(5) read_on_other(2) [of j i tl k tl l] by simp
  show ?case
  proof (cases "next_char l = 0x0A \<and> next_char k = 0x0A")
    case True
    then have "row_cells col (line_of l) (line_of k) = []" by (simp add: part_step(1) row_cells.simps)
    moreover have "ends m \<longleftrightarrow> m = Some []" "read_on tl n m fds = read_on line_rest n m fds" if "next_char m = 0x0A" for m n fds
      using that by (auto simp: part_defs split: option.splits list.splits)
    moreover have "?fc (of_nat col) eof0 eof1 u w f = Some (Inr (eof0 \<or> l = Some [], eof1 \<or> k = Some [], u, w2, f))"
      using w1(1) w2(1) c True by (subst frame_cols.simps) (simp add: Let_def)
    ultimately show ?thesis using True less.prems(12,14,15) w2(2) v2 by (simp add: add_all_def)
  next
    case False
    let ?l = "next_part l" and ?k = "next_part k"
    let ?x = "if next_char l = 0x0A then 0x20 else next_char l" and ?y = "if next_char k = 0x0A then 0x20 else next_char k"
    let ?hit = "?x \<noteq> 0x20 \<or> ?y \<noteq> 0x20"
    let ?u = "u\<lparr>b_on_char := ?x, b_off_char := ?y, b_location := of_nat (80 * row + col + 40)\<rparr>"
    have rc: "row_cells col (line_of l) (line_of k) = (if ?hit then [(col, ?x, ?y)] else []) @ row_cells (Suc col) (line_of ?l) (line_of ?k)"
      using row_cells_step [OF False] by (simp only: Let_def)
    obtain f1 where f1: "(if ?hit then mp1_ioctl ua ?u 0 f else Some (Inr (0, ?u, f))) =
        Some (Inr (if ?hit then fst (l_add (frame_blink (row, col, ?x, ?y)) (bs, vmem f)) else 0, ?u, f1))"
      and f1b: "blinks f1 (fst (if ?hit then snd (l_add (frame_blink (row, col, ?x, ?y)) (bs, vmem f)) else (bs, vmem f)))"
      "vmem f1 = snd (if ?hit then snd (l_add (frame_blink (row, col, ?x, ?y)) (bs, vmem f)) else (bs, vmem f))"
      using frame_add_cell [OF less.prems(12,14,15), of ?hit row col ?x ?y ua] less.prems(13) unfolding rc by auto
    let ?s = "if ?hit then snd (l_add (frame_blink (row, col, ?x, ?y)) (bs, vmem f)) else (bs, vmem f)"
    have s1: "(fst ?s, vmem f1) = ?s" using f1b(2) by (simp add: prod_eq_iff)
    have in1: "in_line w2 i a0 ?l" "in_line w2 j a1 ?k"
      using c(3) w2(3) v2 ij(5) by (auto simp: in_line_def part_defs split: option.splits list.splits)
    have sz: "part_size ?l + part_size ?k < part_size l + part_size k"
      using False part_step(4) [of l] part_step(4) [of k] part_step(5) [of l] part_step(5) [of k] by fastforce
    let ?u2 = "if ?hit then ?u else u"
    have u2: "b_on_length ?u2 = 15" "b_off_length ?u2 = 15" using less.prems(14,15) by simp_all
    have fit: "\<forall>c\<in>set (row_cells (Suc col) (line_of ?l) (line_of ?k)). b_location (frame_blink (row, c)) \<noteq> 0"
      using less.prems(13) unfolding rc by auto
    obtain u' w' f' where w': "?fc (of_nat (Suc col)) (eof0 \<or> l = Some []) (eof1 \<or> k = Some []) ?u2 w2 f1 =
        Some (Inr ((eof0 \<or> l = Some []) \<or> ends ?l, (eof1 \<or> k = Some []) \<or> ends ?k, u', w', f'))" "b_on_length u' = 15" "b_off_length u' = 15" "good w'"
      "view w' = (view w2)\<lparr>v_fds := read_on line_rest i ?l (read_on line_rest j ?k (v_fds (view w2)))\<rparr>"
      "blinks f' (fst (add_all (map (\<lambda>c. frame_blink (row, c)) (row_cells (Suc col) (line_of ?l) (line_of ?k))) (fst ?s, vmem f1)))"
      "vmem f' = snd (add_all (map (\<lambda>c. frame_blink (row, c)) (row_cells (Suc col) (line_of ?l) (line_of ?k))) (fst ?s, vmem f1))"
      using less.hyps [OF sz w2(2) a ij in1 f1b(1) fit u2] by blast
    have "?fc (of_nat col) eof0 eof1 u w f = ?fc (of_nat (Suc col)) (eof0 \<or> l = Some []) (eof1 \<or> k = Some []) ?u2 w2 f1"
      using w1(1) w2(1) c(1,2) False f1 ucast_location [of row col]
      by (subst frame_cols.simps) (auto simp: Let_def add.commute split: if_splits)
    moreover have "add_all (map (\<lambda>c. frame_blink (row, c)) (row_cells col (line_of l) (line_of k))) (bs, vmem f) =
        add_all (map (\<lambda>c. frame_blink (row, c)) (row_cells (Suc col) (line_of ?l) (line_of ?k))) ?s"
      unfolding rc by (simp add: add_all_def)
    moreover have "view w' = (view w)\<lparr>v_fds := read_on line_rest i l (read_on line_rest j k (v_fds (view w)))\<rparr>"
      unfolding w'(5) v2 using ij(5) read_on_other(2) [of i j] by (simp add: part_step(3))
    ultimately show ?thesis using w'(1-4) w'(6,7)[unfolded s1] part_step(2) [of l] part_step(2) [of k] by auto
  qed
qed

lemma frame_end_step:
  assumes "good w" and "uaddr a" and "2 \<le> i" "i < 8"
  shows "\<exists>w'. frame_end os (of_nat i) a eof w = Some (Inr w') \<and> good w' \<and> chr_at a w' = (if eof then 0x0A else 0x30) \<and>
    (\<forall>b. off b \<noteq> off a \<longrightarrow> chr_at b w' = chr_at b w) \<and>
    view w' = (if eof then (view w)\<lparr>v_fds := (v_fds (view w))(i := None)\<rparr> else view w)"
proof (cases eof)
  case True
  let ?w = "ust os a 0 0x0A w"
  note u = ust_page [OF assms(1,2), of 0 "0x0A"]
  from call_close [OF u(1), of "of_nat i"] obtain r w' where w':
    "int80 os 6 (of_nat i) 0 0 ?w = Some (Inr (r, w'))" "good w'" "mem_of os w' page = mem_of os ?w page"
    "view w' = snd (v_close (of_nat i) (view w))" unfolding u(3) by auto
  have f: "unat (of_nat i :: u32) = i" by (rule unat_u32_of_nat) (use assms(4) in simp)
  then have "\<not> of_nat i < (2 :: u32)" "\<not> of_nat i > (7 :: u32)" using assms(3,4) by (simp_all add: word_less_nat_alt)
  then have "snd (v_close (of_nat i) (view w)) = (view w)\<lparr>v_fds := (v_fds (view w))(i := None)\<rparr>"
    using f by (auto simp: v_close_def fun_upd_idem intro!: uview.equality)
  moreover have "chr_at b w' = (if off b = off a then 0x0A else chr_at b w)" for b
    using w'(3) u(2) by (simp add: ld_def st_def)
  moreover have "frame_end os (of_nat i) a eof w = Some (Inr w')" using w'(1) True by (simp add: frame_end_def ece391_close_def)
  ultimately show ?thesis using True w'(2,4) by auto
next
  case False
  note u = ust_page [OF assms(1,2), of 0 "0x30"]
  show ?thesis using False u by (auto simp: frame_end_def ld_st)
qed

text \<open>The state between two rows.\<close>

definition at_row :: "'w \<Rightarrow> nat \<Rightarrow> u32 \<Rightarrow> u8 list option \<Rightarrow> bool" where
  "at_row w i a p \<longleftrightarrow> in_line w i a p \<and> (p = None \<longrightarrow> v_fds (view w) i = None)"

lemma frame_row_end:
  assumes "good w" and "uaddr a0" "uaddr a1" "off a0 \<noteq> off a1" and "2 \<le> i" "i < 8" "2 \<le> j" "j < 8" "i \<noteq> j"
    and "view w = (view w0)\<lparr>v_fds := read_on line_rest i p (read_on line_rest j q (v_fds (view w0)))\<rparr>"
    and "at_row w0 i a0 p" "at_row w0 j a1 q"
  shows "\<exists>w1 w2. frame_end os (of_nat i) a0 (next_pic p = None) w = Some (Inr w1) \<and> frame_end os (of_nat j) a1 (next_pic q = None) w1 = Some (Inr w2) \<and>
    good w2 \<and> at_row w2 i a0 (next_pic p) \<and> at_row w2 j a1 (next_pic q) \<and>
    (view w2)\<lparr>v_fds := (v_fds (view w2))(i := None, j := None)\<rparr> = (view w0)\<lparr>v_fds := (v_fds (view w0))(i := None, j := None)\<rparr>"
proof -
  obtain w1 where w1: "frame_end os (of_nat i) a0 (next_pic p = None) w = Some (Inr w1)" "good w1" "chr_at a0 w1 = (if next_pic p = None then 0x0A else 0x30)"
    "\<And>b. off b \<noteq> off a0 \<Longrightarrow> chr_at b w1 = chr_at b w" "view w1 = (if next_pic p = None then (view w)\<lparr>v_fds := (v_fds (view w))(i := None)\<rparr> else view w)"
    using frame_end_step [OF assms(1,2,5,6)] by blast
  obtain w2 where w2: "frame_end os (of_nat j) a1 (next_pic q = None) w1 = Some (Inr w2)" "good w2" "chr_at a1 w2 = (if next_pic q = None then 0x0A else 0x30)"
    "\<And>b. off b \<noteq> off a1 \<Longrightarrow> chr_at b w2 = chr_at b w1" "view w2 = (if next_pic q = None then (view w1)\<lparr>v_fds := (v_fds (view w1))(j := None)\<rparr> else view w1)"
    using frame_end_step [OF w1(2) assms(3,7,8)] by blast
  have fi: "v_fds (view w2) i = (case next_pic p of None \<Rightarrow> None | Some xs \<Rightarrow> Some (Reads xs))"
    "v_fds (view w2) j = (case next_pic q of None \<Rightarrow> None | Some xs \<Rightarrow> Some (Reads xs))"
    using w1(5) w2(5) assms(9,10) by (auto simp: read_on_def next_pic_def split: option.splits if_splits)
  have "chr_at a0 w2 = (if next_pic p = None then 0x0A else 0x30)" using w1(3) w2(4) [of a0] assms(4) by simp
  then have "at_row w2 i a0 (next_pic p)" "at_row w2 j a1 (next_pic q)"
    using fi w2(3) by (auto simp: at_row_def in_line_def split: option.splits)
  moreover have "(v_fds (view w2))(i := None, j := None) = (v_fds (view w0))(i := None, j := None)"
    using w1(5) w2(5) assms(10) by (auto simp: read_on_def fun_eq_iff split: option.splits)
  then have "(view w2)\<lparr>v_fds := (v_fds (view w2))(i := None, j := None)\<rparr> = (view w0)\<lparr>v_fds := (v_fds (view w0))(i := None, j := None)\<rparr>"
    using w1(5) w2(5) assms(10) by simp
  ultimately show ?thesis using w1(1) w2(1,2) by blast
qed

lemma frame_rows_adds:
  assumes "good w" and "uaddr a0" "uaddr a1" "off a0 \<noteq> off a1" and "2 \<le> i" "i < 8" "2 \<le> j" "j < 8" "i \<noteq> j"
    and "at_row w i a0 p" and "at_row w j a1 q" and "blinks f bs"
    and "\<forall>c\<in>set (frame_cells row (pic_lines p) (pic_lines q)). b_location (frame_blink c) \<noteq> 0"
    and "b_on_length u = 15" "b_off_length u = 15"
  shows "\<exists>w' f'. frame_rows os a0 a1 ua (of_nat i) (of_nat j) (of_nat row) (p = None) (q = None) u w f = Some (Inr (w', f')) \<and>
    good w' \<and> view w' = (view w)\<lparr>v_fds := (v_fds (view w))(i := None, j := None)\<rparr> \<and>
    blinks f' (fst (add_all (map frame_blink (frame_cells row (pic_lines p) (pic_lines q))) (bs, vmem f))) \<and>
    vmem f' = snd (add_all (map frame_blink (frame_cells row (pic_lines p) (pic_lines q))) (bs, vmem f))"
  using assms
proof (induction "part_size p + part_size q" arbitrary: p q row u w f bs rule: less_induct)
  case less
  note a = less.prems(2-4) and ij = less.prems(5-9)
  show ?case
  proof (cases "p = None \<and> q = None")
    case True
    moreover have "(view w)\<lparr>v_fds := (v_fds (view w))(i := None, j := None)\<rparr> = view w"
      using less.prems(10,11) True by (auto simp: at_row_def fun_upd_idem intro!: uview.equality)
    ultimately show ?thesis using less.prems(1,12)
      by (subst frame_rows.simps) (simp add: pic_lines_def frame_cells.simps add_all_def)
  next
    case False
    let ?rc = "row_cells 0 (line_of p) (line_of q)" and ?p = "next_pic p" and ?q = "next_pic q"
    have fc: "frame_cells row (pic_lines p) (pic_lines q) = map (Pair row) ?rc @ frame_cells (Suc row) (pic_lines ?p) (pic_lines ?q)"
      using False by (subst frame_cells.simps) (auto simp: pic_step(1,2,3))
    have in0: "in_line w i a0 p" "in_line w j a1 q" using less.prems(10,11) by (simp_all add: at_row_def)
    have fit: "\<forall>c\<in>set ?rc. b_location (frame_blink (row, c)) \<noteq> 0" using less.prems(13) unfolding fc by auto
    obtain u1 w1 f1 where w1: "frame_cols os a0 a1 ua (of_nat i) (of_nat j) (of_nat row) 0 (p = None) (q = None) u w f =
        Some (Inr (?p = None, ?q = None, u1, w1, f1))" "b_on_length u1 = 15" "b_off_length u1 = 15" "good w1"
      "view w1 = (view w)\<lparr>v_fds := read_on line_rest i p (read_on line_rest j q (v_fds (view w)))\<rparr>"
      "blinks f1 (fst (add_all (map (\<lambda>c. frame_blink (row, c)) ?rc) (bs, vmem f)))"
      "vmem f1 = snd (add_all (map (\<lambda>c. frame_blink (row, c)) ?rc) (bs, vmem f))"
      using frame_cols_adds [OF less.prems(1) a ij in0 less.prems(12) fit less.prems(14,15), of ua "p = None" "q = None"]
      unfolding pic_step(4) by auto
    obtain w2 w3 where w3: "frame_end os (of_nat i) a0 (?p = None) w1 = Some (Inr w2)" "frame_end os (of_nat j) a1 (?q = None) w2 = Some (Inr w3)"
      "good w3" "at_row w3 i a0 ?p" "at_row w3 j a1 ?q"
      "(view w3)\<lparr>v_fds := (v_fds (view w3))(i := None, j := None)\<rparr> = (view w)\<lparr>v_fds := (v_fds (view w))(i := None, j := None)\<rparr>"
      using frame_row_end [OF w1(4) a ij w1(5) less.prems(10,11)] by blast
    have sz: "part_size ?p + part_size ?q < part_size p + part_size q"
      using False pic_size [of p] pic_size [of q] by fastforce
    have fit2: "\<forall>c\<in>set (frame_cells (Suc row) (pic_lines ?p) (pic_lines ?q)). b_location (frame_blink c) \<noteq> 0"
      using less.prems(13) unfolding fc by auto
    let ?s = "add_all (map (\<lambda>c. frame_blink (row, c)) ?rc) (bs, vmem f)"
    have s1: "(fst ?s, vmem f1) = ?s" using w1(7) by (simp add: prod_eq_iff)
    have "frame_rows os a0 a1 ua (of_nat i) (of_nat j) (of_nat row) (p = None) (q = None) u w f =
        frame_rows os a0 a1 ua (of_nat i) (of_nat j) (of_nat (Suc row)) (?p = None) (?q = None) u1 w3 f1"
      using False w1(1) w3(1,2) by (subst frame_rows.simps) (auto simp: add.commute)
    moreover have "add_all (map frame_blink (frame_cells row (pic_lines p) (pic_lines q))) (bs, vmem f) =
        add_all (map frame_blink (frame_cells (Suc row) (pic_lines ?p) (pic_lines ?q))) ?s"
      unfolding fc by (simp add: add_all_def comp_def)
    ultimately show ?thesis using less.hyps [OF sz w3(3) a ij w3(4,5) w1(6) fit2 w1(2,3), unfolded s1 w3(6)] by simp
  qed
qed

text \<open>Both pictures are opened, read to their ends and closed.\<close>

lemma ust_lits:
  assumes "good w" and "uaddr a" and "lits la L w" and "apart off la L a 1"
  shows "lits la L (ust os a 0 v w)"
proof -
  have "st (mem_of os w) (page, off a) 0 v = stores (mem_of os w) (page, off a) [v]"
    using stores_snoc [of "[]" "mem_of os w" "(page, off a)" v] by simp
  then show ?thesis using apart_lits [OF assms(3,4), of "[v]"] ust_page(2) [OF assms(1,2), of 0 v] by simp
qed

lemma open_frame_reads:
  assumes "good w" and "lits la L w" and "nm \<in> L" "length nm \<le> 31" and "v_disk (view w) nm = Some (Reads xs)" and "2 \<le> i" "i < 8"
    and "v_fds (view w) i = None" and "\<And>j. 2 \<le> j \<Longrightarrow> j < i \<Longrightarrow> v_fds (view w) j \<noteq> None"
  shows "\<exists>w'. open_frame os (la nm) w = Some (Inr (of_nat i, w')) \<and> good w' \<and> mem_of os w' page = mem_of os w page \<and>
    view w' = (view w)\<lparr>v_fds := (v_fds (view w))(i := Some (Reads xs))\<rparr>"
proof -
  have "uaddr (la nm)" "cstr (mem_of os w) (page, off (la nm)) nm" using assms(2,3) by (auto simp: has_lits_def)
  from call_open [OF assms(1) this assms(4)] v_open_found [OF assms(5-9)] obtain w' where w':
    "int80 os 5 (la nm) 0 0 w = Some (Inr (of_nat i, w'))" "good w'" "mem_of os w' page = mem_of os w page"
    "view w' = (view w)\<lparr>v_fds := (v_fds (view w))(i := Some (Reads xs))\<rparr>" by auto
  have "unat (of_nat i :: u32) < 2 ^ 31" using assms(7) by (simp add: unat_u32_of_nat)
  then have "\<not> sint (of_nat i :: u32) < 0" using sint_u32_small [of "of_nat i"] by simp
  then show ?thesis using w' by (simp add: open_frame_def ece391_open_def)
qed

theorem add_frames_adds:
  assumes "good w" and "uaddr a0" "uaddr a1" "off a0 \<noteq> off a1" and "lits la L w" and "apart off la L a0 1" "apart off la L a1 1"
    and "n0 \<in> L" "n1 \<in> L" "length n0 \<le> 31" "length n1 \<le> 31"
    and "v_disk (view w) n0 = Some (Reads xs)" "v_disk (view w) n1 = Some (Reads ys)"
    and "2 \<le> i" "i < 7" "v_fds (view w) i = None" "v_fds (view w) (Suc i) = None" and "\<And>j. 2 \<le> j \<Longrightarrow> j < i \<Longrightarrow> v_fds (view w) j \<noteq> None"
    and "blinks f bs" and "\<forall>c\<in>set (frame_cells 0 (lines_of xs) (lines_of ys)). b_location (frame_blink c) \<noteq> 0"
  shows "\<exists>w' f'. add_frames os a0 a1 ua u (la n0) (la n1) w f = Some (Inr (w', f')) \<and> good w' \<and> view w' = view w \<and>
    blinks f' (fst (add_all (map frame_blink (frame_cells 0 (lines_of xs) (lines_of ys))) (bs, vmem f))) \<and>
    vmem f' = snd (add_all (map frame_blink (frame_cells 0 (lines_of xs) (lines_of ys))) (bs, vmem f))"
proof -
  let ?w1 = "ust os a0 0 0x30 w"
  let ?w2 = "ust os a1 0 0x30 ?w1"
  note u1 = ust_page [OF assms(1,2), of 0 "0x30"]
  note u2 = ust_page [OF u1(1) assms(3), of 0 "0x30"]
  have lt: "lits la L ?w2" by (intro ust_lits) (use assms u1(1) in auto)
  have v2: "view ?w2 = view w" using u1(3) u2(3) by simp
  obtain w3 where w3: "open_frame os (la n0) ?w2 = Some (Inr (of_nat i, w3))" "good w3" "mem_of os w3 page = mem_of os ?w2 page"
    "view w3 = (view w)\<lparr>v_fds := (v_fds (view w))(i := Some (Reads xs))\<rparr>"
    using open_frame_reads [OF u2(1) lt assms(8,10), of xs i] assms(12,14-18) unfolding v2 by auto
  have used: "v_fds (view w3) j \<noteq> None" if "2 \<le> j" "j < Suc i" for j using assms(18) [of j] w3(4) that by (cases "j = i") auto
  obtain w4 where w4: "open_frame os (la n1) w3 = Some (Inr (of_nat (Suc i), w4))" "good w4" "mem_of os w4 page = mem_of os w3 page"
    "view w4 = (view w3)\<lparr>v_fds := (v_fds (view w3))(Suc i := Some (Reads ys))\<rparr>"
    using open_frame_reads [OF w3(2) lits_page [OF lt w3(3)] assms(9,11) _ _ _ _ used, where i = "Suc i" and xs = ys] assms(13-15,17) w3(4) by auto
  have "chr_at a1 ?w2 = 0x30" "chr_at a0 ?w2 = 0x30" using u1(2) u2(2) assms(4) by (auto simp: ld_st)
  then have "chr_at a1 w4 = 0x30" "chr_at a0 w4 = 0x30" using w3(3) w4(3) by (simp_all add: ld_def)
  then have at: "at_row w4 i a0 (Some xs)" "at_row w4 (Suc i) a1 (Some ys)" using w3(4) w4(4) by (simp_all add: at_row_def in_line_def)
  let ?u = "u\<lparr>b_on_length := 15, b_off_length := 15\<rparr>"
  obtain w' f' where w': "frame_rows os a0 a1 ua (of_nat i) (of_nat (Suc i)) 0 False False ?u w4 f = Some (Inr (w', f'))" "good w'"
    "view w' = (view w4)\<lparr>v_fds := (v_fds (view w4))(i := None, Suc i := None)\<rparr>"
    "blinks f' (fst (add_all (map frame_blink (frame_cells 0 (lines_of xs) (lines_of ys))) (bs, vmem f)))"
    "vmem f' = snd (add_all (map frame_blink (frame_cells 0 (lines_of xs) (lines_of ys))) (bs, vmem f))"
    using frame_rows_adds [OF w4(2) assms(2-4) assms(14) _ _ _ _ at assms(19), of 0 ?u ua] assms(14,15,20) by (auto simp: pic_lines_def)
  have "view w' = view w" using w'(3) w4(4) w3(4) assms(16,17) by (auto simp: fun_upd_twist fun_upd_idem intro!: uview.equality)
  then show ?thesis using w' w3(1) w4(1) by (simp add: add_frames_def Let_def)
qed

end

subsection \<open>The whole program\<close>

context clock_os
begin

lemma wait_ticks:
  assumes "good w" and "uaddr a" and "2 \<le> i" "i < 8" "v_fds (view w) i = Some Ticks" and "blinks f bs"
  shows "\<exists>w' f'. fish_wait os (of_nat i) a n w f = Some (Inr (w', f')) \<and> good w' \<and> view w' = view w \<and>
    blinks f' (fst ((l_tick ^^ n) (bs, vmem f))) \<and> vmem f' = snd ((l_tick ^^ n) (bs, vmem f))"
  using assms
proof (induction n arbitrary: w f bs)
  case (Suc n)
  obtain w1 where w1: "int80 os 3 (of_nat i) a 4 w = Some (Inr (0, w1))" "good w1" "view w1 = view w"
    using read_clock [OF Suc.prems(1-5)] by blast
  obtain f1 where f1: "mp1_rtc_tasklet f = Some f1" "blinks f1 (fst (l_tick (bs, vmem f)))" "vmem f1 = snd (l_tick (bs, vmem f))"
    using tasklet_blinks [OF Suc.prems(6)] by blast
  have "(fst (l_tick (bs, vmem f)), vmem f1) = l_tick (bs, vmem f)" by (simp add: f1(3))
  from Suc.IH [OF w1(2) Suc.prems(2-4) _ f1(2), unfolded this] Suc.prems(5) w1 f1(1) show ?case
    by (simp add: ece391_read_def funpow_swap1)
qed auto

lemma fish_tail_runs:
  assumes g: "good w" and x: "uaddr (x_garbage x)" and tk: "v_fds (view w) 2 = Some Ticks" and b: "blinks f bs"
  shows "\<exists>w' f'. fish_tail os x 2 u w f = Some (Inr (0, w', f')) \<and> good w' \<and> view w' = snd (v_close 2 (view w)) \<and>
    blinks f' (fst (fish_tail_show (bs, vmem f))) \<and> vmem f' = snd (fish_tail_show (bs, vmem f))"
proof -
  note wt = wait_ticks [OF _ x, where i = 2, simplified]
  let ?u = "u\<lparr>b_on_char := 0x49, b_off_char := 0x4D, b_on_length := 7, b_off_length := 6, b_location := 540\<rparr>"
  define s1 where "s1 = (l_tick ^^ 200) (bs, vmem f)"
  define s2 where "s2 = snd (l_add im_blink s1)"
  define s3 where "s3 = (l_tick ^^ 200) s2"
  define s4 where "s4 = snd (l_sync 40 540 s3)"
  define s5 where "s5 = (l_tick ^^ 200) s4"
  define s6 where "s6 = snd (l_remove 200 s5)"
  define s7 where "s7 = (l_tick ^^ 2000) s6"
  obtain w1 f1 where 1: "fish_wait os 2 (x_garbage x) 200 w f = Some (Inr (w1, f1))" "good w1" "view w1 = view w" "blinks f1 (fst s1)" "s1 = (fst s1, vmem f1)"
    using wt [OF g tk b, of 200] by (auto simp: s1_def)
  have "fresh_blink ?u = fresh_blink im_blink" by (simp add: fresh_blink_def im_blink_def zero_blink_def)
  note la = l_add_fresh [OF this]
  obtain f2 r2 where 2: "mp1_ioctl (x_blink_struct x) ?u 0 f1 = Some (Inr (r2, ?u, f2))" "blinks f2 (fst s2)" "s2 = (fst s2, vmem f2)"
    using add_blinks [OF 1(4), of ?u] unfolding la 1(5) [symmetric] by (auto simp: mp1_ioctl_def s2_def)
  obtain w3 f3 where 3: "fish_wait os 2 (x_garbage x) 200 w1 f2 = Some (Inr (w3, f3))" "good w3" "view w3 = view w" "blinks f3 (fst s3)" "s3 = (fst s3, vmem f3)"
    using wt [OF 1(2) _ 2(2), of 200] tk 1(3) unfolding 2(3) [symmetric] by (auto simp: s3_def)
  have arg: "push_bit 16 40 OR 540 = (0x28021C :: u32)" by simp
  obtain f4 r4 where 4: "mp1_ioctl 0x28021C ?u 3 f3 = Some (Inr (r4, ?u, f4))" "blinks f4 (fst s4)" "s4 = (fst s4, vmem f4)"
    using sync_blinks [OF 3(4), of "0x28021C"] unfolding 3(5) [symmetric] by (auto simp: mp1_ioctl_def s4_def)
  obtain w5 f5 where 5: "fish_wait os 2 (x_garbage x) 200 w3 f4 = Some (Inr (w5, f5))" "good w5" "view w5 = view w" "blinks f5 (fst s5)" "s5 = (fst s5, vmem f5)"
    using wt [OF 3(2) _ 4(2), of 200] tk 3(3) unfolding 4(3) [symmetric] by (auto simp: s5_def)
  obtain f6 r6 where 6: "mp1_ioctl 200 (?u\<lparr>b_location := 60\<rparr>) 1 f5 = Some (Inr (r6, ?u\<lparr>b_location := 60\<rparr>, f6))" "blinks f6 (fst s6)" "s6 = (fst s6, vmem f6)"
    using remove_blinks [OF 5(4), of 200] unfolding 5(5) [symmetric] by (auto simp: mp1_ioctl_def s6_def)
  obtain w7 f7 where 7: "fish_wait os 2 (x_garbage x) 2000 w5 f6 = Some (Inr (w7, f7))" "good w7" "view w7 = view w" "blinks f7 (fst s7)" "s7 = (fst s7, vmem f7)"
    using wt [OF 5(2) _ 6(2), of 2000] tk 5(3) unfolding 6(3) [symmetric] by (auto simp: s7_def)
  obtain r w' where w': "int80 os 6 2 0 0 w7 = Some (Inr (r, w'))" "good w'" "view w' = snd (v_close 2 (view w))"
    using call_close [OF 7(2), of 2] 7(3) by auto
  have "fish_tail os x 2 u w f = Some (Inr (0, w', f7))"
    using 1(1) 2(1) 3(1) 4(1) 5(1) 6(1) 7(1) w'(1) arg by (simp add: fish_tail_def Let_def ece391_close_def)
  moreover have "fish_tail_show (bs, vmem f) = s7"
    by (simp only: fish_tail_show_def Let_def s1_def s2_def s3_def s4_def s5_def s6_def s7_def)
  ultimately show ?thesis using w'(2,3) 7(4,5) by (metis snd_conv)
qed

text \<open>The whole program: it returns 0, and the blinks and the screen are as \<open>fish_show\<close> says.\<close>

theorem fish_runs:
  assumes g: "good w" and x: "uaddr (x_vmem_base_addr x)" "uaddr (x_ret_val x)" "uaddr (x_garbage x)" "uaddr (x_c0 x)" "uaddr (x_c1 x)" "off (x_c0 x) \<noteq> off (x_c1 x)"
    and L: "lits la L w" "{lit ''rtc'', lit ''frame0.txt'', lit ''frame1.txt''} \<subseteq> L"
    and ap: "apart off la L (x_vmem_base_addr x) 4" "apart off la L (x_c0 x) 1" "apart off la L (x_c1 x) 1"
    and disk: "v_disk (view w) (lit ''rtc'') = Some Ticks" "v_disk (view w) (lit ''frame0.txt'') = Some (Reads xs)"
      "v_disk (view w) (lit ''frame1.txt'') = Some (Reads ys)"
    and free: "\<And>j. 2 \<le> j \<Longrightarrow> j < 5 \<Longrightarrow> v_fds (view w) j = None"
    and fit: "\<forall>b\<in>set (fish_blinks xs ys). b_location b \<noteq> 0" and hd: "mp1_list_head f = None"
  shows "\<exists>w' f'. fish_main os la x u u' w f = Some (Inr (0, w', f')) \<and> good w' \<and> view w' = view w \<and>
    blinks f' (fst (fish_show xs ys (vmem f))) \<and> vmem f' = snd (fish_show xs ys (vmem f))"
proof -
  let ?f = "f\<lparr>blink_array := replicate (80 * 25) zero_blink\<rparr>"
  have bl: "blinks ?f []" by (rule blinks_start [OF hd])
  obtain w1 v where w1: "int80 os 8 (x_vmem_base_addr x) 0 0 w = Some (Inr (0, w1))" "v \<noteq> 0" "good w1"
    "mem_of os w1 page = st32 (mem_of os w) (page, off (x_vmem_base_addr x)) v page" "view w1 = view w" using map_video [OF g x(1)] by blast
  have vm: "mp1_set_video_mode os (x_vmem_base_addr x) w = Some (Inr (v, w1))"
    using w1(1,4) addr [OF w1(3) x(1)] ld32_st32_same [of "mem_of os w" "(page, off (x_vmem_base_addr x))" v]
    by (simp add: mp1_set_video_mode_def ece391_vidmap_def ld32_def ld_def)
  have l1: "lits la L w1" by (rule apart_lits [OF L(1) ap(1), where m' = "mem_of os w1", OF _ w1(4) [unfolded st32_stores]]) simp
  have "uaddr (la (lit ''rtc''))" "cstr (mem_of os w1) (page, off (la (lit ''rtc''))) (lit ''rtc'')" using l1 L(2) by (auto simp: has_lits_def)
  from call_open [OF w1(3) this] v_open_found [of "view w1" "lit ''rtc''" Ticks 2] obtain w2 where w2:
    "int80 os 5 (la (lit ''rtc'')) 0 0 w1 = Some (Inr (2, w2))" "good w2" "mem_of os w2 page = mem_of os w1 page"
    "view w2 = (view w)\<lparr>v_fds := (v_fds (view w))(2 := Some Ticks)\<rparr>"
    using disk(1) free [of 2] w1(5) by (auto simp: lit_def)
  obtain w3 f3 where w3: "add_frames os (x_c0 x) (x_c1 x) (x_frame_struct x) u' (la (lit ''frame0.txt'')) (la (lit ''frame1.txt'')) w2 ?f = Some (Inr (w3, f3))"
    "good w3" "view w3 = view w2" "blinks f3 (fst (add_all (fish_blinks xs ys) ([], vmem f)))" "vmem f3 = snd (add_all (fish_blinks xs ys) ([], vmem f))"
    using add_frames_adds [OF w2(2) x(4-6) lits_page [OF l1 w2(3)] ap(2,3) _ _ _ _ _ _ _ _ _ _ _ bl, of "lit ''frame0.txt''" "lit ''frame1.txt''" xs ys 3 "x_frame_struct x" u']
      L(2) disk(2,3) w2(4) free [of 3] free [of 4] fit by (auto simp: lit_def fish_blinks_def)
  let ?s0 = "add_all (fish_blinks xs ys) ([], vmem f)"
  have tk: "v_fds (view w3) 2 = Some Ticks" using w3(3) w2(4) by simp
  let ?w = "ust32 os (x_ret_val x) 32 w3"
  have g3: "good ?w" "view ?w = view w3" using ust32_good [OF w3(2) x(2)] by simp_all
  obtain w4 where w4: "int80 os 4 2 (x_ret_val x) 4 ?w = Some (Inr (0, w4))" "good w4" "view w4 = view w3"
    using set_rate [OF g3(1) x(2), of 2 4] tk g3(2) by auto
  let ?w5 = "ust32 os (x_ret_val x) 0 w4"
  have g5: "good ?w5" "view ?w5 = view w3" using ust32_good [OF w4(2) x(2)] w4(3) by simp_all
  obtain w' f' where w': "fish_tail os x 2 u ?w5 f3 = Some (Inr (0, w', f'))" "good w'" "view w' = snd (v_close 2 (view w3))"
    "blinks f' (fst (fish_tail_show (fst ?s0, vmem f3)))" "vmem f' = snd (fish_tail_show (fst ?s0, vmem f3))"
    using fish_tail_runs [OF g5(1) x(3) _ w3(4), of u] tk g5(2) by auto
  have s0: "(fst ?s0, vmem f3) = ?s0" by (simp add: w3(5))
  have "snd (v_close 2 (view w3)) = view w" using w3(3) w2(4) free [of 2] by (auto simp: v_close_def fun_upd_idem intro!: uview.equality)
  moreover have "fish_main os la x u u' w f = Some (Inr (0, w', f'))"
    using vm w1(2) w2(1) w3(1) w4(1) w'(1) by (simp add: fish_main_def Let_def ece391_open_def ece391_write_def)
  ultimately show ?thesis using w'(2-5) unfolding s0 by (simp add: fish_show_def)
qed

end

end
