(* ===== verification/User_Pingpong.thy ===== *)
theory User_Pingpong
  imports User_Clock User_Programs
begin

text \<open>
  src/syscalls/ece391pingpong.c: a letter that moves between two walls, one place for each tick of
  the clock, for ever.  \<open>buf\<close> and \<open>ga\<close> are the addresses of the locals \<open>buf\<close> and \<open>garbage\<close>, \<open>ra\<close> that
  of \<open>ret_val\<close>.
\<close>

text \<open>\<open>for (i = lo; i < hi; i++) buf[i] = c;\<close>\<close>

definition pp_fill :: "'w os \<Rightarrow> u32 \<Rightarrow> nat \<Rightarrow> nat \<Rightarrow> u8 \<Rightarrow> 'w \<Rightarrow> 'w" where
  "pp_fill os buf lo hi c w = for_loop lo hi (\<lambda>i w. ust os buf (of_nat i) c w) w"

text \<open>The body of the loops over \<open>j\<close>.\<close>

definition pp_frame :: "'w os \<Rightarrow> u32 \<Rightarrow> u32 \<Rightarrow> u32 \<Rightarrow> u8 \<Rightarrow> nat \<Rightarrow> 'w \<Rightarrow> 'w run" where
  "pp_frame os rtc_fd ga buf curchar j w =
     (let w = pp_fill os buf 2 78 0x20 w;
          w = ust os buf (of_nat j) curchar w
      in obind (ece391_fdputs os 1 buf w) (\<lambda>w.
         obind (ece391_read os rtc_fd ga 4 w) (\<lambda>(r, w). Some (Inr w))))"

fun pp_frames :: "'w os \<Rightarrow> u32 \<Rightarrow> u32 \<Rightarrow> u32 \<Rightarrow> u8 \<Rightarrow> nat list \<Rightarrow> 'w \<Rightarrow> 'w run" where
  "pp_frames os rtc_fd ga buf curchar [] w = Some (Inr w)"
| "pp_frames os rtc_fd ga buf curchar (j # js) w =
     obind (pp_frame os rtc_fd ga buf curchar j w) (pp_frames os rtc_fd ga buf curchar js)"

text \<open>One round of \<open>while (1)\<close>: out, back, and the next letter.\<close>

definition pp_round :: "'w os \<Rightarrow> u32 \<Rightarrow> u32 \<Rightarrow> u32 \<Rightarrow> u8 \<Rightarrow> 'w \<Rightarrow> (u8 \<times> 'w) run" where
  "pp_round os rtc_fd ga buf curchar w =
     obind (pp_frames os rtc_fd ga buf curchar [2..<78] w) (\<lambda>w.
     obind (pp_frames os rtc_fd ga buf curchar (rev [2..<78]) w) (\<lambda>w.
     Some (Inr (if curchar = 0x5A then 0x41 else curchar + 1, w))))"

partial_function (option) pp_loop :: "'w os \<Rightarrow> u32 \<Rightarrow> u32 \<Rightarrow> u32 \<Rightarrow> u8 \<Rightarrow> 'w \<Rightarrow> (fault + u32 \<times> 'w) option" where
  "pp_loop os rtc_fd ga buf curchar w =
     obind (pp_round os rtc_fd ga buf curchar w) (\<lambda>(curchar, w). pp_loop os rtc_fd ga buf curchar w)"

text \<open>\<open>main\<close> up to the loop, and all of it.\<close>

definition pp_start :: "'w os \<Rightarrow> (u8 list \<Rightarrow> u32) \<Rightarrow> u32 \<Rightarrow> u32 \<Rightarrow> 'w \<Rightarrow> (u32 \<times> 'w) run" where
  "pp_start os la ra buf w =
     (let w = pp_fill os buf 0 81 0x20 w;
          w = ust os buf 80 0 w;
          w = ust os buf 79 0x0A w;
          w = ust os buf 78 0x7C w;
          w = ust os buf 1 0x7C w
      in obind (ece391_open os (la (lit ''rtc'')) w) (\<lambda>(rtc_fd, w).
         obind (ece391_write os rtc_fd ra 4 (ust32 os ra 32 w)) (\<lambda>(ret_val, w).
         Some (Inr (rtc_fd, ust32 os ra ret_val w)))))"

definition pingpong_main :: "'w os \<Rightarrow> (u8 list \<Rightarrow> u32) \<Rightarrow> u32 \<Rightarrow> u32 \<Rightarrow> u32 \<Rightarrow> 'w \<Rightarrow> (u32 \<times> 'w) run" where
  "pingpong_main os la ra ga buf w =
     obind (pp_start os la ra buf w) (\<lambda>(rtc_fd, w). pp_loop os rtc_fd ga buf 0x41 w)"

text \<open>The first \<open>n\<close> rounds.\<close>

fun pp_rounds :: "'w os \<Rightarrow> u32 \<Rightarrow> u32 \<Rightarrow> u32 \<Rightarrow> nat \<Rightarrow> u8 \<Rightarrow> 'w \<Rightarrow> (u8 \<times> 'w) run" where
  "pp_rounds os rtc_fd ga buf 0 c w = Some (Inr (c, w))"
| "pp_rounds os rtc_fd ga buf (Suc n) c w =
     obind (pp_round os rtc_fd ga buf c w) (\<lambda>(c, w). pp_rounds os rtc_fd ga buf n c w)"

subsection \<open>What it shows\<close>

definition pp_text :: "u8 \<Rightarrow> nat \<Rightarrow> u8 list" where
  "pp_text c j = map (\<lambda>i. if i = j then c else if i = 1 \<or> i = 78 then 0x7C else if i = 79 then 0x0A else 0x20) [0..<80]"

definition pp_letter :: "nat \<Rightarrow> u8" where
  "pp_letter n = 0x41 + of_nat (n mod 26)"

definition pp_lines :: "nat \<Rightarrow> u8 list list" where
  "pp_lines n = concat (map (\<lambda>k. map (pp_text (pp_letter k)) ([2..<78] @ rev [2..<78])) [0..<n])"

lemma letter_next: "(if pp_letter n = 0x5A then 0x41 else pp_letter n + 1) = pp_letter (Suc n)" "pp_letter n \<noteq> 0" "pp_letter 0 = 0x41"
proof -
  have u: "unat (pp_letter k) = 0x41 + k mod 26" for k
    unfolding pp_letter_def by (simp add: unat_word_ariths unat_of_nat take_bit_nat_eq_self)
  have "pp_letter n = 0x5A \<longleftrightarrow> n mod 26 = 25" using u [of n] by (auto simp: word_unat_eq_iff)
  then show "(if pp_letter n = 0x5A then 0x41 else pp_letter n + 1) = pp_letter (Suc n)"
    by (auto simp: pp_letter_def mod_Suc)
  show "pp_letter n \<noteq> 0" using u [of n] by (auto simp: word_unat_eq_iff)
  show "pp_letter 0 = 0x41" by (simp add: pp_letter_def)
qed

context clock_os
begin

lemma pp_fill_spec:
  assumes "good w" and "uaddr buf" and "lo \<le> hi" "hi \<le> 81"
  shows "good (pp_fill os buf lo hi c w)" "view (pp_fill os buf lo hi c w) = view w"
    "\<And>b. b \<noteq> page \<Longrightarrow> mem_of os (pp_fill os buf lo hi c w) b = mem_of os w b"
    "\<And>a. mem_of os (pp_fill os buf lo hi c w) page a = (if lo \<le> unat (a - off buf) \<and> unat (a - off buf) < hi then c else mem_of os w page a)"
proof -
  have "good (pp_fill os buf lo hi c w) \<and> view (pp_fill os buf lo hi c w) = view w \<and>
    (\<forall>b. b \<noteq> page \<longrightarrow> mem_of os (pp_fill os buf lo hi c w) b = mem_of os w b) \<and>
    (\<forall>a. mem_of os (pp_fill os buf lo hi c w) page a = (if lo \<le> unat (a - off buf) \<and> unat (a - off buf) < hi then c else mem_of os w page a))"
    using assms(3,4)
  proof (induction hi rule: dec_induct)
    case base
    then show ?case using assms(1) by (auto simp: pp_fill_def for_loop_def)
  next
    case (step n)
    let ?w = "pp_fill os buf lo n c w"
    have w: "pp_fill os buf lo (Suc n) c w = ust os buf (of_nat n) c ?w" using step.hyps by (simp add: pp_fill_def for_loop_def)
    have ih: "good ?w" "view ?w = view w" using step by simp_all
    note u = ust_page [OF ih(1) assms(2), of "of_nat n" c]
    have "unat (a - off buf) = n \<longleftrightarrow> a = off buf + of_nat n" for a
      using step.prems by (subst unat_eq_iff_of_nat) (auto simp: diff_eq_eq add.commute)
    moreover have "unat (of_nat n :: u32) = n" by (rule unat_u32_of_nat) (use step.prems in simp)
    ultimately show ?case unfolding w u(2) using step u(1,3) ih(2) by (auto simp: st_def less_Suc_eq)
  qed
  then show "good (pp_fill os buf lo hi c w)" "view (pp_fill os buf lo hi c w) = view w"
    "\<And>b. b \<noteq> page \<Longrightarrow> mem_of os (pp_fill os buf lo hi c w) b = mem_of os w b"
    "\<And>a. mem_of os (pp_fill os buf lo hi c w) page a = (if lo \<le> unat (a - off buf) \<and> unat (a - off buf) < hi then c else mem_of os w page a)"
    by simp_all
qed

text \<open>The buffer between two lines: the walls are in place.\<close>

definition walls :: "u32 \<Rightarrow> 'w \<Rightarrow> bool" where
  "walls buf w \<longleftrightarrow> (let p = (page, off buf); m = mem_of os w in
     ld m p 0 = 0x20 \<and> ld m p 1 = 0x7C \<and> ld m p 78 = 0x7C \<and> ld m p 79 = 0x0A \<and> ld m p 80 = 0)"

lemma pp_frame_shows:
  assumes "good w" and "uaddr buf" "uaddr ga" and "walls buf w" and "v_fds (view w) 2 = Some Ticks" and j: "2 \<le> j" "j < 78" and "c \<noteq> 0"
  shows "\<exists>w'. pp_frame os 2 ga buf c j w = Some (Inr w') \<and> good w' \<and> walls buf w' \<and>
      view w' = (view w)\<lparr>v_screen := shown (pp_text c j @ [0]) (v_screen (view w))\<rparr>"
proof -
  let ?w1 = "pp_fill os buf 2 78 0x20 w"
  let ?w2 = "ust os buf (of_nat j) c ?w1"
  note f = pp_fill_spec [OF assms(1,2), where lo = 2 and hi = 78 and c = "0x20", simplified]
  note u = ust_page [OF f(1) assms(2), of "of_nat j" c]
  have ld2: "ld (mem_of os ?w2) (page, off buf) (of_nat i) = (if i = j then c else if 2 \<le> i \<and> i < 78 then 0x20 else ld (mem_of os w) (page, off buf) (of_nat i))"
    if "i \<le> 80" for i
  proof -
    have "(of_nat i = (of_nat j :: u32)) = (i = j)" using that j by (intro of_nat_u32_inj) simp_all
    moreover have "unat (of_nat i :: u32) = i" by (rule unat_u32_of_nat) (use that in simp)
    ultimately show ?thesis unfolding u(2) using f(4) by (simp add: ld_def st_def)
  qed
  have wl: "ld (mem_of os w) (page, off buf) 0 = 0x20" "ld (mem_of os w) (page, off buf) 1 = 0x7C" "ld (mem_of os w) (page, off buf) 78 = 0x7C"
    "ld (mem_of os w) (page, off buf) 79 = 0x0A" "ld (mem_of os w) (page, off buf) 80 = 0" using assms(4) by (simp_all add: walls_def Let_def)
  have "bytes (mem_of os ?w2) (page, off buf) 80 = pp_text c j"
  proof (rule nth_equalityI)
    fix i assume "i < length (bytes (mem_of os ?w2) (page, off buf) 80)"
    then have i: "i < 80" by simp
    then have "i = 0 \<or> i = 1 \<or> i = 78 \<or> i = 79 \<or> 2 \<le> i \<and> i < 78" by arith
    then show "bytes (mem_of os ?w2) (page, off buf) 80 ! i = pp_text c j ! i"
      using i j wl ld2 [of i] by (auto simp: pp_text_def)
  qed (simp add: pp_text_def)
  moreover have "0 \<notin> set (pp_text c j)" using assms(8) by (auto simp: pp_text_def)
  ultimately have cs: "cstr (mem_of os ?w2) (page, off buf) (pp_text c j)" "length (pp_text c j) < 2 ^ 31"
    using ld2 [of 80] j wl(5) by (simp_all add: cstr_def pp_text_def)
  from fdputs_says [OF u(1) assms(2) cs] obtain w3 where w3: "ece391_fdputs os 1 buf ?w2 = Some (Inr w3)" "says [pp_text c j @ [0]] ?w2 w3" by blast
  have v3: "view w3 = (view w)\<lparr>v_screen := shown (pp_text c j @ [0]) (v_screen (view w))\<rparr>" "good w3" "mem_of os w3 page = mem_of os ?w2 page"
    using w3(2) u(3) f(2) by (simp_all add: says_def)
  from read_clock [OF v3(2) assms(3), of 2 4] assms(5) v3(1) obtain w4 where w4:
    "int80 os 3 2 ga 4 w3 = Some (Inr (0, w4))" "good w4" "mem_of os w4 page = mem_of os w3 page" "view w4 = view w3" by auto
  have m4: "mem_of os w4 page = mem_of os ?w2 page" using w4(3) v3(3) by simp
  have "ld (mem_of os w4) (page, off buf) (of_nat i) = ld (mem_of os w) (page, off buf) (of_nat i)" if "i \<in> {0, 1, 78, 79, 80}" for i
    using ld2 [of i] that j m4 by (auto simp: ld_def)
  from this [of 0] this [of 1] this [of 78] this [of 79] this [of 80] wl have "walls buf w4" by (simp add: walls_def)
  moreover have "pp_frame os 2 ga buf c j w = Some (Inr w4)" using w3(1) w4(1) by (simp add: pp_frame_def Let_def ece391_read_def)
  ultimately show ?thesis using w4(2,4) v3(1) by auto
qed

lemma pp_frames_show:
  "good w \<Longrightarrow> uaddr buf \<Longrightarrow> uaddr ga \<Longrightarrow> walls buf w \<Longrightarrow> v_fds (view w) 2 = Some Ticks \<Longrightarrow> set js \<subseteq> {2..<78} \<Longrightarrow> c \<noteq> 0 \<Longrightarrow>
   \<exists>w'. pp_frames os 2 ga buf c js w = Some (Inr w') \<and> good w' \<and> walls buf w' \<and>
      view w' = (view w)\<lparr>v_screen := fold shown (map (\<lambda>j. pp_text c j @ [0]) js) (v_screen (view w))\<rparr>"
proof (induction js arbitrary: w)
  case (Cons j js)
  obtain w1 where w1: "pp_frame os 2 ga buf c j w = Some (Inr w1)" "good w1" "walls buf w1"
    "view w1 = (view w)\<lparr>v_screen := shown (pp_text c j @ [0]) (v_screen (view w))\<rparr>"
    using pp_frame_shows [OF Cons.prems(1-5), of j c] Cons.prems(6,7) by auto
  from Cons.IH [OF w1(2) Cons.prems(2,3) w1(3)] Cons.prems(5-7) w1(1,4) show ?case by auto
qed auto

lemma pp_round_shows:
  assumes "good w" and "uaddr buf" "uaddr ga" and "walls buf w" and "v_fds (view w) 2 = Some Ticks"
  shows "\<exists>w'. pp_round os 2 ga buf (pp_letter n) w = Some (Inr (pp_letter (Suc n), w')) \<and> good w' \<and> walls buf w' \<and>
      view w' = (view w)\<lparr>v_screen := fold shown (map (\<lambda>j. pp_text (pp_letter n) j @ [0]) ([2..<78] @ rev [2..<78])) (v_screen (view w))\<rparr>"
proof -
  let ?c = "pp_letter n"
  obtain w1 where w1: "pp_frames os 2 ga buf ?c [2..<78] w = Some (Inr w1)" "good w1" "walls buf w1"
      "view w1 = (view w)\<lparr>v_screen := fold shown (map (\<lambda>j. pp_text ?c j @ [0]) [2..<78]) (v_screen (view w))\<rparr>"
    using pp_frames_show [OF assms, of "[2..<78]" ?c] letter_next(2) [of n] by (auto simp del: upt_rec_numeral)
  obtain w2 where w2: "pp_frames os 2 ga buf ?c (rev [2..<78]) w1 = Some (Inr w2)" "good w2" "walls buf w2"
      "view w2 = (view w1)\<lparr>v_screen := fold shown (map (\<lambda>j. pp_text ?c j @ [0]) (rev [2..<78])) (v_screen (view w1))\<rparr>"
    using pp_frames_show [OF w1(2) assms(2,3) w1(3), of "rev [2..<78]" ?c] w1(4) assms(5) letter_next(2) [of n] by (auto simp del: upt_rec_numeral)
  have "pp_round os 2 ga buf ?c w = Some (Inr (pp_letter (Suc n), w2))"
    using w1(1) w2(1) unfolding letter_next(1) [symmetric] by (simp add: pp_round_def del: upt_rec_numeral)
  then show ?thesis using w1(4) w2(2-4) by (simp del: upt_rec_numeral)
qed

lemma pp_rounds_show:
  "good w \<Longrightarrow> uaddr buf \<Longrightarrow> uaddr ga \<Longrightarrow> walls buf w \<Longrightarrow> v_fds (view w) 2 = Some Ticks \<Longrightarrow>
   \<exists>w'. pp_rounds os 2 ga buf n (pp_letter k) w = Some (Inr (pp_letter (k + n), w')) \<and> good w' \<and>
      view w' = (view w)\<lparr>v_screen := fold shown (map (\<lambda>l. l @ [0]) (concat (map (\<lambda>k. map (pp_text (pp_letter k)) ([2..<78] @ rev [2..<78])) [k..<k + n]))) (v_screen (view w))\<rparr>"
proof (induction n arbitrary: k w)
  case (Suc n)
  obtain w1 where w1: "pp_round os 2 ga buf (pp_letter k) w = Some (Inr (pp_letter (Suc k), w1))" "good w1" "walls buf w1"
      "view w1 = (view w)\<lparr>v_screen := fold shown (map (\<lambda>j. pp_text (pp_letter k) j @ [0]) ([2..<78] @ rev [2..<78])) (v_screen (view w))\<rparr>"
    using pp_round_shows [OF Suc.prems] by blast
  have "[k..<k + Suc n] = k # [Suc k..<Suc k + n]" by (simp add: upt_conv_Cons)
  then show ?case using Suc.IH [OF w1(2) Suc.prems(2,3) w1(3), of "Suc k"] Suc.prems(5) w1(1,4)
    by (auto simp: comp_def simp del: upt_rec_numeral)
qed simp

text \<open>The loop never ends.\<close>

lemma pp_loop_forever:
  assumes "uaddr buf" "uaddr ga"
  shows "good w \<and> walls buf w \<and> v_fds (view w) 2 = Some Ticks \<Longrightarrow> pp_loop os 2 ga buf (pp_letter n) w = None"
proof (rule ccontr)
  assume w: "good w \<and> walls buf w \<and> v_fds (view w) 2 = Some Ticks" and "pp_loop os 2 ga buf (pp_letter n) w \<noteq> None"
  then obtain y where y: "pp_loop os 2 ga buf (pp_letter n) w = Some y" by blast
  have "\<forall>n. \<not> (os' = os \<and> fd = 2 \<and> ga' = ga \<and> buf' = buf \<and> c = pp_letter n \<and> good v \<and> walls buf v \<and> v_fds (view v) 2 = Some Ticks)"
    if "pp_loop os' fd ga' buf' c v = Some y" for os' fd ga' buf' c v y
  proof (rule pp_loop.raw_induct [OF _ that])
    fix loop :: "'w os \<Rightarrow> u32 \<Rightarrow> u32 \<Rightarrow> u32 \<Rightarrow> u8 \<Rightarrow> 'w \<Rightarrow> (fault + u32 \<times> 'w) option" and os' fd ga' buf' c v y
    assume ih: "\<And>os' fd ga' buf' c v y. loop os' fd ga' buf' c v = Some y \<Longrightarrow>
        \<forall>n. \<not> (os' = os \<and> fd = 2 \<and> ga' = ga \<and> buf' = buf \<and> c = pp_letter n \<and> good v \<and> walls buf v \<and> v_fds (view v) 2 = Some Ticks)"
      and eq: "obind (pp_round os' fd ga' buf' c v) (\<lambda>(c, w). loop os' fd ga' buf' c w) = Some y"
    show "\<forall>n. \<not> (os' = os \<and> fd = 2 \<and> ga' = ga \<and> buf' = buf \<and> c = pp_letter n \<and> good v \<and> walls buf v \<and> v_fds (view v) 2 = Some Ticks)"
    proof (intro allI notI, elim conjE)
      fix n assume e: "os' = os" "fd = 2" "ga' = ga" "buf' = buf" "c = pp_letter n" "good v" "walls buf v" "v_fds (view v) 2 = Some Ticks"
      from pp_round_shows [OF e(6) assms e(7,8), of n] obtain v' where
        "pp_round os 2 ga buf (pp_letter n) v = Some (Inr (pp_letter (Suc n), v'))" "good v'" "walls buf v'" "v_fds (view v') 2 = Some Ticks"
        using e(8) by auto
      moreover from this(1) have "loop os 2 ga buf (pp_letter (Suc n)) v' = Some y" using eq e(1-5) by simp
      ultimately show False using ih by blast
    qed
  qed
  from this [OF y] w show False by blast
qed

text \<open>A change within the buffer leaves the literals alone.\<close>

lemma lits_outside:
  assumes "lits la L w" and "apart off la L a n" and "n \<le> 2 ^ 32"
    and "\<And>x. \<not> unat (x - off a) < n \<Longrightarrow> mem_of os w' page x = mem_of os w page x"
  shows "lits la L w'"
proof (rule apart_lits [OF assms(1,2), where m' = "mem_of os w'"])
  show "length (bytes (mem_of os w') (page, off a) n) \<le> n" by simp
  show "mem_of os w' page = stores (mem_of os w) (page, off a) (bytes (mem_of os w') (page, off a) n) page"
    using assms(4) by (auto simp: stores_def fun_eq_iff ld_def)
qed

lemma ust_outside:
  assumes "good w" and "uaddr a" and "i < n" "n < 2 ^ 32" and "\<not> unat (x - off a) < n"
  shows "mem_of os (ust os a (of_nat i) v w) page x = mem_of os w page x"
proof -
  have "unat (of_nat i :: u32) = i" by (rule unat_u32_of_nat) (use assms(3,4) in simp)
  then have "x \<noteq> off a + of_nat i" using assms(3,5) by auto
  then show ?thesis using ust_page(2) [OF assms(1,2)] by (simp add: st_def)
qed

lemma walls_ust32:
  assumes "good w" and "uaddr ra" and "\<And>i. i < 4 \<Longrightarrow> 81 \<le> unat (off ra + of_nat i - off buf)"
  shows "walls buf (ust32 os ra v w) = walls buf w"
proof -
  have m: "mem_of os (ust32 os ra v w) = st32 (mem_of os w) (page, off ra) v"
    unfolding ust32_def using assms(1,2) by (subst addr) (auto simp: mem_set st32_other_block)
  have "ld (mem_of os (ust32 os ra v w)) (page, off buf) i = ld (mem_of os w) (page, off buf) i" if "unat i < 81" for i
  proof -
    have "\<not> unat (off buf + i - off ra) < 4"
    proof
      assume k: "unat (off buf + i - off ra) < 4"
      from assms(3) [OF this] that show False by simp
    qed
    then show ?thesis unfolding m st32_stores ld_stores by simp
  qed
  from this [of 0] this [of 1] this [of 78] this [of 79] this [of 80] show ?thesis by (simp add: walls_def Let_def)
qed

theorem pingpong_forever:
  assumes g: "good w" and a: "uaddr buf" "uaddr ga" "uaddr ra" and L: "lits la L w" "lit ''rtc'' \<in> L" "apart off la L buf 81"
    and ap: "\<And>i. i < 4 \<Longrightarrow> 81 \<le> unat (off ra + of_nat i - off buf)"
    and v: "v_disk (view w) (lit ''rtc'') = Some Ticks" "v_fds (view w) 2 = None"
  shows "\<exists>w1. pp_start os la ra buf w = Some (Inr (2, w1)) \<and> pingpong_main os la ra ga buf w = None \<and>
    (\<forall>n. \<exists>w'. pp_rounds os 2 ga buf n 0x41 w1 = Some (Inr (pp_letter n, w')) \<and> good w' \<and>
       v_screen (view w') = fold shown (map (\<lambda>l. l @ [0]) (pp_lines n)) (v_screen (view w)))"
proof -
  let ?b = "\<lambda>i w. ld (mem_of os w) (page, off buf) i"
  define w0 where "w0 = pp_fill os buf 0 81 0x20 w"
  define w1 where "w1 = ust os buf 80 0 w0"
  define w2 where "w2 = ust os buf 79 0x0A w1"
  define w3 where "w3 = ust os buf 78 0x7C w2"
  define w4 where "w4 = ust os buf 1 0x7C w3"
  note f = pp_fill_spec [OF g a(1), where lo = 0 and hi = 81 and c = "0x20", folded w0_def, simplified]
  note u1 = ust_page [OF f(1) a(1), of 80 0, folded w1_def] and u2 = ust_page [OF u1(1) a(1), of 79 "0x0A", folded w2_def]
    and u3 = ust_page [OF u2(1) a(1), of 78 "0x7C", folded w3_def] and u4 = ust_page [OF u3(1) a(1), of 1 "0x7C", folded w4_def]
  have out: "mem_of os w4 page x = mem_of os w page x" if "\<not> unat (x - off buf) < 81" for x
    using ust_outside [OF f(1) a(1) _ _ that, of 80 0] ust_outside [OF u1(1) a(1) _ _ that, of 79 "0x0A"]
      ust_outside [OF u2(1) a(1) _ _ that, of 78 "0x7C"] ust_outside [OF u3(1) a(1) _ _ that, of 1 "0x7C"] f(4) [of x] that
    by (simp add: w1_def [symmetric] w2_def [symmetric] w3_def [symmetric] w4_def [symmetric])
  have l4: "lits la L w4" by (rule lits_outside [OF L(1,3) _ out]) simp_all
  have wl: "walls buf w4" using u1(2) u2(2) u3(2) u4(2) f(4) [of "off buf"] by (simp add: walls_def ld_st_same) (simp add: ld_def)
  have "uaddr (la (lit ''rtc''))" "cstr (mem_of os w4) (page, off (la (lit ''rtc''))) (lit ''rtc'')" using l4 L(2) by (auto simp: has_lits_def)
  from call_open [OF u4(1) this] v_open_found [of "view w4" "lit ''rtc''" Ticks 2] obtain w5 where w5:
    "int80 os 5 (la (lit ''rtc'')) 0 0 w4 = Some (Inr (2, w5))" "good w5" "mem_of os w5 page = mem_of os w4 page"
    "view w5 = (view w)\<lparr>v_fds := (v_fds (view w))(2 := Some Ticks)\<rparr>"
    using v f(2) u1(3) u2(3) u3(3) u4(3) by (auto simp: lit_def)
  let ?w6 = "ust32 os ra 32 w5"
  note r6 = ust32_good [OF w5(2) a(3), of 32]
  obtain w7 where w7: "int80 os 4 2 ra 4 ?w6 = Some (Inr (0, w7))" "good w7" "mem_of os w7 page = mem_of os ?w6 page" "view w7 = view w5"
    using set_rate [OF conjunct1 [OF r6] a(3), of 2 4] r6 w5(4) by auto
  let ?w8 = "ust32 os ra 0 w7"
  note r8 = ust32_good [OF w7(2) a(3), of 0]
  have st: "pp_start os la ra buf w = Some (Inr (2, ?w8))"
    using w5(1) w7(1) by (simp add: pp_start_def Let_def ece391_open_def ece391_write_def w0_def w1_def w2_def w3_def w4_def)
  have "walls buf w5" using wl w5(3) by (simp add: walls_def ld_def Let_def)
  then have "walls buf w7" using walls_ust32 [OF w5(2) a(3) ap, of 32] w7(3) by (simp add: walls_def ld_def Let_def)
  then have w8: "good ?w8" "walls buf ?w8" "v_fds (view ?w8) 2 = Some Ticks" "v_screen (view ?w8) = v_screen (view w)"
    using walls_ust32 [OF w7(2) a(3) ap, of 0] r8 w7(4) w5(4) by simp_all
  have "pingpong_main os la ra ga buf w = None"
    using st pp_loop_forever [OF a(1,2), of ?w8 0] w8 by (simp add: pingpong_main_def letter_next(3))
  moreover have "\<exists>w'. pp_rounds os 2 ga buf n 0x41 ?w8 = Some (Inr (pp_letter n, w')) \<and> good w' \<and>
       v_screen (view w') = fold shown (map (\<lambda>l. l @ [0]) (pp_lines n)) (v_screen (view w))" for n
    using pp_rounds_show [OF w8(1) a(1,2) w8(2,3), of n 0] w8(4) by (auto simp: letter_next(3) pp_lines_def simp del: upt_rec_numeral)
  ultimately show ?thesis using st by blast
qed

end

end
