(* ===== verification/Kernel_Os.thy ===== *)
theory Kernel_Os
  imports User_Grep Protection Fish_Main User_Pingpong
begin

text \<open>
  The kernel as the operating system of the user programs: \<open>int 0x80\<close> is \<open>sys_call\<close>, addresses go
  through the page directory of the process.  The world is the kernel's state with the keys that
  will be pressed, one list of scan codes for each read of the terminal.  It keeps the laws of
  \<open>term_os\<close>, so everything proved of the programs holds on this kernel.
\<close>

text \<open>The interrupts that come while a call waits: the keys of a line for the terminal, the next tick for the clock.\<close>

definition sys_irqs ::
  "hardware \<Rightarrow> ('a kernel_scheme \<Rightarrow> 'a kernel_scheme run) \<Rightarrow> u8 \<Rightarrow> u32 \<Rightarrow> u32 \<Rightarrow> u8 list list \<Rightarrow>
   ('a kernel_scheme \<Rightarrow> 'a kernel_scheme run) list" where
  "sys_irqs hw ex x0 n b ks =
     (if n \<noteq> 3 then []
      else if b = 0 then map (key_irq ex x0) (case ks of [] \<Rightarrow> [] | scs # _ \<Rightarrow> scs)
      else [periodic_interrupt_handler hw])"

text \<open>\<open>leave\<close> is what happens when control goes elsewhere: into a program that was started, or back to the
  parent.\<close>

definition kernel_int80 ::
  "hardware \<Rightarrow> u32 \<Rightarrow> ('a kernel_scheme \<Rightarrow> 'a kernel_scheme run) \<Rightarrow> u8 \<Rightarrow>
   (outcome \<Rightarrow> 'a kernel_scheme \<times> u8 list list \<Rightarrow> (u32 \<times> 'a kernel_scheme \<times> u8 list list) run) \<Rightarrow>
   u32 \<Rightarrow> u32 \<Rightarrow> u32 \<Rightarrow> u32 \<Rightarrow> 'a kernel_scheme \<times> u8 list list \<Rightarrow> (u32 \<times> 'a kernel_scheme \<times> u8 list list) run" where
  "kernel_int80 hw check ex x0 leave n b c d w =
     (case w of (s, ks) \<Rightarrow>
        obind (sys_call hw (sys_irqs hw ex x0 n b ks) check n b c d s) (\<lambda>(out, s).
        let ks = (if n = 3 \<and> b = 0 then tl ks else ks)
        in case out of Ret v \<Rightarrow> Some (Inr (v, s, ks)) | _ \<Rightarrow> leave out (s, ks)))"

definition kernel_os ::
  "hardware \<Rightarrow> u32 \<Rightarrow> ('a kernel_scheme \<Rightarrow> 'a kernel_scheme run) \<Rightarrow> u8 \<Rightarrow>
   (outcome \<Rightarrow> 'a kernel_scheme \<times> u8 list list \<Rightarrow> (u32 \<times> 'a kernel_scheme \<times> u8 list list) run) \<Rightarrow>
   ('a kernel_scheme \<times> u8 list list) os" where
  "kernel_os hw check ex x0 leave =
     \<lparr>mem_of = (\<lambda>w. ram (fst w)), set_mem = (\<lambda>m w. ((fst w)\<lparr>ram := m\<rparr>, snd w)), at_addr = (\<lambda>w. user_ptr (fst w)),
      int80 = kernel_int80 hw check ex x0 leave\<rparr>"

text \<open>The system call wrappers load three registers whatever the number of arguments; the kernel does not look at
  the ones that stand for no argument.\<close>

lemma unused_registers:
  "kernel_int80 hw check ex x0 leave 2 b c d w = kernel_int80 hw check ex x0 leave 2 b 0 0 w"
  "kernel_int80 hw check ex x0 leave 5 b c d w = kernel_int80 hw check ex x0 leave 5 b 0 0 w"
  "kernel_int80 hw check ex x0 leave 6 b c d w = kernel_int80 hw check ex x0 leave 6 b 0 0 w"
  "kernel_int80 hw check ex x0 leave 7 b c d w = kernel_int80 hw check ex x0 leave 7 b c 0 w"
  "kernel_int80 hw check ex x0 leave 8 b c d w = kernel_int80 hw check ex x0 leave 8 b 0 0 w"
  by (simp_all add: kernel_int80_def sys_call_def sys_irqs_def)

text \<open>The addresses of a program: the 4 MB page at 128 MB.\<close>

definition prog_addr :: "u32 \<Rightarrow> bool" where
  "prog_addr a \<longleftrightarrow> drop_bit 22 a = 32"

definition prog_off :: "u32 \<Rightarrow> u32" where
  "prog_off a = a AND 0x3FFFFF"

subsection \<open>Good states and their view\<close>

text \<open>The page of null pointers is not present.\<close>

definition null_guarded :: "nat \<Rightarrow> 'a paging_scheme \<Rightarrow> bool" where
  "null_guarded k s \<longleftrightarrow> \<not> bit (PDE s (k + 1) 0) 7 \<and> \<not> bit (PTE s 0) 0"

definition runs_in :: "nat \<Rightarrow> 'a kernel_scheme \<Rightarrow> bool" where
  "runs_in k s \<longleftrightarrow> k < 7 \<and> cr3 s = int k + 1 \<and> prog_mapped k s \<and> null_guarded k s \<and> in_process s (pcb_loc k)"

definition term_ready :: "'a keyboard_scheme \<Rightarrow> bool" where
  "term_ready s \<longleftrightarrow> kbd_ok s \<and> no_modifiers s \<and> \<not> fflag s \<and> 0 \<in> set (drop 1023 (kbuf s ! act s))"

definition disk_ready :: "nat \<Rightarrow> 'a kernel_scheme \<Rightarrow> bool" where
  "disk_ready k s \<longleftrightarrow> exec_fs s \<and> fst (bbp s) \<notin> dentry_blocks \<union> {fst dir_dentry, User k} \<and>
     (\<forall>d\<in>set (dirents (ram s) s). fst (snd d) \<le> 2 \<and> 0 \<le> sint (file_size (ram s) s (snd (snd d))) \<and>
        (fst (snd d) = 2 \<longrightarrow> snd (snd d) < N s)) \<and>
     unat (dir_index s) \<le> length (dirents (ram s) s)"

text \<open>One descriptor: the descriptors of files are within their files, and none is wild.\<close>

definition entry_ready :: "'a kernel_scheme \<Rightarrow> fd_t \<Rightarrow> bool" where
  "entry_ready s e \<longleftrightarrow> (fd_flags e AND 1 \<noteq> 0 \<longrightarrow> (case fd_fotp e of
      Otp_file \<Rightarrow> fd_inode e < N s \<and> unat (fd_fp e) \<le> length (content (ram s) s (fd_inode e))
    | Wild p \<Rightarrow> False | _ \<Rightarrow> True))"

definition fds_ready :: "u32 \<Rightarrow> 'a kernel_scheme \<Rightarrow> bool" where
  "fds_ready a s \<longleftrightarrow> (\<forall>i<8. entry_ready s (cur_fd s a i)) \<and>
     (\<forall>i<2. fd_flags (cur_fd s a i) AND 1 \<noteq> 0 \<and> fd_fotp (cur_fd s a i) = Otp_terminal)"

definition args_ready :: "'a kernel_scheme \<Rightarrow> bool" where
  "args_ready s \<longleftrightarrow> (\<exists>arg. cstr (ram s) args_p arg \<and> length arg < 1023)"

definition typed_line :: "u8 list \<Rightarrow> bool" where
  "typed_line scs \<longleftrightarrow> scs \<noteq> [] \<and> (\<forall>sc\<in>set (butlast scs). plain_key sc \<or> release sc) \<and> plain_line (typed (butlast scs)) \<and>
     plain_key (last scs) \<and> key_char (last scs) = 0x0A"

definition kernel_good :: "nat \<Rightarrow> 'a kernel_scheme \<times> u8 list list \<Rightarrow> bool" where
  "kernel_good k w \<longleftrightarrow> runs_in k (fst w) \<and> term_ready (fst w) \<and> disk_ready k (fst w) \<and> fds_ready (pcb_loc k) (fst w) \<and>
     args_ready (fst w) \<and> (\<forall>scs\<in>set (snd w). typed_line scs)"

definition entry_view :: "'a kernel_scheme \<Rightarrow> fd_t \<Rightarrow> fdesc option" where
  "entry_view s e =
     (if fd_flags e AND 1 = 0 then None
      else Some (case fd_fotp e of
          Otp_file \<Rightarrow> Reads (drop (unat (fd_fp e)) (content (ram s) s (fd_inode e)))
        | Otp_dir \<Rightarrow> Lists | Otp_rtc \<Rightarrow> Ticks | _ \<Rightarrow> Term))"

definition fd_view :: "u32 \<Rightarrow> 'a kernel_scheme \<Rightarrow> nat \<Rightarrow> fdesc option" where
  "fd_view a s i = (if i < 8 then entry_view s (cur_fd s a i) else None)"

definition disk_view :: "'a kernel_scheme \<Rightarrow> u8 list \<Rightarrow> fdesc option" where
  "disk_view s name = (case lookup_name name (dirents (ram s) s) of
      None \<Rightarrow> None
    | Some (nm, ty, inode) \<Rightarrow> Some (if ty = 0 then Ticks else if ty = 1 then Lists else Reads (content (ram s) s inode)))"

definition arg_view :: "mem \<Rightarrow> u8 list option" where
  "arg_view m = (let arg = cview m args_p 1024
     in if arg = [] \<or> hd arg = 0x0A \<or> 30 < length (arg_word 1024 arg) then None else Some (arg_word 1024 arg))"

definition kernel_view :: "nat \<Rightarrow> 'a kernel_scheme \<times> u8 list list \<Rightarrow> uview" where
  "kernel_view k w = (case w of (s, ks) \<Rightarrow>
     \<lparr>v_screen = screen_of s, v_fds = fd_view (pcb_loc k) s, v_disk = disk_view s, v_names = map fst (dirents (ram s) s),
      v_dir = drop (unat (dir_index s)) (map fst (dirents (ram s) s)), v_keys = map (typed \<circ> butlast) ks, v_arg = arg_view (ram s)\<rparr>)"

text \<open>The program's literals \<open>L\<close> are at the addresses \<open>la\<close> of its page, away from its array at \<open>buf\<close>.\<close>

definition loaded :: "nat \<Rightarrow> (u8 list \<Rightarrow> u32) \<Rightarrow> u32 \<Rightarrow> u8 list list \<Rightarrow> 'a kernel_scheme \<times> u8 list list \<Rightarrow> bool" where
  "loaded k la buf L w \<longleftrightarrow> has_lits (User k) prog_off prog_addr la (set L) (ram (fst w)) \<and> prog_addr buf \<and>
     apart prog_off la (set L) buf 1024"

text \<open>The scheduler has nobody to switch to (one terminal is in use, or switching is off), the control block has the
  number of the slot, and the kernel stack is in a 4 MB page other than the one \<open>vidmap\<close> takes.\<close>

definition alone :: "nat \<Rightarrow> 'a kernel_scheme \<Rightarrow> bool" where
  "alone k s \<longleftrightarrow> (fake_sti s \<or> n_init s = 1) \<and> pcb_proc_id (pcbs s (pcb_loc k)) = int k \<and>
     drop_bit 22 (esp s AND 0xFFFE000) \<noteq> 12 \<and> bit (PDE s (k + 1) (unat (drop_bit 22 (esp s AND 0xFFFE000)))) 7"

text \<open>The strings and variables of \<open>fish\<close> are in its page, apart from each other.\<close>

definition fish_placed :: "nat \<Rightarrow> (u8 list \<Rightarrow> u32) \<Rightarrow> fish_vars \<Rightarrow> 'a kernel_scheme \<times> u8 list list \<Rightarrow> bool" where
  "fish_placed k la x w \<longleftrightarrow> has_lits (User k) prog_off prog_addr la (set fish_lits) (ram (fst w)) \<and>
     prog_addr (x_vmem_base_addr x) \<and> prog_addr (x_ret_val x) \<and> prog_addr (x_garbage x) \<and> prog_addr (x_c0 x) \<and> prog_addr (x_c1 x) \<and>
     prog_off (x_c0 x) \<noteq> prog_off (x_c1 x) \<and> apart prog_off la (set fish_lits) (x_vmem_base_addr x) 4 \<and>
     apart prog_off la (set fish_lits) (x_c0 x) 1 \<and> apart prog_off la (set fish_lits) (x_c1 x) 1"

subsection \<open>What does not change\<close>

lemma alone_simps [simp]:
  fixes s :: "'a kernel_scheme"
  shows "alone k (s\<lparr>ram := m\<rparr>) = alone k s" "alone k (s\<lparr>dir_index := j\<rparr>) = alone k s" "alone k (s\<lparr>iflag := b\<rparr>) = alone k s" "alone k (s\<lparr>io := es\<rparr>) = alone k s"
    "alone k (s\<lparr>interrupt_count := b\<rparr>) = alone k s" "alone k (sti s) = alone k s" "alone k (cli s) = alone k s" "alone k (put_fd a i e s) = alone k s"
  by (simp_all add: alone_def n_init_def sti_def cli_def put_fd_def)

text \<open>Everything but the terminal part is the same after a \<open>term_step\<close>.\<close>

lemma erase_kernel:
  fixes s :: "'a kernel_scheme"
  shows "runs_in k (erase s) = runs_in k s" "disk_ready k (erase s) = disk_ready k s" "fds_ready a (erase s) = fds_ready a s"
    "args_ready (erase s) = args_ready s" "fd_view a (erase s) = fd_view a s" "disk_view (erase s) = disk_view s"
    "ram (erase s) = ram s" "dirents (ram s) (erase s) = dirents (ram s) s" "dir_index (erase s) = dir_index s"
    "user_ptr (erase s) = user_ptr s" "pcbs (erase s) = pcbs s" "alone k (erase s) = alone k s"
proof -
  have f: "dirents m (erase s) = dirents m s" "content m (erase s) = content m s" "file_size m (erase s) = file_size m s" for m
    by (simp_all add: erase_def dirents_def dirent_def de_at_def content_def file_byte_def file_size_def inode_at_def fun_eq_iff)
  have g: "get_curr_pcb (erase s) = get_curr_pcb s" by (rule get_curr_pcb_eq) (simp_all add: erase_def)
  have c: "cur_fd (erase s) a i = cur_fd s a i" for a i by (simp add: erase_def cur_fd_def)
  have r: "ram (erase s) = ram s" "pcbs (erase s) = pcbs s" "N (erase s) = N s" "bbp (erase s) = bbp s" "dir_index (erase s) = dir_index s"
    "num_de (erase s) = num_de s" "fs_ok (erase s) = fs_ok s" "cr3 (erase s) = cr3 s" "prog_mapped k (erase s) = prog_mapped k s"
    "null_guarded k (erase s) = null_guarded k s" for k
    by (simp_all add: erase_def fs_ok_def prog_mapped_def null_guarded_def)
  show "ram (erase s) = ram s" "dirents (ram s) (erase s) = dirents (ram s) s" "dir_index (erase s) = dir_index s" "pcbs (erase s) = pcbs s"
    by (simp_all add: r f)
  show "alone k (erase s) = alone k s" by (simp add: alone_def n_init_def erase_def)
  show "runs_in k (erase s) = runs_in k s" by (simp add: runs_in_def in_process_def g r)
  show "disk_ready k (erase s) = disk_ready k s" by (simp add: disk_ready_def exec_fs_def f r)
  show "fds_ready a (erase s) = fds_ready a s" unfolding fds_ready_def entry_ready_def c f r ..
  show "args_ready (erase s) = args_ready s" by (simp add: args_ready_def r)
  show "fd_view a (erase s) = fd_view a s" unfolding fd_view_def [abs_def] entry_view_def c f r ..
  show "disk_view (erase s) = disk_view s" unfolding disk_view_def [abs_def] f r ..
  have "translate (erase s) v = translate s v" for v by (rule translate_cong) (simp_all add: erase_def)
  then show "user_ptr (erase s) = user_ptr s" by (simp add: user_ptr_def fun_eq_iff)
qed

lemma term_step_kernel:
  fixes s s' :: "'a kernel_scheme"
  assumes "term_step s s'"
  shows "runs_in k s' = runs_in k s" "disk_ready k s' = disk_ready k s" "fds_ready a s' = fds_ready a s"
    "args_ready s' = args_ready s" "fd_view a s' = fd_view a s" "disk_view s' = disk_view s"
    "ram s' = ram s" "dirents (ram s') s' = dirents (ram s) s" "dir_index s' = dir_index s" "user_ptr s' = user_ptr s" "pcbs s' = pcbs s"
    "alone k s' = alone k s"
  using assms erase_kernel [where s = s] erase_kernel [where s = s'] unfolding term_step_def by metis+

lemma term_step_sti [simp]: "term_step s (sti t) = term_step s t" "term_step s (cli t) = term_step s t"
  by (simp_all add: sti_def cli_def)

lemma term_ready_flag [simp]: "term_ready (s\<lparr>iflag := b\<rparr>) = term_ready s" "screen_of (s\<lparr>iflag := b\<rparr>) = screen_of s"
  using quiet [where s = s and es = "io s" and b = b] by (simp_all add: term_ready_def)

lemma kernel_flag:
  fixes s :: "'a kernel_scheme"
  shows "kernel_good k (s\<lparr>iflag := b\<rparr>, ks) = kernel_good k (s, ks)" "kernel_view k (s\<lparr>iflag := b\<rparr>, ks) = kernel_view k (s, ks)"
    "user_ptr (s\<lparr>iflag := b\<rparr>) = user_ptr s"
proof -
  have "term_step s (s\<lparr>iflag := b\<rparr>)" by simp
  from term_step_kernel [OF this] show "kernel_good k (s\<lparr>iflag := b\<rparr>, ks) = kernel_good k (s, ks)" "kernel_view k (s\<lparr>iflag := b\<rparr>, ks) = kernel_view k (s, ks)"
    "user_ptr (s\<lparr>iflag := b\<rparr>) = user_ptr s" by (simp_all add: kernel_good_def kernel_view_def)
qed

lemmas flag_simps [simp] = kernel_flag kernel_flag [where b = True, folded sti_def] kernel_flag [where b = False, folded cli_def]

text \<open>A change of memory away from the disk and the argument string changes nothing either.\<close>

lemma ram_kernel:
  fixes s :: "'a kernel_scheme"
  assumes "disk_ready k s" and "m (fst (bbp s)) = ram s (fst (bbp s))"
  shows "runs_in j (s\<lparr>ram := m\<rparr>) = runs_in j s" "disk_ready k (s\<lparr>ram := m\<rparr>)" "fds_ready a (s\<lparr>ram := m\<rparr>) = fds_ready a s"
    "fd_view a (s\<lparr>ram := m\<rparr>) = fd_view a s" "disk_view (s\<lparr>ram := m\<rparr>) = disk_view s" "dirents m (s\<lparr>ram := m\<rparr>) = dirents (ram s) s"
    "term_ready (s\<lparr>ram := m\<rparr>) = term_ready s" "screen_of (s\<lparr>ram := m\<rparr>) = screen_of s"
proof -
  have ok: "fs_ok s" using assms(1) by (simp add: disk_ready_def exec_fs_def)
  have f: "dirents m s = dirents (ram s) s" "content m s = content (ram s) s" "file_size m s = file_size (ram s) s"
    using same_block_dirents [where m = m and m' = "ram s", OF ok assms(2)]
      same_block_file(2,3) [where m = m and m' = "ram s", OF ok assms(2)] by simp_all
  have c: "cur_fd (s\<lparr>ram := m\<rparr>) a i = cur_fd s a i" for a i by simp
  have r: "ram (s\<lparr>ram := m\<rparr>) = m" "N (s\<lparr>ram := m\<rparr>) = N s" by simp_all
  show "runs_in j (s\<lparr>ram := m\<rparr>) = runs_in j s" by (simp add: runs_in_def prog_mapped_def null_guarded_def)
  show "disk_ready k (s\<lparr>ram := m\<rparr>)" using assms(1) by (simp add: disk_ready_def exec_fs_def f)
  show "fds_ready a (s\<lparr>ram := m\<rparr>) = fds_ready a s" unfolding fds_ready_def entry_ready_def c r fs_cong f ..
  show "fd_view a (s\<lparr>ram := m\<rparr>) = fd_view a s" unfolding fd_view_def [abs_def] entry_view_def c r fs_cong f ..
  show "disk_view (s\<lparr>ram := m\<rparr>) = disk_view s" unfolding disk_view_def [abs_def] r fs_cong f ..
  show "dirents m (s\<lparr>ram := m\<rparr>) = dirents (ram s) s" by (simp add: f)
  show "term_ready (s\<lparr>ram := m\<rparr>) = term_ready s" "screen_of (s\<lparr>ram := m\<rparr>) = screen_of s"
    by (simp_all add: term_ready_def kbd_ok_def console_ok_def no_modifiers_def screen_of_def video_frame_def page_frame_def)
qed

lemma ram_good:
  assumes "kernel_good k (s, ks)" and "m (fst (bbp s)) = ram s (fst (bbp s))" and "m (fst args_p) = ram s (fst args_p)"
  shows "kernel_good k (s\<lparr>ram := m\<rparr>, ks)" "kernel_view k (s\<lparr>ram := m\<rparr>, ks) = kernel_view k (s, ks)"
proof -
  have d: "disk_ready k s" using assms(1) by (simp add: kernel_good_def)
  note r = ram_kernel [where m = m, OF d assms(2)]
  have a: "cstr m args_p arg = cstr (ram s) args_p arg" for arg by (rule cstr_block) (rule assms(3))
  have "arg_view m = arg_view (ram s)" using assms(3) by (simp add: arg_view_def cview_def bytes_def ld_def)
  then show "kernel_view k (s\<lparr>ram := m\<rparr>, ks) = kernel_view k (s, ks)" using r by (simp add: kernel_view_def)
  show "kernel_good k (s\<lparr>ram := m\<rparr>, ks)" using assms(1) r a by (simp add: kernel_good_def args_ready_def)
qed

lemma good_blocks:
  assumes "kernel_good k (s, ks)"
  shows "fst (bbp s) \<noteq> User k" "fst (bbp s) \<notin> dentry_blocks" "fst (bbp s) \<noteq> fst dir_dentry" "fst (bbp s) \<notin> exec_blocks"
    "exec_fs s" "fs_ok s" "num_de s \<noteq> 0" "in_process s (pcb_loc k)" "runs_in k s"
  using assms by (simp_all add: kernel_good_def disk_ready_def exec_fs_def runs_in_def)

text \<open>Addresses of the program.\<close>

lemma prog_page_ptr:
  assumes "prog_mapped k s" and "cr3 s = int k + 1" and k: "k < 7" and "prog_addr a"
  shows "user_ptr s a = (User k, prog_off a)"
proof -
  have "PDE s (nat (cr3 s)) (unat (drop_bit 22 a)) = push_bit 22 (of_nat (k + 2)) OR CTRL_EMPTY_USR"
    using assms by (simp add: prog_mapped_def nat_add_distrib prog_addr_def)
  from translate_big [OF this] assms(2,3) have tr: "translate s a = Some (push_bit 22 (of_nat (k + 2)) OR (a AND mask 22), True, True)"
    by simp
  let ?p = "push_bit 22 (of_nat (k + 2)) OR (a AND mask 22) :: u32"
  have u: "unat (of_nat (k + 2) :: u32) = k + 2" using k by (intro unat_u32_of_nat) simp
  have d: "drop_bit 22 ?p = of_nat (k + 2)" by (rule drop_frame) (use u k in simp)
  have "\<not> ?p < 0x800000"
  proof
    assume "?p < 0x800000"
    then have "unat ?p < 2 ^ 23" by (simp add: word_less_nat_alt)
    then have "unat (drop_bit 22 ?p) < 2" by (simp add: drop_bit_eq_div unat_div)
    then show False using d u by simp
  qed
  moreover have "?p AND 0x3FFFFF = a AND 0x3FFFFF" unfolding masks_u32 by (auto simp: bit_eq_iff bit_simps)
  ultimately show ?thesis using tr d u by (simp add: user_ptr_def prog_off_def)
qed

lemma user_ptr_page: "runs_in k s \<Longrightarrow> prog_addr a \<Longrightarrow> user_ptr s a = (User k, prog_off a)"
  by (rule prog_page_ptr) (simp_all add: runs_in_def)

text \<open>The user's mapping of the screen, reported to an address of the program's own page.\<close>

theorem sys_vidmap_spec:
  fixes s :: "'a kernel_scheme"
  assumes pr: "in_process s a" and id: "pcb_proc_id (pcbs s a) = int k" "k < 7" and cr: "cr3 s = int k + 1"
    and inv: "dir_inv s" and pm: "prog_mapped k s" and ad: "prog_addr addr"
  shows "\<exists>s'. sys_vidmap addr s = Inr (0, s') \<and> dir_inv s' \<and>
    (\<forall>v. drop_bit 12 v = 0x3001 \<longrightarrow> translate s' v = Some (0xB8000 OR (v AND 0xFFF), True, True)) \<and>
    s' = s\<lparr>PTE := (PTE s)(1 := 0xB8007), PDE := (PDE s)(k + 1 := (PDE s (k + 1))(12 := PTE_base s OR CTRL_VIDEO_USR)),
      ram := st32 (ram s) (User k, prog_off addr) 0x3001000\<rparr>"
proof -
  let ?j = "k + 1" and ?b = "PTE_base s"
  have al: "?b AND 0xFFFFF000 = ?b" using inv by (simp add: dir_inv_def)
  define t where "t = s\<lparr>PTE := (PTE s)(1 := 0xB8007), PDE := (PDE s)(?j := (PDE s ?j)(12 := ?b OR CTRL_VIDEO_USR))\<rparr>"
  define s' where "s' = t\<lparr>ram := st32 (ram s) (User k, prog_off addr) 0x3001000\<rparr>"
  have up: "user_ptr (t\<lparr>ram := m\<rparr>) addr = (User k, prog_off addr)" for m
    by (rule prog_page_ptr [OF _ _ _ ad]) (use pm id cr in \<open>simp_all add: t_def prog_mapped_def\<close>)
  from up [of "ram t"] have ut: "user_ptr t addr = (User k, prog_off addr)" by simp
  have t: "PDE t ?j 12 = ?b OR CTRL_VIDEO_USR" "PTE t 1 = 0xB8007" "PTE_base t = ?b" "cr3 t = int ?j" "ram t = ram s"
    using cr by (simp_all add: t_def)
  have a0: "addr \<noteq> 0" "addr \<noteq> 0x400000" using ad by (auto simp: prog_addr_def)
  have "sys_vidmap addr s = Inr (0, s')"
    using pr id a0 by (simp add: sys_vidmap_def in_process_def pde_set_def pte_set_def Let_def nat_add_distrib al s'_def t_def
        up [unfolded t_def, simplified] ut [unfolded t_def, simplified] ld32_st32_same)
  moreover have "dir_inv s'"
  proof -
    have "?b OR CTRL_VIDEO_USR \<in> dir_entries ?b ?j 12" using al by (simp add: dir_entries_def)
    then show ?thesis using inv by (auto simp: dir_inv_def s'_def t_def)
  qed
  moreover have "translate s' v = Some (0xB8000 OR (v AND 0xFFF), True, True)" if v: "drop_bit 12 v = 0x3001" for v
  proof -
    have "drop_bit 22 v = drop_bit 10 (drop_bit 12 v)" by (simp add: drop_bit_drop_bit)
    then have i: "unat (drop_bit 22 v) = 12" by (simp add: v)
    have "translate s' v = (let t = PTE s' (unat (drop_bit 12 v AND 0x3FF)) in
       if bit t 0 then Some ((t AND 0xFFFFF000) OR (v AND 0xFFF), bit CTRL_VIDEO_USR 2 \<and> bit t 2, bit CTRL_VIDEO_USR 1 \<and> bit t 1) else None)"
      by (rule translate_table) (use t al id(2) i in \<open>simp_all add: s'_def nat_add_distrib mask_numeral\<close>)
    then show ?thesis using t by (simp add: v s'_def Let_def)
  qed
  ultimately show ?thesis by (auto simp: s'_def t_def)
qed

lemma page_not_args: "User k \<noteq> fst args_p" "User k \<notin> exec_blocks" "User k \<notin> dentry_blocks" "User k \<noteq> fst dir_dentry"
  by (simp_all add: exec_blocks_def dentry_blocks_def)

text \<open>A change of the program's page only.\<close>

lemma page_good:
  assumes "kernel_good k (s, ks)" and "\<And>b. b \<noteq> User k \<Longrightarrow> m b = ram s b"
  shows "kernel_good k (s\<lparr>ram := m\<rparr>, ks)" "kernel_view k (s\<lparr>ram := m\<rparr>, ks) = kernel_view k (s, ks)"
  by (rule ram_good [OF assms(1)]; rule assms(2); use good_blocks [OF assms(1)] page_not_args in auto)+

subsection \<open>The calls\<close>

text \<open>A call that returns.\<close>

lemma kernel_ret:
  assumes "sys_call hw (sys_irqs hw ex x0 n b ks) check n b c d s = Some (Inr (Ret v, s'))" and "\<not> (n = 3 \<and> b = 0)"
  shows "kernel_int80 hw check ex x0 leave n b c d (s, ks) = Some (Inr (v, s', ks))"
  using assms by (auto simp: kernel_int80_def)

lemma used_view: "i < 8 \<Longrightarrow> fd_flags (cur_fd s (pcb_loc k) i) AND 1 = 0 \<longleftrightarrow> v_fds (kernel_view k (s, ks)) i = None"
  by (simp add: kernel_view_def fd_view_def entry_view_def)

lemma fd_lookup:
  assumes "kernel_good k (s, ks)" and "fd \<le> 7"
  shows "get_fd fd (cli s) = Inr (cur_fd s (pcb_loc k) (unat fd))" "unat fd < 8"
proof -
  show u: "unat fd < 8" using assms(2) by (simp add: word_le_nat_alt)
  have "in_process (cli s) (pcb_loc k)" using good_blocks(8) [OF assms(1)] by (simp add: in_process_def cli_def)
  from get_fd_ok [OF this u] show "get_fd fd (cli s) = Inr (cur_fd s (pcb_loc k) (unat fd))" by (simp add: cur_fd_def cli_def)
qed

theorem kernel_write:
  assumes g: "kernel_good k (s, ks)" and a: "prog_addr a" and n: "unat n < 2 ^ 31"
  shows "\<exists>w'. kernel_int80 hw check ex x0 leave 4 1 a n (s, ks) = Some (Inr (n, w')) \<and> kernel_good k w' \<and> alone k (fst w') = alone k s \<and> ram (fst w') = ram s \<and>
    kernel_view k w' = (kernel_view k (s, ks))\<lparr>v_screen := shown (bytes (ram s) (User k, prog_off a) (Suc (unat n))) (v_screen (kernel_view k (s, ks)))\<rparr>"
proof -
  let ?p = "(User k, prog_off a)" and ?s = "cli s"
  have fd1: "fd_flags (cur_fd s (pcb_loc k) 1) AND 1 \<noteq> 0" "fd_fotp (cur_fd s (pcb_loc k) 1) = Otp_terminal" using g by (simp_all add: kernel_good_def fds_ready_def)
  have ge: "get_fd 1 ?s = Inr (cur_fd s (pcb_loc k) 1)" using fd_lookup(1) [OF g, of 1] by simp
  have si: "sint n = int (unat n)" "word_of_int (int (unat n)) = n" using n sint_u32_small [of n] by simp_all
  have tr: "term_ready ?s" using g by (simp add: kernel_good_def cli_def)
  then have ok: "kbd_ok ?s" by (simp add: term_ready_def)
  obtain s' where s': "write_terminal (ram s) ?p (int (unat n)) ?s = Inr (int (unat n), s')" "kbd_ok s'"
    "screen_of s' = shown (bytes (ram s) ?p (Suc (unat n))) (screen_of ?s)" "active_term s' = active_term ?s"
    "term_step ?s s'" "drop 128 (kbuf s' ! act ?s) = drop 128 (kbuf ?s ! act ?s)" "fflag s' = fflag ?s"
    using write_terminal_spec [OF ok, of "ram s" ?p "unat n"] by blast
  have ts: "term_step s s'" using term_step_trans [OF _ s'(5), of s] by simp
  have "drop 1023 (kbuf s' ! act s') = drop 1023 (kbuf ?s ! act ?s)"
    using arg_cong [OF s'(6), of "drop 895"] s'(4) by simp
  then have tr': "term_ready s'"
    using tr s'(2,7) term_step_modifiers [OF s'(5)] by (simp add: term_ready_def no_modifiers_def)
  have up: "user_ptr s a = ?p" by (rule user_ptr_page [OF good_blocks(9) [OF g] a])
  have "sys_write hw 1 ?p n ?s = Inr (n, s')"
    using ge fd1 s'(1) si by (simp add: sys_write_def fotp_write_def fnc_term_write_def cli_def)
  then have "sys_call hw (sys_irqs hw ex x0 4 1 ks) check 4 1 a n s = Some (Inr (Ret n, sti s'))"
    by (simp add: sys_call_def through_def up ret_def)
  then have "kernel_int80 hw check ex x0 leave 4 1 a n (s, ks) = Some (Inr (n, sti s', ks))" by (intro kernel_ret) simp_all
  moreover have "kernel_good k (s', ks)" using g tr' term_step_kernel [OF ts] by (simp add: kernel_good_def)
  moreover have "kernel_view k (s', ks) = (kernel_view k (s, ks))\<lparr>v_screen := shown (bytes (ram s) ?p (Suc (unat n))) (v_screen (kernel_view k (s, ks)))\<rparr>"
    using s'(3) term_step_kernel [OF ts] by (simp add: kernel_view_def cli_def)
  ultimately show ?thesis using term_step_kernel(7,12) [OF ts] by (intro exI [of _ "(sti s', ks)"]) (simp add: sti_def)
qed

text \<open>Setting a descriptor.\<close>

lemma put_fd_good:
  fixes s :: "'a kernel_scheme"
  assumes g: "kernel_good k (s, ks)" and i: "2 \<le> i" "i < 8" and e: "entry_ready s e"
  shows "kernel_good k (put_fd (pcb_loc k) i e s, ks)"
    "kernel_view k (put_fd (pcb_loc k) i e s, ks) = (kernel_view k (s, ks))\<lparr>v_fds := (v_fds (kernel_view k (s, ks)))(i := entry_view s e)\<rparr>"
proof -
  let ?a = "pcb_loc k"
  let ?s = "put_fd ?a i e s"
  have pr: "in_process s ?a" by (rule good_blocks(8) [OF g])
  have c: "cur_fd ?s ?a j = (if j = i then e else cur_fd s ?a j)" for j by (rule cur_put_fd [OF pr i(2)])
  have r: "ram ?s = ram s" "dir_index ?s = dir_index s" "prog_mapped j ?s = prog_mapped j s" "cr3 ?s = cr3 s" "term_ready ?s = term_ready s"
    "screen_of ?s = screen_of s" "null_guarded j ?s = null_guarded j s" for j
    by (simp_all add: put_fd_def prog_mapped_def null_guarded_def term_ready_def kbd_ok_def console_ok_def no_modifiers_def screen_of_def video_frame_def page_frame_def)
  have ev: "entry_view ?s x = entry_view s x" "entry_ready ?s x = entry_ready s x" for x
    unfolding entry_view_def entry_ready_def r fs_cong by (rule refl)+
  have "disk_ready k ?s" using g by (simp add: kernel_good_def disk_ready_def exec_fs_def r)
  moreover have "fds_ready ?a ?s" using g e i by (auto simp: kernel_good_def fds_ready_def c ev)
  ultimately show "kernel_good k (?s, ks)" using g by (simp add: kernel_good_def runs_in_def args_ready_def r)
  have "fd_view ?a ?s = (fd_view ?a s)(i := entry_view s e)" using i(2) by (auto simp: fd_view_def c ev fun_eq_iff)
  moreover have "disk_view ?s = disk_view s" unfolding disk_view_def [abs_def] r fs_cong ..
  ultimately show "kernel_view k (?s, ks) = (kernel_view k (s, ks))\<lparr>v_fds := (v_fds (kernel_view k (s, ks)))(i := entry_view s e)\<rparr>"
    by (simp add: kernel_view_def r)
qed

theorem kernel_close:
  assumes g: "kernel_good k (s, ks)"
  shows "\<exists>w'. kernel_int80 hw check ex x0 leave 6 fd 0 0 (s, ks) = Some (Inr (fst (v_close fd (kernel_view k (s, ks))), w')) \<and>
    kernel_good k w' \<and> alone k (fst w') = alone k s \<and> ram (fst w') = ram s \<and> kernel_view k w' = snd (v_close fd (kernel_view k (s, ks)))"
proof -
  let ?a = "pcb_loc k" and ?v = "kernel_view k (s, ks)"
  have pr: "in_process (cli s) ?a" using good_blocks(8) [OF g] by (simp add: in_process_def cli_def)
  have ret: "kernel_int80 hw check ex x0 leave 6 fd 0 0 (s, ks) = Some (Inr (v, sti s', ks))" if "sys_close fd (cli s) = Inr (v, s')" for v s'
    using that by (intro kernel_ret) (simp_all add: sys_call_def through_def ret_def)
  show ?thesis
  proof (cases "fd < 2 \<or> fd > 7 \<or> v_fds ?v (unat fd) = None")
    case True
    have "sys_close fd (cli s) = Inr (- 1, cli s)"
    proof (cases "fd < 2 \<or> fd > 7")
      case False
      then have "fd \<le> 7" by (auto simp: not_less)
      from fd_lookup [OF g this] True False used_view [of "unat fd" s k ks] show ?thesis by (simp add: sys_close_def)
    qed (auto simp: sys_close_def)
    from ret [OF this] True g show ?thesis by (intro exI [of _ "(sti (cli s), ks)"]) (auto simp: v_close_def sti_def cli_def)
  next
    case False
    then have f7: "fd \<le> 7" by (auto simp: not_less)
    note l = fd_lookup [OF g f7]
    let ?e = "cur_fd s ?a (unat fd)"
    have u: "2 \<le> unat fd" using False by (auto simp: word_less_nat_alt not_less)
    have en: "fd_flags ?e AND 1 \<noteq> 0" using used_view [OF l(2), of s k ks] False by simp
    have up: "upd_fd fd (\<lambda>e. e\<lparr>fd_flags := 0\<rparr>) (cli s) = Inr (put_fd ?a (unat fd) (?e\<lparr>fd_flags := 0\<rparr>) (cli s))"
      using upd_fd_ok [OF pr l(2)] by (simp add: cur_fd_def cli_def)
    have "sys_close fd (cli s) = Inr (0, put_fd ?a (unat fd) (?e\<lparr>fd_flags := 0\<rparr>) (cli s))"
      using False l(1) en up by (simp add: sys_close_def)
    note r = ret [OF this]
    have "kernel_good k (cli s, ks)" using g by simp
    note p = put_fd_good [OF this u l(2), of "?e\<lparr>fd_flags := 0\<rparr>"]
    show ?thesis using r p False
      by (intro exI [of _ "(sti (put_fd ?a (unat fd) (?e\<lparr>fd_flags := 0\<rparr>) (cli s)), ks)"])
        (simp add: v_close_def entry_ready_def entry_view_def, simp add: sti_def cli_def)
  qed
qed

text \<open>Opening: a name that is not in the directory, no free descriptor, and the first free one.\<close>

lemma opened_entry:
  fixes s :: "'a kernel_scheme"
  assumes g: "kernel_good k (s, ks)" and d: "lookup_name name (dirents (ram s) s) = Some d"
  shows "entry_ready s (opened d e)" "entry_view s (opened d e) = v_disk (kernel_view k (s, ks)) name"
proof -
  obtain nm ty ino where dd: "d = (nm, ty, ino)" by (cases d)
  have "d \<in> set (dirents (ram s) s)" using d by (auto simp: lookup_name_def find_Some_iff)
  then have ok: "ty \<le> 2" "ty = 2 \<longrightarrow> ino < N s" using g dd by (auto simp: kernel_good_def disk_ready_def)
  then have "unat ty \<le> 2" by (simp add: word_le_nat_alt)
  then consider "ty = 0" | "ty = 1" | "ty = 2"
    by (metis One_nat_def le_Suc_eq le_zero_eq numeral_2_eq_2 unat_0 unat_1 unat_numeral_2_u32 unsigned_word_eqI)
  then have "entry_ready s (opened d e) \<and> entry_view s (opened d e) = v_disk (kernel_view k (s, ks)) name"
    by cases (use ok dd d in \<open>auto simp: opened_def open_kind_def entry_ready_def entry_view_def kernel_view_def disk_view_def Let_def\<close>)
  then show "entry_ready s (opened d e)" "entry_view s (opened d e) = v_disk (kernel_view k (s, ks)) name" by simp_all
qed

lemma good_openable:
  assumes g: "kernel_good k (s, ks)" and n: "cstr (ram s) (User k, a) name" "length name \<le> 31" and d: "lookup_name name (dirents (ram s) s) = Some d"
  shows "openable (User k, a) d s"
proof -
  have "d \<in> set (dirents (ram s) s)" using d by (auto simp: lookup_name_def find_Some_iff)
  then show ?thesis using g n d good_blocks [OF g] page_not_args(3) [of k]
    by (auto simp: openable_def kernel_good_def disk_ready_def)
qed

theorem kernel_open:
  assumes g: "kernel_good k (s, ks)" and a: "prog_addr a" and n: "cstr (ram s) (User k, prog_off a) name" "length name \<le> 31"
  shows "\<exists>w'. kernel_int80 hw check ex x0 leave 5 a 0 0 (s, ks) = Some (Inr (fst (v_open name (kernel_view k (s, ks))), w')) \<and>
    kernel_good k w' \<and> alone k (fst w') = alone k s \<and> ram (fst w') (User k) = ram s (User k) \<and> kernel_view k w' = snd (v_open name (kernel_view k (s, ks)))"
proof -
  let ?a = "pcb_loc k" and ?v = "kernel_view k (s, ks)" and ?p = "(User k, prog_off a)" and ?s = "cli s"
  have gs: "kernel_good k (?s, ks)" using g by simp
  have pr: "in_process ?s ?a" by (rule good_blocks(8) [OF gs])
  have up: "user_ptr s a = ?p" by (rule user_ptr_page [OF good_blocks(9) [OF g] a])
  have rs: "ram ?s = ram s" "cur_fd ?s ?a i = cur_fd s ?a i" "dirents m ?s = dirents m s" for i m
    by (simp_all add: cli_def cur_fd_def dirents_def dirent_def de_at_def)
  have ret: "kernel_int80 hw check ex x0 leave 5 a 0 0 (s, ks) = Some (Inr (v, sti s', ks))" if "sys_open check ?p ?s = Some (Inr (v, s'))" for v s'
    using that by (intro kernel_ret) (simp_all add: sys_call_def through_def ret_def up)
  define i where "i = scan (\<lambda>i. v_fds ?v i = None) 2 8"
  have same: "scan (\<lambda>i. fd_flags (pcb_fd (pcbs ?s ?a) ! i) AND 1 = 0) 2 8 = i"
    unfolding i_def by (rule scan_cong) (use used_view [of _ s k ks] in \<open>simp add: cur_fd_def cli_def\<close>)
  show ?thesis
  proof (cases "8 \<le> i")
    case True
    then have "sys_open check ?p ?s = Some (Inr (- 1, ?s))" using pr same by (simp add: sys_open_def in_process_def)
    from ret [OF this] True g show ?thesis by (intro exI [of _ "(sti ?s, ks)"]) (simp add: v_open_def i_def [symmetric], simp add: sti_def cli_def)
  next
    case False
    then have i: "2 \<le> i" "i < 8" using scan_ge [of 2 "\<lambda>i. v_fds ?v i = None" 8] by (simp_all add: i_def)
    show ?thesis
    proof (cases "lookup_name name (dirents (ram s) s)")
      case None
      have "read_dentry_by_name (ram ?s) ?s check ?p open_dentry = Some (- 1, ram ?s)"
        using read_dentry_by_name_spec [OF good_blocks(6) [OF gs] _ _ _ n(2) good_blocks(7) [OF gs], of open_dentry ?p "ram ?s" check]
          n(1) None good_blocks(2) [OF gs] page_not_args(3) [of k] by (auto simp: rs dentry_blocks_def)
      then have "sys_open check ?p ?s = Some (Inr (- 1, ?s))" using pr same i by (simp add: sys_open_def in_process_def)
      moreover have "v_disk ?v name = None" using None by (simp add: kernel_view_def disk_view_def)
      ultimately show ?thesis using ret False g
        by (intro exI [of _ "(sti ?s, ks)"]) (simp add: v_open_def i_def [symmetric], simp add: sti_def cli_def)
    next
      case (Some d)
      have op: "openable ?p d ?s" by (rule good_openable [OF gs _ n(2)]) (use n(1) Some rs in simp_all)
      have fr: "v_fds ?v i = None" using scan_hit [of "\<lambda>i. v_fds ?v i = None" 2 8] i(2) by (simp add: i_def)
      have bf: "v_fds ?v j \<noteq> None" if "2 \<le> j" "j < i" for j
        using scan_before [of 2 j "\<lambda>i. v_fds ?v i = None" 8] that by (simp add: i_def)
      have f0: "fd_flags (cur_fd ?s ?a i) AND 1 = 0" using fr used_view [OF i(2), of s k ks] by (simp add: rs)
      have fj: "fd_flags (cur_fd ?s ?a j) AND 1 \<noteq> 0" if "2 \<le> j" "j < i" for j
        using bf [OF that] used_view [of j s k ks] that i(2) by (simp add: rs)
      obtain m' where m': "sys_open check ?p ?s = Some (Inr (of_nat i, sti (put_fd ?a i (opened d (cur_fd ?s ?a i)) (?s\<lparr>ram := m'\<rparr>))))"
        "\<forall>b. b \<notin> dentry_blocks \<longrightarrow> m' b = ram ?s b"
        using sys_open_free [OF pr op i f0 fj, of check] by blast
      let ?m = "?s\<lparr>ram := m'\<rparr>" and ?e = "opened d (cur_fd ?s ?a i)"
      have b: "m' (fst (bbp ?s)) = ram ?s (fst (bbp ?s))" "m' (fst args_p) = ram ?s (fst args_p)" "m' (User k) = ram s (User k)"
        using m'(2) good_blocks(2) [OF gs] page_not_args(3) [of k] by (simp_all add: rs dentry_blocks_def)
      note rg = ram_good [where m = m', OF gs b(1,2)]
      have lk: "lookup_name name (dirents (ram ?m) ?m) = Some d"
        using Some ram_kernel(6) [where m = m' and s = ?s and k = k, OF _ b(1)] gs by (simp add: kernel_good_def rs)
      note oe = opened_entry [OF rg(1) lk, of "cur_fd ?s ?a i"]
      note pg = put_fd_good [OF rg(1) i oe(1)]
      have vd: "v_disk ?v name = entry_view ?m ?e" using oe(2) rg(2) by simp
      have "v_disk ?v name \<noteq> None" using Some by (cases d) (simp add: kernel_view_def disk_view_def)
      then have "v_open name ?v = (of_nat i, ?v\<lparr>v_fds := (v_fds ?v)(i := entry_view ?m ?e)\<rparr>)"
        using False vd by (auto simp: v_open_def i_def [symmetric])
      then show ?thesis using ret [OF m'(1)] pg rg(2) b(3)
        by (intro exI [of _ "(sti (sti (put_fd ?a i ?e ?m)), ks)"]) (simp, simp add: sti_def)
    qed
  qed
qed

lemma kernel_read_ret:
  assumes "kernel_good k (s, ks)" and "prog_addr a" and "b \<noteq> 0" and "sys_read [periodic_interrupt_handler hw] b (User k, prog_off a) n (cli s) = Some (Inr (v, s'))"
  shows "kernel_int80 hw check ex x0 leave 3 b a n (s, ks) = Some (Inr (v, sti s', ks))"
  using assms user_ptr_page [OF good_blocks(9) [OF assms(1)] assms(2)]
  by (intro kernel_ret) (simp_all add: sys_call_def through_def ret_def sys_irqs_def)

theorem kernel_read_file:
  assumes g: "kernel_good k (s, ks)" and a: "prog_addr a" and i: "2 \<le> i" "i < 8" and x: "v_fds (kernel_view k (s, ks)) i = Some (Reads xs)"
    and n: "0 < n"
  shows "\<exists>w'. kernel_int80 hw check ex x0 leave 3 (of_nat i) a n (s, ks) = Some (Inr (of_nat (length (take (unat n) xs)), w')) \<and>
    kernel_good k w' \<and> alone k (fst w') = alone k s \<and> ram (fst w') (User k) = stores (ram s) (User k, prog_off a) (take (unat n) xs) (User k) \<and>
    kernel_view k w' = (kernel_view k (s, ks))\<lparr>v_fds := (v_fds (kernel_view k (s, ks)))(i := Some (Reads (drop (unat n) xs)))\<rparr>"
proof -
  let ?a = "pcb_loc k" and ?p = "(User k, prog_off a)" and ?s = "cli s"
  define e where "e = cur_fd ?s ?a i"
  define r where "r = take (unat n) xs"
  define s1 where "s1 = sti ?s\<lparr>ram := stores (ram ?s) ?p r\<rparr>"
  define e' where "e' = e\<lparr>fd_fp := fd_fp e + of_nat (length r)\<rparr>"
  have gs: "kernel_good k (?s, ks)" using g by simp
  have rs: "ram ?s = ram s" by (simp add: cli_def)
  have "fd_view ?a ?s i = Some (Reads xs)" using x term_step_kernel(5) [of s ?s ?a] by (simp add: kernel_view_def)
  then have en: "entry_view ?s e = Some (Reads xs)" using i(2) by (simp add: fd_view_def e_def)
  then have e: "fd_flags e AND 1 \<noteq> 0" "fd_fotp e = Otp_file" "xs = drop (unat (fd_fp e)) (content (ram ?s) ?s (fd_inode e))"
    by (auto simp: entry_view_def split: if_splits fotp.splits)
  have er: "entry_ready ?s e" using gs i(2) by (simp add: kernel_good_def fds_ready_def e_def)
  have fg: "file_good ?a i ?p n ?s"
    using n i e(1,2) er good_blocks [OF gs] by (simp add: file_good_def entry_ready_def e_def [symmetric])
  have fr: "file_rest ?a i ?s = xs" using e(3) by (simp add: file_rest_def e_def)
  have rd: "sys_read irqs (of_nat i) ?p n ?s = Some (Inr (of_nat (length r), put_fd ?a i e' s1))" for irqs
    using sys_read_file [OF fg, of irqs] by (simp add: fr r_def e'_def e_def s1_def)
  have nz: "(of_nat i :: u32) \<noteq> 0" using of_nat_fd(1) [OF i(2)] i(1) by (metis not_numeral_le_zero unat_0)
  note k = kernel_read_ret [OF g a nz rd]
  have s1e: "s1 = sti (?s\<lparr>ram := stores (ram ?s) ?p r\<rparr>)" by (simp add: s1_def sti_def)
  have mb: "stores (ram ?s) ?p r b = ram ?s b" if "b \<noteq> User k" for b using that by (simp add: stores_other_block)
  have g1: "kernel_good k (s1, ks)" "kernel_view k (s1, ks) = kernel_view k (s, ks)"
    using page_good [OF gs mb] unfolding s1e by simp_all
  obtain s' where s': "file_rd i ?p n ?s = (take (unat n) xs, s')" "file_good ?a i ?p n s'" "file_rest ?a i s' = drop (unat n) xs"
    using file_rd_step [OF fg] fr by auto
  have se: "s' = put_fd ?a i e' s1" using s'(1) rd by (simp add: file_rd_def)
  have ce: "cur_fd s' ?a i = e'" unfolding se using cur_put_fd [OF good_blocks(8) [OF g1(1)] i(2)] by simp
  have ct: "content (ram s') s' = content (ram s1) s1" "N s' = N s1" by (simp_all add: se)
  have fl: "fd_flags e' = fd_flags e" "fd_fotp e' = Otp_file" using e(2) by (simp_all add: e'_def)
  have er': "entry_ready s1 e'"
    using s'(2) by (simp add: file_good_def ce ct fl entry_ready_def)
  have ev': "entry_view s1 e' = Some (Reads (drop (unat n) xs))"
    using s'(3) e(1) by (simp add: file_rest_def ce ct fl entry_view_def)
  note pg = put_fd_good [OF g1(1) i er']
  have "ram (put_fd ?a i e' s1) = stores (ram s) ?p r" "alone k s1 = alone k s" by (simp_all add: s1_def s1e rs)
  then show ?thesis using k pg ev' g1(2) by (intro exI [of _ "(sti (put_fd ?a i e' s1), ks)"]) (simp add: r_def, simp add: sti_def)
qed

text \<open>The directory.\<close>

lemma dir_index_good:
  fixes s :: "'a kernel_scheme"
  assumes g: "kernel_good k (s, ks)" and j: "unat j \<le> length (dirents (ram s) s)"
  shows "kernel_good k (s\<lparr>dir_index := j\<rparr>, ks)"
    "kernel_view k (s\<lparr>dir_index := j\<rparr>, ks) = (kernel_view k (s, ks))\<lparr>v_dir := drop (unat j) (v_names (kernel_view k (s, ks)))\<rparr>"
proof -
  let ?s = "s\<lparr>dir_index := j\<rparr>"
  have f: "dirents m ?s = dirents m s" "content m ?s = content m s" "file_size m ?s = file_size m s" for m
    by (simp_all add: dirents_def dirent_def de_at_def content_def file_byte_def file_size_def inode_at_def fun_eq_iff)
  have c: "cur_fd ?s a i = cur_fd s a i" for a i by (simp add: cur_fd_def)
  have r: "ram ?s = ram s" "N ?s = N s" by simp_all
  have "fds_ready (pcb_loc k) ?s = fds_ready (pcb_loc k) s" unfolding fds_ready_def entry_ready_def c r f ..
  moreover have "term_ready ?s = term_ready s" "screen_of ?s = screen_of s"
    by (simp_all add: term_ready_def kbd_ok_def console_ok_def no_modifiers_def screen_of_def video_frame_def page_frame_def)
  moreover have "disk_ready k ?s" using g j by (simp add: kernel_good_def disk_ready_def exec_fs_def f)
  moreover have "runs_in k ?s = runs_in k s" by (simp add: runs_in_def prog_mapped_def null_guarded_def in_process_def)
  ultimately show "kernel_good k (?s, ks)" using g by (simp add: kernel_good_def args_ready_def)
  have "fd_view (pcb_loc k) ?s = fd_view (pcb_loc k) s" unfolding fd_view_def [abs_def] entry_view_def c r f ..
  moreover have "disk_view ?s = disk_view s" unfolding disk_view_def [abs_def] r f ..
  ultimately show "kernel_view k (?s, ks) = (kernel_view k (s, ks))\<lparr>v_dir := drop (unat j) (v_names (kernel_view k (s, ks)))\<rparr>"
    using \<open>screen_of ?s = screen_of s\<close> by (simp add: kernel_view_def f)
qed

lemma kernel_dir_read:
  assumes g: "kernel_good k (s, ks)" and i: "2 \<le> i" "i < 8" and x: "v_fds (kernel_view k (s, ks)) i = Some Lists"
  shows "sys_read irqs (of_nat i) p n (cli s) = Some (Inr (fnc_dir_read p (sti s)))"
proof -
  have f7: "(of_nat i :: u32) \<le> 7" using i of_nat_fd(1) [OF i(2)] by (simp add: word_le_nat_alt)
  have n1: "(of_nat i :: u32) \<noteq> 1" using of_nat_fd(1) [OF i(2)] i(1) by (metis numeral_le_one_iff semiring_norm(69) unat_1)
  have "entry_view s (cur_fd s (pcb_loc k) i) = Some Lists" using x i(2) by (simp add: kernel_view_def fd_view_def)
  then have "fd_flags (cur_fd s (pcb_loc k) i) AND 1 \<noteq> 0" "fd_fotp (cur_fd s (pcb_loc k) i) = Otp_dir"
    by (auto simp: entry_view_def split: if_splits fotp.splits)
  then show ?thesis using fd_lookup [OF g f7] of_nat_fd(1) [OF i(2)] f7 n1 by (simp add: sys_read_def fotp_read_def not_less [symmetric] sti_def cli_def)
qed

theorem kernel_read_dir:
  assumes g: "kernel_good k (s, ks)" and a: "prog_addr a" and i: "2 \<le> i" "i < 8" and x: "v_fds (kernel_view k (s, ks)) i = Some Lists"
    and nm: "v_dir (kernel_view k (s, ks)) = nm # ns"
  shows "\<exists>w'. kernel_int80 hw check ex x0 leave 3 (of_nat i) a n (s, ks) = Some (Inr (32, w')) \<and>
    kernel_good k w' \<and> alone k (fst w') = alone k s \<and> ram (fst w') (User k) = stores (ram s) (User k, prog_off a) (pad32 nm) (User k) \<and> length nm \<le> 32 \<and>
    kernel_view k w' = (kernel_view k (s, ks))\<lparr>v_dir := ns\<rparr>"
proof -
  let ?p = "(User k, prog_off a)" and ?s = "sti s" and ?j = "dir_index s"
  have gs: "kernel_good k (?s, ks)" using g by simp
  have rs: "ram ?s = ram s" "dir_index ?s = ?j" "dir_names m ?s = dir_names m s" for m by (simp_all add: sti_def dir_names_def dirents_def dirent_def de_at_def)
  have dn: "drop (unat ?j) (dir_names (ram s) s) = nm # ns" using nm by (simp add: kernel_view_def dir_names_def)
  then have lt: "unat ?j < length (dir_names (ram s) s)" by (metis drop_eq_Nil list.distinct(1) not_less)
  then have nx: "dir_names (ram s) s ! unat ?j = nm" "drop (Suc (unat ?j)) (dir_names (ram s) s) = ns"
    using Cons_nth_drop_Suc [OF lt] dn by simp_all
  have "nm \<in> set (dir_names (ram s) s)" using nth_mem [OF lt] nx(1) by simp
  then have ln: "length nm \<le> 32" by (auto simp: dir_names_def dirents_def dirent_def cview_length)
  obtain m' where m': "dir_read (ram s) ?p ?s = (32, m', ?s\<lparr>dir_index := ?j + 1\<rparr>)"
    "m' (User k) = stores (ram s) ?p (pad32 nm) (User k)" "\<forall>b. b \<notin> {User k, fst dir_dentry} \<longrightarrow> m' b = ram s b"
    using dir_read_spec [OF good_blocks(6) [OF gs], of ?p "ram s"] good_blocks(1,3) [OF gs] page_not_args(4) [of k] lt nx(1)
    by (auto simp: rs)
  have b: "m' (fst (bbp ?s)) = ram ?s (fst (bbp ?s))" "m' (fst args_p) = ram ?s (fst args_p)"
    using m'(3) good_blocks(1,3) [OF gs] by (auto simp: rs)
  note rg = ram_good [where m = m', OF gs b]
  have l31: "length (dir_names (ram s) s) < 2 ^ 31" using good_blocks(6) [OF g] by (simp add: fs_ok_def dir_names_def dirents_def)
  then have "unat (of_nat (Suc (unat ?j)) :: u32) = Suc (unat ?j)" using lt by (intro unat_u32_of_nat) simp
  then have j1: "unat (?j + 1) = Suc (unat ?j)" by (simp add: add.commute)
  have le: "unat (?j + 1) \<le> length (dirents m' (?s\<lparr>ram := m'\<rparr>))"
    using ram_kernel(6) [where m = m' and s = ?s and k = k, OF _ b(1)] gs lt j1 rs(1,3) by (simp add: kernel_good_def dir_names_def)
  note dg = dir_index_good [OF rg(1), of "?j + 1"]
  let ?t = "?s\<lparr>ram := m', dir_index := ?j + 1\<rparr>"
  have "sys_read [periodic_interrupt_handler hw] (of_nat i) ?p n (cli s) = Some (Inr (32, ?t))"
    using kernel_dir_read [OF g i x, of _ ?p n] m'(1) by (simp add: fnc_dir_read_def rs)
  from kernel_read_ret [OF g a _ this] have
    "kernel_int80 hw check ex x0 leave 3 (of_nat i) a n (s, ks) = Some (Inr (32, sti ?t, ks))"
    using of_nat_fd(1) [OF i(2)] i(1) by (metis not_numeral_le_zero unat_0)
  moreover have "kernel_view k (?t, ks) = (kernel_view k (s, ks))\<lparr>v_dir := ns\<rparr>"
  proof -
    have "v_names (kernel_view k (s, ks)) = dir_names (ram s) s" by (simp add: kernel_view_def dir_names_def)
    then show ?thesis using dg(2) le rg(2) nx(2) j1 by simp
  qed
  ultimately show ?thesis using dg(1) le m'(2) ln
    by (intro exI [of _ "(sti ?t, ks)"]) (simp, simp add: sti_def)
qed

theorem kernel_read_dir_end:
  assumes g: "kernel_good k (s, ks)" and a: "prog_addr a" and i: "2 \<le> i" "i < 8" and x: "v_fds (kernel_view k (s, ks)) i = Some Lists"
    and nm: "v_dir (kernel_view k (s, ks)) = []"
  shows "\<exists>w'. kernel_int80 hw check ex x0 leave 3 (of_nat i) a n (s, ks) = Some (Inr (0, w')) \<and>
    kernel_good k w' \<and> alone k (fst w') = alone k s \<and> ram (fst w') = ram s \<and> kernel_view k w' = (kernel_view k (s, ks))\<lparr>v_dir := v_names (kernel_view k (s, ks))\<rparr>"
proof -
  let ?p = "(User k, prog_off a)" and ?s = "sti s"
  have gs: "kernel_good k (?s, ks)" using g by simp
  have rs: "ram ?s = ram s" "dir_index ?s = dir_index s" "dir_names m ?s = dir_names m s" for m
    by (simp_all add: sti_def dir_names_def dirents_def dirent_def de_at_def)
  have "\<not> unat (dir_index s) < length (dir_names (ram s) s)" using nm by (simp add: kernel_view_def dir_names_def)
  then have d: "dir_read (ram s) ?p ?s = (0, ram s, ?s\<lparr>dir_index := 0\<rparr>)"
    using dir_read_spec [OF good_blocks(6) [OF gs], of ?p "ram s"] good_blocks(1,3) [OF gs] page_not_args(4) [of k] by (auto simp: rs)
  let ?t = "?s\<lparr>dir_index := 0\<rparr>"
  have "?t\<lparr>ram := ram s\<rparr> = ?t" by (simp add: sti_def)
  then have "sys_read [periodic_interrupt_handler hw] (of_nat i) ?p n (cli s) = Some (Inr (0, ?t))"
    using kernel_dir_read [OF g i x, of _ ?p n] d by (simp add: fnc_dir_read_def rs)
  from kernel_read_ret [OF g a _ this] have
    "kernel_int80 hw check ex x0 leave 3 (of_nat i) a n (s, ks) = Some (Inr (0, sti ?t, ks))"
    using of_nat_fd(1) [OF i(2)] i(1) by (metis not_numeral_le_zero unat_0)
  then show ?thesis using dir_index_good [OF gs, of 0] by (intro exI [of _ "(sti ?t, ks)"]) (simp, simp add: sti_def)
qed

theorem kernel_refuses:
  assumes g: "kernel_good k (s, ks)" and r: "v_refuses n b (kernel_view k (s, ks))" and c: "prog_addr c \<or> n \<noteq> 3 \<and> n \<noteq> 4"
  shows "\<exists>w'. kernel_int80 hw check ex x0 leave n b c d (s, ks) = Some (Inr (- 1, w')) \<and> kernel_good k w' \<and> alone k (fst w') = alone k s \<and> ram (fst w') = ram s \<and>
    kernel_view k w' = kernel_view k (s, ks)"
proof -
  have fin: ?thesis if "kernel_int80 hw check ex x0 leave n b c d (s, ks) = Some (Inr (- 1, sti (cli s), ks))"
    using that g by (intro exI [of _ "(sti (cli s), ks)"]) (simp, simp add: sti_def cli_def)
  have flag: "fd_flags (cur_fd s (pcb_loc k) (unat b)) AND 1 = 0" if "v_fds (kernel_view k (s, ks)) (unat b) = None" "b \<le> 7"
    using used_view [of "unat b" s k ks] fd_lookup(2) [OF g that(2)] that(1) by simp
  consider "n = 3" "b > 7 \<or> b = 1 \<or> v_fds (kernel_view k (s, ks)) (unat b) = None" | "n = 4" "b > 7 \<or> b = 0 \<or> v_fds (kernel_view k (s, ks)) (unat b) = None"
    | "n = 8" "b = 0 \<or> b = 0x400000" | "n = 9 \<or> n = 10" | "n = 0 \<or> n > 10"
    using r by auto
  then show ?thesis
  proof cases
    case 1
    have b0: "b \<noteq> 0"
    proof
      assume "b = 0"
      moreover have "v_fds (kernel_view k (s, ks)) 0 \<noteq> None" using g used_view [of 0 s k ks] by (simp add: kernel_good_def fds_ready_def)
      ultimately show False using 1(2) by simp
    qed
    have "sys_read irqs b p d (cli s) = Some (Inr (- 1, cli s))" for irqs p
      using 1(2) fd_lookup(1) [OF g, of b] flag by (cases "b > 7 \<or> b = 1") (auto simp: sys_read_def not_less)
    from kernel_read_ret [OF g _ b0 this] 1(1) c show ?thesis by (intro fin) simp
  next
    case 2
    have "sys_write hw b p d (cli s) = Inr (- 1, cli s)" for p
      using 2(2) fd_lookup(1) [OF g, of b] flag by (cases "b > 7 \<or> b = 0") (auto simp: sys_write_def not_less)
    moreover have "user_ptr s c = (User k, prog_off c)" using 2(1) c by (intro user_ptr_page [OF good_blocks(9) [OF g]]) simp
    ultimately have "kernel_int80 hw check ex x0 leave 4 b c d (s, ks) = Some (Inr (- 1, sti (cli s), ks))"
      by (intro kernel_ret) (simp_all add: sys_call_def through_def ret_def)
    then show ?thesis using 2(1) by (intro fin) simp
  next
    case 3
    then have "kernel_int80 hw check ex x0 leave 8 b c d (s, ks) = Some (Inr (- 1, sti (cli s), ks))"
      by (intro kernel_ret) (auto simp: sys_call_def through_def ret_def sys_vidmap_def)
    then show ?thesis using 3(1) by (intro fin) simp
  next
    case 4
    then have "kernel_int80 hw check ex x0 leave n b c d (s, ks) = Some (Inr (- 1, sti (cli s), ks))"
      by (intro kernel_ret) (auto simp: sys_call_def through_def sys_set_handler_def sys_sigreturn_def)
    then show ?thesis by (rule fin)
  next
    case 5
    have "sint (n - 1) \<notin> {0..9}"
    proof
      assume m: "sint (n - 1) \<in> {0..9}"
      have "n = word_of_int (sint (n - 1)) + 1" by simp
      moreover have "sint (n - 1) = 0 \<or> sint (n - 1) = 1 \<or> sint (n - 1) = 2 \<or> sint (n - 1) = 3 \<or> sint (n - 1) = 4 \<or>
        sint (n - 1) = 5 \<or> sint (n - 1) = 6 \<or> sint (n - 1) = 7 \<or> sint (n - 1) = 8 \<or> sint (n - 1) = 9" using m unfolding atLeastAtMost_iff by arith
      ultimately have "n \<in> {1, 2, 3, 4, 5, 6, 7, 8, 9, 10}" by (elim disjE) simp_all
      then show False using 5 by auto
    qed
    then have "sys_call hw (sys_irqs hw ex x0 n b ks) check n b c d s = Some (Inr (Ret (- 1), sti (cli s)))"
      by (auto simp: sys_call_def through_def sys_error_def Let_def)
    then show ?thesis using 5 by (intro fin kernel_ret) auto
  qed
qed

text \<open>A typed line.\<close>

theorem kernel_read_line:
  assumes g: "kernel_good k (s, ks)" and a: "prog_addr a" and l: "v_keys (kernel_view k (s, ks)) = l # ls" and n: "n \<in> {127, 1023}"
  shows "\<exists>w' zs. kernel_int80 hw check ex x0 leave 3 0 a n (s, ks) = Some (Inr (of_nat (length l + 1), w')) \<and> kernel_good k w' \<and>
    plain_line l \<and> length (l @ 0x0A # zs) \<le> 1024 \<and> ram (fst w') (User k) = stores (ram s) (User k, prog_off a) (l @ 0x0A # zs) (User k) \<and>
    kernel_view k w' = (kernel_view k (s, ks))\<lparr>v_screen := fold screen_put (l @ [0x0A]) (v_screen (kernel_view k (s, ks))), v_keys := ls\<rparr>"
proof -
  let ?p = "(User k, prog_off a)" and ?s = "sti (cli s)"
  obtain scs ks' where ks: "ks = scs # ks'" "typed (butlast scs) = l" "map (typed \<circ> butlast) ks' = ls"
    using l by (cases ks) (auto simp: kernel_view_def)
  have tl: "typed_line scs" "\<forall>scs\<in>set ks'. typed_line scs" using g ks(1) by (simp_all add: kernel_good_def)
  then have sc: "scs = butlast scs @ [last scs]" "plain_line l" by (simp_all add: typed_line_def ks(2))
  have tr: "term_ready ?s" using g by (simp add: kernel_good_def sti_def cli_def)
  have sn: "sint n = 127 \<or> sint n = 1023" using n by auto
  have row: "0 \<in> set (drop 128 (kbuf ?s ! act ?s))"
    using tr set_drop_subset_set_drop [of 128 1023 "kbuf ?s ! act ?s"] by (auto simp: term_ready_def)
  have fd0: "fd_flags (cur_fd s (pcb_loc k) 0) AND 1 \<noteq> 0" "fd_fotp (cur_fd s (pcb_loc k) 0) = Otp_terminal"
    using g by (simp_all add: kernel_good_def fds_ready_def)
  let ?irqs = "map (key_irq ex x0) (butlast scs @ [last scs])"
  obtain m' s' zs where r: "read_terminal ?irqs (ram s) ?p (sint n) ?s = Some (Inr (int (length l + 1), m', s'))"
    and m': "m' = stores (ram s) ?p (l @ 0x0A # zs)" "length (l @ 0x0A # zs) \<le> 1024"
    and s': "kbd_ok s'" "\<not> fflag s'" "term_step ?s s'" "drop (nat (sint n)) (kbuf s' ! act ?s) = drop (nat (sint n)) (kbuf ?s ! act ?s)"
      "screen_of s' = fold screen_put (l @ [0x0A]) (screen_of ?s)"
    using read_terminal_line [of ?s "butlast scs" "last scs" "sint n" ex x0 "ram s" ?p] tr tl(1) sn row
    by (auto simp: term_ready_def typed_line_def ks(2) plain_line_def)
  have ts: "term_step s s'" using term_step_trans [OF _ s'(3), of s] by simp
  have "drop 1023 (kbuf s' ! act s') = drop 1023 (kbuf ?s ! act ?s)"
    using arg_cong [OF s'(4), of "drop (1023 - nat (sint n))"] sn term_step_modifiers(5) [OF s'(3)] by auto
  then have "term_ready s'" using tr s'(1,2) term_step_modifiers [OF s'(3)] by (simp add: term_ready_def no_modifiers_def)
  then have g1: "kernel_good k (s', ks')" using g tl(2) term_step_kernel [OF ts] by (simp add: kernel_good_def)
  have v1: "kernel_view k (s', ks') = (kernel_view k (s, ks))\<lparr>v_screen := fold screen_put (l @ [0x0A]) (v_screen (kernel_view k (s, ks))), v_keys := ls\<rparr>"
    using s'(5) term_step_kernel [OF ts] ks by (simp add: kernel_view_def sti_def cli_def)
  have rm: "ram s' = ram s" using term_step_kernel(7) [OF ts] .
  have mb: "m' b = ram s' b" if "b \<noteq> User k" for b using that by (simp add: m'(1) rm stores_other_block)
  note pg = page_good [OF g1 mb]
  have gf: "get_fd 0 (cli s) = Inr (cur_fd s (pcb_loc k) 0)" using fd_lookup(1) [OF g, of 0] by simp
  have rs: "ram ?s = ram s" by (simp add: sti_def cli_def)
  have "sys_read ?irqs 0 ?p n (cli s) = Some (Inr (of_nat (length l + 1), s'\<lparr>ram := m'\<rparr>))"
    using gf fd0 r by (simp add: sys_read_def fotp_read_def fnc_term_read_def rs)
  then have "kernel_int80 hw check ex x0 leave 3 0 a n (s, ks) = Some (Inr (of_nat (length l + 1), sti (s'\<lparr>ram := m'\<rparr>), ks'))"
    using user_ptr_page [OF good_blocks(9) [OF g] a] sc(1)
    by (simp add: kernel_int80_def sys_irqs_def ks(1) sys_call_def through_def ret_def)
  then show ?thesis using pg v1 m' sc(2)
    by (intro exI [of _ "(sti (s'\<lparr>ram := m'\<rparr>), ks')"] exI [of _ zs]) (simp, simp add: sti_def)
qed

text \<open>The argument of the command line.\<close>

lemma cview_cstr: "cstr m p xs \<Longrightarrow> length xs < n \<Longrightarrow> n \<le> 2 ^ 32 \<Longrightarrow> cview m p n = xs"
proof -
  assume c: "cstr m p xs" and n: "length xs < n" "n \<le> 2 ^ 32"
  have "bytes m p n = xs @ 0 # bytes m (padd p (of_nat (Suc (length xs)))) (n - Suc (length xs))"
    using take_bytes [of "Suc (length xs)" n m p] drop_bytes [of "Suc (length xs)" m p n] n bytes_Suc [of m p "length xs"] c
    by (metis Suc_leI append.assoc append_Cons append_Nil append_take_drop_id cstr_def)
  then show "cview m p n = xs" using c by (auto simp: cview_def cstr_def takeWhile_append)
qed

lemma arg_view_cstr:
  assumes "cstr m args_p arg" and "length arg < 1023"
  shows "arg_view m = (if arg = [] \<or> hd arg = 0x0A \<or> 30 < length (arg_word 1024 arg) then None else Some (arg_word 1024 arg))"
  using cview_cstr [OF assms(1), of 1024] assms(2) by (simp add: arg_view_def)

lemma kernel_getargs:
  assumes g: "kernel_good k (s, ks)" and a: "prog_addr a"
  shows "\<exists>w' ys. kernel_int80 hw check ex x0 leave 7 a 1024 0 (s, ks) = Some (Inr (if v_arg (kernel_view k (s, ks)) = None then - 1 else 0, w')) \<and>
    kernel_good k w' \<and> length ys \<le> 1024 \<and> ram (fst w') = stores (ram s) (User k, prog_off a) ys \<and> kernel_view k w' = kernel_view k (s, ks) \<and>
    (\<forall>x. v_arg (kernel_view k (s, ks)) = Some x \<longrightarrow> cstr (ram (fst w')) (User k, prog_off a) x \<and> length x \<le> 30)"
proof -
  let ?p = "(User k, prog_off a)" and ?s = "cli s"
  obtain arg where arg: "cstr (ram s) args_p arg" "length arg < 1023" using g by (auto simp: kernel_good_def args_ready_def)
  have rs: "ram ?s = ram s" by (simp add: cli_def)
  have va: "v_arg (kernel_view k (s, ks)) = (if arg = [] \<or> hd arg = 0x0A \<or> 30 < length (arg_word 1024 arg) then None else Some (arg_word 1024 arg))"
    using arg_view_cstr [OF arg] by (simp add: kernel_view_def)
  have gs: "kernel_good k (?s, ks)" using g by simp
  have up: "user_ptr s a = ?p" by (rule user_ptr_page [OF good_blocks(9) [OF g] a])
  have conc: "\<exists>w' ys. kernel_int80 hw check ex x0 leave 7 a 1024 0 (s, ks) = Some (Inr (v, w')) \<and> kernel_good k w' \<and> length ys \<le> 1024 \<and>
      ram (fst w') = stores (ram s) ?p ys \<and> kernel_view k w' = kernel_view k (s, ks) \<and> P (ram (fst w'))"
    if ga: "getargs ?p 1024 ?s = Some (v, ?s\<lparr>ram := stores (ram s) ?p ys\<rparr>)" and ly: "length ys \<le> 1024" and P: "P (stores (ram s) ?p ys)" for v ys P
  proof -
    have mb: "stores (ram s) ?p ys b = ram ?s b" if "b \<noteq> User k" for b using that by (simp add: stores_other_block rs)
    have "kernel_int80 hw check ex x0 leave 7 a 1024 0 (s, ks) = Some (Inr (v, sti (?s\<lparr>ram := stores (ram s) ?p ys\<rparr>), ks))"
      using ga up by (intro kernel_ret) (simp_all add: sys_call_def through_def ret_def)
    then show ?thesis using page_good [OF gs mb] ly P
      by (intro exI [of _ "(sti (?s\<lparr>ram := stores (ram s) ?p ys\<rparr>), ks)"] exI [of _ ys]) (simp, simp add: sti_def)
  qed
  have sp: "if arg = [] \<or> hd arg = 0x0A then getargs ?p 1024 ?s = Some (- 1, ?s)
    else if 30 < length (arg_word 1024 arg) then getargs ?p 1024 ?s = Some (- 1, ?s\<lparr>ram := stores (ram ?s) ?p (take 31 (arg_word 1024 arg))\<rparr>)
    else \<exists>ys. getargs ?p 1024 ?s = Some (0, ?s\<lparr>ram := stores (ram ?s) ?p ys\<rparr>) \<and> length ys = length arg + 1 \<and>
      cstr (stores (ram ?s) ?p ys) ?p (arg_word 1024 arg)"
    by (rule getargs_spec) (use arg rs in simp_all)
  show ?thesis
  proof (cases "arg = [] \<or> hd arg = 0x0A \<or> 30 < length (arg_word 1024 arg)")
    case True
    then obtain ys where ys: "getargs ?p 1024 ?s = Some (- 1, ?s\<lparr>ram := stores (ram s) ?p ys\<rparr>)" "length ys \<le> 1024"
    proof (cases "arg = [] \<or> hd arg = 0x0A")
      case e: True
      have "?s\<lparr>ram := stores (ram s) ?p []\<rparr> = ?s" by (simp add: cli_def)
      then show thesis using sp e that [of "[]"] by simp
    next
      case False
      then show thesis using sp True that [of "take 31 (arg_word 1024 arg)"] by (auto simp: rs)
    qed
    then show ?thesis using conc [OF ys, where P = "\<lambda>m. True"] True va by auto
  next
    case False
    then obtain ys where "getargs ?p 1024 ?s = Some (0, ?s\<lparr>ram := stores (ram s) ?p ys\<rparr>)" "length ys = length arg + 1"
      "cstr (stores (ram s) ?p ys) ?p (arg_word 1024 arg)" using sp by (auto simp: rs)
    then show ?thesis using conc [of 0 ys "\<lambda>m. cstr m ?p (arg_word 1024 arg)"] False va arg(2) by auto
  qed
qed

text \<open>A command that names no file.\<close>

lemma one_word:
  assumes "cstr m p x" and "plain_line x" and "length x < 20" and "0x20 \<notin> set x"
  shows "command_line m p x 0 []"
proof -
  have "bytes m p 20 = x @ 0 # drop (Suc (length x)) (bytes m p 20)"
    using take_bytes [of "Suc (length x)" 20 m p] append_take_drop_id [of "Suc (length x)" "bytes m p 20"] assms(1,3)
    by (simp add: bytes_Suc cstr_def)
  then show ?thesis using assms by (auto simp: command_line_def plain_line_def intro!: exI [of _ 0] exI [of _ "drop (Suc (length x)) (bytes m p 20)"])
qed

theorem kernel_exec_missing:
  assumes g: "kernel_good k (s, ks)" and a: "prog_addr a" and x: "cstr (ram s) (User k, prog_off a) x" "plain_line x" "no_command (kernel_view k (s, ks)) x"
  shows "\<exists>w' y. kernel_int80 hw check ex x0 leave 2 a 0 0 (s, ks) = Some (Inr (- 1, w')) \<and> kernel_good k w' \<and>
    ram (fst w') (User k) = ram s (User k) \<and> kernel_view k w' = (kernel_view k (s, ks))\<lparr>v_arg := y\<rparr>"
proof -
  let ?p = "(User k, prog_off a)" and ?s = "cli s"
  have gs: "kernel_good k (?s, ks)" using g by simp
  have rs: "ram ?s = ram s" "dirents m ?s = dirents m s" for m by (simp_all add: cli_def dirents_def dirent_def de_at_def)
  have up: "user_ptr s a = ?p" by (rule user_ptr_page [OF good_blocks(9) [OF g] a])
  have nc: "x \<noteq> []" "length x < 20" "0x20 \<notin> set x" "lookup_name x (dirents (ram s) s) = None"
    using x(3) by (auto simp: no_command_def kernel_view_def disk_view_def split: option.splits)
  have cl: "command_line (ram ?s) ?p x 0 []" using one_word [OF x(1,2) nc(2,3)] by (simp add: rs)
  obtain m where m: "execute check ?p ?s = Some (Inr (Ret (- 1), ?s\<lparr>ram := m\<rparr>))" "\<forall>b. b \<notin> exec_blocks \<longrightarrow> m b = ram ?s b" "cstr m args_p []"
    using execute_no_file [OF cl _ good_blocks(5) [OF gs], of check] page_not_args(2) [of k] nc(4) by (auto simp: rs)
  have b: "m (fst (bbp ?s)) = ram ?s (fst (bbp ?s))" "m (User k) = ram s (User k)"
    using m(2) good_blocks(4) [OF gs] page_not_args(2) [of k] by (simp_all add: rs)
  have d: "disk_ready k ?s" using gs by (simp add: kernel_good_def)
  note r = ram_kernel [where m = m, OF d b(1)]
  have "kernel_good k (?s\<lparr>ram := m\<rparr>, ks)" using gs r m(3) by (auto simp: kernel_good_def args_ready_def)
  moreover have "kernel_view k (?s\<lparr>ram := m\<rparr>, ks) = (kernel_view k (?s, ks))\<lparr>v_arg := arg_view m\<rparr>"
    using r by (simp add: kernel_view_def)
  moreover have "kernel_int80 hw check ex x0 leave 2 a 0 0 (s, ks) = Some (Inr (- 1, sti (?s\<lparr>ram := m\<rparr>), ks))"
    using m(1) up by (intro kernel_ret) (simp_all add: sys_call_def through_def)
  ultimately show ?thesis using b(2)
    by (intro exI [of _ "(sti (?s\<lparr>ram := m\<rparr>), ks)"] exI [of _ "arg_view m"]) (simp, simp add: sti_def)
qed

subsection \<open>The clock and the screen\<close>

lemma quiet_good:
  fixes s :: "'a kernel_scheme"
  shows "kernel_good k (s\<lparr>io := es, iflag := b, interrupt_count := c\<rparr>, ks) = kernel_good k (s, ks)"
    "kernel_view k (s\<lparr>io := es, iflag := b, interrupt_count := c\<rparr>, ks) = kernel_view k (s, ks)"
proof -
  let ?s = "s\<lparr>io := es, iflag := b\<rparr>"
  have ts: "term_step s ?s" by simp
  have tr: "term_ready ?s = term_ready s" "screen_of ?s = screen_of s" using quiet [where s = s and es = es and b = b] by (simp_all add: term_ready_def)
  let ?c = "?s\<lparr>interrupt_count := c\<rparr>"
  have f: "dirents m ?c = dirents m ?s" "content m ?c = content m ?s" "file_size m ?c = file_size m ?s" for m
    by (simp_all add: dirents_def dirent_def de_at_def content_def file_byte_def file_size_def inode_at_def fun_eq_iff)
  have d: "cur_fd ?c a i = cur_fd ?s a i" "ram ?c = ram ?s" "N ?c = N ?s" for a i by (simp_all add: cur_fd_def)
  have g: "get_curr_pcb ?c = get_curr_pcb ?s" by (rule get_curr_pcb_eq) simp_all
  have q: "fds_ready a ?c = fds_ready a ?s" "fd_view a ?c = fd_view a ?s" "disk_view ?c = disk_view ?s" for a
    unfolding fds_ready_def entry_ready_def fd_view_def [abs_def] entry_view_def disk_view_def [abs_def] d f by (rule refl)+
  have t: "term_ready ?c = term_ready ?s" "screen_of ?c = screen_of ?s"
    by (simp_all add: term_ready_def kbd_ok_def console_ok_def no_modifiers_def screen_of_def video_frame_def page_frame_def)
  have r: "runs_in k ?c = runs_in k ?s" by (simp add: runs_in_def prog_mapped_def null_guarded_def in_process_def g)
  have dr: "disk_ready k ?c = disk_ready k ?s" by (simp add: disk_ready_def exec_fs_def fs_ok_def f)
  show "kernel_good k (s\<lparr>io := es, iflag := b, interrupt_count := c\<rparr>, ks) = kernel_good k (s, ks)"
    using term_step_kernel [OF ts] tr q t r dr by (simp add: kernel_good_def args_ready_def)
  show "kernel_view k (s\<lparr>io := es, iflag := b, interrupt_count := c\<rparr>, ks) = kernel_view k (s, ks)"
    using term_step_kernel [OF ts] tr q t f by (simp add: kernel_view_def)
qed

lemma ticks_entry:
  assumes g: "kernel_good k (s, ks)" and i: "2 \<le> i" "i < 8" and x: "v_fds (kernel_view k (s, ks)) i = Some Ticks"
  shows "get_fd (of_nat i) (cli s) = Inr (cur_fd s (pcb_loc k) i)" "fd_flags (cur_fd s (pcb_loc k) i) AND 1 \<noteq> 0"
    "fd_fotp (cur_fd s (pcb_loc k) i) = Otp_rtc" "\<not> (of_nat i :: u32) > 7" "(of_nat i :: u32) \<noteq> 1" "(of_nat i :: u32) \<noteq> 0"
proof -
  note u = of_nat_fd(1) [OF i(2)]
  have f7: "(of_nat i :: u32) \<le> 7" using i u by (simp add: word_le_nat_alt)
  show "get_fd (of_nat i) (cli s) = Inr (cur_fd s (pcb_loc k) i)" using fd_lookup(1) [OF g f7] u by simp
  have "entry_view s (cur_fd s (pcb_loc k) i) = Some Ticks" using x i(2) by (simp add: kernel_view_def fd_view_def)
  then show "fd_flags (cur_fd s (pcb_loc k) i) AND 1 \<noteq> 0" "fd_fotp (cur_fd s (pcb_loc k) i) = Otp_rtc"
    using g i(2) by (auto simp: entry_view_def kernel_good_def fds_ready_def entry_ready_def split: if_splits fotp.splits)
  show "\<not> (of_nat i :: u32) > 7" using f7 by simp
  show "(of_nat i :: u32) \<noteq> 1" "(of_nat i :: u32) \<noteq> 0" using u i(1) by auto
qed

lemma tick_irq:
  fixes s :: "'a kernel_scheme"
  assumes "alone k s"
  shows "\<exists>es b. periodic_interrupt_handler hw s = Some (Inr (s\<lparr>io := es, iflag := b, interrupt_count := True\<rparr>))"
proof -
  define t where "t = snd (inb hw CMOS_PORT (outb 0x0C RTC_PORT ((cli s)\<lparr>interrupt_count := True\<rparr>)))"
  have t: "t = s\<lparr>io := io t, iflag := False, interrupt_count := True\<rparr>" by (simp add: t_def inb_def outb_def cli_def Let_def)
  have "fake_sti t \<or> n_init t = 1" using assms by (subst (1 2) t) (simp add: alone_def n_init_def)
  then have "periodic_interrupt_handler hw s = Some (Inr (send_eoi 8 (sti t)))"
    using do_events_idle [of t] by (simp add: periodic_interrupt_handler_def Let_def t_def)
  moreover have "send_eoi 8 (sti t) = s\<lparr>io := io (send_eoi 8 (sti t)), iflag := True, interrupt_count := True\<rparr>"
    by (subst t) (simp add: send_eoi_slave outb_def sti_def)
  ultimately show ?thesis by metis
qed

theorem kernel_read_clock:
  assumes g: "kernel_good k (s, ks)" and al: "alone k s" and a: "prog_addr a" and i: "2 \<le> i" "i < 8" and x: "v_fds (kernel_view k (s, ks)) i = Some Ticks"
  shows "\<exists>w'. kernel_int80 hw check ex x0 leave 3 (of_nat i) a n (s, ks) = Some (Inr (0, w')) \<and> kernel_good k w' \<and> alone k (fst w') \<and>
    ram (fst w') = ram s \<and> kernel_view k w' = kernel_view k (s, ks)"
proof -
  let ?s = "sti (cli s)"
  note e = ticks_entry [OF g i x]
  obtain es b where "periodic_interrupt_handler hw ?s = Some (Inr (?s\<lparr>io := es, iflag := b, interrupt_count := True\<rparr>))"
    using tick_irq [of k ?s hw] al by auto
  then obtain es b where "rtc_read [periodic_interrupt_handler hw] ?s = Some (Inr (0, s\<lparr>io := es, iflag := b, interrupt_count := False\<rparr>))"
  proof (cases "interrupt_count ?s")
    case True
    then have "rtc_read [periodic_interrupt_handler hw] ?s = Some (Inr (0, s\<lparr>io := io s, iflag := True, interrupt_count := False\<rparr>))" by (simp add: sti_def cli_def)
    then show thesis using that by blast
  qed (auto simp: sti_def cli_def)
  then have "sys_read [periodic_interrupt_handler hw] (of_nat i) (User k, prog_off a) n (cli s) = Some (Inr (0, s\<lparr>io := es, iflag := b, interrupt_count := False\<rparr>))"
    using e by (simp add: sys_read_def fotp_read_def)
  from kernel_read_ret [OF g a e(6) this] show ?thesis using g al quiet_good [where s = s and es = es and c = False]
    by (intro exI [of _ "(sti (s\<lparr>io := es, iflag := b, interrupt_count := False\<rparr>), ks)"]) (simp, simp add: sti_def)
qed

lemma rtc_write_io: "\<exists>es. rtc_write hw f s = s\<lparr>io := es\<rparr>"
proof -
  have o: "(outb v p t)\<lparr>io := []\<rparr> = t\<lparr>io := []\<rparr>" for v p and t :: "'a machine_scheme" by (simp add: outb_def)
  have i: "(case inb hw p t of (v, t) \<Rightarrow> g v t)\<lparr>io := []\<rparr> = u\<lparr>io := []\<rparr>"
    if "t\<lparr>io := []\<rparr> = u\<lparr>io := []\<rparr>" "\<And>v t. t\<lparr>io := []\<rparr> = u\<lparr>io := []\<rparr> \<Longrightarrow> (g v t)\<lparr>io := []\<rparr> = u\<lparr>io := []\<rparr>"
    for p g and t u :: "'a machine_scheme" using that by (simp add: inb_def Let_def)
  have "(rtc_write hw f s)\<lparr>io := []\<rparr> = s\<lparr>io := []\<rparr>" by (auto simp: rtc_write_def Let_def o intro!: i split: option.splits)
  then have "rtc_write hw f s = s\<lparr>io := io (rtc_write hw f s)\<rparr>" by (metis machine.surjective machine.update_convs(1))
  then show ?thesis by blast
qed

theorem kernel_set_rate:
  assumes g: "kernel_good k (s, ks)" and a: "prog_addr a" and i: "2 \<le> i" "i < 8" and x: "v_fds (kernel_view k (s, ks)) i = Some Ticks"
  shows "\<exists>w'. kernel_int80 hw check ex x0 leave 4 (of_nat i) a n (s, ks) = Some (Inr (0, w')) \<and> kernel_good k w' \<and> alone k (fst w') = alone k s \<and>
    ram (fst w') = ram s \<and> kernel_view k w' = kernel_view k (s, ks)"
proof -
  note e = ticks_entry [OF g i x]
  have up: "user_ptr s a = (User k, prog_off a)" by (rule user_ptr_page [OF good_blocks(9) [OF g] a])
  obtain es where es: "rtc_write hw (ld32 (ram (cli s)) (User k, prog_off a)) (cli s) = (cli s)\<lparr>io := es\<rparr>" using rtc_write_io by blast
  have "sys_write hw (of_nat i) (User k, prog_off a) n (cli s) = Inr (0, (cli s)\<lparr>io := es\<rparr>)"
    using e es by (simp add: sys_write_def fotp_write_def fnc_rtc_write_def)
  then have "kernel_int80 hw check ex x0 leave 4 (of_nat i) a n (s, ks) = Some (Inr (0, sti ((cli s)\<lparr>io := es\<rparr>), ks))"
    by (intro kernel_ret) (simp_all add: sys_call_def through_def ret_def up)
  moreover have "sti ((cli s)\<lparr>io := es\<rparr>) = s\<lparr>io := es, iflag := True, interrupt_count := interrupt_count s\<rparr>" by (simp add: sti_def cli_def)
  ultimately show ?thesis using g quiet_good [where s = s and es = es and b = True and c = "interrupt_count s"] by auto
qed

theorem kernel_vidmap:
  assumes g: "kernel_good k (s, ks)" and al: "alone k s" and a: "prog_addr a"
  shows "\<exists>w'. kernel_int80 hw check ex x0 leave 8 a 0 0 (s, ks) = Some (Inr (0, w')) \<and> kernel_good k w' \<and> alone k (fst w') \<and>
    ram (fst w') = st32 (ram s) (User k, prog_off a) 0x3001000 \<and> kernel_view k w' = kernel_view k (s, ks)"
proof -
  let ?s = "cli s" and ?j = "k + 1"
  have gs: "kernel_good k (?s, ks)" using g by simp
  have k: "k < 7" using g by (simp add: kernel_good_def runs_in_def)
  define t where "t = ?s\<lparr>PTE := (PTE ?s)(1 := 0xB8007), PDE := (PDE ?s)(?j := (PDE ?s ?j)(12 := (PTE_base ?s AND 0xFFFFF000) OR CTRL_VIDEO_USR))\<rparr>"
  have f: "dirents m t = dirents m ?s" "content m t = content m ?s" "file_size m t = file_size m ?s" for m
    by (simp_all add: t_def dirents_def dirent_def de_at_def content_def file_byte_def file_size_def inode_at_def fun_eq_iff)
  have d: "cur_fd t a i = cur_fd ?s a i" "ram t = ram ?s" "N t = N ?s" for a i by (simp_all add: t_def cur_fd_def)
  have n12: "unat (drop_bit 22 (esp s AND 0xFFFE000)) \<noteq> 12"
    using al word_unat_eq_iff [of "drop_bit 22 (esp s AND 0xFFFE000)" 12] by (simp add: alone_def)
  then have "translate t (esp s AND 0xFFFE000) = translate ?s (esp s AND 0xFFFE000)"
    using al g by (simp add: translate_def t_def cli_def alone_def kernel_good_def runs_in_def nat_add_distrib Let_def)
  then have gp: "get_curr_pcb t = get_curr_pcb ?s" by (simp add: get_curr_pcb_def pcb_phys_def t_def cli_def)
  have q: "fds_ready b t = fds_ready b ?s" "fd_view b t = fd_view b ?s" "disk_view t = disk_view ?s" for b
    unfolding fds_ready_def entry_ready_def fd_view_def [abs_def] entry_view_def disk_view_def [abs_def] d f by (rule refl)+
  have tr: "term_ready t = term_ready ?s" "screen_of t = screen_of ?s"
    by (simp_all add: t_def term_ready_def kbd_ok_def console_ok_def no_modifiers_def screen_of_def)
  have r: "runs_in k t = runs_in k ?s" by (simp add: t_def [symmetric] runs_in_def in_process_def gp) (simp add: t_def prog_mapped_def null_guarded_def)
  have dr: "disk_ready k t = disk_ready k ?s" by (simp add: disk_ready_def exec_fs_def fs_ok_def f d) (simp add: t_def)
  have gt: "kernel_good k (t, ks)" using gs q tr r dr by (simp add: kernel_good_def args_ready_def d)
  have vt: "kernel_view k (t, ks) = kernel_view k (s, ks)"
  proof -
    have "dir_index t = dir_index ?s" by (simp add: t_def)
    then have "kernel_view k (t, ks) = kernel_view k (?s, ks)" using q tr f d by (simp add: kernel_view_def)
    then show ?thesis by simp
  qed
  let ?m = "st32 (ram s) (User k, prog_off a) 0x3001000"
  have up: "user_ptr t a = (User k, prog_off a)" by (rule user_ptr_page [OF good_blocks(9) [OF gt] a])
  have um: "user_ptr (t\<lparr>ram := m\<rparr>) a = (User k, prog_off a)" for m
  proof -
    have "translate (t\<lparr>ram := m\<rparr>) a = translate t a" by (rule translate_cong) simp_all
    then show ?thesis using up by (simp add: user_ptr_def)
  qed
  have ad: "a \<noteq> 0" "a \<noteq> 0x400000" using a by (auto simp: prog_addr_def)
  have pc: "get_curr_pcb ?s = Inr (pcb_loc k)" "pcb_proc_id (pcbs ?s (pcb_loc k)) = int k"
    using good_blocks(8) [OF gs] al by (simp_all add: in_process_def alone_def cli_def)
  have "sys_vidmap a ?s = Inr (0, t\<lparr>ram := ?m\<rparr>)"
    using ad pc k up um by (simp add: sys_vidmap_def pde_set_def pte_set_def Let_def nat_add_distrib t_def [symmetric] ld32_st32_same)
      (simp add: t_def cli_def ld32_st32_same)
  then have "kernel_int80 hw check ex x0 leave 8 a 0 0 (s, ks) = Some (Inr (0, sti (t\<lparr>ram := ?m\<rparr>), ks))"
    by (intro kernel_ret) (simp_all add: sys_call_def through_def ret_def)
  moreover have mb: "?m b = ram t b" if "b \<noteq> User k" for b using that by (simp add: st32_other_block t_def cli_def)
  moreover have "alone k t" using al n12 by (simp add: t_def alone_def n_init_def cli_def)
  ultimately show ?thesis using page_good [OF gt mb] vt by (intro exI [of _ "(sti (t\<lparr>ram := ?m\<rparr>), ks)"]) (simp, simp add: sti_def)
qed

subsection \<open>The kernel keeps the laws\<close>

lemma kernel_os_simps [simp]:
  "mem_of (kernel_os hw check ex x0 leave) w = ram (fst w)" "at_addr (kernel_os hw check ex x0 leave) w = user_ptr (fst w)"
  "set_mem (kernel_os hw check ex x0 leave) m w = ((fst w)\<lparr>ram := m\<rparr>, snd w)"
  "int80 (kernel_os hw check ex x0 leave) = kernel_int80 hw check ex x0 leave"
  by (simp_all add: kernel_os_def)

interpretation kernel: term_os "kernel_os hw check ex x0 leave" "kernel_good k" "User k" prog_off prog_addr "kernel_view k"
  for hw check ex x0 leave k
proof (unfold_locales, goal_cases)
  case (1 w a)
  then show ?case using user_ptr_page [of k "fst w" a] by (simp add: kernel_good_def)
next
  case (2 w m)
  then show ?case using page_good [of k "fst w" "snd w" m] by simp
next
  case (3 w a n)
  then show ?case using kernel_write [of k "fst w" "snd w" a n hw check ex x0 leave] by auto
next
  case (4 w a name)
  then show ?case using kernel_open [of k "fst w" "snd w" a name hw check ex x0 leave] by auto
next
  case (5 w fd)
  then show ?case using kernel_close [of k "fst w" "snd w" hw check ex x0 leave fd] by auto
next
  case (6 w a i xs n)
  then show ?case using kernel_read_file [of k "fst w" "snd w" a i xs n hw check ex x0 leave] by (auto simp: min.commute)
next
  case (7 w a i nm ns n)
  then show ?case using kernel_read_dir [of k "fst w" "snd w" a i nm ns hw check ex x0 leave n] by auto
next
  case (8 w a i n)
  then show ?case using kernel_read_dir_end [of k "fst w" "snd w" a i hw check ex x0 leave n] by auto
next
  case (9 w c n b d)
  then show ?case using kernel_refuses [of k "fst w" "snd w" n b c hw check ex x0 leave d] by (auto simp del: v_refuses.simps)
next
  case (10 w a l ls n)
  then show ?case using kernel_read_line [of k "fst w" "snd w" a l ls n hw check ex x0 leave] by (simp del: fold_append)
next
  case (11 w a x)
  then show ?case using kernel_getargs [of k "fst w" "snd w" a hw check ex x0 leave] by auto
next
  case (12 w a)
  then show ?case using kernel_getargs [of k "fst w" "snd w" a hw check ex x0 leave] by auto
next
  case (13 w a x)
  then show ?case using kernel_exec_missing [of k "fst w" "snd w" a x hw check ex x0 leave] by simp
qed

text \<open>And those of the programs that use the clock, as long as no other terminal is in use.\<close>

interpretation clock: clock_os "kernel_os hw check ex x0 leave" "\<lambda>w. kernel_good k w \<and> alone k (fst w)" "User k" prog_off prog_addr "kernel_view k"
  for hw check ex x0 leave k
proof (unfold_locales, goal_cases)
  case (1 w a)
  then show ?case using kernel.addr [where w = w] by auto
next
  case (2 w m)
  then show ?case using kernel.mem_set [where w = w] by auto
next
  case (3 w a n)
  then show ?case using kernel_write [of k "fst w" "snd w" a n hw check ex x0 leave] by auto
next
  case (4 w a name)
  then show ?case using kernel_open [of k "fst w" "snd w" a name hw check ex x0 leave] by auto
next
  case (5 w fd)
  then show ?case using kernel_close [of k "fst w" "snd w" hw check ex x0 leave fd] by auto
next
  case (6 w a i xs n)
  then show ?case using kernel_read_file [of k "fst w" "snd w" a i xs n hw check ex x0 leave] by (auto simp: min.commute)
next
  case (7 w a i nm ns n)
  then show ?case using kernel_read_dir [of k "fst w" "snd w" a i nm ns hw check ex x0 leave n] by auto
next
  case (8 w a i n)
  then show ?case using kernel_read_dir_end [of k "fst w" "snd w" a i hw check ex x0 leave n] by auto
next
  case (9 w c n b d)
  then show ?case using kernel_refuses [of k "fst w" "snd w" n b c hw check ex x0 leave d] by (auto simp del: v_refuses.simps)
next
  case (10 w a i n)
  then show ?case using kernel_read_clock [of k "fst w" "snd w" a i hw check ex x0 leave n] by auto
next
  case (11 w a i n)
  then show ?case using kernel_set_rate [of k "fst w" "snd w" a i hw check ex x0 leave n] by auto
next
  case (12 w a)
  then show ?case using kernel_vidmap [of k "fst w" "snd w" a hw check ex x0 leave] by (auto intro!: exI [of _ "0x3001000"])
qed

end
