(* ===== verification/Sample_Machine.thy ===== *)
theory Sample_Machine
  imports Protection
begin

text \<open>
  One concrete machine: a disk image with a directory, a text file and an executable, a process in
  slot 0 on terminal 0, a second terminal with its own process, blank screens and empty line
  buffers.  The component invariants hold of it, so every property with hypotheses can be applied
  to it.
\<close>

abbreviation disk :: block where "disk \<equiv> Obj ''disk''"

text \<open>The disk: three directory entries, two inodes, two data blocks.\<close>

definition frame_text :: "u8 list" where
  "frame_text = [72, 101, 108, 108, 111]"

definition prog_image :: "u8 list" where
  "prog_image = [0x7F, 0x45, 0x4C, 0x46, 0, 0, 0, 0, 0, 0, 0, 0, 0, 0, 0, 0, 0, 0, 0, 0, 0, 0, 0, 0, 0, 0x80, 0x04, 0x08]"

definition disk_image :: "u32 \<Rightarrow> u8" where
  "disk_image = (\<lambda>a. 0)(0 := 3, 4 := 2, 8 := 2,
     64 := 46, 96 := 1,
     128 := 102, 129 := 114, 130 := 97, 131 := 109, 132 := 101, 160 := 2,
     192 := 112, 193 := 114, 194 := 111, 195 := 103, 224 := 2, 228 := 1,
     4096 := 5, 8192 := 28, 8196 := 1,
     12288 := 72, 12289 := 101, 12290 := 108, 12291 := 108, 12292 := 111,
     16384 := 0x7F, 16385 := 0x45, 16386 := 0x4C, 16387 := 0x46, 16409 := 0x80, 16410 := 0x04, 16411 := 0x08)"

text \<open>The page of the process in slot 0 holds the command line \<open>prog ab\<close>.\<close>

definition command_image :: "u32 \<Rightarrow> u8" where
  "command_image = (\<lambda>a. 0)(0x100 := 112, 0x101 := 114, 0x102 := 111, 0x103 := 103, 0x104 := 32,
     0x105 := 97, 0x106 := 98, 0x107 := 10)"

definition sample_ram :: mem where
  "sample_ram = (\<lambda>b a. 0)(disk := disk_image, User 0 := command_image)"

definition sample_PDE :: "nat \<Rightarrow> nat \<Rightarrow> u32" where
  "sample_PDE j i = (if i = 0 then 0x403001 else if i = 1 then 0x400183
     else if i = 32 then push_bit 22 (of_nat (j + 1)) OR CTRL_EMPTY_USR else CTRL_EMPTY_USR)"

definition sample_PTE :: "nat \<Rightarrow> u32" where
  "sample_PTE i = (if i = 0 then 0 else push_bit 12 (of_nat i) OR CTRL_PTE)"

definition sample_pcb :: pcb_t where
  "sample_pcb = \<lparr>pcb_fd = replicate 8 \<lparr>fd_fotp = Otp_terminal, fd_inode = 0, fd_fp = 0, fd_flags = 0\<rparr>,
     old_pcb = 0, kstack = 0, old_ebp = 0, pcb_proc_id = 0\<rparr>"

definition blank_page :: "u8 list" where
  "blank_page = map (\<lambda>i. if i < 4000 then if even i then 0x20 else ATTRIB else 0) [0..<4096]"

definition sample :: kernel where
  "sample = \<lparr>io = [], iflag = True, cr0 = 0x80000000, cr3 = 1, cr4 = 0x90, esp = 0x7FFFF00, ebp = 0x7FFFF40,
     tss_ss0 = 0x18, tss_esp0 = 0x7FFFFFC, tss_esp = 0, tss_ebp = 0,
     PDE = sample_PDE, PTE = sample_PTE, PTE_base = 0x403000, proc = [1, 0, 0, 0, 0, 0, 0, 0],
     master_mask = 0xFF, slave_mask = 0xFF,
     cursor_pos = replicate 6 (0, 0), active_term = 0, term_init = [1, 1, 0], proc_active = [0, 1, - 1], bg_term = 0,
     fake_sti = False, proc_esp = [0x7FFFF00, 0x7FFDF00, 0], proc_ebp = [0x7FFFF40, 0x7FFDF40, 0],
     screen_x = 0, screen_y = 0, scr_buf = replicate 3 (replicate 2000 0x20), frames = (\<lambda>f. blank_page),
     capson = False, ctrl_on = False, shift_on = False, alt_on = False, fflag = False,
     kbuf = replicate 6 (replicate 1024 0), buf_index = replicate 6 0, ind_entered = replicate 6 0,
     interrupt_count = False,
     num_de = 3, N = 2, D = 2, bbp = (disk, 0), de_ptr = (disk, 64), inode_ptr = (disk, 4096), db_ptr = (disk, 12288),
     dir_index = 0, ram = sample_ram, pcbs = (\<lambda>a. sample_pcb)\<rparr>"

lemma sample_fields [simp]:
  "io sample = []" "cr0 sample = 0x80000000" "cr3 sample = 1" "esp sample = 0x7FFFF00" "ebp sample = 0x7FFFF40"
  "PDE sample = sample_PDE" "PTE sample = sample_PTE" "PTE_base sample = 0x403000" "proc sample = [1, 0, 0, 0, 0, 0, 0, 0]"
  "active_term sample = 0" "bg_term sample = 0" "term_init sample = [1, 1, 0]" "proc_active sample = [0, 1, - 1]"
  "fake_sti sample = False" "proc_esp sample = [0x7FFFF00, 0x7FFDF00, 0]" "proc_ebp sample = [0x7FFFF40, 0x7FFDF40, 0]"
  "cursor_pos sample = replicate 6 (0, 0)" "screen_x sample = 0" "screen_y sample = 0"
  "scr_buf sample = replicate 3 (replicate 2000 0x20)" "frames sample = (\<lambda>f. blank_page)"
  "capson sample = False" "ctrl_on sample = False" "shift_on sample = False" "alt_on sample = False" "fflag sample = False"
  "kbuf sample = replicate 6 (replicate 1024 0)" "buf_index sample = replicate 6 0" "ind_entered sample = replicate 6 0"
  "num_de sample = 3" "N sample = 2" "bbp sample = (disk, 0)" "de_ptr sample = (disk, 64)"
  "inode_ptr sample = (disk, 4096)" "db_ptr sample = (disk, 12288)" "dir_index sample = 0"
  "ram sample = sample_ram" "pcbs sample = (\<lambda>a. sample_pcb)"
  by (simp_all add: sample_def)

lemma sample_dir_inv: "dir_inv sample"
proof -
  have "PTE sample i AND 0xFFC00000 = 0" if "i < 1024" for i
    using that by (auto simp: sample_PTE_def mask_numeral unat_u32_of_nat intro!: page_of_low_frame)
  then show ?thesis by (auto simp: dir_inv_def sample_PDE_def dir_entries_def)
qed

lemma sample_std: "dir_std sample" "slots_inv sample" "table_ok sample" "sched_ok sample"
  by (simp_all add: dir_std_def sample_PDE_def slots_inv_def table_ok_def sched_ok_def)

lemma sample_used: "slot_used sample i \<longleftrightarrow> i = 0 \<or> 8 \<le> i \<and> slot_used sample i"
  by (auto simp: slot_used_def less_Suc_eq numeral_eq_Suc nth_Cons' not_le)

lemma blank_page_length [simp]: "length blank_page = 4096"
  by (simp add: blank_page_def)

lemma sample_kbd: "console_ok sample" "kbd_ok sample" "no_modifiers sample"
  by (simp_all add: console_ok_def kbd_ok_def no_modifiers_def)

lemma sample_shows: "video_shows sample"
  by (simp add: video_shows_def displays_def blank_page_def)

lemma sample_fs: "fs_ok sample" "exec_fs sample"
  by (simp_all add: fs_ok_def exec_fs_def padd_def exec_blocks_def)

lemma sample_cmd: "command_line (ram sample) (User 0, 0x100) [112, 114, 111, 103] 1 [97, 98]"
  unfolding command_line_def
proof (intro exI conjI)
  show "bytes (ram sample) (User 0, 0x100) 20 = [112, 114, 111, 103] @ replicate 1 0x20 @ [97, 98] @ [10] @ [0, 0, 0, 0, 0, 0, 0, 0, 0, 0, 0, 0]"
    by (simp add: bytes_def upt_rec sample_ram_def command_image_def ld_def)
qed simp_all

lemma sample_ram_at [simp]: "sample_ram disk = disk_image" "sample_ram (User 0) = command_image"
  by (simp_all add: sample_ram_def)

lemma sample_dirents: "dirents sample_ram sample =
  [([46], 1, 0), ([102, 114, 97, 109, 101], 2, 0), ([112, 114, 111, 103], 2, 1)]"
  by (simp add: dirents_def dirent_def de_at_def cview_def bytes_def upt_rec disk_image_def ld32_def ld_def padd_def)

lemma sample_sizes: "file_size sample_ram sample 0 = 5" "file_size sample_ram sample 1 = 28"
  by (simp_all add: file_size_def inode_at_def disk_image_def ld32_def ld_def padd_def)

lemma sample_content: "content sample_ram sample 0 = frame_text" "content sample_ram sample 1 = prog_image"
  by (simp_all only: content_def sample_sizes) (simp_all add: upt_rec file_byte_def inode_at_def disk_image_def ld32_def ld_def padd_def
      frame_text_def prog_image_def Let_def)

lemma sample_string: "cstr sample_ram (disk, 192) [112, 114, 111, 103]"
  by (simp add: cstr_def bytes_def upt_rec ld_def disk_image_def)

lemma sample_exec: "exec_file sample [112, 114, 111, 103] 1 prog_image" "elf prog_image" "elf_entry prog_image = 0x8048000"
proof -
  show "exec_file sample [112, 114, 111, 103] 1 prog_image"
    by (simp add: exec_file_def sample_dirents sample_sizes sample_content lookup_name_def) (simp add: prog_image_def file_buf_fits_def)
  show "elf prog_image" "elf_entry prog_image = 0x8048000"
    by (simp_all add: elf_def elf_entry_def prog_image_def of_le32_def)
qed

text \<open>Variants: a descriptor open on the text file, a file name in the user's page, no free
  descriptor, no free slot, and a clock chip.\<close>

lemma sample_process: "in_process sample (pcb_loc 0)"
proof -
  have "get_curr_pcb sample = Inr (pcb_loc 0)"
    using pcb_alias(1) [OF sample_std(1), of 0 0] by (simp add: get_curr_pcb_def pcb_vaddr_def)
  then show ?thesis by (simp add: in_process_def sample_pcb_def)
qed

definition sample_open :: kernel where
  "sample_open = put_fd (pcb_loc 0) 2 \<lparr>fd_fotp = Otp_file, fd_inode = 0, fd_fp = 0, fd_flags = 5\<rparr> sample"

lemma sample_file: "file_good (pcb_loc 0) 2 (User 0, 0x200) 2 sample_open" "file_rest (pcb_loc 0) 2 sample_open = frame_text"
  using sample_process sample_fs(1) cur_put_fd [OF sample_process, of 2]
  by (simp_all add: sample_open_def file_good_def file_rest_def sample_content)

definition sample_name :: kernel where
  "sample_name = sample\<lparr>ram := stores sample_ram (User 0, 0x200) [102, 114, 97, 109, 101, 0]\<rparr>"

lemma sample_name_ok: "in_process sample_name (pcb_loc 0)" "openable (User 0, 0x200) ([102, 114, 97, 109, 101], 2, 0) sample_name"
proof -
  show "in_process sample_name (pcb_loc 0)" using sample_process by (simp add: sample_name_def)
  let ?m = "stores sample_ram (User 0, 0x200) [102, 114, 97, 109, 101, 0]"
  have b: "?m (fst (bbp sample)) = sample_ram (fst (bbp sample))" by (simp add: stores_other_block)
  have "cstr ?m (User 0, 0x200) [102, 114, 97, 109, 101]" using cstr_stores [of "[102, 114, 97, 109, 101]"] by simp
  then show "openable (User 0, 0x200) ([102, 114, 97, 109, 101], 2, 0) sample_name"
    using sample_fs(1) same_block_dirents [where m = ?m and m' = sample_ram, OF sample_fs(1) b]
      same_block_file(2) [where m = ?m and m' = sample_ram, OF sample_fs(1) b]
    by (auto simp: openable_def sample_name_def dentry_blocks_def sample_dirents sample_sizes lookup_name_def
        intro!: exI [of _ "[102, 114, 97, 109, 101]"])
qed

definition sample_open2 :: kernel where
  "sample_open2 = put_fd (pcb_loc 0) 2 \<lparr>fd_fotp = Otp_file, fd_inode = 0, fd_fp = 3, fd_flags = 5\<rparr> sample_name"

definition sample_full :: kernel where
  "sample_full = sample\<lparr>pcbs := (\<lambda>a. sample_pcb\<lparr>pcb_fd := replicate 8 \<lparr>fd_fotp = Otp_rtc, fd_inode = 0, fd_fp = 0, fd_flags = 1\<rparr>\<rparr>)\<rparr>"

definition sample_busy :: kernel where
  "sample_busy = sample\<lparr>proc := [1, 1, 1, 1, 1, 1, 1, 0]\<rparr>"

definition sample_chip :: hardware where
  "sample_chip es p = (case cmos_regs (\<lambda>i. 0x26) es of (i, r) \<Rightarrow> r i)"

end
