(* ===== verification/Sample_User.thy ===== *)
theory Sample_User
  imports Kernel_Os Sample_Machine
begin

text \<open>
  A process on the sample machine with its two terminal descriptors open, its string literals in its
  page (one every 128 bytes), and an argument on its command line.
\<close>

definition lit_image :: "u8 list list \<Rightarrow> u32 \<Rightarrow> u8" where
  "lit_image L a = (let i = unat a div 128; j = unat a mod 128
     in if i < length L \<and> j < length (L ! i) then L ! i ! j else 0)"

definition lit_index :: "u8 list list \<Rightarrow> u8 list \<Rightarrow> nat" where
  "lit_index L xs = length (takeWhile (\<lambda>ys. ys \<noteq> xs) L)"

definition lit_addr :: "u8 list list \<Rightarrow> u8 list \<Rightarrow> u32" where
  "lit_addr L xs = 0x8000000 + of_nat (128 * lit_index L xs)"

definition short_lits :: "u8 list list \<Rightarrow> bool" where
  "short_lits L \<longleftrightarrow> length L \<le> 64 \<and> list_all (\<lambda>xs. length xs < 128 \<and> 0 \<notin> set xs) L"

lemma lit_index_nth: "xs \<in> set L \<Longrightarrow> lit_index L xs < length L \<and> L ! lit_index L xs = xs"
  unfolding lit_index_def using nth_length_takeWhile [of "\<lambda>ys. ys \<noteq> xs" L] by (induction L) auto

lemma unat_numeral_32: "unat (32 :: u32) = 32"
  by simp

lemma lit_off:
  assumes "short_lits L" and "xs \<in> set L"
  shows "prog_addr (lit_addr L xs)" "prog_off (lit_addr L xs) = of_nat (128 * lit_index L xs)" "lit_index L xs < 64"
proof -
  show i: "lit_index L xs < 64" using lit_index_nth [OF assms(2)] assms(1) by (auto simp: short_lits_def)
  let ?n = "128 * lit_index L xs"
  have n: "?n < 2 ^ 13" using i by simp
  have a: "lit_addr L xs = of_nat (0x8000000 + ?n)" by (simp add: lit_addr_def)
  have u: "unat (lit_addr L xs) = 0x8000000 + ?n" unfolding a using n by (intro unat_u32_of_nat) simp
  have "unat (drop_bit 22 (lit_addr L xs)) = 32" using u n by (simp add: drop_bit_eq_div unat_div)
  then show "prog_addr (lit_addr L xs)" unfolding prog_addr_def by (metis unat_numeral_32 unsigned_word_eqI)
  have "prog_off (lit_addr L xs) = take_bit 22 (lit_addr L xs)" by (simp add: prog_off_def masks_u32 take_bit_eq_mask)
  moreover have "(0x8000000 + ?n) mod 0x400000 = ?n" 
  proof -
    have "(32 * 0x400000 + ?n) mod 0x400000 = ?n mod 0x400000" by (rule mod_mult_self3)
    then show ?thesis using n by simp
  qed
  ultimately have "unat (prog_off (lit_addr L xs)) = ?n" using u by (simp add: take_bit_eq_mod unat_mod)
  then show "prog_off (lit_addr L xs) = of_nat ?n" by (metis of_nat_unat_u32)
qed

lemma image_lits:
  assumes "short_lits L" and "m (User k) = lit_image L"
  shows "has_lits (User k) prog_off prog_addr (lit_addr L) (set L) m"
  unfolding has_lits_def
proof (intro ballI conjI)
  fix xs assume x: "xs \<in> set L"
  note o = lit_off [OF assms(1) x] and n = lit_index_nth [OF x]
  have s: "length xs < 128" "0 \<notin> set xs" using assms(1) x by (auto simp: short_lits_def list_all_iff)
  show "prog_addr (lit_addr L xs)" "length xs < 2 ^ 31" using o s by simp_all
  have "ld m (User k, of_nat (128 * lit_index L xs)) (of_nat j) = (if j < length xs then xs ! j else 0)" if "j < 128" for j
  proof -
    have "of_nat (128 * lit_index L xs) + of_nat j = (of_nat (128 * lit_index L xs + j) :: u32)" by simp
    moreover have "unat (of_nat (128 * lit_index L xs + j) :: u32) = 128 * lit_index L xs + j" using o(3) that by (intro unat_u32_of_nat) simp
    ultimately show ?thesis using that n by (simp add: ld_def assms(2) lit_image_def del: of_nat_add of_nat_mult)
  qed
  then show "cstr m (User k, prog_off (lit_addr L xs)) xs"
    unfolding o(2) cstr_def using s by (intro conjI nth_equalityI) simp_all
qed

lemma image_apart: "short_lits L \<Longrightarrow> len \<le> 2 ^ 16 \<Longrightarrow> apart prog_off (lit_addr L) (set L) 0x8100000 len"
  unfolding apart_def
proof (intro ballI allI impI)
  fix xs i assume len: "len \<le> 2 ^ 16" and L: "short_lits L" and x: "xs \<in> set L" and i: "i \<le> length xs"
  note o = lit_off [OF L x]
  have l: "length xs < 128" using L x by (auto simp: short_lits_def list_all_iff)
  define n where "n = 128 * lit_index L xs + i"
  have n: "n < 2 ^ 14" using o(3) l i by (simp add: n_def)
  have p: "prog_off 0x8100000 = 0x100000" by (simp add: prog_off_def)
  have "prog_off (lit_addr L xs) + of_nat i - prog_off 0x8100000 = of_nat (n + (2 ^ 32 - 0x100000))"
    unfolding o(2) p n_def by simp
  moreover have "unat (of_nat (n + (2 ^ 32 - 0x100000)) :: u32) = n + (2 ^ 32 - 0x100000)" using n by (intro unat_u32_of_nat) simp
  ultimately show "len \<le> unat (prog_off (lit_addr L xs) + of_nat i - prog_off 0x8100000)" using len by simp
qed

subsection \<open>The process\<close>

definition term_fd :: fd_t where
  "term_fd = \<lparr>fd_fotp = Otp_terminal, fd_inode = 0, fd_fp = 0, fd_flags = 1\<rparr>"

definition user_ram :: "u8 list list \<Rightarrow> u8 list \<Rightarrow> mem" where
  "user_ram L arg = (stores sample_ram args_p (arg @ [0]))(User 0 := lit_image L)"

definition sample_user :: "u8 list list \<Rightarrow> u8 list \<Rightarrow> kernel" where
  "sample_user L arg = sample\<lparr>ram := user_ram L arg,
     pcbs := (\<lambda>a. sample_pcb\<lparr>pcb_fd := term_fd # term_fd # replicate 6 \<lparr>fd_fotp = Otp_terminal, fd_inode = 0, fd_fp = 0, fd_flags = 0\<rparr>\<rparr>)\<rparr>"

lemma user_ram_blocks: "user_ram L arg disk = disk_image" "user_ram L arg (User 0) = lit_image L"
  by (simp_all add: user_ram_def stores_other_block)

lemma sample_user_fields:
  "ram (sample_user L arg) = user_ram L arg" "bbp (sample_user L arg) = (disk, 0)" "dir_index (sample_user L arg) = 0" "N (sample_user L arg) = 2"
  by (simp_all add: sample_user_def)

lemma sample_user_fs:
  "dirents (user_ram L arg) (sample_user L arg) = [([46], 1, 0), ([102, 114, 97, 109, 101], 2, 0), ([112, 114, 111, 103], 2, 1)]"
  "file_size (user_ram L arg) (sample_user L arg) 0 = 5" "file_size (user_ram L arg) (sample_user L arg) 1 = 28"
  "content (user_ram L arg) (sample_user L arg) 0 = frame_text"
proof -
  have b: "user_ram L arg (fst (bbp sample)) = sample_ram (fst (bbp sample))" using user_ram_blocks(1) [of L arg] by simp
  have c: "dirents m (sample_user L arg) = dirents m sample" "file_size m (sample_user L arg) = file_size m sample"
    "content m (sample_user L arg) = content m sample" for m
    by (simp_all add: sample_user_def dirents_def dirent_def de_at_def content_def file_byte_def file_size_def inode_at_def fun_eq_iff)
  note f = same_block_dirents [where m = "user_ram L arg" and m' = sample_ram, OF sample_fs(1) b]
    same_block_file(2,3) [where m = "user_ram L arg" and m' = sample_ram, OF sample_fs(1) b]
  show "dirents (user_ram L arg) (sample_user L arg) = [([46], 1, 0), ([102, 114, 97, 109, 101], 2, 0), ([112, 114, 111, 103], 2, 1)]"
    "file_size (user_ram L arg) (sample_user L arg) 0 = 5" "file_size (user_ram L arg) (sample_user L arg) 1 = 28"
    "content (user_ram L arg) (sample_user L arg) 0 = frame_text"
    by (simp_all add: c f sample_dirents sample_sizes sample_content)
qed

lemma sample_user_fds: "cur_fd (sample_user L arg) a i = (if i < 2 then term_fd else if i < 8 then term_fd\<lparr>fd_flags := 0\<rparr> else cur_fd (sample_user L arg) a i)"
  by (auto simp: cur_fd_def sample_user_def term_fd_def nth_Cons' less_2_cases_iff)

lemma sample_user_good:
  assumes "length arg < 1023" and "0 \<notin> set arg" and "\<forall>scs\<in>set ks. typed_line scs"
  shows "kernel_good 0 (sample_user L arg, ks)"
proof -
  let ?s = "sample_user L arg"
  have g: "get_curr_pcb ?s = get_curr_pcb sample" by (rule get_curr_pcb_eq) (simp_all add: sample_user_def)
  have "runs_in 0 ?s"
    using sample_process g by (simp add: runs_in_def in_process_def prog_mapped_def null_guarded_def sample_PTE_def sample_user_def sample_PDE_def)
  moreover have "term_ready ?s"
    using sample_kbd by (simp add: term_ready_def sample_user_def kbd_ok_def console_ok_def no_modifiers_def video_frame_def page_frame_def)
  moreover have "disk_ready 0 ?s"
  proof -
    have e: "exec_fs ?s"
    using sample_fs by (simp add: exec_fs_def fs_ok_def exec_blocks_def dentry_blocks_def sample_user_def)
  then show ?thesis by (simp add: disk_ready_def sample_user_fields sample_user_fs dentry_blocks_def)
  qed
  moreover have "fds_ready (pcb_loc 0) ?s"
    unfolding fds_ready_def entry_ready_def by (subst (1 2 3 4 5 6 7) sample_user_fds) (simp add: term_fd_def)
  moreover have "args_ready ?s"
  proof -
    have "cstr (stores sample_ram args_p (arg @ [0])) args_p arg" using assms(1,2) by (intro cstr_stores) simp_all
    then have "cstr (user_ram L arg) args_p arg" by (subst cstr_block [where m' = "stores sample_ram args_p (arg @ [0])"]) (simp_all add: user_ram_def)
    then show ?thesis using assms(1) by (auto simp: args_ready_def sample_user_fields)
  qed
  ultimately show ?thesis using assms(3) by (simp add: kernel_good_def)
qed

subsection \<open>What it sees\<close>

lemma sample_user_view:
  "v_fds (kernel_view 0 (sample_user L arg, ks)) = (\<lambda>i. if i < 2 then Some Term else None)"
  "v_disk (kernel_view 0 (sample_user L arg, ks)) name =
     (if name = [46] then Some Lists else if name = [102, 114, 97, 109, 101] then Some (Reads frame_text)
      else if name = [112, 114, 111, 103] then Some (Reads (content (user_ram L arg) (sample_user L arg) 1)) else None)"
  "v_names (kernel_view 0 (sample_user L arg, ks)) = [[46], [102, 114, 97, 109, 101], [112, 114, 111, 103]]"
  "v_dir (kernel_view 0 (sample_user L arg, ks)) = [[46], [102, 114, 97, 109, 101], [112, 114, 111, 103]]"
  "v_keys (kernel_view 0 (sample_user L arg, ks)) = map (typed \<circ> butlast) ks"
proof -
  have "fd_view (pcb_loc 0) (sample_user L arg) i = (if i < 2 then Some Term else None)" for i
    unfolding fd_view_def by (subst sample_user_fds) (simp add: entry_view_def term_fd_def)
  then show "v_fds (kernel_view 0 (sample_user L arg, ks)) = (\<lambda>i. if i < 2 then Some Term else None)"
    by (simp add: kernel_view_def fun_eq_iff)
  show "v_disk (kernel_view 0 (sample_user L arg, ks)) name =
     (if name = [46] then Some Lists else if name = [102, 114, 97, 109, 101] then Some (Reads frame_text)
      else if name = [112, 114, 111, 103] then Some (Reads (content (user_ram L arg) (sample_user L arg) 1)) else None)"
    by (simp add: kernel_view_def disk_view_def sample_user_fields sample_user_fs lookup_name_def eq_commute [of name])
qed (simp_all add: kernel_view_def sample_user_fields sample_user_fs)

lemma sample_user_arg:
  assumes "length arg < 1023" and "0 \<notin> set arg" "0x20 \<notin> set arg" "0x0A \<notin> set arg"
  shows "v_arg (kernel_view 0 (sample_user L arg, ks)) = (if arg = [] \<or> 30 < length arg then None else Some arg)"
proof -
  have "cstr (stores sample_ram args_p (arg @ [0])) args_p arg" using assms(1,2) by (intro cstr_stores) simp_all
  then have c: "cstr (user_ram L arg) args_p arg" by (subst cstr_block [where m' = "stores sample_ram args_p (arg @ [0])"]) (simp_all add: user_ram_def)
  have "takeWhile (\<lambda>c. c \<noteq> 0x20 \<and> c \<noteq> 0x0A) arg = arg" using assms(3,4) by (auto simp: takeWhile_eq_all_conv)
  then have "arg_word 1024 arg = arg" using assms(1) by (simp add: arg_word_def del: takeWhile_eq_all_conv)
  moreover have "hd arg \<noteq> 0x0A \<or> arg = []" using assms(4) by (cases arg) auto
  ultimately show ?thesis using arg_view_cstr [OF c assms(1)] by (auto simp: kernel_view_def sample_user_fields)
qed

lemma sample_loaded: "short_lits L \<Longrightarrow> loaded 0 (lit_addr L) 0x8100000 L (sample_user L arg, ks)"
  using image_lits [of L "user_ram L arg" 0] image_apart [of L 1024] by (simp add: loaded_def sample_user_fields user_ram_blocks prog_addr_def)

subsection \<open>An array and strings\<close>

lemma sample_array: "array_at prog_off prog_addr 0x8100000 1025"
  unfolding array_at_def
proof (intro allI impI)
  fix i :: nat assume i: "i < 1025"
  have a: "(0x8100000 :: u32) + of_nat i = of_nat (0x8100000 + i)" by simp
  have u: "unat ((0x8100000 :: u32) + of_nat i) = 0x8100000 + i" unfolding a using i by (intro unat_u32_of_nat) simp
  have "unat (drop_bit 22 ((0x8100000 :: u32) + of_nat i)) = 32" using u i by (simp add: drop_bit_eq_div unat_div)
  then have p: "prog_addr (0x8100000 + of_nat i)" unfolding prog_addr_def by (metis unat_numeral_32 unsigned_word_eqI)
  have "prog_off (0x8100000 + of_nat i) = take_bit 22 (0x8100000 + of_nat i)" by (simp add: prog_off_def masks_u32 take_bit_eq_mask)
  moreover have "(0x8100000 + i) mod 0x400000 = 0x100000 + i"
  proof -
    have "(32 * 0x400000 + (0x100000 + i)) mod 0x400000 = (0x100000 + i) mod 0x400000" by (rule mod_mult_self3)
    then show ?thesis using i by simp
  qed
  ultimately have "unat (prog_off (0x8100000 + of_nat i)) = 0x100000 + i" using u by (simp add: take_bit_eq_mod unat_mod)
  then have "prog_off (0x8100000 + of_nat i) = of_nat (0x100000 + i)" by (metis of_nat_unat_u32)
  moreover have "prog_off 0x8100000 = 0x100000" by (simp add: prog_off_def)
  ultimately show "prog_addr (0x8100000 + of_nat i) \<and> prog_off (0x8100000 + of_nat i) = prog_off 0x8100000 + of_nat i" using p by simp
qed

lemma sample_str:
  assumes "short_lits L" and "xs \<in> set L"
  shows "str_at (User 0) prog_off prog_addr 0x8100000 1025 (ram (fst (sample_user L arg, ks))) (lit_addr L xs) xs"
proof -
  have "has_lits (User 0) prog_off prog_addr (lit_addr L) (set L) (ram (fst (sample_user L arg, ks)))"
    using image_lits [OF assms(1), of "user_ram L arg" 0] by (simp add: sample_user_fields user_ram_blocks)
  moreover have "apart prog_off (lit_addr L) (set L) 0x8100000 1025" by (rule image_apart [OF assms(1)]) simp
  ultimately show ?thesis using assms(2) by (auto simp: has_lits_def apart_def str_at_def)
qed

subsection \<open>Programs and lines\<close>

lemma short_program_lits:
  "short_lits cat_lits" "short_lits ls_lits" "short_lits counter_lits" "short_lits hello_lits" "short_lits shell_lits" "short_lits syserr_lits"
  by code_simp+

lemma typed_lines:
  "typed_line [0x0B, 0x1C]" "typed_line [0x1F, 0x1C]" "typed_line [0x12, 0x2D, 0x17, 0x14, 0x1C]"
  "typed (butlast [0x0B, 0x1C]) = lit ''0''" "typed (butlast [0x1F, 0x1C]) = lit ''s''" "typed (butlast [0x12, 0x2D, 0x17, 0x14, 0x1C]) = lit ''exit''"
  by code_simp+

end
