(* ===== verification/Sample_Fish.thy ===== *)
theory Sample_Fish
  imports Sample_User
begin

text \<open>A process on a machine whose disk has the clock and two small pictures.\<close>

definition picture0 :: "u8 list" where "picture0 = [0x61, 0x62]"

definition picture1 :: "u8 list" where "picture1 = [0x61, 0x0A, 0x63]"

definition fish_disk :: "u32 \<Rightarrow> u8" where
  "fish_disk a =
     (if a < 64 then ((\<lambda>a. 0)(0 := 4, 4 := 2, 8 := 2)) a
      else if a < 128 then ((\<lambda>a. 0)(64 := 46, 96 := 1)) a
      else if a < 192 then ((\<lambda>a. 0)(128 := 114, 129 := 116, 130 := 99)) a
      else if a < 256 then ((\<lambda>a. 0)(192 := 102, 193 := 114, 194 := 97, 195 := 109, 196 := 101, 197 := 48, 198 := 46, 199 := 116, 200 := 120, 201 := 116, 224 := 2)) a
      else if a < 320 then ((\<lambda>a. 0)(256 := 102, 257 := 114, 258 := 97, 259 := 109, 260 := 101, 261 := 49, 262 := 46, 263 := 116, 264 := 120, 265 := 116, 288 := 2, 292 := 1)) a
      else ((\<lambda>a. 0)(4096 := 2, 8192 := 3, 8196 := 1, 12288 := 0x61, 12289 := 0x62, 16384 := 0x61, 16385 := 0x0A, 16386 := 0x63)) a)"

definition fish_ram :: mem where
  "fish_ram = (user_ram fish_lits [])(disk := fish_disk)"

definition fish_user :: kernel where
  "fish_user = (sample_user fish_lits [])\<lparr>ram := fish_ram, num_de := 4, fake_sti := True\<rparr>"

definition fish_args :: fish_vars where
  "fish_args = \<lparr>x_vmem_base_addr = 0x8100000, x_ret_val = 0x8100010, x_garbage = 0x8100020, x_blink_struct = 0x8100030,
     x_frame_struct = 0x8100040, x_c0 = 0x8100050, x_c1 = 0x8100051\<rparr>"

definition fish_begin :: fish where
  "fish_begin = \<lparr>blink_array = replicate 2000 zero_blink, mp1_list_head = None, vmem = (\<lambda>a. 0x20)\<rparr>"

lemma fish_user_fields:
  "ram fish_user = fish_ram" "bbp fish_user = (disk, 0)" "dir_index fish_user = 0" "N fish_user = 2" "num_de fish_user = 4"
  "de_ptr fish_user = (disk, 64)" "inode_ptr fish_user = (disk, 4096)" "db_ptr fish_user = (disk, 12288)" "D fish_user = 2"
  "fish_ram disk = fish_disk" "fish_ram (User 0) = lit_image fish_lits"
  by (simp_all add: fish_user_def sample_user_def fish_ram_def user_ram_def sample_def)

lemma fish_dirent:
  "dirent fish_ram fish_user 0 = ([46], 1, 0)" "dirent fish_ram fish_user 1 = ([114, 116, 99], 0, 0)"
  "dirent fish_ram fish_user 2 = ([102, 114, 97, 109, 101, 48, 46, 116, 120, 116], 2, 0)"
  "dirent fish_ram fish_user 3 = ([102, 114, 97, 109, 101, 49, 46, 116, 120, 116], 2, 1)"
  by (simp_all add: dirent_def de_at_def cview_def bytes_def upt_rec fish_disk_def ld32_def ld_def padd_def fish_user_fields)

lemma fish_dirents: "dirents fish_ram fish_user =
  [([46], 1, 0), ([114, 116, 99], 0, 0), ([102, 114, 97, 109, 101, 48, 46, 116, 120, 116], 2, 0), ([102, 114, 97, 109, 101, 49, 46, 116, 120, 116], 2, 1)]"
  using fish_dirent by (simp add: dirents_def fish_user_fields upt_rec)

lemma fish_sizes: "file_size fish_ram fish_user 0 = 2" "file_size fish_ram fish_user 1 = 3"
  by (simp_all add: file_size_def inode_at_def fish_disk_def ld32_def ld_def padd_def fish_user_fields)

lemma fish_content: "content fish_ram fish_user 0 = picture0" "content fish_ram fish_user 1 = picture1"
  by (simp_all only: content_def fish_sizes) (simp_all add: upt_rec file_byte_def inode_at_def fish_disk_def ld32_def ld_def padd_def
      picture0_def picture1_def Let_def fish_user_fields)

lemma fish_user_fds: "cur_fd fish_user a i = cur_fd (sample_user fish_lits []) a i"
  by (simp add: cur_fd_def fish_user_def)

lemma fish_user_good: "kernel_good 0 (fish_user, [])" "alone 0 fish_user"
proof -
  have g: "get_curr_pcb fish_user = get_curr_pcb sample" by (rule get_curr_pcb_eq) (simp_all add: fish_user_def sample_user_def)
  have "runs_in 0 fish_user"
    using sample_process g by (simp add: runs_in_def in_process_def prog_mapped_def null_guarded_def sample_PTE_def fish_user_def sample_user_def sample_PDE_def)
  moreover have "term_ready fish_user"
    using sample_kbd by (simp add: term_ready_def fish_user_def sample_user_def kbd_ok_def console_ok_def no_modifiers_def video_frame_def page_frame_def)
  moreover have "disk_ready 0 fish_user"
  proof -
    have "exec_fs fish_user" by (simp add: exec_fs_def fs_ok_def exec_blocks_def dentry_blocks_def fish_user_fields padd_def)
    then show ?thesis by (simp add: disk_ready_def fish_user_fields fish_dirents fish_sizes dentry_blocks_def)
  qed
  moreover have "fds_ready (pcb_loc 0) fish_user"
    unfolding fds_ready_def entry_ready_def fish_user_fds by (subst (1 2 3 4 5 6 7) sample_user_fds) (simp add: term_fd_def)
  moreover have "args_ready fish_user"
  proof -
    have "cstr (stores sample_ram args_p ([] @ [0])) args_p []" by (intro cstr_stores) simp_all
    then have "cstr fish_ram args_p []"
      by (subst cstr_block [where m' = "stores sample_ram args_p ([] @ [0])"]) (simp_all add: fish_ram_def user_ram_def)
    then show ?thesis by (auto simp: args_ready_def fish_user_fields)
  qed
  ultimately show "kernel_good 0 (fish_user, [])" by (simp add: kernel_good_def)
  show "alone 0 fish_user"
    by (simp add: alone_def fish_user_def sample_user_def sample_pcb_def sample_PDE_def)
qed

lemma fish_user_view:
  "v_fds (kernel_view 0 (fish_user, [])) i = (if i < 2 then Some Term else None)"
  "v_disk (kernel_view 0 (fish_user, [])) (lit ''rtc'') = Some Ticks"
  "v_disk (kernel_view 0 (fish_user, [])) (lit ''frame0.txt'') = Some (Reads picture0)"
  "v_disk (kernel_view 0 (fish_user, [])) (lit ''frame1.txt'') = Some (Reads picture1)"
proof -
  have "fd_view (pcb_loc 0) fish_user i = (if i < 2 then Some Term else None)"
    unfolding fd_view_def fish_user_fds by (subst sample_user_fds) (simp add: entry_view_def term_fd_def)
  then show "v_fds (kernel_view 0 (fish_user, [])) i = (if i < 2 then Some Term else None)" by (simp add: kernel_view_def)
qed (simp_all add: kernel_view_def disk_view_def fish_user_fields fish_dirents fish_content lookup_name_def lit_def)

text \<open>The program's strings are apart from its variables.\<close>

lemma apart_sub:
  assumes "apart off la L a n" and "off b = off a + d" and "unat d + m \<le> n"
  shows "apart off la L b m"
  unfolding apart_def
proof (intro ballI allI impI)
  fix xs i assume "xs \<in> L" "i \<le> length xs"
  then have le: "n \<le> unat (off (la xs) + of_nat i - off a)" using assms(1) by (auto simp: apart_def)
  have e: "off (la xs) + of_nat i - off b = (off (la xs) + of_nat i - off a) - d" unfolding assms(2) by simp
  have "unat (off (la xs) + of_nat i - off b) = unat (off (la xs) + of_nat i - off a) - unat d"
    unfolding e using le assms(3) by (intro unat_sub) (simp add: word_le_nat_alt)
  then show "m \<le> unat (off (la xs) + of_nat i - off b)" using le assms(3) by simp
qed

lemma short_fish_lits: "short_lits fish_lits"
  by code_simp

lemma fish_apart:
  "apart prog_off (lit_addr fish_lits) (set fish_lits) 0x8100000 4" "apart prog_off (lit_addr fish_lits) (set fish_lits) 0x8100000 81"
  "apart prog_off (lit_addr fish_lits) (set fish_lits) 0x8100050 1" "apart prog_off (lit_addr fish_lits) (set fish_lits) 0x8100051 1"
proof -
  note a = image_apart [OF short_fish_lits]
  show "apart prog_off (lit_addr fish_lits) (set fish_lits) 0x8100000 4" "apart prog_off (lit_addr fish_lits) (set fish_lits) 0x8100000 81"
    by (rule a, simp)+
  show "apart prog_off (lit_addr fish_lits) (set fish_lits) 0x8100050 1" "apart prog_off (lit_addr fish_lits) (set fish_lits) 0x8100051 1"
    by (rule apart_sub [OF a [of 1024], where d = "0x50"]; simp add: prog_off_def)
       (rule apart_sub [OF a [of 1024], where d = "0x51"]; simp add: prog_off_def)
qed

lemma fish_has_lits: "has_lits (User 0) prog_off prog_addr (lit_addr fish_lits) (set fish_lits) (ram (fst (fish_user, [])))"
  using image_lits [OF short_fish_lits, of fish_ram 0] by (simp add: fish_user_fields)

lemma fish_begin_blinks: "blinks fish_begin []" "mp1_list_head fish_begin = None"
  using blinks_start [of fish_begin] by (simp_all add: fish_begin_def)

end
