(* ===== verification/Boot.thy ===== *)
theory Boot
  imports Handlers Protection
begin

text \<open>
  \<open>entry\<close> of student-distrib/kernel.c: what the kernel does from the boot loader's jump to the first
  shell.  The multiboot information lies in physical memory (block \<open>Flat\<close>); the addresses the
  linker and the descriptors of x86_desc.S contribute are gathered in \<open>layout\<close>.
\<close>

record layout =
  handler_at :: "handler \<Rightarrow> u32"
  ldt_addr :: u32
  ldt_size :: u32
  tss_addr :: u32
  tss_size :: u32
  stack_garbage :: seg_desc

text \<open>The tables of x86_desc.S and the registers that hold their addresses.\<close>

record boot = kernel +
  idt :: "idt_desc list"
  ldt_desc_ptr :: seg_desc
  tss_desc_ptr :: seg_desc
  ldt_segment_selector :: u16
  ldtr :: u16
  tr :: u16
  idtr_loaded :: bool
  keyboard_flag :: bool

abbreviation MULTIBOOT_BOOTLOADER_MAGIC :: u32 where "MULTIBOOT_BOOTLOADER_MAGIC \<equiv> 0x2BADB002"

definition CHECK_FLAG :: "u32 \<Rightarrow> nat \<Rightarrow> bool" where
  "CHECK_FLAG flags b \<longleftrightarrow> flags AND push_bit b 1 \<noteq> 0"

text \<open>A field of the structure at a physical address, read when it is used.\<close>

definition field :: "'a kernel_scheme \<Rightarrow> u32 \<Rightarrow> u32 \<Rightarrow> u32" where
  "field s addr off = ld32 (ram s) (Flat, addr + off)"

subsection \<open>Reporting what the boot loader passed\<close>

text \<open>The first sixteen bytes of a module; a \<open>char\<close> is signed.\<close>

fun module_bytes :: "u32 \<Rightarrow> nat list \<Rightarrow> 'a kernel_scheme \<Rightarrow> 'a kernel_scheme run" where
  "module_bytes start [] s = Some (Inr s)"
| "module_bytes start (i # is) s =
     obind (kprintf (lit ''0x%x '') [Num (scast (ld (ram s) (Flat, start) (of_nat i)))] s) (module_bytes start is)"

text \<open>One round of the loop over the modules.\<close>

definition module_info :: "u32 \<Rightarrow> u32 \<Rightarrow> 'a kernel_scheme \<Rightarrow> 'a kernel_scheme run" where
  "module_info md mod_count s =
     obind (kprintf (line_lit ''Module %d loaded at address: 0x%#x'') [Num mod_count, Num (field s md 0)] s) (\<lambda>s.
     obind (kprintf (line_lit ''Module %d ends at address: 0x%#x'') [Num mod_count, Num (field s md 4)] s) (\<lambda>s.
     obind (kprintf (line_lit ''First few bytes of module:'') [] s) (\<lambda>s.
     obind (module_bytes (field s md 0) [0..<16] s) (\<lambda>s.
     kprintf [0x0A] [] s))))"

partial_function (option) modules_loop :: "u32 \<Rightarrow> u32 \<Rightarrow> u32 \<Rightarrow> 'a kernel_scheme \<Rightarrow> 'a kernel_scheme res option" where
  "modules_loop addr md mod_count s =
     (if mod_count < field s addr 20 then
        (case module_info md mod_count s of
           None \<Rightarrow> None
         | Some (Inl e) \<Rightarrow> Some (Inl e)
         | Some (Inr s) \<Rightarrow> modules_loop addr (md + 16) (mod_count + 1) s)
      else Some (Inr s))"

definition mmap_line :: "u32 \<Rightarrow> 'a kernel_scheme \<Rightarrow> 'a kernel_scheme run" where
  "mmap_line mmap s =
     kprintf (line_lit '' size = 0x%x,     base_addr = 0x%#x%#x'' @ line_lit ''     type = 0x%x,  length    = 0x%#x%#x'')
       [Num (field s mmap 0), Num (field s mmap 8), Num (field s mmap 4), Num (field s mmap 20),
        Num (field s mmap 16), Num (field s mmap 12)] s"

partial_function (option) mmap_loop :: "u32 \<Rightarrow> u32 \<Rightarrow> 'a kernel_scheme \<Rightarrow> 'a kernel_scheme res option" where
  "mmap_loop addr mmap s =
     (if mmap < field s addr 48 + field s addr 44 then
        (case mmap_line mmap s of
           None \<Rightarrow> None
         | Some (Inl e) \<Rightarrow> Some (Inl e)
         | Some (Inr s) \<Rightarrow> mmap_loop addr (mmap + field s mmap 0 + 4) s)
      else Some (Inr s))"

definition when_flag :: "u32 \<Rightarrow> nat \<Rightarrow> ('a kernel_scheme \<Rightarrow> 'a kernel_scheme run) \<Rightarrow> 'a kernel_scheme \<Rightarrow> 'a kernel_scheme run" where
  "when_flag addr b f s = (if CHECK_FLAG (field s addr 0) b then f s else Some (Inr s))"

text \<open>The parts of the report: flags to command line, modules, sections and memory map.\<close>

definition loader_info :: "u32 \<Rightarrow> 'a kernel_scheme \<Rightarrow> 'a kernel_scheme run" where
  "loader_info addr s =
     obind (kprintf (line_lit ''flags = 0x%#x'') [Num (field s addr 0)] s) (\<lambda>s.
     obind (when_flag addr 0 (\<lambda>s. kprintf (line_lit ''mem_lower = %uKB, mem_upper = %uKB'')
       [Num (field s addr 4), Num (field s addr 8)] s) s) (\<lambda>s.
     obind (when_flag addr 1 (\<lambda>s. kprintf (line_lit ''boot_device = 0x%#x'') [Num (field s addr 12)] s) s) (\<lambda>s.
     when_flag addr 2 (\<lambda>s. kprintf (line_lit ''cmdline = %s'') [Ptr (Flat, field s addr 16)] s) s)))"

definition modules_info :: "u32 \<Rightarrow> 'a kernel_scheme \<Rightarrow> 'a kernel_scheme run" where
  "modules_info addr s =
     when_flag addr 3 (\<lambda>s.
       let md = field s addr 24;
           s = set_filesys_meta (ram s) (Flat, field s md 0) s
       in modules_loop addr md 0 s) s"

definition maps_info :: "u32 \<Rightarrow> 'a kernel_scheme \<Rightarrow> 'a kernel_scheme run" where
  "maps_info addr s =
     obind (when_flag addr 5 (\<lambda>s. kprintf (line_lit ''elf_sec: num = %u, size = 0x%#x, addr = 0x%#x, shndx = 0x%#x'')
       [Num (field s addr 28), Num (field s addr 32), Num (field s addr 36), Num (field s addr 40)] s) s) (\<lambda>s.
     when_flag addr 6 (\<lambda>s.
       obind (kprintf (line_lit ''mmap_addr = 0x%#x, mmap_length = 0x%x'') [Num (field s addr 48), Num (field s addr 44)] s) (\<lambda>s.
       mmap_loop addr (field s addr 48) s)) s)"

text \<open>From the check of the magic number to the memory map; the result tells whether \<open>entry\<close> goes on.\<close>

definition multiboot_report :: "u32 \<Rightarrow> u32 \<Rightarrow> 'a kernel_scheme \<Rightarrow> (bool \<times> 'a kernel_scheme) run" where
  "multiboot_report magic addr s =
     (if magic \<noteq> MULTIBOOT_BOOTLOADER_MAGIC then
        obind (kprintf (line_lit ''Invalid magic number: 0x%#x'') [Num magic] s) (\<lambda>s. Some (Inr (False, s)))
      else
        obind (loader_info addr s) (\<lambda>s.
        obind (modules_info addr s) (\<lambda>s.
        if CHECK_FLAG (field s addr 0) 4 \<and> CHECK_FLAG (field s addr 0) 5 then
          obind (kprintf (line_lit ''Both bits 4 and 5 are set.'') [] s) (\<lambda>s. Some (Inr (False, s)))
        else obind (maps_info addr s) (\<lambda>s. Some (Inr (True, s))))))"

subsection \<open>Descriptors, devices, memory\<close>

definition setup_ldt :: "layout \<Rightarrow> 'a boot_scheme \<Rightarrow> 'a boot_scheme" where
  "setup_ldt l s = s\<lparr>ldt_desc_ptr := the_ldt_desc (ldt_addr l) (ldt_size l) (stack_garbage l), ldtr := KERNEL_LDT\<rparr>"

definition setup_tss :: "layout \<Rightarrow> 'a boot_scheme \<Rightarrow> 'a boot_scheme" where
  "setup_tss l s = s\<lparr>tss_desc_ptr := the_tss_desc (tss_addr l) (tss_size l) (stack_garbage l),
     ldt_segment_selector := KERNEL_LDT, tss_ss0 := KERNEL_DS, tss_esp0 := 0x800000, tr := KERNEL_TSS\<rparr>"

text \<open>From the descriptors to \<open>fflag = 0\<close>.\<close>

definition init_devices :: "layout \<Rightarrow> hardware \<Rightarrow> 'a boot_scheme \<Rightarrow> 'a boot_scheme run" where
  "init_devices l hw s =
     obind (Some (init_buffers (setup_tss l (setup_ldt l s)))) (\<lambda>s.
     let s = init_terminals s;
         s = s\<lparr>capson := False, keyboard_flag := False\<rparr>;
         s = s\<lparr>idt := init_idt (handler_at l) (idt s), idtr_loaded := True\<rparr>;
         s = i8259_init s;
         s = rtc_init hw s;
         s = init_paging s
     in obind (kprintf (line_lit ''Enabling Interrupts'') [] s) (\<lambda>s.
        let s = enable_irq 8 (enable_irq 2 (enable_irq 1 (sti s)))
        in obind (Some (clear s)) (\<lambda>s. Some (Inr (s\<lparr>fflag := False\<rparr>)))))"

text \<open>\<open>entry\<close> until the first program is executed.\<close>

definition boot_kernel :: "layout \<Rightarrow> hardware \<Rightarrow> u32 \<Rightarrow> u32 \<Rightarrow> 'a boot_scheme \<Rightarrow> (bool \<times> 'a boot_scheme) run" where
  "boot_kernel l hw magic addr s =
     obind (Some (clear s)) (\<lambda>s.
     obind (multiboot_report magic addr s) (\<lambda>(go, s).
     if \<not> go then Some (Inr (False, s))
     else obind (init_devices l hw s) (\<lambda>s. Some (Inr (True, s)))))"

abbreviation blahp :: ptr where "blahp \<equiv> (Obj ''entry.blahp'', 0)"

text \<open>How \<open>entry\<close> ends: it returns to boot.S, or the system call for the shell has an outcome.\<close>

datatype entry_end = Returned | Shell outcome

definition entry :: "layout \<Rightarrow> hardware \<Rightarrow> u32 \<Rightarrow> u32 \<Rightarrow> u32 \<Rightarrow> 'a boot_scheme \<Rightarrow> (entry_end \<times> 'a boot_scheme) run" where
  "entry l hw check magic addr s =
     obind (boot_kernel l hw magic addr s) (\<lambda>(go, s).
     if \<not> go then Some (Inr (Returned, s))
     else
       let s = s\<lparr>ram := stores (ram s) blahp (lit ''shell '' @ [0])\<rparr>
       in obind (execute check blahp (cli s)) (\<lambda>(out, s). Some (Inr (Shell out, s))))"

text \<open>After the label \<open>exit_shell\<close>, where \<open>shutdown\<close> jumps.\<close>

definition shutdown :: "'a boot_scheme \<Rightarrow> (handler_end \<times> 'a boot_scheme) run" where
  "shutdown s = obind (puts (stores (ram s) rodata (line_lit ''Exited from shell. Nicely spinning'' @ [0])) rodata s) (\<lambda>(n, s).
     Some (Inr (Spin, s)))"

subsection \<open>Operations that only print\<close>

text \<open>Something was printed; nothing else changed.\<close>

definition printed :: "'a kernel_scheme \<Rightarrow> 'a kernel_scheme \<Rightarrow> bool" where
  "printed s s' \<longleftrightarrow> (\<exists>out. kprints out s s')"

lemma printed_refl [intro]: "console_ok s \<Longrightarrow> printed s s"
  using kprints_refl by (auto simp: printed_def)

lemma printed_trans [trans]: "printed s s' \<Longrightarrow> printed s' s'' \<Longrightarrow> printed s s''"
  using kprints_trans by (fastforce simp: printed_def)

lemma printed_ok: "printed s s' \<Longrightarrow> console_ok s'"
  by (auto simp: printed_def kprints_def)

lemma repaint_frame:
  "repaint s s' \<Longrightarrow> s' = s\<lparr>screen_x := screen_x s', screen_y := screen_y s', frames := frames s', scr_buf := scr_buf s', io := io s'\<rparr>"
  by (auto simp: repaint_def paint_def)

lemma printed_frame:
  assumes "printed s s'"
  shows "s' = s\<lparr>ram := ram s', screen_x := screen_x s', screen_y := screen_y s', frames := frames s', scr_buf := scr_buf s', io := io s'\<rparr>"
proof -
  obtain m where m: "repaint (s\<lparr>ram := m\<rparr>) s'" using assms by (auto simp: printed_def kprints_def)
  have "ram s' = m" using repaint_ram_eq [OF m] by simp
  then show ?thesis using repaint_frame [OF m] by simp
qed

lemma printed_fields:
  assumes "printed s s'"
  shows "pcbs s' = pcbs s" "proc s' = proc s" "PDE s' = PDE s" "PTE s' = PTE s" "cr3 s' = cr3 s" "esp s' = esp s"
  by (subst printed_frame [OF assms], simp)+

lemma printed_ram: "printed s s' \<Longrightarrow> b \<notin> print_blocks \<Longrightarrow> ram s' b = ram s b"
proof -
  assume "printed s s'" and b: "b \<notin> print_blocks"
  then obtain m where m: "\<forall>b. b \<notin> print_blocks \<longrightarrow> m b = ram s b" "repaint (s\<lparr>ram := m\<rparr>) s'" by (auto simp: printed_def kprints_def)
  show ?thesis using repaint_ram_eq [OF m(2)] m(1) b by simp
qed

lemma Flat_not_printed [simp]: "Flat \<notin> print_blocks"
  by (simp add: print_blocks_def)

lemma printed_field: "printed s s' \<Longrightarrow> field s' a off = field s a off"
  using printed_ram [of s s' Flat] by (simp add: field_def ld32_def ld_def)

text \<open>The formats of \<open>entry\<close>.\<close>

lemma formats_expand:
  "\<exists>out. expand (line_lit ''Invalid magic number: 0x%#x'') [FNum a] = Some out"
  "\<exists>out. expand (line_lit ''flags = 0x%#x'') [FNum a] = Some out"
  "\<exists>out. expand (line_lit ''mem_lower = %uKB, mem_upper = %uKB'') [FNum a, FNum b] = Some out"
  "\<exists>out. expand (line_lit ''boot_device = 0x%#x'') [FNum a] = Some out"
  "\<exists>out. expand (line_lit ''Module %d loaded at address: 0x%#x'') [FNum a, FNum b] = Some out"
  "\<exists>out. expand (line_lit ''Module %d ends at address: 0x%#x'') [FNum a, FNum b] = Some out"
  "\<exists>out. expand (lit ''0x%x '') [FNum a] = Some out"
  "\<exists>out. expand (line_lit ''elf_sec: num = %u, size = 0x%#x, addr = 0x%#x, shndx = 0x%#x'') [FNum a, FNum b, FNum c, FNum d] = Some out"
  "\<exists>out. expand (line_lit ''mmap_addr = 0x%#x, mmap_length = 0x%x'') [FNum a, FNum b] = Some out"
  "\<exists>out. expand (line_lit '' size = 0x%x,     base_addr = 0x%#x%#x'' @ line_lit ''     type = 0x%x,  length    = 0x%#x%#x'')
     [FNum a, FNum b, FNum c, FNum d, FNum e, FNum f] = Some out"
  "\<exists>out. expand (line_lit ''cmdline = %s'') [FStr xs] = Some out"
  by (simp_all add: line_lit_def lit_def conv_text_def)

lemma formats_literal:
  "literal (line_lit ''Invalid magic number: 0x%#x'')" "literal (line_lit ''flags = 0x%#x'')"
  "literal (line_lit ''mem_lower = %uKB, mem_upper = %uKB'')" "literal (line_lit ''boot_device = 0x%#x'')"
  "literal (line_lit ''Module %d loaded at address: 0x%#x'')" "literal (line_lit ''Module %d ends at address: 0x%#x'')"
  "literal (lit ''0x%x '')" "literal (line_lit ''elf_sec: num = %u, size = 0x%#x, addr = 0x%#x, shndx = 0x%#x'')"
  "literal (line_lit ''mmap_addr = 0x%#x, mmap_length = 0x%x'')"
  "literal (line_lit '' size = 0x%x,     base_addr = 0x%#x%#x'' @ line_lit ''     type = 0x%x,  length    = 0x%#x%#x'')"
  "literal (line_lit ''cmdline = %s'')"
  by (simp_all add: literal_def line_lit_def lit_def)

text \<open>An operation that only prints; how such operations compose.\<close>

definition reports :: "'a kernel_scheme run \<Rightarrow> 'a kernel_scheme \<Rightarrow> bool" where
  "reports r s \<longleftrightarrow> (\<exists>s'. r = Some (Inr s') \<and> printed s s')"

lemma reports_bind: "reports r s \<Longrightarrow> (\<And>s'. printed s s' \<Longrightarrow> console_ok s' \<Longrightarrow> reports (f s') s') \<Longrightarrow> reports (obind r f) s"
proof -
  assume "reports r s" and f: "\<And>s'. printed s s' \<Longrightarrow> console_ok s' \<Longrightarrow> reports (f s') s'"
  then obtain s' where s': "r = Some (Inr s')" "printed s s'" by (auto simp: reports_def)
  with f [OF s'(2) printed_ok [OF s'(2)]] show ?thesis by (auto simp: reports_def intro: printed_trans)
qed

lemma reports_done: "console_ok s \<Longrightarrow> reports (Some (Inr s)) s"
  by (auto simp: reports_def)

lemma reports_flag: "console_ok s \<Longrightarrow> (CHECK_FLAG (field s addr 0) b \<Longrightarrow> reports (f s) s) \<Longrightarrow> reports (when_flag addr b f s) s"
  by (simp add: when_flag_def reports_done)

lemma kprintf_reports:
  assumes "console_ok s" and "literal fmt" and "\<exists>out. expand fmt bs = Some out" and "list_all2 (karg_ok (ram s)) args bs"
  shows "reports (kprintf fmt args s) s"
proof -
  obtain out where "expand fmt bs = Some out" using assms(3) by blast
  from kprintf_prints [OF assms(1,2) this assms(4)] show ?thesis by (auto simp: reports_def printed_def)
qed

lemma karg_num [simp]: "karg_ok m (Num v) b \<longleftrightarrow> b = FNum v"
  by (auto simp: karg_ok_def split: farg.splits)

lemma kprintf_plain_reports: "console_ok s \<Longrightarrow> literal fmt \<Longrightarrow> 0x25 \<notin> set fmt \<Longrightarrow> reports (kprintf fmt [] s) s"
  using kprintf_plain [of s fmt] by (auto simp: reports_def printed_def)

lemma plain_formats:
  "literal (line_lit ''First few bytes of module:'')" "0x25 \<notin> set (line_lit ''First few bytes of module:'')"
  "literal [0x0A]" "(0x25 :: u8) \<notin> set [0x0A]"
  "literal (line_lit ''Enabling Interrupts'')" "0x25 \<notin> set (line_lit ''Enabling Interrupts'')"
  by (simp_all add: literal_def line_lit_def lit_def)

lemma module_bytes_reports: "console_ok s \<Longrightarrow> reports (module_bytes start is s) s"
proof (induction "is" arbitrary: s)
  case (Cons i "is")
  have "reports (kprintf (lit ''0x%x '') [Num v] s) s" for v
    using kprintf_reports [OF Cons.prems formats_literal(7) formats_expand(7)] by simp
  then show ?case using Cons.IH by (auto intro!: reports_bind)
qed (simp add: reports_done)

lemma module_info_reports: "console_ok s \<Longrightarrow> reports (module_info md c s) s"
  unfolding module_info_def
  by (intro reports_bind module_bytes_reports kprintf_plain_reports plain_formats
      kprintf_reports [OF _ formats_literal(5) formats_expand(5)] kprintf_reports [OF _ formats_literal(6) formats_expand(6)])
     simp_all

lemma modules_loop_reports: "console_ok s \<Longrightarrow> reports (modules_loop addr md c s) s"
proof (induction "unat (field s addr 20) - unat c" arbitrary: md c s rule: less_induct)
  case less
  show ?case
  proof (cases "c < field s addr 20")
    case True
    obtain s' where s': "module_info md c s = Some (Inr s')" "printed s s'" using module_info_reports [OF less.prems] by (auto simp: reports_def)
    have "unat (c + 1) = unat c + 1" using True unat_u32_lt [of "field s addr 20"] by (simp add: word_less_nat_alt unat_word_ariths(1))
    then have "unat (field s' addr 20) - unat (c + 1) < unat (field s addr 20) - unat c"
      using True printed_field [OF s'(2)] by (simp add: word_less_nat_alt)
    from less.hyps [OF this printed_ok [OF s'(2)]] have "reports (modules_loop addr (md + 16) (c + 1) s') s'" .
    then show ?thesis using True s' by (subst modules_loop.simps) (auto simp: reports_def intro: printed_trans)
  next
    case False
    then show ?thesis using less.prems by (subst modules_loop.simps) (simp add: reports_done)
  qed
qed

text \<open>The entries of a memory map from \<open>mmap\<close> on, at most \<open>n\<close> of them, lead past its end.\<close>

fun mmap_ends :: "mem \<Rightarrow> u32 \<Rightarrow> u32 \<Rightarrow> nat \<Rightarrow> bool" where
  "mmap_ends m mmap e n = (e \<le> mmap \<or> (case n of 0 \<Rightarrow> False | Suc n \<Rightarrow> mmap_ends m (mmap + ld32 m (Flat, mmap) + 4) e n))"

declare mmap_ends.simps [simp del]

lemma mmap_ends_cong: "m Flat = m' Flat \<Longrightarrow> mmap_ends m p e n = mmap_ends m' p e n"
proof (induction n arbitrary: p)
  case 0
  show ?case by (subst (1 2) mmap_ends.simps) simp
next
  case (Suc n)
  then show ?case by (subst (1 2) mmap_ends.simps) (simp add: ld32_def ld_def)
qed

lemma mmap_loop_reports:
  "console_ok s \<Longrightarrow> mmap_ends (ram s) p (field s addr 48 + field s addr 44) n \<Longrightarrow> reports (mmap_loop addr p s) s"
proof (induction n arbitrary: p s)
  case 0
  then have "\<not> p < field s addr 48 + field s addr 44" by (subst (asm) mmap_ends.simps) simp
  then show ?case using 0 by (subst mmap_loop.simps) (simp add: reports_done)
next
  case (Suc n)
  show ?case
  proof (cases "p < field s addr 48 + field s addr 44")
    case True
    have "reports (mmap_line p s) s" unfolding mmap_line_def using Suc.prems(1)
      by (rule kprintf_reports [OF _ formats_literal(10) formats_expand(10)]) simp
    then obtain s' where s': "mmap_line p s = Some (Inr s')" "printed s s'" by (auto simp: reports_def)
    have "mmap_ends (ram s) (p + field s p 0 + 4) (field s addr 48 + field s addr 44) n"
      using Suc.prems(2) True by (subst (asm) mmap_ends.simps) (auto simp: field_def)
    then have "mmap_ends (ram s') (p + field s' p 0 + 4) (field s' addr 48 + field s' addr 44) n"
      using mmap_ends_cong [where m = "ram s'" and m' = "ram s", OF printed_ram [OF s'(2) Flat_not_printed]] by (simp add: printed_field [OF s'(2)])
    then have "reports (mmap_loop addr (p + field s' p 0 + 4) s') s'" by (rule Suc.IH [OF printed_ok [OF s'(2)]])
    then show ?thesis using True s' by (subst mmap_loop.simps) (auto simp: reports_def intro: printed_trans)
  next
    case False
    then show ?thesis using Suc.prems by (subst mmap_loop.simps) (simp add: reports_done)
  qed
qed


text \<open>What the boot loader has to provide: no contradictory flags, a command line that is a string, a
  memory map that ends.\<close>

definition multiboot_ok :: "mem \<Rightarrow> u32 \<Rightarrow> bool" where
  "multiboot_ok m addr \<longleftrightarrow>
     (let w = (\<lambda>off. ld32 m (Flat, addr + off)) in
      \<not> (CHECK_FLAG (w 0) 4 \<and> CHECK_FLAG (w 0) 5) \<and>
      (CHECK_FLAG (w 0) 2 \<longrightarrow> (\<exists>xs. cstr m (Flat, w 16) xs)) \<and>
      (CHECK_FLAG (w 0) 6 \<longrightarrow> (\<exists>n. mmap_ends m (w 48) (w 48 + w 44) n)))"

definition with_modules :: "u32 \<Rightarrow> 'a kernel_scheme \<Rightarrow> 'a kernel_scheme" where
  "with_modules addr s = (if CHECK_FLAG (field s addr 0) 3
     then set_filesys_meta (ram s) (Flat, field s (field s addr 24) 0) s else s)"

lemma multiboot_ok_field:
  "multiboot_ok (ram s) addr \<longleftrightarrow>
     \<not> (CHECK_FLAG (field s addr 0) 4 \<and> CHECK_FLAG (field s addr 0) 5) \<and>
      (CHECK_FLAG (field s addr 0) 2 \<longrightarrow> (\<exists>xs. cstr (ram s) (Flat, field s addr 16) xs)) \<and>
      (CHECK_FLAG (field s addr 0) 6 \<longrightarrow> (\<exists>n. mmap_ends (ram s) (field s addr 48) (field s addr 48 + field s addr 44) n))"
  by (simp add: multiboot_ok_def field_def)

lemma printed_multiboot:
  assumes "printed s s'"
  shows "multiboot_ok (ram s') addr = multiboot_ok (ram s) addr"
proof -
  have f: "ram s' Flat = ram s Flat" using printed_ram [OF assms] by simp
  then have "cstr (ram s') (Flat, p) xs = cstr (ram s) (Flat, p) xs" for p xs by (simp add: cstr_def bytes_def ld_def)
  moreover note mmap_ends_cong [where m = "ram s'" and m' = "ram s", OF f] printed_field [OF assms]
  ultimately show ?thesis by (simp only: multiboot_ok_field)
qed

text \<open>Setting the file system's pointers commutes with printing.\<close>

lemma meta_fields [simp]:
  "ram (set_filesys_meta m p s) = ram s" "field (set_filesys_meta m p s) = field s" "console_ok (set_filesys_meta m p s) = console_ok s"
  "screen_of (set_filesys_meta m p s) = screen_of s" "video_shows (set_filesys_meta m p s) = video_shows s"
  by (simp_all add: set_filesys_meta_def Let_def field_def fun_eq_iff console_ok_def screen_of_def video_shows_def
      video_frame_def page_frame_def)

lemma meta_cong: "m (fst p) = m' (fst p) \<Longrightarrow> set_filesys_meta m p s = set_filesys_meta m' p s"
  by (simp add: set_filesys_meta_def ld32_def ld_def padd_def)

lemma repaint_meta: "repaint s s' \<Longrightarrow> repaint (set_filesys_meta m p s) (set_filesys_meta m p s')"
proof -
  assume "repaint s s'"
  then obtain v t x y os where *: "length v = 4096" "length t = 2000" "s' = (paint v t s)\<lparr>screen_x := x, screen_y := y, io := io s @ os\<rparr>"
    by (auto simp: repaint_def)
  then show ?thesis
    by (intro repaintI [OF *(1,2), where x = x and y = y and os = os])
       (simp add: paint_def video_frame_def page_frame_def set_filesys_meta_def Let_def)
qed

lemma printed_meta: "printed s s' \<Longrightarrow> printed (set_filesys_meta m p s) (set_filesys_meta m p s')"
proof -
  assume "printed s s'"
  then obtain out m' where o: "kprints out s s'" "\<forall>b. b \<notin> print_blocks \<longrightarrow> m' b = ram s b" "repaint (s\<lparr>ram := m'\<rparr>) s'"
    by (auto simp: printed_def kprints_def)
  have eq: "set_filesys_meta m p (s\<lparr>ram := m'\<rparr>) = (set_filesys_meta m p s)\<lparr>ram := m'\<rparr>"
    by (simp add: set_filesys_meta_def Let_def)
  have "kprints out (set_filesys_meta m p s) (set_filesys_meta m p s')"
    using o repaint_meta [OF o(3), of m p] by (auto simp: kprints_def eq)
  then show ?thesis by (auto simp: printed_def)
qed



lemma loader_info_reports:
  assumes ok: "console_ok s" and mb: "multiboot_ok (ram s) addr"
  shows "reports (loader_info addr s) s"
proof -
  have cmd: "reports (when_flag addr 2 (\<lambda>s. kprintf (line_lit ''cmdline = %s'') [Ptr (Flat, field s addr 16)] s) t) t"
    if t: "printed s t" for t
  proof (rule reports_flag [OF printed_ok [OF t]])
    assume "CHECK_FLAG (field t addr 0) 2"
    then obtain xs where "cstr (ram t) (Flat, field t addr 16) xs" using mb printed_multiboot [OF t] by (auto simp: multiboot_ok_field)
    then have "list_all2 (karg_ok (ram t)) [Ptr (Flat, field t addr 16)] [FStr xs]" by (simp add: karg_ok_def)
    then show "reports (kprintf (line_lit ''cmdline = %s'') [Ptr (Flat, field t addr 16)] t) t"
      by (rule kprintf_reports [OF printed_ok [OF t] formats_literal(11) formats_expand(11)])
  qed
  show ?thesis unfolding loader_info_def
    by (intro reports_bind reports_flag cmd kprintf_reports [OF _ formats_literal(2) formats_expand(2)]
        kprintf_reports [OF _ formats_literal(3) formats_expand(3)] kprintf_reports [OF _ formats_literal(4) formats_expand(4)])
       (auto intro: ok printed_trans)
qed

lemma maps_info_reports:
  assumes ok: "console_ok s" and mb: "multiboot_ok (ram s) addr"
  shows "reports (maps_info addr s) s"
proof -
  have mm: "reports (mmap_loop addr (field t addr 48) t) t" if t: "printed s t" and "CHECK_FLAG (field t addr 0) 6" for t
  proof -
    have "multiboot_ok (ram t) addr" using mb printed_multiboot [OF t] by simp
    with that(2) show ?thesis using mmap_loop_reports [OF printed_ok [OF t]] by (auto simp: multiboot_ok_field)
  qed
  show ?thesis unfolding maps_info_def
    by (intro reports_bind reports_flag mm kprintf_reports [OF _ formats_literal(8) formats_expand(8)]
        kprintf_reports [OF _ formats_literal(9) formats_expand(9)])
       (auto intro: ok printed_trans simp: printed_field)
qed

lemma modules_info_reports: "console_ok s \<Longrightarrow> reports (modules_info addr s) (with_modules addr s)"
  by (auto simp: modules_info_def with_modules_def when_flag_def Let_def intro!: reports_done modules_loop_reports)

lemma printed_with_modules:
  assumes "printed s s'"
  shows "printed (with_modules addr s) (with_modules addr s')"
  using assms printed_meta [OF assms] meta_cong [of "ram s'" "(Flat, p)" "ram s" s' for p] printed_ram [OF assms, of Flat]
  by (simp add: with_modules_def printed_field [OF assms])

lemma with_modules_ram [simp]: "ram (with_modules addr s) = ram s" "field (with_modules addr s) = field s"
  by (simp_all add: with_modules_def)

lemma with_modules_fields [simp]:
  "buf_index (with_modules addr s) = buf_index s" "ind_entered (with_modules addr s) = ind_entered s"
  "PTE_base (with_modules addr s) = PTE_base s" "proc (with_modules addr s) = proc s" "proc_esp (with_modules addr s) = proc_esp s"
  "proc_ebp (with_modules addr s) = proc_ebp s" "pcbs (with_modules addr s) = pcbs s" "idt (with_modules addr b) = idt b"
  by (simp_all add: with_modules_def set_filesys_meta_def Let_def)

theorem multiboot_report_ok:
  assumes ok: "console_ok s" and mb: "multiboot_ok (ram s) addr"
  shows "\<exists>s'. multiboot_report MULTIBOOT_BOOTLOADER_MAGIC addr s = Some (Inr (True, s')) \<and> printed (with_modules addr s) s'"
proof -
  obtain s1 where s1: "loader_info addr s = Some (Inr s1)" "printed s s1"
    using loader_info_reports [OF assms] by (auto simp: reports_def)
  obtain s2 where s2: "modules_info addr s1 = Some (Inr s2)" "printed (with_modules addr s1) s2"
    using modules_info_reports [OF printed_ok [OF s1(2)]] by (auto simp: reports_def)
  have p2: "printed (with_modules addr s) s2" using printed_with_modules [OF s1(2)] s2(2) by (rule printed_trans)
  have mb2: "multiboot_ok (ram s2) addr" using printed_multiboot [OF p2] mb by simp
  obtain s3 where s3: "maps_info addr s2 = Some (Inr s3)" "printed s2 s3"
    using maps_info_reports [OF printed_ok [OF p2] mb2] by (auto simp: reports_def)
  have "\<not> (CHECK_FLAG (field s2 addr 0) 4 \<and> CHECK_FLAG (field s2 addr 0) 5)" using mb2 by (simp add: multiboot_ok_field)
  then show ?thesis using s1(1) s2(1) s3(1) printed_trans [OF p2 s3(2)] by (auto simp: multiboot_report_def)
qed

text \<open>A wrong magic number is reported, and \<open>entry\<close> returns.\<close>

theorem multiboot_report_bad_magic:
  assumes "console_ok s" and "magic \<noteq> MULTIBOOT_BOOTLOADER_MAGIC"
  shows "\<exists>s'. multiboot_report magic addr s = Some (Inr (False, s')) \<and>
    kprints (lit ''Invalid magic number: 0x'' @ hex_text True magic @ [0x0A]) s s'"
proof -
  have "expand (line_lit ''Invalid magic number: 0x%#x'') [FNum magic] = Some (lit ''Invalid magic number: 0x'' @ hex_text True magic @ [0x0A])"
    by (simp add: line_lit_def lit_def conv_text_def)
  from kprintf_prints [OF assms(1) formats_literal(1) this, of "[Num magic]"] assms(2) show ?thesis
    by (auto simp: multiboot_report_def)
qed


subsection \<open>Devices and memory\<close>

lemma init_buffers_eq:
  assumes "length (buf_index s) = 6" "length (ind_entered s) = 6"
  shows "init_buffers s = Inr (s\<lparr>buf_index := replicate 6 0, ind_entered := replicate 6 0\<rparr>)"
proof -
  have z: "(replicate k 0 @ drop k xs)[k := 0] = replicate (Suc k) (0 :: int) @ drop (Suc k) xs" if "k < length xs" for k xs
    using that by (simp add: list_update_append Cons_nth_drop_Suc [symmetric] replicate_append_same [symmetric])
  have "for_each_res [0..<k] (\<lambda>i s. rbind (aset ''buf_index'' (buf_index s) (int i) 0) (\<lambda>b.
      rbind (aset ''ind_entered'' (ind_entered s) (int i) 0) (\<lambda>e. Inr (s\<lparr>buf_index := b, ind_entered := e\<rparr>)))) s
    = Inr (s\<lparr>buf_index := replicate k 0 @ drop k (buf_index s), ind_entered := replicate k 0 @ drop k (ind_entered s)\<rparr>)" if "k \<le> 6" for k
    using that
  proof (induction k)
    case (Suc k)
    then show ?case using assms z [of k] by (simp add: for_each_res_append aset_def del: replicate_Suc)
  qed simp
  from this [of 6] show ?thesis using assms by (simp add: init_buffers_def)
qed

lemma rtc_init_io: "rtc_init hw s = s\<lparr>io := io (rtc_init hw s)\<rparr>"
  by (simp add: rtc_init_def inb_def outb_def Let_def)

lemma i8259_init_frame: "i8259_init s = s\<lparr>io := io (i8259_init s), master_mask := 0xFF, slave_mask := 0xFF\<rparr>"
  by (simp add: i8259_init_def outb_def Let_def)

lemma enable_three:
  "enable_irq 8 (enable_irq 2 (enable_irq 1 s)) = s\<lparr>master_mask := (master_mask s AND NOT 2) AND NOT 4, slave_mask := slave_mask s AND NOT 1,
     io := io s @ [Out 0x21 (master_mask s AND NOT 2), Out 0x21 ((master_mask s AND NOT 2) AND NOT 4), Out 0xA1 (slave_mask s AND NOT 1)]\<rparr>"
  by (simp add: enable_irq_def outb_def Let_def)

definition only_irqs :: "nat set \<Rightarrow> 'a pic_scheme \<Rightarrow> bool" where
  "only_irqs I s \<longleftrightarrow> (\<forall>n<16. irq_masked s n \<longleftrightarrow> n \<notin> I) \<and> pic_synced s"

lemma only_irqs_devices:
  assumes "master_mask s = 0xF9" "slave_mask s = 0xFE" and "io s = es @ [Out 0x21 a, Out 0x21 0xF9, Out 0xA1 0xFE] @ cursor_out p"
  shows "only_irqs {1, 2, 8} s"
proof -
  have "irq_masked s n \<longleftrightarrow> n \<notin> {1, 2, 8}" if "n < 16" for n
  proof -
    have "n \<in> {0, 1, 2, 3, 4, 5, 6, 7, 8, 9, 10, 11, 12, 13, 14, 15}" using that by simp presburger
    then show ?thesis by (auto simp: irq_masked_def assms)
  qed
  moreover have "pic_synced s" by (simp add: pic_synced_def assms cursor_out_def Let_def)
  ultimately show ?thesis by (simp add: only_irqs_def)
qed

lemma console_init_terminals:
  assumes "console_ok s"
  shows "console_ok (init_terminals s)"
proof -
  have "length (frames (init_terminals s) f) = 4096" for f
    using assms by (simp add: init_terminals_def Let_def for_loop_def upt_rec page_frame_def console_ok_def)
  then show ?thesis using assms by (subst init_terminals_frame) (simp add: console_ok_def)
qed


text \<open>What the kernel has to find, and what it leaves before the first program is executed.\<close>

definition boot_ready :: "'a boot_scheme \<Rightarrow> bool" where
  "boot_ready s \<longleftrightarrow> console_ok s \<and> length (buf_index s) = 6 \<and> length (ind_entered s) = 6 \<and> length (idt s) = 256 \<and>
     PTE_base s AND 0xFFFFF000 = PTE_base s \<and> proc s = replicate 8 0"

definition started :: "layout \<Rightarrow> 'a boot_scheme \<Rightarrow> 'a boot_scheme \<Rightarrow> bool" where
  "started l s t \<longleftrightarrow>
     pinv t \<and> dir_std t \<and> only_irqs {1, 2, 8} t \<and> iflag t \<and>
     console_ok t \<and> screen_of t = (replicate 2000 0x20, 0) \<and> video_shows t \<and>
     idt t = init_idt (handler_at l) (idt s) \<and> idtr_loaded t \<and>
     tss_desc_ptr t = the_tss_desc (tss_addr l) (tss_size l) (stack_garbage l) \<and> tr t = KERNEL_TSS \<and> tss_ss0 t = KERNEL_DS \<and> tss_esp0 t = 0x800000 \<and>
     ldt_desc_ptr t = the_ldt_desc (ldt_addr l) (ldt_size l) (stack_garbage l) \<and> ldtr t = KERNEL_LDT \<and>
     proc t = proc s \<and> active_term t = 0 \<and> bg_term t = 0 \<and> proc_active t = [- 1, - 1, - 1] \<and> term_init t = [1, 0, 0] \<and>
     buf_index t = replicate 6 0 \<and> length (ind_entered t) = 6 \<and> \<not> capson t \<and> \<not> fflag t \<and> \<not> bit (PTE t 0) 0"

text \<open>What booting does not change.\<close>

definition boot_keeps :: "'a boot_scheme \<Rightarrow> 'a boot_scheme \<Rightarrow> bool" where
  "boot_keeps s t \<longleftrightarrow> (\<forall>b. b \<notin> print_blocks \<longrightarrow> ram t b = ram s b) \<and> pcbs t = pcbs s \<and> num_de t = num_de s \<and> N t = N s \<and> D t = D s \<and>
     bbp t = bbp s \<and> de_ptr t = de_ptr s \<and> inode_ptr t = inode_ptr s \<and> db_ptr t = db_ptr s \<and> dir_index t = dir_index s \<and>
     proc_esp t = proc_esp s \<and> proc_ebp t = proc_ebp s \<and> esp t = esp s \<and> ebp t = ebp s \<and>
     kbuf t = kbuf s \<and> shift_on t = shift_on s \<and> ctrl_on t = ctrl_on s \<and> alt_on t = alt_on s"

lemma init_devices_ok:
  fixes s :: "'a boot_scheme"
  assumes "boot_ready s"
  shows "\<exists>t. init_devices l hw s = Some (Inr t) \<and> started l s t \<and> boot_keeps s t"
proof -
  have r: "console_ok s" "length (buf_index s) = 6" "length (ind_entered s) = 6" "length (idt s) = 256"
    "PTE_base s AND 0xFFFFF000 = PTE_base s" "proc s = replicate 8 0" using assms by (simp_all add: boot_ready_def)
  define s1 where "s1 = (setup_tss l (setup_ldt l s))\<lparr>buf_index := replicate 6 0, ind_entered := replicate 6 0\<rparr>"
  have b1: "init_buffers (setup_tss l (setup_ldt l s)) = Inr s1"
    using r(2,3) by (simp add: s1_def init_buffers_eq setup_tss_def setup_ldt_def)
  have k1: "console_ok s1" using r(1) by (simp add: s1_def setup_tss_def setup_ldt_def console_ok_def)
  define s3 where "s3 = (init_terminals s1)\<lparr>capson := False, keyboard_flag := False\<rparr>"
  define s4 where "s4 = s3\<lparr>idt := init_idt (handler_at l) (idt s3), idtr_loaded := True\<rparr>"
  have k4: "console_ok s4" using console_init_terminals [OF k1] by (simp add: s4_def s3_def console_ok_def)
  obtain f4 where "init_terminals s1 = s1\<lparr>active_term := 0, term_init := [1, 0, 0], proc_active := [- 1, - 1, - 1], fake_sti := False,
     bg_term := 0, frames := f4\<rparr>" using init_terminals_frame [of s1] by blast
  then have f4: "s4 = s1\<lparr>active_term := 0, term_init := [1, 0, 0], proc_active := [- 1, - 1, - 1], fake_sti := False, bg_term := 0,
     frames := f4, capson := False, keyboard_flag := False, idt := init_idt (handler_at l) (idt s), idtr_loaded := True\<rparr>"
    by (simp add: s4_def s3_def s1_def setup_tss_def setup_ldt_def)
  define s5 where "s5 = i8259_init s4"
  obtain o5 where f5: "s5 = s4\<lparr>io := o5, master_mask := 0xFF, slave_mask := 0xFF\<rparr>"
    unfolding s5_def using i8259_init_frame [of s4] by blast
  define s6 where "s6 = rtc_init hw s5"
  obtain o6 where f6: "s6 = s5\<lparr>io := o6\<rparr>" unfolding s6_def using rtc_init_io [of hw s5] by blast
  define s7 where "s7 = init_paging s6"
  obtain pd pt c4 c0 where f7: "s7 = s6\<lparr>PDE := pd, PTE := pt, cr3 := 0, cr4 := c4, cr0 := c0\<rparr>"
    unfolding s7_def using init_paging_frame [of s6] by blast
  note fs = f4 f5 f6 f7 s1_def setup_tss_def setup_ldt_def
  have k7: "console_ok s7" using k4 by (simp add: f7 f6 f5 console_ok_def)
  have "PTE_base s6 AND 0xFFFFF000 = PTE_base s6" using r(5) by (simp add: f6 f5 f4 s1_def setup_tss_def setup_ldt_def)
  then have d7: "dir_inv s7" unfolding s7_def by (rule init_paging_dir_inv)
  have i7: "pinv s7" using d7 r(6) by (simp add: pinv_def slots_inv_def) (simp add: fs)
  have ds7: "dir_std s7" unfolding s7_def by (simp add: dir_std_def init_paging_PDE_proc)
  obtain s8 where s8: "kprintf (line_lit ''Enabling Interrupts'') [] s7 = Some (Inr s8)" "printed s7 s8"
    using kprintf_plain_reports [OF k7 plain_formats(5,6)] by (auto simp: reports_def)
  obtain m8 x8 y8 f8 b8 o8 where f8: "s8 = s7\<lparr>ram := m8, screen_x := x8, screen_y := y8, frames := f8, scr_buf := b8, io := o8\<rparr>"
    using printed_frame [OF s8(2)] by blast
  have m8: "m8 b = ram s b" if "b \<notin> print_blocks" for b
    using printed_ram [OF s8(2) that] by (simp add: f8 fs)
  define s9 where "s9 = enable_irq 8 (enable_irq 2 (enable_irq 1 (sti s8)))"
  have f9: "s9 = s8\<lparr>iflag := True, master_mask := 0xF9, slave_mask := 0xFE, io := o8 @ [Out 0x21 0xFD, Out 0x21 0xF9, Out 0xA1 0xFE]\<rparr>"
    unfolding s9_def enable_three by (simp add: f8 fs sti_def)
  have k9: "console_ok s9" using printed_ok [OF s8(2)] by (simp add: f9 console_ok_def)
  obtain v where v: "clear s9 = Inr (change_coord 0 0 (paint v (replicate 2000 0x20) s9))" "length v = 4096" "displays v (replicate 2000 0x20)"
    by (rule clear_paint [OF k9])
  define t where "t = (change_coord 0 0 (paint v (replicate 2000 0x20) s9))\<lparr>fflag := False\<rparr>"
  have s4': "s3\<lparr>idt := init_idt (handler_at l) (idt (init_terminals s1)), idtr_loaded := True\<rparr> = s4"
    by (simp add: s4_def s3_def)
  have run: "init_devices l hw s = Some (Inr t)"
    using s8(1) v(1) unfolding init_devices_def b1
    by (simp add: Let_def s3_def [symmetric] s4' s5_def [symmetric] s6_def [symmetric] s7_def [symmetric] s9_def [symmetric] t_def)
  have ft: "t = s9\<lparr>frames := (frames s9)(video_frame s9 := v), scr_buf := (scr_buf s9)[0 := replicate 2000 0x20], screen_x := 0, screen_y := 0,
     io := io s9 @ cursor_out 0, fflag := False\<rparr>"
    unfolding t_def change_coord_eq by (simp add: paint_def f9 f8 fs)
  have st: "maps t = maps s7" "PDE t = PDE s7" by (simp_all add: maps_def ft f9 f8)
  have pt: "pinv t" using pinv_still [OF st(1) i7] .
  have dt: "dir_std t" using ds7 st(2) by (simp add: dir_std_def)
  have l9: "length (scr_buf s9) = 3" "\<And>f. length (frames s9 f) = 4096" "\<And>r. r \<in> set (scr_buf s9) \<Longrightarrow> length r = 2000"
    "scr_buf s9 \<noteq> []" using k9 by (auto simp: console_ok_def)
  have bg: "bg_term s9 = 0" by (simp add: f9 f8 fs)
  have kt: "console_ok t" using l9 v(2) bg by (auto simp: ft console_ok_def dest: set_update_subset_insert [THEN subsetD])
  have scr: "screen_of t = (replicate 2000 0x20, 0)" using l9 bg by (simp add: screen_of_def ft)
  have vid: "video_shows t" using v(3) l9 bg by (simp add: video_shows_def ft video_frame_def page_frame_def)
  have irq: "only_irqs {1, 2, 8} t"
    by (rule only_irqs_devices [where es = o8 and a = "0xFD" and p = 0]) (simp_all add: ft f9)
  have p0: "\<not> bit (PTE t 0) 0"
  proof -
    have "PTE t = PTE s7" using st(1) by (simp add: maps_def)
    then show ?thesis by (simp add: s7_def init_paging_PTE)
  qed
  have "started l s t" unfolding started_def using pt dt kt scr vid irq p0 by (simp add: ft f9 f8 fs)
  moreover have "boot_keeps s t" using m8 by (simp add: boot_keeps_def ft f9 f8 fs)
  ultimately show ?thesis using run by blast
qed


subsection \<open>The whole of \<open>entry\<close>\<close>

lemma clear_keeps:
  assumes "console_ok s"
  shows "\<exists>s'. clear s = Inr s' \<and> console_ok s' \<and> screen_of s' = (replicate 2000 0x20, 0) \<and>
    s' = s\<lparr>screen_x := 0, screen_y := 0, frames := frames s', scr_buf := scr_buf s', io := io s'\<rparr>"
proof -
  obtain v where v: "clear s = Inr (change_coord 0 0 (paint v (replicate 2000 0x20) s))" "length v = 4096"
    by (rule clear_paint [OF assms])
  have "nat (bg_term s) < 3" "length (scr_buf s) = 3" using assms by (auto simp: console_ok_def)
  then show ?thesis using assms v
    by (auto simp: change_coord_eq paint_def console_ok_def screen_of_def dest: set_update_subset_insert [THEN subsetD])
qed

text \<open>The state in which the modules have been taken over.\<close>

theorem boot_kernel_ok:
  fixes s :: "'a boot_scheme"
  assumes rd: "boot_ready s" and mb: "multiboot_ok (ram s) addr"
  shows "\<exists>t. boot_kernel l hw MULTIBOOT_BOOTLOADER_MAGIC addr s = Some (Inr (True, t)) \<and> started l s t \<and>
    boot_keeps (with_modules addr s) t"
proof -
  have "\<exists>s1. clear s = Inr s1 \<and> console_ok s1 \<and> (\<exists>x y fr b es. s1 = s\<lparr>screen_x := x, screen_y := y, frames := fr, scr_buf := b, io := es\<rparr>)"
    using clear_keeps [of s] rd unfolding boot_ready_def by blast
  then obtain s1 x y fr b es where s1: "clear s = Inr s1" "console_ok s1"
    and f1: "s1 = s\<lparr>screen_x := x, screen_y := y, frames := fr, scr_buf := b, io := es\<rparr>" by blast
  have r1: "ram s1 = ram s" "field s1 = field s" by (simp_all add: f1 field_def fun_eq_iff)
  then have "multiboot_ok (ram s1) addr" using mb by simp
  then obtain s2 where s2: "multiboot_report MULTIBOOT_BOOTLOADER_MAGIC addr s1 = Some (Inr (True, s2))" "printed (with_modules addr s1) s2"
    using multiboot_report_ok [OF s1(2)] by blast
  obtain m2 x2 y2 fr2 b2 o2 where f2: "s2 = (with_modules addr s1)\<lparr>ram := m2, screen_x := x2, screen_y := y2, frames := fr2, scr_buf := b2, io := o2\<rparr>"
    using printed_frame [OF s2(2)] by blast
  have m2: "m2 b = ram s b" if "b \<notin> print_blocks" for b using printed_ram [OF s2(2) that] by (simp add: f2 r1)
  have wm: "with_modules addr s1 = (with_modules addr s)\<lparr>screen_x := x, screen_y := y, frames := fr, scr_buf := b, io := es\<rparr>"
    by (simp add: with_modules_def r1) (simp add: set_filesys_meta_def Let_def f1)
  have r2: "boot_ready s2" using rd printed_ok [OF s2(2)] by (simp add: boot_ready_def f2 wm)
  obtain t where t: "init_devices l hw s2 = Some (Inr t)" "started l s2 t" "boot_keeps s2 t" using init_devices_ok [OF r2] by blast
  have "boot_keeps (with_modules addr s) t" using t(3) m2 by (simp add: boot_keeps_def f2 wm)
  moreover have "started l s t" using t(2) by (simp add: started_def f2 wm)
  ultimately show ?thesis using s1(1) s2(1) t(1) by (simp add: boot_kernel_def)
qed

text \<open>Executing the shell: if the first module is a file system with a program \<open>shell\<close> linked where the
  programs of the repository are, the kernel enters it, in slot 0 of an empty process table.\<close>

definition boot_image :: "u32 \<Rightarrow> 'a boot_scheme \<Rightarrow> u32 \<Rightarrow> u8 list \<Rightarrow> bool" where
  "boot_image addr s inode c \<longleftrightarrow>
     (let s = with_modules addr s
      in exec_fs s \<and> fst (bbp s) = Flat \<and> exec_file s (lit ''shell'') inode c \<and> elf c \<and> unat (drop_bit 22 (elf_entry c)) = 32 \<and>
        length (pcb_fd (pcbs s (pcb_loc 0))) = 8)"

lemma shell_command: "command_line (stores m blahp (lit ''shell '' @ [0])) blahp (lit ''shell'') 1 []"
proof -
  let ?m = "stores m blahp (lit ''shell '' @ [0])"
  have "length (lit ''shell '' @ [0]) = 7" by (simp add: lit_def)
  then have "take 7 (bytes ?m blahp 20) = lit ''shell '' @ [0]"
    using bytes_stores_same [of "lit ''shell '' @ [0]" m blahp] by (simp add: take_bytes)
  then have "bytes ?m blahp 20 = (lit ''shell '' @ [0]) @ drop 7 (bytes ?m blahp 20)" by (metis append_take_drop_id)
  moreover have "lit ''shell '' @ [0] = lit ''shell'' @ replicate 1 0x20 @ [] @ [0]" by (simp add: lit_def)
  ultimately have "bytes ?m blahp 20 = lit ''shell'' @ replicate 1 0x20 @ [] @ [0] @ drop 7 (bytes ?m blahp 20)"
    by (simp only: append.assoc)
  then show ?thesis unfolding command_line_def by (intro exI conjI) (assumption | simp add: lit_def)+
qed

lemma fs_fields_cong:
  fixes s t :: "'a kernel_scheme"
  assumes "num_de t = num_de s" "N t = N s" "D t = D s" "bbp t = bbp s" "de_ptr t = de_ptr s" "inode_ptr t = inode_ptr s" "db_ptr t = db_ptr s"
  shows "fs_ok t = fs_ok s" "dirents m t = dirents m s" "content m t = content m s" "file_size m t = file_size m s"
  using assms by (simp_all add: fs_ok_def dirents_def dirent_def de_at_def content_def file_byte_def file_size_def inode_at_def fun_eq_iff)


text \<open>The first process, and what starting it leaves of the state \<open>t\<close> that \<open>boot_kernel\<close> left.\<close>

definition first_process :: "'a boot_scheme \<Rightarrow> 'a boot_scheme \<Rightarrow> bool" where
  "first_process t s' \<longleftrightarrow> unstart s' = unstart t \<and> bg_term s' = 0 \<and> (\<forall>f. \<exists>g. frames s' f = frames t g) \<and> dir_std s' \<and>
     \<not> bit (PDE s' 1 0) 7 \<and> PTE s' 0 = PTE t 0 \<and> tss_esp0 s' AND 0xFFFE000 = pcb_vaddr 0 \<and>
     pcbs s' = (pcbs t)(pcb_loc 0 := child_pcb (esp t) (ebp t) 0 (pcbs t (pcb_loc 0))) \<and>
     (\<forall>b. b \<notin> exec_blocks \<union> {User 0, fst blahp} \<longrightarrow> ram s' b = ram t b)"

abbreviation boot_command :: event where "boot_command \<equiv> Command ''entry.blahp'' (lit ''shell '' @ [0])"

theorem entry_starts_shell:
  fixes s :: "'a boot_scheme"
  assumes rd: "boot_ready s" and mb: "multiboot_ok (ram s) addr" and im: "boot_image addr s inode c"
    and tab: "length (proc_esp s) = 3" "length (proc_ebp s) = 3"
  shows "\<exists>t s'. boot_kernel l hw MULTIBOOT_BOOTLOADER_MAGIC addr s = Some (Inr (True, t)) \<and> started l s t \<and>
    entry l hw check MULTIBOOT_BOOTLOADER_MAGIC addr s = Some (Inr (Shell (Enter (elf_entry c) 0x83FFFFC), s')) \<and>
    cr3 s' = 1 \<and> prog_mapped 0 s' \<and> proc s' = [1, 0, 0, 0, 0, 0, 0, 0] \<and> proc_active s' = [0, - 1, - 1] \<and>
    (\<forall>n<length c. ld (ram s') (User 0, 0x48000) (of_nat n) = c ! n) \<and> cstr (ram s') args_p [] \<and> kstep hw check t (boot_command) s' \<and>
    well_behaved check (t, boot_command, s') \<and> boot_keeps (with_modules addr s) t \<and> first_process t s'"
proof -
  let ?w = "with_modules addr s"
  obtain t where t: "boot_kernel l hw MULTIBOOT_BOOTLOADER_MAGIC addr s = Some (Inr (True, t))" "started l s t" "boot_keeps ?w t"
    using boot_kernel_ok [OF rd mb] by blast
  define u where "u = cli (t\<lparr>ram := stores (ram t) blahp (lit ''shell '' @ [0])\<rparr>)"
  have w: "exec_fs ?w" "fst (bbp ?w) = Flat" "exec_file ?w (lit ''shell'') inode c" "elf c" "unat (drop_bit 22 (elf_entry c)) = 32"
    "length (pcb_fd (pcbs ?w (pcb_loc 0))) = 8" using im by (simp_all add: boot_image_def Let_def)
  have ru: "ram u (fst (bbp ?w)) = ram ?w (fst (bbp ?w))"
    using t(3) w(2) by (simp add: u_def cli_def stores_def boot_keeps_def)
  have fu: "num_de u = num_de ?w" "N u = N ?w" "D u = D ?w" "bbp u = bbp ?w" "de_ptr u = de_ptr ?w" "inode_ptr u = inode_ptr ?w" "db_ptr u = db_ptr ?w"
    and eu: "esp u = esp ?w"
    using t(3) by (simp_all add: u_def cli_def boot_keeps_def)
  note fc = fs_fields_cong [OF fu]
  have ok: "fs_ok ?w" using w(1) by (simp add: exec_fs_def)
  note sb = same_block_dirents [where m = "ram u" and m' = "ram ?w", OF ok ru] same_block_file [where m = "ram u" and m' = "ram ?w", OF ok ru]
  have fs: "exec_fs u" using w(1) fc fu by (simp add: exec_fs_def)
  have ef: "exec_file u (lit ''shell'') inode c" using w(3) unfolding exec_file_def file_buf_fits_def unfolding fc sb fu eu by blast
  have cl: "command_line (ram u) blahp (lit ''shell'') 1 []" using shell_command by (simp add: u_def cli_def)
  have inv: "dir_inv u" "dir_std u" "slots_inv u" "table_ok u"
    using t(2,3) tab rd
    by (simp_all add: started_def boot_keeps_def boot_ready_def pinv_def u_def cli_def dir_inv_def dir_std_def slots_inv_def table_ok_def)
  have pu: "proc u = replicate 8 0" "proc_active u = [- 1, - 1, - 1]" "active_term u = 0" "pcbs u = pcbs ?w"
    using t(2,3) rd by (simp_all add: u_def cli_def started_def boot_ready_def boot_keeps_def)
  obtain s' where s': "execute check blahp u = Some (Inr (Enter (elf_entry c) 0x83FFFFC, s'))" "cr3 s' = int 0 + 1" "proc s' = (proc u)[0 := 1]"
    "proc_active s' = (proc_active u)[nat (active_term u) := int 0]" "\<forall>n<length c. ld (ram s') (User 0, 0x48000) (of_nat n) = c ! n"
    "cstr (ram s') args_p []" "prog_mapped 0 s'" "dir_std s'" "tss_esp0 s' AND 0xFFFE000 = pcb_vaddr 0" "bg_term s' = 0"
    "\<forall>f. \<exists>g. frames s' f = frames u g" "\<not> bit (PDE s' 1 0) 7" "PTE s' 0 = PTE u 0"
    "pcbs s' = (pcbs u)(pcb_loc 0 := child_pcb (esp u) (ebp u) 0 (pcbs u (pcb_loc 0)))"
    "\<forall>b. b \<notin> exec_blocks \<longrightarrow> b \<noteq> User 0 \<longrightarrow> ram s' b = ram u b"
    using execute_starts [OF cl _ fs ef w(4,5) inv, of 0 check] w(2,6) pu fu by (auto simp: exec_blocks_def slot_used_def)
  have "entry l hw check MULTIBOOT_BOOTLOADER_MAGIC addr s = Some (Inr (Shell (Enter (elf_entry c) 0x83FFFFC), s'))"
    using t(1) s'(1) by (simp add: entry_def u_def Let_def)
  moreover have "kstep hw check t (boot_command) s'"
    by (rule kstep.command) (use s'(1) in \<open>simp add: u_def\<close>)
  moreover have "linked check blahp u" using w(5) by (intro linked_loaded [OF cl _ fs ef w(4)]) (simp_all add: exec_blocks_def)
  then have "well_behaved check (t, boot_command, s')" by (simp add: u_def)
  moreover have "first_process t s'"
  proof -
    have "unstart u = unstart t" by (simp add: u_def unstart_def cli_def)
    then have "unstart s' = unstart t" using execute_frame [OF s'(1)] by simp
    moreover have "ram s' b = ram t b" if "b \<notin> exec_blocks \<union> {User 0, fst blahp}" for b
      using s'(15) that by (simp add: u_def cli_def stores_other_block)
    moreover have "frames u = frames t" "PTE u = PTE t" "pcbs u = pcbs t" "esp u = esp t" "ebp u = ebp t" by (simp_all add: u_def cli_def)
    ultimately show ?thesis using s'(8-14) by (simp add: first_process_def)
  qed
  ultimately show ?thesis using t s'(1-7) pu by (auto simp: eval_nat_numeral simp del: well_behaved.simps)
qed


corollary boot_kernel_pinv:
  assumes "boot_ready s" and "multiboot_ok (ram s) addr" and "boot_kernel l hw magic addr s = Some (Inr (True, t))"
  shows "started l s t"
proof -
  have "magic = MULTIBOOT_BOOTLOADER_MAGIC"
  proof (rule ccontr)
    assume *: "magic \<noteq> MULTIBOOT_BOOTLOADER_MAGIC"
    obtain s1 where s1: "clear s = Inr s1" "console_ok s1" using clear_keeps [of s] assms(1) by (auto simp: boot_ready_def)
    show False using multiboot_report_bad_magic [OF s1(2) *, of addr] s1(1) assms(3) by (auto simp: boot_kernel_def)
  qed
  then show ?thesis using boot_kernel_ok [OF assms(1,2), of l hw] assms(3) by auto
qed


theorem entry_bad_magic:
  assumes "console_ok s" and "magic \<noteq> MULTIBOOT_BOOTLOADER_MAGIC"
  shows "\<exists>s'. entry l hw check magic addr s = Some (Inr (Returned, s')) \<and>
    screen_of s' = fold screen_put (lit ''Invalid magic number: 0x'' @ hex_text True magic @ [0x0A]) (replicate 2000 0x20, 0) \<and>
    proc s' = proc s \<and> pcbs s' = pcbs s"
proof -
  obtain s1 where s1: "clear s = Inr s1" "console_ok s1" "screen_of s1 = (replicate 2000 0x20, 0)"
    and f1: "s1 = s\<lparr>screen_x := 0, screen_y := 0, frames := frames s1, scr_buf := scr_buf s1, io := io s1\<rparr>"
    using clear_keeps [OF assms(1)] by blast
  obtain s2 where s2: "multiboot_report magic addr s1 = Some (Inr (False, s2))"
    "kprints (lit ''Invalid magic number: 0x'' @ hex_text True magic @ [0x0A]) s1 s2"
    using multiboot_report_bad_magic [OF s1(2) assms(2)] by blast
  have "printed s1 s2" using s2(2) by (auto simp: printed_def)
  note pf = printed_fields [OF this]
  have "proc s1 = proc s" "pcbs s1 = pcbs s" by (subst f1, simp)+
  then show ?thesis using s1 s2 pf by (simp add: entry_def boot_kernel_def kprints_def)
qed

end
