(* ===== verification/Boot_Session.thy ===== *)
theory Boot_Session
  imports Boot Kernel_Os
begin

text \<open>
  From the boot loader to the first program: the state in which \<open>entry\<close> enters the shell is a good
  state of process 0, so everything proved of system calls and programs applies from there on.
\<close>

text \<open>When user code makes a call, the processor takes the kernel's stack from the task state segment.\<close>

definition on_call :: "'a kernel_scheme \<Rightarrow> 'a kernel_scheme" where
  "on_call s = s\<lparr>esp := tss_esp0 s\<rparr>"

text \<open>The static variables before \<open>entry\<close>: no key is held, the line buffer of the first terminal ends with a
  NUL, and the control block of the first process has no open files (\<open>execute\<close> sets up two descriptors only).\<close>

definition cold :: "'a boot_scheme \<Rightarrow> bool" where
  "cold s \<longleftrightarrow> \<not> shift_on s \<and> \<not> ctrl_on s \<and> \<not> alt_on s \<and> length (kbuf s) = 6 \<and> (\<forall>r\<in>set (kbuf s). length r = 1024) \<and>
     0 \<in> set (drop 1023 (kbuf s ! 0)) \<and> (\<forall>i. 2 \<le> i \<longrightarrow> i < 8 \<longrightarrow> fd_flags (cur_fd s (pcb_loc 0) i) AND 1 = 0)"

text \<open>The directory of the file system image lists files of the known kinds, with sizes that are not negative.\<close>

definition good_disk :: "'a kernel_scheme \<Rightarrow> bool" where
  "good_disk s \<longleftrightarrow> (\<forall>d\<in>set (dirents (ram s) s). fst (snd d) \<le> 2 \<and> 0 \<le> sint (file_size (ram s) s (snd (snd d))) \<and>
        (fst (snd d) = 2 \<longrightarrow> snd (snd d) < N s)) \<and>
     unat (dir_index s) \<le> length (dirents (ram s) s)"

subsection \<open>What starting the first process leaves\<close>

lemma unstart_fields:
  fixes s t :: "'a kernel_scheme"
  assumes "unstart s = unstart t"
  shows "kbuf s = kbuf t" "buf_index s = buf_index t" "ind_entered s = ind_entered t" "fflag s = fflag t" "capson s = capson t"
    "shift_on s = shift_on t" "ctrl_on s = ctrl_on t" "alt_on s = alt_on t" "scr_buf s = scr_buf t" "screen_x s = screen_x t"
    "screen_y s = screen_y t" "active_term s = active_term t" "num_de s = num_de t" "N s = N t" "D s = D t" "bbp s = bbp t"
    "de_ptr s = de_ptr t" "inode_ptr s = inode_ptr t" "db_ptr s = db_ptr t" "dir_index s = dir_index t"
proof -
  have f: "kbuf (unstart s) = kbuf s" "buf_index (unstart s) = buf_index s" "ind_entered (unstart s) = ind_entered s" "fflag (unstart s) = fflag s"
    "capson (unstart s) = capson s" "shift_on (unstart s) = shift_on s" "ctrl_on (unstart s) = ctrl_on s" "alt_on (unstart s) = alt_on s"
    "scr_buf (unstart s) = scr_buf s" "screen_x (unstart s) = screen_x s" "screen_y (unstart s) = screen_y s" "active_term (unstart s) = active_term s"
    "num_de (unstart s) = num_de s" "N (unstart s) = N s" "D (unstart s) = D s" "bbp (unstart s) = bbp s" "de_ptr (unstart s) = de_ptr s"
    "inode_ptr (unstart s) = inode_ptr s" "db_ptr (unstart s) = db_ptr s" "dir_index (unstart s) = dir_index s" for s :: "'a kernel_scheme"
    by (simp_all add: unstart_def)
  note e = f [of s] f [of t]
  show "kbuf s = kbuf t" "buf_index s = buf_index t" "ind_entered s = ind_entered t" "fflag s = fflag t" "capson s = capson t"
    "shift_on s = shift_on t" "ctrl_on s = ctrl_on t" "alt_on s = alt_on t" "scr_buf s = scr_buf t" "screen_x s = screen_x t"
    "screen_y s = screen_y t" "active_term s = active_term t" "num_de s = num_de t" "N s = N t" "D s = D t" "bbp s = bbp t"
    "de_ptr s = de_ptr t" "inode_ptr s = inode_ptr t" "db_ptr s = db_ptr t" "dir_index s = dir_index t"
    using e by (simp_all only: assms)
qed

lemma first_runs:
  assumes "first_process t s'" and "cr3 s' = 1" and "prog_mapped 0 s'" and "\<not> bit (PTE t 0) 0" and "length (pcb_fd (pcbs t (pcb_loc 0))) = 8"
  shows "runs_in 0 (on_call s')"
proof -
  have f: "dir_std s'" "\<not> bit (PDE s' 1 0) 7" "PTE s' 0 = PTE t 0" "tss_esp0 s' AND 0xFFFE000 = pcb_vaddr 0"
    "pcbs s' (pcb_loc 0) = child_pcb (esp t) (ebp t) 0 (pcbs t (pcb_loc 0))" using assms(1) by (simp_all add: first_process_def)
  have "translate (on_call s') v = translate s' v" for v by (rule translate_cong) (simp_all add: on_call_def)
  then have "get_curr_pcb (on_call s') = pcb_phys s' (pcb_vaddr 0)" using f(4) by (simp add: get_curr_pcb_def pcb_phys_def on_call_def)
  also have "\<dots> = Inr (pcb_loc 0)" using pcb_alias(1) [OF f(1), of 0 0] assms(2) by simp
  finally show ?thesis
    using assms(2-5) f by (simp add: runs_in_def in_process_def null_guarded_def on_call_def prog_mapped_def child_pcb_def Let_def)
qed

lemma first_terminal:
  assumes "first_process t s'" and "started l s t" and "boot_keeps r t" and "cold r"
  shows "term_ready (on_call s')" "screen_of (on_call s') = (replicate 2000 0x20, 0)"
proof -
  note u = unstart_fields [of s' t]
  have f: "unstart s' = unstart t" "bg_term s' = 0" "\<forall>f. \<exists>g. frames s' f = frames t g" using assms(1) by (simp_all add: first_process_def)
  have t: "console_ok t" "screen_of t = (replicate 2000 0x20, 0)" "active_term t = 0" "bg_term t = 0" "buf_index t = replicate 6 0"
    "length (ind_entered t) = 6" "\<not> capson t" "\<not> fflag t" using assms(2) by (simp_all add: started_def)
  have k: "kbuf t = kbuf r" "shift_on t = shift_on r" "ctrl_on t = ctrl_on r" "alt_on t = alt_on r" using assms(3) by (simp_all add: boot_keeps_def)
  have fr: "length (frames s' f) = 4096" for f using f(3) t(1) unfolding console_ok_def by metis
  have c: "console_ok (on_call s')" using t(1,4) f(2) fr by (simp add: console_ok_def on_call_def u [OF f(1)])
  show "term_ready (on_call s')" using assms(4) c t k
    by (simp add: term_ready_def kbd_ok_def no_modifiers_def cold_def on_call_def u [OF f(1)])
  show "screen_of (on_call s') = (replicate 2000 0x20, 0)" using t(2,4) f(2) by (simp add: screen_of_def on_call_def u [OF f(1)])
qed

lemma first_disk:
  fixes r t s' :: "'a boot_scheme"
  assumes "first_process t s'" and "boot_keeps r t" and "exec_fs r" and "fst (bbp r) = Flat" and "good_disk r"
  shows "disk_ready 0 (on_call s')" "disk_view (on_call s') = disk_view r"
    "content (ram (on_call s')) (on_call s') = content (ram r) r" "dirents (ram (on_call s')) (on_call s') = dirents (ram r) r"
proof -
  let ?s = "on_call s'"
  note u = unstart_fields [of s' t]
  have un: "unstart s' = unstart t" using assms(1) by (simp add: first_process_def)
  have k: "num_de ?s = num_de r" "N ?s = N r" "D ?s = D r" "bbp ?s = bbp r" "de_ptr ?s = de_ptr r" "inode_ptr ?s = inode_ptr r" "db_ptr ?s = db_ptr r"
    "dir_index ?s = dir_index r" using assms(2) by (simp_all add: boot_keeps_def on_call_def u [OF un])
  have "ram ?s Flat = ram t Flat" using assms(1) by (simp add: first_process_def on_call_def exec_blocks_def)
  also have "ram t Flat = ram r Flat" using assms(2) by (simp add: boot_keeps_def print_blocks_def)
  finally have m: "ram ?s (fst (bbp r)) = ram r (fst (bbp r))" using assms(4) by simp
  have ok: "fs_ok r" using assms(3) by (simp add: exec_fs_def)
  note fc = fs_fields_cong [OF k(1-7)]
  note sb = same_block_dirents [where m = "ram ?s" and m' = "ram r", OF ok m] same_block_file [where m = "ram ?s" and m' = "ram r", OF ok m]
  have "fst (bbp ?s) \<notin> dentry_blocks \<union> {fst dir_dentry, User 0}" using assms(4) k(4) by (simp add: dentry_blocks_def)
  then show "disk_ready 0 ?s"
    using assms(3,5) unfolding disk_ready_def good_disk_def exec_fs_def fc sb k by (simp add: k fc)
  show "disk_view ?s = disk_view r" unfolding disk_view_def [abs_def] fc sb k ..
  show "content (ram ?s) ?s = content (ram r) r" "dirents (ram ?s) ?s = dirents (ram r) r" unfolding fc sb by (rule refl)+
qed

lemma first_fds:
  assumes "first_process t s'" and "boot_keeps r t" and "cold r" and "length (pcb_fd (pcbs t (pcb_loc 0))) = 8"
  shows "fds_ready (pcb_loc 0) (on_call s')" "fd_view (pcb_loc 0) (on_call s') = (\<lambda>i. if i < 2 then Some Term else None)"
proof -
  let ?s = "on_call s'" and ?t = "\<lparr>fd_fotp = Otp_terminal, fd_inode = 0, fd_fp = 0, fd_flags = 7\<rparr>"
  have p: "pcbs ?s (pcb_loc 0) = child_pcb (esp t) (ebp t) 0 (pcbs t (pcb_loc 0))" "pcbs t = pcbs r"
    using assms(1,2) by (simp_all add: first_process_def boot_keeps_def on_call_def)
  have c: "cur_fd ?s (pcb_loc 0) i = (if i < 2 then ?t else cur_fd r (pcb_loc 0) i)" if "i < 8" for i
    using assms(4) that p by (auto simp: cur_fd_def child_pcb_def Let_def nth_list_update less_2_cases_iff)
  have z: "fd_flags (cur_fd ?s (pcb_loc 0) i) AND 1 = 0" if "2 \<le> i" "i < 8" for i using c [OF that(2)] that assms(3) by (simp add: cold_def)
  show "fds_ready (pcb_loc 0) ?s" using c z unfolding fds_ready_def entry_ready_def by (auto simp: not_less)
  show "fd_view (pcb_loc 0) ?s = (\<lambda>i. if i < 2 then Some Term else None)"
    using c z by (auto simp: fd_view_def entry_view_def fun_eq_iff not_less)
qed

subsection \<open>From the boot loader to the shell\<close>

theorem boot_good:
  fixes s :: "'a boot_scheme"
  assumes "boot_ready s" and "multiboot_ok (ram s) addr" and "boot_image addr s inode c"
    and "length (proc_esp s) = 3" "length (proc_ebp s) = 3"
    and "cold (with_modules addr s)" and "good_disk (with_modules addr s)" and "\<forall>scs\<in>set ks. typed_line scs"
  shows "\<exists>s'. entry l hw check MULTIBOOT_BOOTLOADER_MAGIC addr s = Some (Inr (Shell (Enter (elf_entry c) 0x83FFFFC), s')) \<and>
    kernel_good 0 (on_call s', ks) \<and> v_screen (kernel_view 0 (on_call s', ks)) = (replicate 2000 0x20, 0) \<and>
    v_fds (kernel_view 0 (on_call s', ks)) = (\<lambda>i. if i < 2 then Some Term else None) \<and>
    v_disk (kernel_view 0 (on_call s', ks)) = disk_view (with_modules addr s) \<and>
    v_keys (kernel_view 0 (on_call s', ks)) = map (typed \<circ> butlast) ks \<and> v_arg (kernel_view 0 (on_call s', ks)) = None \<and>
    (\<forall>n<length c. ld (ram s') (User 0, 0x48000) (of_nat n) = c ! n)"
proof -
  let ?w = "with_modules addr s"
  obtain t s' where e: "started l s t" "entry l hw check MULTIBOOT_BOOTLOADER_MAGIC addr s = Some (Inr (Shell (Enter (elf_entry c) 0x83FFFFC), s'))"
    "cr3 s' = 1" "prog_mapped 0 s'" "\<forall>n<length c. ld (ram s') (User 0, 0x48000) (of_nat n) = c ! n" "cstr (ram s') args_p []"
    "boot_keeps ?w t" "first_process t s'"
    using entry_starts_shell [OF assms(1-5), of l hw check] by blast
  have im: "exec_fs ?w" "fst (bbp ?w) = Flat" "length (pcb_fd (pcbs ?w (pcb_loc 0))) = 8" using assms(3) by (simp_all add: boot_image_def Let_def)
  have fd8: "length (pcb_fd (pcbs t (pcb_loc 0))) = 8" using e(7) im(3) by (simp add: boot_keeps_def)
  have p0: "\<not> bit (PTE t 0) 0" using e(1) by (simp add: started_def)
  have ag: "cstr (ram (on_call s')) args_p []" using e(6) by (simp add: on_call_def)
  note fr = first_runs [OF e(8,3,4) p0 fd8] and ft = first_terminal [OF e(8,1,7) assms(6)]
    and fk = first_disk [OF e(8,7) im(1,2) assms(7)] and ff = first_fds [OF e(8,7) assms(6) fd8]
  have "args_ready (on_call s')" using ag by (auto simp: args_ready_def)
  then have "kernel_good 0 (on_call s', ks)" using fr ft fk ff assms(8) by (simp add: kernel_good_def)
  moreover have "arg_view (ram (on_call s')) = None" using arg_view_cstr [OF ag] by simp
  ultimately show ?thesis using e(2,5) ft(2) fk(2) ff(2) by (intro exI [of _ s']) (simp add: kernel_view_def)
qed

text \<open>The file of a program that is linked at 0x8048000 holds its string literals; the file fits the page.\<close>

definition image_has :: "u8 list \<Rightarrow> (u8 list \<Rightarrow> u32) \<Rightarrow> u8 list list \<Rightarrow> bool" where
  "image_has c la L \<longleftrightarrow> length c \<le> 0x3B8000 \<and>
     list_all (\<lambda>xs. 0 \<notin> set xs \<and> (let n = unat (la xs - 0x8048000) in take (Suc (length xs)) (drop n c) = xs @ [0])) L"

lemma image_address:
  assumes "n < 0x3B8000"
  shows "prog_addr (0x8048000 + of_nat n)" "prog_off (0x8048000 + of_nat n) = 0x48000 + of_nat n"
proof -
  have a: "(0x8048000 :: u32) + of_nat n = of_nat (0x8048000 + n)" by simp
  have u: "unat ((0x8048000 :: u32) + of_nat n) = 0x8048000 + n" unfolding a using assms by (intro unat_u32_of_nat) simp
  have "unat (drop_bit 22 ((0x8048000 :: u32) + of_nat n)) = unat (32 :: u32)" using u assms by (simp add: drop_bit_eq_div unat_div)
  then show "prog_addr (0x8048000 + of_nat n)" unfolding prog_addr_def by (rule unsigned_word_eqI)
  have "(0x8048000 + n) mod 0x400000 = 0x48000 + n"
    using mod_mult_self3 [of 32 "0x400000" "0x48000 + n"] assms by simp
  moreover have "prog_off (0x8048000 + of_nat n) = take_bit 22 (0x8048000 + of_nat n)" by (simp add: prog_off_def masks_u32 take_bit_eq_mask)
  ultimately have "unat (prog_off (0x8048000 + of_nat n)) = 0x48000 + n" using u by (simp add: take_bit_eq_mod unat_mod)
  then have "prog_off (0x8048000 + of_nat n) = of_nat (0x48000 + n)" by (metis of_nat_unat_u32)
  then show "prog_off (0x8048000 + of_nat n) = 0x48000 + of_nat n" by simp
qed

lemma image_has_lits:
  assumes "image_has c la L" and ld: "\<forall>n<length c. ld m (User k, 0x48000) (of_nat n) = c ! n"
  shows "has_lits (User k) prog_off prog_addr la (set L) m"
  unfolding has_lits_def
proof (intro ballI conjI)
  fix xs assume "xs \<in> set L"
  define n where "n = unat (la xs - 0x8048000)"
  have x: "0 \<notin> set xs" "take (Suc (length xs)) (drop n c) = xs @ [0]" and lc: "length c \<le> 0x3B8000"
    using assms(1) \<open>xs \<in> set L\<close> by (auto simp: image_has_def list_all_iff n_def Let_def)
  have le: "n + length xs < length c" using arg_cong [OF x(2), of length] by (simp split: if_splits)
  have la: "la xs = 0x8048000 + of_nat n" by (simp add: n_def)
  note ad = image_address [of n, folded la]
  have at: "ld m (User k, prog_off (la xs)) (of_nat i) = (xs @ [0]) ! i" if "i \<le> length xs" for i
  proof -
    have "ld m (User k, prog_off (la xs)) (of_nat i) = ld m (User k, 0x48000) (of_nat (n + i))"
      using ad(2) le lc by (simp add: ld_def add.assoc)
    also have "\<dots> = c ! (n + i)" using ld [rule_format, of "n + i"] le that by simp
    also have "\<dots> = take (Suc (length xs)) (drop n c) ! i" using le that by simp
    finally show ?thesis by (simp add: x(2))
  qed
  show "prog_addr (la xs)" "length xs < 2 ^ 31" using ad le lc by simp_all
  show "cstr m (User k, prog_off (la xs)) xs"
    unfolding cstr_def using at x(1) le lc by (intro conjI nth_equalityI) (simp_all add: nth_append)
qed

text \<open>The whole way: the machine is switched on, the shell is entered, and its session runs on the state the boot
  left.\<close>

theorem boot_session:
  fixes s :: "'a boot_scheme"
  assumes "boot_ready s" and "multiboot_ok (ram s) addr" and "boot_image addr s inode c"
    and "length (proc_esp s) = 3" "length (proc_ebp s) = 3"
    and "cold (with_modules addr s)" and "good_disk (with_modules addr s)"
    and "image_has c la shell_lits" and "prog_addr buf" and "apart prog_off la (set shell_lits) buf 1024"
    and "\<forall>scs\<in>set ks. typed_line scs" and "map (typed \<circ> butlast) ks = cmds @ lit ''exit'' # ls"
    and "\<And>l. l \<in> set cmds \<Longrightarrow> l = [] \<or> length l < 20 \<and> 0x20 \<notin> set l \<and> disk_view (with_modules addr s) l = None \<and> l \<noteq> lit ''exit''"
  shows "\<exists>s' w'. entry l hw check MULTIBOOT_BOOTLOADER_MAGIC addr s = Some (Inr (Shell (Enter (elf_entry c) 0x83FFFFC), s')) \<and>
    shell_main (kernel_os hw check ex x0 leave) la buf (on_call s', ks) = Some (Inr (0, w')) \<and> kernel_good 0 w' \<and>
    v_screen (kernel_view 0 w') = fold screen_put (lit ''exit'' @ [0x0A]) (shown (lit ''391OS> '' @ [0])
      (fold shell_turn cmds (shown (line_lit ''Starting 391 Shell'' @ [0]) (replicate 2000 0x20, 0))))"
proof -
  obtain s' where e: "entry l hw check MULTIBOOT_BOOTLOADER_MAGIC addr s = Some (Inr (Shell (Enter (elf_entry c) 0x83FFFFC), s'))"
    "kernel_good 0 (on_call s', ks)" "v_screen (kernel_view 0 (on_call s', ks)) = (replicate 2000 0x20, 0)"
    "v_disk (kernel_view 0 (on_call s', ks)) = disk_view (with_modules addr s)"
    "v_keys (kernel_view 0 (on_call s', ks)) = map (typed \<circ> butlast) ks" "\<forall>n<length c. ld (ram s') (User 0, 0x48000) (of_nat n) = c ! n"
    using boot_good [OF assms(1-7,11), of l hw check] by blast
  have "has_lits (User 0) prog_off prog_addr la (set shell_lits) (ram (on_call s'))"
    by (rule image_has_lits [OF assms(8)]) (use e(6) in \<open>simp add: on_call_def\<close>)
  then have L: "has_lits (User 0) prog_off prog_addr la (set shell_lits) (mem_of (kernel_os hw check ex x0 leave) (on_call s', ks))" by simp
  have k: "v_keys (kernel_view 0 (on_call s', ks)) = cmds @ lit ''exit'' # ls" using e(5) assms(12) by simp
  have p: "{line_lit ''Starting 391 Shell'', lit ''391OS> '', lit ''exit'', line_lit ''no such command''} \<subseteq> set shell_lits" by (simp add: shell_lits_def)
  have "l = [] \<or> no_command (kernel_view 0 (on_call s', ks)) l \<and> l \<noteq> lit ''exit''" if "l \<in> set cmds" for l
    using assms(13) [OF that] e(4) by (auto simp: no_command_def)
  from kernel.shell_main_session [OF e(2) assms(9) k L assms(10) p this] obtain w' y where
    "shell_main (kernel_os hw check ex x0 leave) la buf (on_call s', ks) = Some (Inr (0, w'))" "kernel_good 0 w'"
    "kernel_view 0 w' = (kernel_view 0 (on_call s', ks))\<lparr>v_screen := fold screen_put (lit ''exit'' @ [0x0A]) (shown (lit ''391OS> '' @ [0])
        (fold shell_turn cmds (shown (line_lit ''Starting 391 Shell'' @ [0]) (v_screen (kernel_view 0 (on_call s', ks)))))), v_keys := ls, v_arg := y\<rparr>"
    by blast
  then show ?thesis using e(1,3) by (intro exI [of _ s'] exI [of _ w']) simp
qed

end
