(* ===== verification/Sample_Boot.thy ===== *)
theory Sample_Boot
  imports Boot Sample_Machine
begin

text \<open>The machine as the boot loader leaves it: paging off, one module at 1 MB, a file system that holds
  the program \<open>shell\<close>, and the information structure at 0x1000.\<close>

definition boot_flat :: "u32 \<Rightarrow> u8" where
  "boot_flat = (\<lambda>a. 0)(0x1000 := 8, 0x1014 := 1, 0x1019 := 0x20, 0x2002 := 0x10,
     0x100000 := 1, 0x100004 := 1, 0x100008 := 1,
     0x100040 := 115, 0x100041 := 104, 0x100042 := 101, 0x100043 := 108, 0x100044 := 108, 0x100060 := 2,
     0x101000 := 28,
     0x102000 := 0x7F, 0x102001 := 0x45, 0x102002 := 0x4C, 0x102003 := 0x46, 0x102019 := 0x80, 0x10201A := 0x04, 0x10201B := 0x08)"

definition blank_gate :: idt_desc where
  "blank_gate = \<lparr>offset_15_00 = 0, seg_selector = 0, reserved4 = 0, reserved3 = 0, reserved2 = 0, reserved1 = 0, gate_size = 0,
     reserved0 = 0, gate_dpl = 0, gate_present = 0, offset_31_16 = 0\<rparr>"

definition blank_desc :: seg_desc where
  "blank_desc = \<lparr>seg_lim_15_00 = 0, base_15_00 = 0, base_23_16 = 0, sd_type = 0, sd_sys = 0, sd_dpl = 0, sd_present = 0,
     seg_lim_19_16 = 0, sd_avail = 0, sd_reserved = 0, sd_opsize = 0, sd_granularity = 0, base_31_24 = 0\<rparr>"

definition sample_pc :: boot where
  "sample_pc = \<lparr>io = [], iflag = False, cr0 = 0, cr3 = 0, cr4 = 0, esp = 0x7FFF00, ebp = 0x7FFF40,
     tss_ss0 = 0, tss_esp0 = 0, tss_esp = 0, tss_ebp = 0,
     PDE = (\<lambda>j i. 0), PTE = (\<lambda>i. 0), PTE_base = 0x403000, proc = replicate 8 0, master_mask = 0, slave_mask = 0,
     cursor_pos = replicate 6 (0, 0), active_term = 0, term_init = [0, 0, 0], proc_active = [0, 0, 0], bg_term = 0,
     fake_sti = False, proc_esp = [0, 0, 0], proc_ebp = [0, 0, 0],
     screen_x = 0, screen_y = 0, scr_buf = replicate 3 (replicate 2000 0), frames = (\<lambda>f. replicate 4096 0),
     capson = False, ctrl_on = False, shift_on = False, alt_on = False, fflag = False,
     kbuf = replicate 6 (replicate 1024 0), buf_index = replicate 6 0, ind_entered = replicate 6 0, interrupt_count = False,
     num_de = 0, N = 0, D = 0, bbp = (Flat, 0), de_ptr = (Flat, 0), inode_ptr = (Flat, 0), db_ptr = (Flat, 0), dir_index = 0,
     ram = (\<lambda>b a. 0)(Flat := boot_flat), pcbs = (\<lambda>a. sample_pcb),
     idt = replicate 256 blank_gate, ldt_desc_ptr = blank_desc, tss_desc_ptr = blank_desc, ldt_segment_selector = 0,
     ldtr = 0, tr = 0, idtr_loaded = False, keyboard_flag = False\<rparr>"

definition handler_addr :: "handler \<Rightarrow> u32" where
  "handler_addr h = (case find (\<lambda>i. all_handlers ! i = h) [0..<24] of Some i \<Rightarrow> 0x400000 + 16 * of_nat i | None \<Rightarrow> 0)"

definition sample_layout :: layout where
  "sample_layout = \<lparr>handler_at = handler_addr, ldt_addr = 0x404000, ldt_size = 16, tss_addr = 0x405000, tss_size = 104, stack_garbage = blank_desc\<rparr>"

lemma sample_pc_ready: "boot_ready sample_pc"
  by (simp add: boot_ready_def sample_pc_def console_ok_def)

lemma sample_pc_flags:
  "field sample_pc 0x1000 0 = 8" "field sample_pc 0x1000 24 = 0x2000" "field sample_pc 0x2000 0 = 0x100000"
  by (simp_all add: field_def sample_pc_def ld32_def ld_def boot_flat_def padd_def)

lemma sample_pc_multiboot: "multiboot_ok (ram sample_pc) 0x1000"
  by (simp add: multiboot_ok_field sample_pc_flags CHECK_FLAG_def)

lemma sample_pc_modules: "with_modules 0x1000 sample_pc =
    sample_pc\<lparr>num_de := 1, N := 1, D := 1, dir_index := 0, bbp := (Flat, 0x100000), de_ptr := (Flat, 0x100040), inode_ptr := (Flat, 0x101000), db_ptr := (Flat, 0x102000)\<rparr>"
  by (simp add: with_modules_def sample_pc_flags CHECK_FLAG_def set_filesys_meta_def Let_def)
     (simp add: sample_pc_def ld32_def ld_def boot_flat_def padd_def)

lemma sample_pc_image: "boot_image 0x1000 sample_pc 0 prog_image"
proof -
  let ?w = "sample_pc\<lparr>num_de := 1, N := 1, D := 1, dir_index := 0, bbp := (Flat, 0x100000), de_ptr := (Flat, 0x100040), inode_ptr := (Flat, 0x101000), db_ptr := (Flat, 0x102000)\<rparr>"
  have r: "ram ?w = (\<lambda>b a. 0)(Flat := boot_flat)" by (simp add: sample_pc_def)
  have d: "dirents (ram ?w) ?w = [(lit ''shell'', 2, 0)]"
    by (simp add: r dirents_def dirent_def de_at_def cview_def bytes_def upt_rec boot_flat_def ld32_def ld_def padd_def lit_def)
  have z: "file_size (ram ?w) ?w 0 = 28" by (simp add: r file_size_def inode_at_def boot_flat_def ld32_def ld_def padd_def)
  have c: "content (ram ?w) ?w 0 = prog_image" unfolding content_def z unfolding r
    by (simp add: upt_rec file_byte_def inode_at_def boot_flat_def ld32_def ld_def padd_def prog_image_def Let_def)
  have "exec_fs ?w" by (simp add: exec_fs_def fs_ok_def padd_def exec_blocks_def)
  moreover have "exec_file ?w (lit ''shell'') 0 prog_image"
    unfolding exec_file_def d z c by (simp add: lookup_name_def) (simp add: prog_image_def file_buf_fits_def sample_pc_def)
  moreover have "length (pcb_fd (pcbs ?w (pcb_loc 0))) = 8" by (simp add: sample_pc_def sample_pcb_def)
  ultimately show ?thesis using sample_exec(2,3) by (simp add: boot_image_def sample_pc_modules)
qed

lemma handler_addr_inj: "inj handler_addr"
proof (rule inj_on_inverseI)
  fix h show "all_handlers ! unat (drop_bit 4 (handler_addr h - 0x400000)) = h"
    by (cases h) (simp_all add: handler_addr_def all_handlers_def upt_rec)
qed

lemma sample_pc_tables: "length (proc_esp sample_pc) = 3" "length (proc_ebp sample_pc) = 3"
  by (simp_all add: sample_pc_def)

lemma sample_pc_fields [simp]: "proc sample_pc = replicate 8 0"
  by (simp add: sample_pc_def)

end
