(* ===== verification/Sample_Session.thy ===== *)
theory Sample_Session
  imports Boot_Session Sample_Boot Sample_User
begin

text \<open>The machine of \<open>Sample_Boot\<close> with a \<open>shell\<close> whose file holds the string literals of the shell.\<close>

definition shell_image :: "u8 list" where
  "shell_image = prog_image @ concat (map (\<lambda>xs. xs @ [0]) shell_lits)"

definition lit_place :: "u8 list \<Rightarrow> u32" where
  "lit_place xs = 0x8048000 + of_nat (28 + length (concat (map (\<lambda>xs. xs @ [0]) (takeWhile (\<lambda>ys. ys \<noteq> xs) shell_lits))))"

definition session_flat :: "u32 \<Rightarrow> u8" where
  "session_flat a = (if 0x102000 \<le> a \<and> unat (a - 0x102000) < length shell_image then shell_image ! unat (a - 0x102000)
     else (boot_flat(0x101000 := of_nat (length shell_image))) a)"

definition session_pc :: boot where
  "session_pc = sample_pc\<lparr>ram := (\<lambda>b a. 0)(Flat := session_flat)\<rparr>"

lemma shell_image_length: "length shell_image = 169"
  by (simp add: shell_image_def shell_lits_def line_lit_def lit_def prog_image_def)

lemma session_low: "a < 0x102000 \<Longrightarrow> session_flat a = (boot_flat(0x101000 := 169)) a"
  by (auto simp: session_flat_def shell_image_length)

lemma session_ready: "boot_ready session_pc"
  using sample_pc_ready by (simp add: boot_ready_def session_pc_def console_ok_def)

lemma session_flags:
  "field session_pc 0x1000 0 = 8" "field session_pc 0x1000 24 = 0x2000" "field session_pc 0x2000 0 = 0x100000"
  by (simp_all add: field_def session_pc_def ld32_def ld_def session_low boot_flat_def padd_def)

lemma session_multiboot: "multiboot_ok (ram session_pc) 0x1000"
  by (simp add: multiboot_ok_field session_flags CHECK_FLAG_def)

definition session_loaded :: boot where
  "session_loaded = session_pc\<lparr>num_de := 1, N := 1, D := 1, dir_index := 0, bbp := (Flat, 0x100000), de_ptr := (Flat, 0x100040),
     inode_ptr := (Flat, 0x101000), db_ptr := (Flat, 0x102000)\<rparr>"

lemma session_modules: "with_modules 0x1000 session_pc = session_loaded"
  unfolding session_loaded_def
  by (simp add: with_modules_def session_flags CHECK_FLAG_def set_filesys_meta_def Let_def)
     (simp add: session_pc_def ld32_def ld_def session_low boot_flat_def padd_def)

lemma session_ram: "ram session_loaded = (\<lambda>b a. 0)(Flat := session_flat)"
  by (simp add: session_loaded_def session_pc_def)

lemma session_dirents: "dirents (ram session_loaded) session_loaded = [(lit ''shell'', 2, 0)]"
  by (simp add: session_ram) (simp add: session_loaded_def dirents_def dirent_def de_at_def cview_def bytes_def upt_rec session_low boot_flat_def ld32_def ld_def padd_def lit_def)

lemma session_size: "file_size (ram session_loaded) session_loaded 0 = 169"
  by (simp add: session_ram) (simp add: session_loaded_def file_size_def inode_at_def session_low boot_flat_def ld32_def ld_def padd_def)

lemma session_content: "content (ram session_loaded) session_loaded 0 = shell_image"
proof -
  have "file_byte (ram session_loaded) session_loaded 0 i = shell_image ! i" if "i < 169" for i
  proof -
    have "unat (of_nat i :: u32) = i" using that by (intro unat_u32_of_nat) simp
    moreover have "(0x102000 :: u32) \<le> 0x102000 + of_nat i"
      using calculation that by (simp add: word_le_nat_alt unat_word_ariths)
    ultimately show ?thesis using that unfolding session_ram
      by (simp add: session_loaded_def file_byte_def inode_at_def ld32_def ld_def padd_def session_low boot_flat_def Let_def)
        (simp add: session_flat_def shell_image_length)
  qed
  then show ?thesis unfolding content_def session_size by (intro nth_equalityI) (simp_all add: shell_image_length)
qed

lemma session_image: "boot_image 0x1000 session_pc 0 shell_image"
proof -
  have "exec_fs session_loaded" "fst (bbp session_loaded) = Flat" "length (pcb_fd (pcbs session_loaded (pcb_loc 0))) = 8"
    by (simp_all add: exec_fs_def fs_ok_def padd_def exec_blocks_def session_loaded_def session_pc_def) (simp add: sample_pc_def sample_pcb_def)
  moreover have "exec_file session_loaded (lit ''shell'') 0 shell_image"
    unfolding exec_file_def session_dirents session_size session_content by (simp add: lookup_name_def shell_image_length)
      (simp add: file_buf_fits_def session_loaded_def session_pc_def sample_pc_def)
  moreover have "elf shell_image" "elf_entry shell_image = elf_entry prog_image"
    by (simp_all add: elf_def elf_entry_def shell_image_def prog_image_def of_le32_def)
  ultimately show ?thesis using sample_exec(2,3) by (simp add: boot_image_def session_modules)
qed

lemma session_tables: "length (proc_esp session_pc) = 3" "length (proc_ebp session_pc) = 3"
  by (simp_all add: session_pc_def sample_pc_tables)

lemma session_cold: "cold session_loaded"
  by (auto simp: cold_def session_loaded_def session_pc_def sample_pc_def cur_fd_def sample_pcb_def)

lemma session_disk: "good_disk session_loaded"
  by (simp add: good_disk_def session_dirents session_size) (simp add: session_loaded_def)

lemma session_lits: "image_has shell_image lit_place shell_lits"
  by (simp add: image_has_def shell_image_length) (simp add: shell_image_def prog_image_def lit_place_def shell_lits_def line_lit_def lit_def Let_def)

lemma session_apart: "apart prog_off lit_place (set shell_lits) 0x8100000 1024"
  unfolding apart_def
proof (intro ballI allI impI)
  fix xs i assume x: "xs \<in> set shell_lits" and i: "i \<le> length xs"
  define n where "n = 28 + length (concat (map (\<lambda>xs. xs @ [0]) (takeWhile (\<lambda>ys. ys \<noteq> xs) shell_lits)))"
  obtain ys zs where s: "shell_lits = ys @ xs # zs" "xs \<notin> set ys" using split_list_first [OF x] by blast
  have "takeWhile (\<lambda>ys. ys \<noteq> xs) (ys @ xs # zs) = ys" using s(2) by (subst takeWhile_append2) auto
  then have "n + length xs < length shell_image" by (simp add: n_def shell_image_def prog_image_def s(1))
  then have n: "n + i < 169" using i by (simp add: shell_image_length)
  have "prog_off (lit_place xs) = 0x48000 + of_nat n" using image_address(2) [of n] n by (simp add: lit_place_def n_def)
  then have "prog_off (lit_place xs) + of_nat i - prog_off 0x8100000 = of_nat (n + i + (2 ^ 32 - 0xB8000))"
    by (simp add: prog_off_def)
  moreover have "unat (of_nat (n + i + (2 ^ 32 - 0xB8000)) :: u32) = n + i + (2 ^ 32 - 0xB8000)" using n by (intro unat_u32_of_nat) simp
  ultimately have "unat (prog_off (lit_place xs) + of_nat i - prog_off 0x8100000) = n + i + (2 ^ 32 - 0xB8000)" by (simp only:)
  then show "1024 \<le> unat (prog_off (lit_place xs) + of_nat i - prog_off 0x8100000)" by simp
qed

end
