(* ===== verification/User_Calls.thy ===== *)
theory User_Calls
  imports Kernel_Os
begin

text \<open>
  What the system calls of one process do to the kernel, whatever the process is: the calls that
  respect the interface all return, and leave the kernel good for the next one.
\<close>

text \<open>The calls a program may make: output of a buffer, files, the directory and the clock by descriptor, a typed line,
  the arguments, the screen, names that end within their 32 bytes, and everything the kernel refuses.\<close>

definition may_read :: "nat \<Rightarrow> 'a kernel_scheme \<times> u8 list list \<Rightarrow> u32 \<Rightarrow> u32 \<Rightarrow> bool" where
  "may_read k w fd n \<longleftrightarrow>
     (if fd = 0 then snd w \<noteq> [] \<and> n \<in> {127, 1023}
      else 2 \<le> fd \<and> fd < 8 \<and> (case v_fds (kernel_view k w) (unat fd) of Some (Reads xs) \<Rightarrow> 0 < n | Some Lists \<Rightarrow> True
        | Some Ticks \<Rightarrow> alone k (fst w) | _ \<Rightarrow> False))"

definition may_call :: "nat \<Rightarrow> 'a kernel_scheme \<times> u8 list list \<Rightarrow> u32 \<Rightarrow> u32 \<Rightarrow> u32 \<Rightarrow> u32 \<Rightarrow> bool" where
  "may_call k w n b c d \<longleftrightarrow>
     (let str = (\<lambda>len. bytes (ram (fst w)) (User k, prog_off b) len); v = kernel_view k w
      in n = 2 \<and> prog_addr b \<and> 0 \<in> set (str 20) \<and> plain_line (takeWhile (\<lambda>x. x \<noteq> 0) (str 20)) \<and>
           no_command v (takeWhile (\<lambda>x. x \<noteq> 0) (str 20)) \<and> c = 0 \<and> d = 0 \<or>
         n = 3 \<and> prog_addr c \<and> may_read k w b d \<or>
         n = 4 \<and> b = 1 \<and> prog_addr c \<and> unat d < 2 ^ 31 \<or>
         n = 4 \<and> prog_addr c \<and> 2 \<le> b \<and> b < 8 \<and> v_fds v (unat b) = Some Ticks \<or>
         n = 5 \<and> prog_addr b \<and> 0 \<in> set (str 32) \<and> c = 0 \<and> d = 0 \<or>
         n = 6 \<and> c = 0 \<and> d = 0 \<or>
         n = 7 \<and> prog_addr b \<and> c = 1024 \<and> d = 0 \<or>
         n = 8 \<and> prog_addr b \<and> alone k (fst w) \<and> c = 0 \<and> d = 0 \<or>
         (prog_addr c \<or> n \<noteq> 3 \<and> n \<noteq> 4) \<and> v_refuses n b v)"

lemma cstr_takeWhile:
  assumes "0 \<in> set (bytes m p n)" and "n \<le> 2 ^ 32"
  shows "cstr m p (takeWhile (\<lambda>x. x \<noteq> 0) (bytes m p n))" "length (takeWhile (\<lambda>x. x \<noteq> 0) (bytes m p n)) < n"
proof -
  let ?xs = "takeWhile (\<lambda>x. x \<noteq> 0) (bytes m p n)"
  have "0 < length (dropWhile (\<lambda>x. x \<noteq> 0) (bytes m p n))" using assms(1) by (auto simp: dropWhile_eq_Nil_conv)
  moreover have "length ?xs + length (dropWhile (\<lambda>x. x \<noteq> 0) (bytes m p n)) = n"
    unfolding length_append [symmetric] takeWhile_dropWhile_id by simp
  ultimately show l: "length ?xs < n" by linarith
  have "bytes m p (length ?xs) = ?xs" using take_bytes [of "length ?xs" n m p] l takeWhile_eq_take [of _ "bytes m p n"] by (metis less_imp_le)
  moreover have "ld m p (of_nat (length ?xs)) = 0"
    using nth_length_takeWhile [of "\<lambda>x. x \<noteq> 0" "bytes m p n"] l by simp
  moreover have "0 \<notin> set ?xs" by (auto dest: set_takeWhileD)
  ultimately show "cstr m p ?xs" using l assms(2) by (simp add: cstr_def)
qed

lemma may_call_returns:
  assumes g: "kernel_good k w" and c: "may_call k w n b c d"
  shows "\<exists>v w'. kernel_int80 hw check ex x0 leave n b c d w = Some (Inr (v, w')) \<and> kernel_good k w'"
proof -
  let ?n = "\<lambda>len. takeWhile (\<lambda>x. x \<noteq> 0) (bytes (ram (fst w)) (User k, prog_off b) len)"
  have no: ?thesis if "prog_addr c \<or> n \<noteq> 3 \<and> n \<noteq> 4" "v_refuses n b (kernel_view k w)"
    using kernel.refused [where hw = hw and check = check and ex = ex and ?x0.0 = x0 and leave = leave and d = d, OF g that] by auto
  from c show ?thesis
    unfolding may_call_def Let_def
  proof (elim disjE conjE, goal_cases)
    case exec: 1
    then show ?thesis
          using kernel.exec_missing [where hw = hw and check = check and ex = ex and ?x0.0 = x0 and leave = leave and x = "?n 20", OF g exec(2)] cstr_takeWhile(1) [OF exec(3)] by auto
  next
    case rd: 2
    show ?thesis
    proof (cases "b = 0")
      case True
      then obtain l ls where kk: "v_keys (kernel_view k w) = l # ls" using rd(3) by (cases "snd w"; cases w) (auto simp: may_read_def kernel_view_def)
      have "d \<in> {127, 1023}" using rd(3) True by (simp add: may_read_def)
      then show ?thesis
          using kernel.read_line [where hw = hw and check = check and ex = ex and ?x0.0 = x0 and leave = leave and n = d, OF g rd(2) kk] rd True by auto
    next
      case False
      then have b: "2 \<le> unat b" "unat b < 8" "of_nat (unat b) = b" using rd(3) by (auto simp: may_read_def word_le_nat_alt word_less_nat_alt)
      show ?thesis
      proof (cases "v_fds (kernel_view k w) (unat b)")
        case None
        then show ?thesis using rd(3) False by (simp add: may_read_def)
      next
        case (Some f)
        then consider xs where "f = Reads xs" "0 < d" | "f = Lists" | "f = Ticks" "alone k (fst w)" using rd(3) False by (auto simp: may_read_def split: fdesc.splits)
        then show ?thesis
        proof cases
          case 1
          then show ?thesis
          using kernel.read_file [where hw = hw and check = check and ex = ex and ?x0.0 = x0 and leave = leave and n = d, OF g rd(2) b(1,2)] Some rd(1) b(3) by auto
        next
          case 2
          then show ?thesis
          using kernel.read_dir [where hw = hw and check = check and ex = ex and ?x0.0 = x0 and leave = leave and n = d, OF g rd(2) b(1,2)]
            kernel.read_dir_end [where hw = hw and check = check and ex = ex and ?x0.0 = x0 and leave = leave and n = d, OF g rd(2) b(1,2)] Some rd(1) b(3)
            by (cases "v_dir (kernel_view k w)") auto
        next
          case 3
          then show ?thesis
          using kernel_read_clock [of k "fst w" "snd w" c "unat b" hw check ex x0 leave d] g rd(1,2) b Some by auto
        qed
      qed
    qed
  next
    case wr: 3
    then show ?thesis
          using kernel.write_out [where hw = hw and check = check and ex = ex and ?x0.0 = x0 and leave = leave, OF g wr(3,4)] by auto
  next
    case rate: 4
    then have b: "2 \<le> unat b" "unat b < 8" "of_nat (unat b) = b" by (auto simp: word_le_nat_alt word_less_nat_alt)
    then show ?thesis
      using kernel_set_rate [of k "fst w" "snd w" c "unat b" hw check ex x0 leave d] g rate by auto
  next
    case opn: 5
    then show ?thesis
          using kernel.call_open [where hw = hw and check = check and ex = ex and ?x0.0 = x0 and leave = leave and name = "?n 32", OF g opn(2)] cstr_takeWhile [OF opn(3)] by auto
  next
    case cls: 6
    then show ?thesis
          using kernel.call_close [where hw = hw and check = check and ex = ex and ?x0.0 = x0 and leave = leave and fd = b, OF g] by auto
  next
    case arg: 7
    then show ?thesis
          using kernel.get_arg [where hw = hw and check = check and ex = ex and ?x0.0 = x0 and leave = leave, OF g arg(2)]
            kernel.no_arg [where hw = hw and check = check and ex = ex and ?x0.0 = x0 and leave = leave, OF g arg(2)] by (cases "v_arg (kernel_view k w)") auto
  next
    case 8
    then show ?thesis using kernel_vidmap [of k "fst w" "snd w" b hw check ex x0 leave] g by auto
  next
    case 9
    then show ?thesis using no by simp
  next
    case 10
    then show ?thesis using no by simp
  qed
qed

text \<open>A process at work: system calls that return, and stores to its own page.\<close>

inductive user_step ::
  "hardware \<Rightarrow> u32 \<Rightarrow> ('a kernel_scheme \<Rightarrow> 'a kernel_scheme run) \<Rightarrow> u8 \<Rightarrow>
   (outcome \<Rightarrow> 'a kernel_scheme \<times> u8 list list \<Rightarrow> (u32 \<times> 'a kernel_scheme \<times> u8 list list) run) \<Rightarrow> nat \<Rightarrow>
   'a kernel_scheme \<times> u8 list list \<Rightarrow> 'a kernel_scheme \<times> u8 list list \<Rightarrow> bool"
  for hw check ex x0 leave k where
  call: "may_call k w n b c d \<Longrightarrow> kernel_int80 hw check ex x0 leave n b c d w = Some (Inr (v, w')) \<Longrightarrow>
    user_step hw check ex x0 leave k w w'"
| store: "(\<And>b. b \<noteq> User k \<Longrightarrow> m b = ram s b) \<Longrightarrow> user_step hw check ex x0 leave k (s, ks) (s\<lparr>ram := m\<rparr>, ks)"

lemma user_step_good: "user_step hw check ex x0 leave k w w' \<Longrightarrow> kernel_good k w \<Longrightarrow> kernel_good k w'"
proof (induction rule: user_step.induct)
  case (call w n b c d v w')
  then show ?case using may_call_returns [OF call(3,1), of hw check ex x0 leave] by auto
next
  case (store m s ks)
  then show ?case using kernel.mem_set [where k = k and w = "(s, ks)" and m = m] by auto
qed

lemma user_steps_good: "(user_step hw check ex x0 leave k)\<^sup>*\<^sup>* w w' \<Longrightarrow> kernel_good k w \<Longrightarrow> kernel_good k w'"
  by (induction rule: rtranclp_induct) (auto intro: user_step_good)

end
