(* ===== verification/Key_Bounds.thy ===== *)
theory Key_Bounds
  imports Keyboard
begin

text \<open>
  Bounds of the keyboard driver: whatever is typed, the line index stays within the line and the
  cursor on the screen, as long as no Tab is pressed; Tab steps over the test that stops the line
  at 127 characters and runs off the end of the buffer.
\<close>

text \<open>Keys after which the handler stays inside its tables: not Tab, not Alt, not the code 0x80, which is no
  index of \<open>kbd\<close>, and while Ctrl is held no release code, which the handler looks up as well.\<close>

definition safe_key :: "bool \<Rightarrow> u8 \<Rightarrow> bool" where
  "safe_key ctrl sc \<longleftrightarrow> sc \<notin> {0x0F, 0x38, 0x80} \<and> (ctrl \<longrightarrow> sc < 0x80 \<or> sc \<in> {0xAA, 0xB6, 0xE0, 0x9D, 0xB8})"

definition ctrl_after :: "u8 \<Rightarrow> bool \<Rightarrow> bool" where
  "ctrl_after sc ctrl \<longleftrightarrow> sc \<in> {0x1D, 0xE0} \<or> ctrl \<and> sc \<noteq> 0x9D"

fun safe_keys :: "bool \<Rightarrow> u8 list \<Rightarrow> bool" where
  "safe_keys ctrl [] \<longleftrightarrow> True"
| "safe_keys ctrl (sc # scs) \<longleftrightarrow> safe_key ctrl sc \<and> safe_keys (ctrl_after sc ctrl) scs"

fun run_irqs :: "('s \<Rightarrow> 's run) list \<Rightarrow> 's \<Rightarrow> 's run" where
  "run_irqs [] s = Some (Inr s)"
| "run_irqs (irq # irqs) s = obind (irq s) (run_irqs irqs)"

text \<open>Drawing and line editing: the invariant holds again, the modifiers and the terminal are as before.\<close>

definition edits :: "'a keyboard_scheme \<Rightarrow> 'a keyboard_scheme \<Rightarrow> bool" where
  "edits s s' \<longleftrightarrow> kbd_ok s' \<and> alt_on s' = alt_on s \<and> ctrl_on s' = ctrl_on s \<and> active_term s' = active_term s"

lemma edits_trans: "edits s s' \<Longrightarrow> edits s' s'' \<Longrightarrow> edits s s''"
  by (simp add: edits_def)

lemma edits_step: "kbd_ok s' \<Longrightarrow> term_step s s' \<Longrightarrow> edits s s'"
  by (simp add: edits_def term_step_modifiers)

lemma kbd_ok_upd [simp]:
  "kbd_ok (s\<lparr>io := es, iflag := b\<rparr>) = kbd_ok s" "kbd_ok (s\<lparr>fflag := f\<rparr>) = kbd_ok s"
  "kbd_ok (s\<lparr>capson := c\<rparr>) = kbd_ok s" "kbd_ok (s\<lparr>shift_on := c\<rparr>) = kbd_ok s" "kbd_ok (s\<lparr>ctrl_on := c\<rparr>) = kbd_ok s"
  "kbd_ok (s\<lparr>alt_on := c\<rparr>) = kbd_ok s"
  by (simp_all add: kbd_ok_def console_ok_def video_frame_def page_frame_def)

lemma edits_done [simp]: "edits s (done_kbd_handle s') = edits s s'"
  by (simp add: edits_def done_kbd_handle_eq)

lemma putc_edits:
  fixes s :: "'a keyboard_scheme"
  assumes "kbd_ok s"
  shows "\<exists>s'. putc c s = Inr s' \<and> edits s s'"
proof -
  obtain s' where s': "putc c s = Inr s'" "console_ok s'" "screen_step s s'"
    using console.put_good [OF kbd_okD(1) [OF assms], of c] by blast
  then have "repaint s s'" by (simp add: screen_step_def)
  then show ?thesis using s' kbd_ok_repaint [OF assms] edits_step [OF _ term_step_repaint] by blast
qed

lemma clear_edits:
  fixes s :: "'a keyboard_scheme"
  assumes "kbd_ok s"
  shows "\<exists>s'. clear s = Inr s' \<and> edits s (change_coord 0 0 s')"
proof -
  obtain v where v: "clear s = Inr (change_coord 0 0 (paint v (replicate 2000 0x20) s))" "length v = 4096"
    by (rule clear_paint [OF kbd_okD(1) [OF assms]])
  let ?s = "change_coord 0 0 (change_coord 0 0 (paint v (replicate 2000 0x20) s))"
  have rp: "repaint s ?s"
    by (rule repaintI [where v = v and t = "replicate 2000 0x20" and x = 0 and y = 0 and os = "cursor_out 0 @ cursor_out 0"])
       (simp_all add: v change_coord_eq paint_def)
  moreover have "console_ok ?s" by (rule repaint_ok [OF kbd_okD(1) [OF assms] rp]) (simp_all add: change_coord_eq)
  ultimately have "kbd_ok ?s" using kbd_ok_repaint [OF assms] by blast
  then show ?thesis using v(1) edits_step [OF _ term_step_repaint [OF rp]] by blast
qed

lemma backspacing_edits:
  assumes "kbd_ok s"
  shows "\<exists>s'. backspacing True s = Inr s' \<and> edits s s'"
proof (cases "line s = []")
  case True
  have "buf_index s ! act s = 0" using True kbd_okD [OF assms] by (auto simp: line_def)
  then have "backspacing True s = Inr s" using get_buf_index_ok [OF assms] by (simp add: backspacing_def)
  then show ?thesis using edits_step [OF assms] by simp
next
  case False
  then show ?thesis using backspacing_spec [OF assms, of True] edits_step by blast
qed

lemma key_store_edits:
  assumes ok: "kbd_ok s"
  shows "\<exists>s'. key_store x s = Some (Inr s') \<and> edits s s'"
proof (cases "buf_index s ! act s < 127")
  case True
  from key_store_spec [OF ok True, of x] show ?thesis using edits_step by blast
next
  case False
  note d = kbd_okD [OF ok]
  have b: "buf_index s ! act s = 127" using False d by simp
  let ?s = "s\<lparr>ind_entered := (ind_entered s)[act s := 127], fflag := True\<rparr>"
  have "check_buf 1 x s = Inr (if x = 0x0A then ?s else s)"
    using d b get_buf_index_ok [OF ok] ok by (simp add: check_buf_def set_ind_entered_def aset_def kbd_ok_def)
  then have "key_store x s = Some (Inr (done_kbd_handle (if x = 0x0A then ?s else s)))"
    using b get_buf_index_ok [OF ok] by (simp add: key_store_def)
  moreover have "kbd_ok ?s" using ok by (simp add: kbd_ok_def console_ok_def video_frame_def page_frame_def)
  ultimately show ?thesis using edits_step [of ?s s] edits_step [OF ok] by simp
qed

lemma put_store_edits:
  fixes s :: "'a keyboard_scheme"
  assumes "kbd_ok s"
  shows "\<exists>s'. obind (Some (putc c s)) (key_store x) = Some (Inr s') \<and> edits s s'"
proof -
  obtain s1 where s1: "putc c s = Inr s1" "edits s s1" using putc_edits [OF assms] by blast
  obtain s2 where "key_store x s1 = Some (Inr s2)" "edits s1 s2" using key_store_edits [of s1] s1(2) by (auto simp: edits_def)
  then show ?thesis using s1 edits_trans by auto
qed

lemma key_press_edits:
  assumes ok: "kbd_ok s" and "sc < 0x80" and "\<not> alt_on s"
  shows "\<exists>s'. key_press ex x0 sc s = Some (Inr s') \<and> edits s s'"
proof -
  let ?k = "key_char sc"
  obtain x s1 where s1: "(if capson s \<and> is_letter ?k then rbind (putc (?k - 32) s) (\<lambda>s. Inr (?k - 32, s)) else Inr (x0, s)) = Inr (x, s1)" "edits s s1"
    using putc_edits [OF ok, of "?k - 32"] edits_step [OF ok] by (cases "capson s \<and> is_letter ?k") auto
  have ok1: "kbd_ok s1" "\<not> alt_on s1" using s1(2) assms(3) by (simp_all add: edits_def)
  have "key_press ex x0 sc s =
    (if shift_on s1 then if is_letter ?k then obind (Some (putc (?k - 32) s1)) (key_store (?k - 32))
       else (case shift_symbol ?k of Some x \<Rightarrow> obind (Some (putc x s1)) (key_store x) | None \<Rightarrow> key_store x s1)
     else obind (Some (putc ?k s1)) (key_store ?k))"
    using ok1(2) by (simp add: key_press_def aget_kbd [OF assms(2)] s1(1))
  then show ?thesis
    using put_store_edits [OF ok1(1)] key_store_edits [OF ok1(1)] edits_trans [OF s1(2)] by (auto split: option.splits) metis+
qed

theorem safe_key_edits:
  assumes ok: "kbd_ok s" and al: "\<not> alt_on s" and sc: "safe_key (ctrl_on s) sc"
  shows "\<exists>s'. key_irq ex x0 sc s = Some (Inr s') \<and> kbd_ok s' \<and> \<not> alt_on s' \<and> ctrl_on s' = ctrl_after sc (ctrl_on s) \<and>
    active_term s' = active_term s"
proof -
  define s0 where "s0 = s\<lparr>io := io s @ [In 0x60 sc], iflag := False\<rparr>"
  have ok0: "kbd_ok s0" and f: "alt_on s0 = alt_on s" "ctrl_on s0 = ctrl_on s" "active_term s0 = active_term s"
    using ok by (simp_all add: s0_def)
  have h: "key_irq ex x0 sc s =
    (if sc = 0x3A then Some (Inr (done_kbd_handle (s0\<lparr>capson := \<not> capson s\<rparr>)))
     else if sc = 0x2A \<or> sc = 0x36 then Some (Inr (done_kbd_handle (s0\<lparr>shift_on := True\<rparr>)))
     else if sc = 0xAA \<or> sc = 0xB6 then Some (Inr (done_kbd_handle (s0\<lparr>shift_on := False\<rparr>)))
     else if sc = 0x1D \<or> sc = 0xE0 then Some (Inr (done_kbd_handle (s0\<lparr>ctrl_on := True\<rparr>)))
     else if sc = 0x9D then Some (Inr (done_kbd_handle (s0\<lparr>ctrl_on := False\<rparr>)))
     else if sc = 0xB8 then Some (Inr (done_kbd_handle (s0\<lparr>alt_on := False\<rparr>)))
     else if sc = 0x0E then obind (Some (backspacing True s0)) (\<lambda>s. Some (Inr (done_kbd_handle s)))
     else if ctrl_on s \<and> key_char sc = 108 then obind (Some (clear s0)) (\<lambda>s. Some (Inr (done_kbd_handle (change_coord 0 0 s))))
     else if sc < 0x80 then key_press ex x0 sc s0 else Some (Inr (done_kbd_handle s0)))"
  proof -
    have "sc \<noteq> 0x0F" "sc \<noteq> 0x38" "sc \<le> 0x80 \<longleftrightarrow> sc < 0x80" using sc by (auto simp: safe_key_def)
    then show ?thesis
      using sc aget_kbd [of sc]
      by (auto simp: key_irq_def keyboard_handler_def inb_def cli_def Let_def s0_def safe_key_def)
  qed
  consider (mod) "sc \<in> {0x3A, 0x2A, 0x36, 0xAA, 0xB6, 0x1D, 0xE0, 0x9D, 0xB8}" | (edit) "sc \<notin> {0x3A, 0x2A, 0x36, 0xAA, 0xB6, 0x1D, 0xE0, 0x9D, 0xB8}" by blast
  then show ?thesis
  proof cases
    case mod
    then show ?thesis using h ok0 al f by (auto simp: ctrl_after_def done_kbd_handle_eq)
  next
    case edit
    obtain s1 where s1: "backspacing True s0 = Inr s1" "edits s0 s1" using backspacing_edits [OF ok0] by blast
    obtain s2 where s2: "clear s0 = Inr s2" "edits s0 (change_coord 0 0 s2)" using clear_edits [OF ok0] by blast
    have "\<exists>s'. key_press ex x0 sc s0 = Some (Inr s') \<and> edits s0 s'" if "sc < 0x80" using key_press_edits [OF ok0 that] al f by simp
    moreover have "edits s0 s0" using edits_step [OF ok0, of s0] by simp
    ultimately have "\<exists>s'. key_irq ex x0 sc s = Some (Inr s') \<and> edits s0 s'" using edit s1 s2 unfolding h by simp
    then show ?thesis using edit al f by (auto simp: edits_def ctrl_after_def)
  qed
qed

theorem safe_keys_run:
  "kbd_ok s \<Longrightarrow> \<not> alt_on s \<Longrightarrow> safe_keys (ctrl_on s) scs \<Longrightarrow>
   \<exists>s'. run_irqs (map (key_irq ex x0) scs) s = Some (Inr s') \<and> kbd_ok s' \<and> active_term s' = active_term s"
proof (induction scs arbitrary: s)
  case (Cons sc scs)
  obtain s1 where "key_irq ex x0 sc s = Some (Inr s1)" "kbd_ok s1" "\<not> alt_on s1" "ctrl_on s1 = ctrl_after sc (ctrl_on s)"
    "active_term s1 = active_term s" using safe_key_edits [OF Cons.prems(1,2), of sc] Cons.prems(3) by auto
  then show ?case using Cons.IH [of s1] Cons.prems(3) by auto
qed simp

subsection \<open>Tab\<close>

text \<open>The invariant without the bound on the index.\<close>

definition row_ok :: "'a keyboard_scheme \<Rightarrow> bool" where
  "row_ok s \<longleftrightarrow> console_ok s \<and> 0 \<le> active_term s \<and> active_term s < 3 \<and> length (kbuf s) = 6 \<and>
     (\<forall>r\<in>set (kbuf s). length r = 1024) \<and> length (buf_index s) = 6 \<and> 0 \<le> buf_index s ! act s"

abbreviation put_blank :: "'a keyboard_scheme \<Rightarrow> 'a keyboard_scheme res" where
  "put_blank s \<equiv> rbind (get_buf_index s) (\<lambda>bi. rbind (buf_put (active_term s) bi 0x20 s) (\<lambda>s. set_buf_index (bi + 1) s))"

lemma put_blank_spec:
  assumes "row_ok s" and "buf_index s ! act s \<le> 1024"
  shows "if buf_index s ! act s < 1024
    then \<exists>s'. put_blank s = Inr s' \<and> row_ok s' \<and> active_term s' = active_term s \<and> buf_index s' ! act s = buf_index s ! act s + 1
    else put_blank s = Inl (Bad_index ''buf'' 1024)"
proof -
  let ?bi = "buf_index s ! act s" and ?row = "kbuf s ! act s"
  have a: "act s < 6" "0 \<le> active_term s" "active_term s < 6" "length (kbuf s) = 6" "length (buf_index s) = 6" "0 \<le> ?bi"
    using assms(1) by (simp_all add: row_ok_def nat_less_iff)
  then have r: "length ?row = 1024" using assms(1) nth_mem [of "act s" "kbuf s"] unfolding row_ok_def by metis
  have g: "get_buf_index s = Inr ?bi" using a by (simp add: get_buf_index_def aget_def)
  show ?thesis
  proof (cases "?bi < 1024")
    case True
    let ?s = "s\<lparr>kbuf := (kbuf s)[act s := ?row[nat ?bi := 0x20]], buf_index := (buf_index s)[act s := ?bi + 1]\<rparr>"
    have "put_blank s = Inr ?s" using a r True by (simp add: g buf_put_def set_buf_index_def aget_def aset_def)
    moreover have "row_ok ?s"
      using assms(1) a r set_update_subset_insert [of "kbuf s" "act s" "?row[nat ?bi := 0x20]"]
      by (auto simp: row_ok_def) (auto simp: console_ok_def video_frame_def page_frame_def)
    ultimately show ?thesis using True a by auto
  next
    case False
    then have "?bi = 1024" using assms(2) by simp
    then show ?thesis using a r by (simp add: g buf_put_def aget_def aset_def)
  qed
qed

lemma put_blanks_spec:
  "row_ok s \<Longrightarrow> buf_index s ! act s \<le> 1024 \<Longrightarrow>
   if buf_index s ! act s + int (length xs) \<le> 1024
   then \<exists>s'. for_each_res xs (\<lambda>j. put_blank) s = Inr s' \<and> row_ok s' \<and> active_term s' = active_term s \<and>
     buf_index s' ! act s = buf_index s ! act s + int (length xs)
   else for_each_res xs (\<lambda>j. put_blank) s = Inl (Bad_index ''buf'' 1024)"
proof (induction xs arbitrary: s)
  case (Cons x xs)
  show ?case
  proof (cases "buf_index s ! act s < 1024")
    case True
    then obtain s1 where s1: "put_blank s = Inr s1" "row_ok s1" "active_term s1 = active_term s" "buf_index s1 ! act s = buf_index s ! act s + 1"
      using put_blank_spec [OF Cons.prems] by auto
    then show ?thesis using Cons.IH [of s1] True by (auto simp: add.assoc)
  next
    case False
    then show ?thesis using put_blank_spec [OF Cons.prems] by auto
  qed
qed simp

lemma row_ok_repaint: "row_ok s \<Longrightarrow> repaint s s' \<Longrightarrow> console_ok s' \<Longrightarrow> row_ok s'"
  by (auto simp: row_ok_def repaint_kbd)

lemma row_ok_upd [simp]: "row_ok (s\<lparr>io := es, iflag := b\<rparr>) = row_ok s"
  by (simp add: row_ok_def console_ok_def video_frame_def page_frame_def)

lemma tab_spec:
  assumes "row_ok s" and "buf_index s ! act s \<le> 1024"
  shows "if buf_index s ! act s + 4 \<le> 1024
    then \<exists>s'. key_irq ex x0 0x0F s = Some (Inr s') \<and> row_ok s' \<and> active_term s' = active_term s \<and> buf_index s' ! act s = buf_index s ! act s + 4
    else key_irq ex x0 0x0F s = Some (Inl (Bad_index ''buf'' 1024))"
proof -
  define s0 where "s0 = s\<lparr>io := io s @ [In 0x60 0x0F], iflag := False\<rparr>"
  have s0: "row_ok s0" "buf_index s0 = buf_index s" "active_term s0 = active_term s" using assms(1) by (simp_all add: s0_def)
  have "console_ok s0" using s0(1) by (simp add: row_ok_def)
  from console.emit [OF this, of tab_text] obtain s1 where s1: "for_each_res tab_text putc s0 = Inr s1" "console_ok s1" "screen_step s0 s1"
    by blast
  have rp: "repaint s0 s1" using s1(3) by (simp add: screen_step_def)
  have i: "buf_index s1 = buf_index s" "active_term s1 = active_term s" using repaint_kbd [OF rp] s0 by simp_all
  have "key_irq ex x0 0x0F s = obind (Some (for_each_res [0..<4] (\<lambda>j. put_blank) s1)) (\<lambda>s. Some (Inr (done_kbd_handle s)))"
    using s1(1) by (simp add: key_irq_def keyboard_handler_def inb_def cli_def s0_def [symmetric] check_buf_def)
  then show ?thesis
    using put_blanks_spec [OF row_ok_repaint [OF s0(1) rp s1(2)], of "[0..<4]"] assms(2)
    by (auto simp: i done_kbd_handle_eq simp del: upt_rec_numeral split: if_splits)
qed

theorem tabs_overrun:
  "row_ok s \<Longrightarrow> buf_index s ! act s \<le> 1024 \<Longrightarrow> 1024 < buf_index s ! act s + 4 * int n \<Longrightarrow>
   run_irqs (replicate n (key_irq ex x0 0x0F)) s = Some (Inl (Bad_index ''buf'' 1024))"
proof (induction n arbitrary: s)
  case (Suc n)
  show ?case
  proof (cases "buf_index s ! act s + 4 \<le> 1024")
    case True
    then obtain s1 where "key_irq ex x0 0x0F s = Some (Inr s1)" "row_ok s1" "active_term s1 = active_term s" "buf_index s1 ! act s = buf_index s ! act s + 4"
      using tab_spec [OF Suc.prems(1,2), of ex x0] by auto
    then show ?thesis using Suc.IH [of s1] Suc.prems(3) True by simp
  next
    case False
    then show ?thesis using tab_spec [OF Suc.prems(1,2), of ex x0] by simp
  qed
qed simp

end
