(* ===== verification/User_Sigtest.thy ===== *)
theory User_Sigtest
  imports User_Term User_Clock
begin

text \<open>
  src/syscalls/ece391sigtest.c: a test of signals.  The program writes through a null pointer and counts
  on its handler to point it elsewhere.  \<open>buf\<close> is the address of the local array of \<open>main\<close>;
  \<open>y_charbuf\<close>, \<open>y_badbuf\<close>, \<open>y_segfault\<close> and \<open>y_alarm\<close> are the addresses of the two variables and of the
  two handlers of the file.
\<close>

record sig_vars =
  y_charbuf :: u32
  y_badbuf :: u32
  y_segfault :: u32
  y_alarm :: u32

text \<open>A store through a pointer that may not be mapped: the program goes on, or is stopped by the exception.\<close>

datatype 'w progress = Goes 'w | Stops 'w

text \<open>\<open>switch (signum)\<close> in both handlers.\<close>

definition put_signum :: "'w os \<Rightarrow> (u8 list \<Rightarrow> u32) \<Rightarrow> u32 \<Rightarrow> 'w \<Rightarrow> 'w run" where
  "put_signum os la signum w =
     puts_lit os la (line_lit (if signum = 0 then ''0'' else if signum = 1 then ''1'' else if signum = 2 then ''2''
       else if signum = 3 then ''3'' else ''invalid'')) w"

text \<open>\<open>ba\<close> is the address of the local \<open>buf\<close> and \<open>sa\<close> that of the argument \<open>signum\<close>, from which the handler
  finds the saved register.\<close>

definition segfault_sighandler ::
  "'w os \<Rightarrow> (u8 list \<Rightarrow> u32) \<Rightarrow> sig_vars \<Rightarrow> u32 \<Rightarrow> u32 \<Rightarrow> u32 \<Rightarrow> 'w \<Rightarrow> 'w run" where
  "segfault_sighandler os la y ba sa signum w =
     obind (puts_lit os la (lit ''Segfault signal handler called, signum: '') w) (\<lambda>w.
     obind (put_signum os la signum w) (\<lambda>w.
     obind (puts_lit os la (line_lit ''Press enter to continue...'') w) (\<lambda>w.
     obind (ece391_read os 0 ba 1 w) (\<lambda>(r, w).
     let w = ust32 os (y_badbuf y) (y_charbuf y) w;
         eax = sa + 4 * 7;
         w = ust32 os eax (y_charbuf y) w
     in puts_lit os la (line_lit ''Signal handler returning'') w))))"

definition alarm_sighandler :: "'w os \<Rightarrow> (u8 list \<Rightarrow> u32) \<Rightarrow> u32 \<Rightarrow> 'w \<Rightarrow> 'w run" where
  "alarm_sighandler os la signum w =
     obind (puts_lit os la (lit ''Alarm signal handler called, signum: '') w) (put_signum os la signum)"

text \<open>The part of \<open>main\<close> after the store.\<close>

definition sigtest_result :: "'w os \<Rightarrow> (u8 list \<Rightarrow> u32) \<Rightarrow> sig_vars \<Rightarrow> u32 \<Rightarrow> u32 \<Rightarrow> 'w \<Rightarrow> (u32 \<times> 'w) run" where
  "sigtest_result os la y buf cnt w =
     (let w = ust os buf cnt 0 w
      in obind (puts_lit os la (lit ''Hello, '') w) (\<lambda>w.
         obind (ece391_fdputs os 1 buf w) (\<lambda>w.
         puts_return os la (line_lit (if uld os w (y_charbuf y) 0 = 1 then ''success'' else ''failure'')) 0 w)))"

text \<open>\<open>SEGFAULT\<close> is 1 and \<open>ALARM\<close> is 3.  The result is what \<open>main\<close> returns, \<open>None\<close> when it is stopped.\<close>

definition sigtest_install :: "'w os \<Rightarrow> (u8 list \<Rightarrow> u32) \<Rightarrow> sig_vars \<Rightarrow> u32 \<Rightarrow> 'w \<Rightarrow> 'w run" where
  "sigtest_install os la y buf w =
     (if uld os w buf 0 = 0x31 then
        obind (puts_lit os la (line_lit ''Installing signal handlers'') w) (\<lambda>w.
        obind (ece391_set_handler os 1 (y_segfault y) w) (\<lambda>(r, w).
        obind (ece391_set_handler os 3 (y_alarm y) w) (\<lambda>(r, w). Some (Inr w))))
      else Some (Inr w))"

definition sigtest_main ::
  "'w os \<Rightarrow> (u32 \<Rightarrow> u8 \<Rightarrow> 'w \<Rightarrow> 'w progress run) \<Rightarrow> (u8 list \<Rightarrow> u32) \<Rightarrow> sig_vars \<Rightarrow> u32 \<Rightarrow> 'w \<Rightarrow> (u32 option \<times> 'w) run" where
  "sigtest_main os poke la y buf w =
     (let returns = (\<lambda>p. obind p (\<lambda>(v, w). Some (Inr (Some v, w))))
      in obind (ece391_getargs os buf 1024 w) (\<lambda>(r, w).
         if 0 \<noteq> r then returns (puts_return os la (line_lit ''could not read argument'') 3 w)
         else
           obind (sigtest_install os la y buf w) (\<lambda>w.
           obind (puts_lit os la (lit ''Hi, what's your name? '') w) (\<lambda>w.
           obind (ece391_read os 0 buf 1023 w) (\<lambda>(cnt, w).
           if - 1 = cnt then returns (puts_return os la (line_lit ''Can't read name from keyboard.'') 3 w)
           else
             obind (poke (ld32 (mem_of os w) (at_addr os w (y_badbuf y))) 1 w) (\<lambda>p.
             case p of
               Stops w \<Rightarrow> Some (Inr (None, w))
             | Goes w \<Rightarrow> returns (sigtest_result os la y buf cnt w)))))))"

definition sigtest_lits :: "u8 list list" where
  "sigtest_lits = [lit ''Hi, what's your name? '', lit ''Hello, '', lit ''Segfault signal handler called, signum: '',
     lit ''Alarm signal handler called, signum: ''] @ map line_lit [''could not read argument'', ''Installing signal handlers'',
     ''Can't read name from keyboard.'', ''success'', ''failure'', ''0'', ''1'', ''2'', ''3'', ''invalid'',
     ''Press enter to continue...'', ''Signal handler returning'']"

subsection \<open>What the program does without signals\<close>

text \<open>The four bytes of a null pointer at offset \<open>a\<close>, and a place for them that a store of \<open>n\<close> bytes leaves alone.\<close>

definition null_at :: "mem \<Rightarrow> ptr \<Rightarrow> bool" where
  "null_at m p \<longleftrightarrow> (\<forall>i<4. ld m p (of_nat i) = 0)"

lemma null_at_ld32: "null_at m p \<Longrightarrow> ld32 m p = 0"
proof -
  assume "null_at m p"
  then have n: "ld m p (of_nat i) = 0" if "i < 4" for i using that by (simp add: null_at_def)
  show ?thesis using n [of 0] n [of 1] n [of 2] n [of 3] by (simp add: ld32_def)
qed

lemma null_at_stores:
  assumes "null_at m (page, a)" and "m' page = stores m (page, b) ys page" and "length ys \<le> n"
    and "\<forall>i<4. n \<le> unat (a + of_nat i - b)"
  shows "null_at m' (page, a)"
proof -
  have "ld m' (page, a) (of_nat i) = ld m (page, a) (of_nat i)" if "i < 4" for i
    using assms(2-4) that by (fastforce simp: ld_def stores_def)
  then show ?thesis using assms(1) by (simp add: null_at_def)
qed

lemma null_at_page: "null_at m (page, a) \<Longrightarrow> m' page = m page \<Longrightarrow> null_at m' (page, a)"
  by (simp add: null_at_def ld_def)

text \<open>What the first part says, for the argument \<open>x\<close>.\<close>

definition install_text :: "u8 list \<Rightarrow> u8 list list" where
  "install_text x = (if x \<noteq> [] \<and> hd x = 0x31 then [line_lit ''Installing signal handlers'' @ [0]] else [])"

text \<open>An operating system on which a null pointer is never mapped: a store through it stops the program,
  with a message.\<close>

locale trap_os = term_os os good page off uaddr view
  for os :: "'w os" and good and page and off and uaddr and view +
  fixes poke :: "u32 \<Rightarrow> u8 \<Rightarrow> 'w \<Rightarrow> 'w progress run" and message :: "u8 list"
  assumes null_trap: "good w \<Longrightarrow> \<exists>w'. poke 0 v w = Some (Inr (Stops w')) \<and>
      v_screen (view w') = fold screen_put message (v_screen (view w))"
begin

lemma handler_refused:
  assumes "good w"
  shows "\<exists>w'. ece391_set_handler os n h w = Some (Inr (- 1, w')) \<and> says [] w w'"
  using refused [OF assms, of h 9 n 0] by (auto simp: ece391_set_handler_def says_def)

lemma install_says:
  assumes "good w" and "uaddr buf" and "cstr (mem_of os w) (page, off buf) x" and "lits la L w"
    and "line_lit ''Installing signal handlers'' \<in> L"
  shows "\<exists>w'. sigtest_install os la y buf w = Some (Inr w') \<and> says (install_text x) w w'"
proof -
  have c: "uld os w buf 0 = 0x31 \<longleftrightarrow> x \<noteq> [] \<and> hd x = 0x31"
    using addr [OF assms(1,2)] assms(3) cstr_nil cstr_tail by (cases x) (fastforce simp: uld_def)+
  show ?thesis
  proof (cases "uld os w buf 0 = 0x31")
    case True
    obtain w1 where w1: "puts_lit os la (line_lit ''Installing signal handlers'') w = Some (Inr w1)"
      "says [line_lit ''Installing signal handlers'' @ [0]] w w1" using puts_lit_says [OF assms(1,4,5)] by blast
    obtain w2 where w2: "ece391_set_handler os 1 (y_segfault y) w1 = Some (Inr (- 1, w2))" "says [] w1 w2"
      using handler_refused [OF says_good [OF w1(2)]] by blast
    obtain w3 where w3: "ece391_set_handler os 3 (y_alarm y) w2 = Some (Inr (- 1, w3))" "says [] w2 w3"
      using handler_refused [OF says_good [OF w2(2)]] by blast
    have "says (install_text x) w w3" using says_trans [OF says_trans [OF w1(2) w2(2)] w3(2)] True c by (simp add: install_text_def)
    then show ?thesis using True w1(1) w2(1) w3(1) by (simp add: sigtest_install_def)
  next
    case False
    moreover have "install_text x = []" using False c by (auto simp: install_text_def)
    ultimately show ?thesis using says_refl [OF assms(1)] by (simp add: sigtest_install_def)
  qed
qed

lemma sigtest_stops:
  assumes "good w" and "uaddr buf" "uaddr (y_badbuf y)" and "v_arg (view w) = Some x" and "v_keys (view w) = l # ls"
    and "lits la L w" and "apart off la L buf 1024"
    and "{line_lit ''Installing signal handlers'', lit ''Hi, what's your name? ''} \<subseteq> L"
    and "null_at (mem_of os w) (page, off (y_badbuf y))" and "\<forall>i<4. 1024 \<le> unat (off (y_badbuf y) + of_nat i - off buf)"
  shows "\<exists>w'. sigtest_main os poke la y buf w = Some (Inr (None, w')) \<and>
    v_screen (view w') = fold screen_put (l @ [0x0A] @ message)
      (fold shown (install_text x @ [lit ''Hi, what's your name? '' @ [0]]) (v_screen (view w)))"
proof -
  obtain w1 ys where w1: "int80 os 7 buf 1024 0 w = Some (Inr (0, w1))" "good w1" "length ys \<le> 1024"
    "mem_of os w1 page = stores (mem_of os w) (page, off buf) ys page" "cstr (mem_of os w1) (page, off buf) x" "view w1 = view w"
    using get_arg [OF assms(1,2,4)] by blast
  have l1: "lits la L w1" by (rule apart_lits [OF assms(6,7) w1(3)]) (rule w1(4))
  have n1: "null_at (mem_of os w1) (page, off (y_badbuf y))"
    by (rule null_at_stores, rule assms(9), rule w1(4), rule w1(3), rule assms(10))
  obtain w2 where w2: "sigtest_install os la y buf w1 = Some (Inr w2)" "says (install_text x) w1 w2"
    using install_says [OF w1(2) assms(2) w1(5) l1] assms(8) by blast
  have m2: "mem_of os w2 page = mem_of os w1 page" "view w2 = (view w)\<lparr>v_screen := fold shown (install_text x) (v_screen (view w))\<rparr>"
    using w2(2) w1(6) by (simp_all add: says_def)
  obtain w3 where w3: "puts_lit os la (lit ''Hi, what's your name? '') w2 = Some (Inr w3)" "says [lit ''Hi, what's your name? '' @ [0]] w2 w3"
    using puts_lit_says [OF says_good [OF w2(2)] lits_says [OF l1 w2(2)], of "lit ''Hi, what's your name? ''"] assms(8) by blast
  have m3: "mem_of os w3 page = mem_of os w1 page" "v_keys (view w3) = l # ls"
    "v_screen (view w3) = fold shown (install_text x @ [lit ''Hi, what's your name? '' @ [0]]) (v_screen (view w))"
    using w3(2) m2 assms(5) by (simp_all add: says_def)
  obtain w4 zs where w4: "int80 os 3 0 buf 1023 w3 = Some (Inr (of_nat (length l + 1), w4))" "good w4" "plain_line l" "length (l @ 0x0A # zs) \<le> 1024"
    "mem_of os w4 page = stores (mem_of os w3) (page, off buf) (l @ 0x0A # zs) page"
    "v_screen (view w4) = fold screen_put (l @ [0x0A]) (v_screen (view w3))"
    using read_line [OF says_good [OF w3(2)] assms(2) m3(2), of 1023] by auto
  have cm: "(of_nat (length l + 1) :: u32) \<noteq> - 1" by (rule small_not_minus_one) (use w4(3) in \<open>simp add: plain_line_def\<close>)
  have "null_at (mem_of os w4) (page, off (y_badbuf y))"
    by (rule null_at_stores, rule null_at_page, rule n1, rule m3(1), rule w4(5), rule w4(4), rule assms(10))
  then have z: "ld32 (mem_of os w4) (at_addr os w4 (y_badbuf y)) = 0" using addr [OF w4(2) assms(3)] by (simp add: null_at_ld32)
  obtain w5 where w5: "poke 0 1 w4 = Some (Inr (Stops w5))" "v_screen (view w5) = fold screen_put message (v_screen (view w4))"
    using null_trap [OF w4(2)] by blast
  have "sigtest_main os poke la y buf w = Some (Inr (None, w5))"
    using w1(1) w2(1) w3(1) w4(1) cm z w5(1) by (simp add: sigtest_main_def ece391_getargs_def ece391_read_def Let_def)
  then show ?thesis using w5(2) w4(6) m3(3) by simp
qed

end

end
