(* ===== verification/Kernel_Traps.thy ===== *)
theory Kernel_Traps
  imports Kernel_Os User_Sigtest
begin

text \<open>
  What happens when a program uses an address it must not use: the processor raises a page fault
  (vector 14), and the kernel has no way back from it.  A null pointer is such an address in every
  good state, so the kernel keeps the law of \<open>trap_os\<close>.
\<close>

text \<open>A store of user code at address \<open>a\<close>: it needs a page that is present, open to user code and writable.  An
  interrupt gate turns interrupts off before the handler runs.  A store to the kernel's data in the first 4 MB, which every
  directory opens to user code, is not followed.\<close>

definition kernel_poke ::
  "hardware \<Rightarrow> u32 \<Rightarrow> ('a kernel_scheme \<Rightarrow> 'a kernel_scheme run) \<Rightarrow> u8 \<Rightarrow> u32 \<Rightarrow> u8 \<Rightarrow> 'a kernel_scheme \<times> u8 list list \<Rightarrow>
   ('a kernel_scheme \<times> u8 list list) progress run" where
  "kernel_poke hw check ex x0 a v w =
     (case w of (s, ks) \<Rightarrow>
        let fault = obind (run_handler hw ex [] check x0 (0, 0, 0, 0) (vector_handler 14) (cli s)) (\<lambda>(e, s). Some (Inr (Stops (s, ks))))
        in case translate s a of
             None \<Rightarrow> fault
           | Some (p, user, writable) \<Rightarrow>
               if user \<and> writable then
                 if own_ptr (user_ptr s a) then Some (Inr (Goes (s\<lparr>ram := st (ram s) (user_ptr s a) 0 v\<rparr>, ks)))
                 else Some (Inl (stray s a))
               else fault)"

lemma null_unmapped:
  assumes "kernel_good k (s, ks)" and "unat a < 4096"
  shows "translate s a = None"
proof -
  have r: "cr3 s = int k + 1" "null_guarded k s" using assms(1) by (simp_all add: kernel_good_def runs_in_def)
  have "unat (drop_bit 22 a) = 0" "unat (drop_bit 12 a) = 0" using assms(2) by (simp_all add: drop_bit_eq_div unat_div)
  then have u: "drop_bit 22 a = 0" "drop_bit 12 a = 0" by (simp_all only: unat_eq_zero)
  show ?thesis using r by (simp add: translate_def u null_guarded_def nat_add_distrib Let_def)
qed

lemma kernel_null_trap:
  assumes g: "kernel_good k (s, ks)"
  shows "\<exists>s'. kernel_poke hw check ex x0 0 v (s, ks) = Some (Inr (Stops (s', ks))) \<and> kprints (line_lit ''pretty boi'') (cli s) s'"
proof -
  have "console_ok (cli s)" using g by (simp add: kernel_good_def term_ready_def kbd_ok_def cli_def console_ok_def)
  from exception_stops [OF this, of Page_fault_h] obtain s' where
    "run_handler hw ex [] check x0 (0, 0, 0, 0) (vector_handler 14) (cli s) = Some (Inr (Spin, s'))" "kprints (line_lit ''pretty boi'') (cli s) s'"
    by (auto simp: vector_handler_def)
  then show ?thesis using null_unmapped [OF g, of 0] by (simp add: kernel_poke_def)
qed

interpretation trap: trap_os "kernel_os hw check ex x0 leave" "kernel_good k" "User k" prog_off prog_addr "kernel_view k"
  "kernel_poke hw check ex x0" "line_lit ''pretty boi''"
  for hw check ex x0 leave k
proof (unfold_locales, goal_cases)
  case (1 w v)
  then obtain s' where s': "kernel_poke hw check ex x0 0 v w = Some (Inr (Stops (s', snd w)))" "kprints (line_lit ''pretty boi'') (cli (fst w)) s'"
    using kernel_null_trap [of k "fst w" "snd w" hw check ex x0 v] by auto
  then show ?case by (intro exI [of _ "(s', snd w)"]) (cases w, simp add: kprints_def kernel_view_def cli_def)
qed

end
