(* ===== verification/Spec2Isabelle.thy ===== *)
theory Spec2Isabelle
  imports Lib_Itoa Lib_Memory Sample_Fish Sample_Session User_Calls Key_Bounds Kernel_Traps
begin

text \<open>
  OreOS is a small operating system for one 386 processor: a monolithic kernel in C
  (student-distrib), booted by a multiboot loader with a read-only file system image, that runs
  programs of its own (syscalls) on three text terminals.  This development is a shallow embedding
  of the kernel and of its programs (those of syscalls and the animation fish): every C function that carries their logic is a HOL function
  over an explicit state, and the theorems below are about these functions.

  \<^bold>\<open>How the parts fit together.\<close>  \<open>entry\<close> (kernel.c) reports what the boot loader left, fills the
  descriptor tables (x86_desc.h), initialises the interrupt controller (i8259.c), the clock chip
  (rtc.c), the file system (filesys.c), paging (paging.c) and the terminals (sched.c), and executes
  the first shell (sys_call.c).  From then on the kernel runs on \<open>int 0x80\<close> (sys_call_jmptable.S,
  sys_call.c), on clock ticks (\<open>do_events\<close> of sched.c) and on key presses (keyboard.c), which draw
  on the screen through \<open>putc\<close> (lib.c).  The programs reach the kernel through the wrappers of
  ece391syscall.S only, and share the support library ece391support.c.

  \<^bold>\<open>State.\<close>  \<open>Kernel_State\<close> holds one record per C file with its global variables, each extending the
  one before (\<open>machine\<close>, \<open>pic\<close>, \<open>paging\<close>, \<open>console\<close>, \<open>rtc\<close>, \<open>filesys\<close>, \<open>sched\<close>, \<open>keyboard\<close>,
  \<open>kernel\<close>, \<open>boot\<close>), so an operation of one file works on every later state and the operations
  compose as the C calls do.  The machine part is the history of port accesses, the interrupt flag,
  the stack registers, CR3 and the written TSS fields.  Memory is a set of blocks (\<open>OS_Prelude\<close>):
  \<open>Flat\<close> for the identity-mapped low memory, \<open>User i\<close> for the program page of slot \<open>i\<close>, \<open>Obj n\<close>
  for an array of the C program; pointers have 32-bit offsets and wrap.  Integers keep their width.
  An index outside an array is a fault (\<open>Inl\<close> with the array's name); a loop that can run for ever
  is a \<open>partial_function (option)\<close>, with \<open>None\<close> for not returning, so \<open>Some (Inr x)\<close> in a theorem
  says that the code returns.

  \<^bold>\<open>Theories, the code they model, and what their lemmas show.\<close>
  \<^item> \<open>OS_Prelude\<close>: words, memory (\<open>ld\<close>, \<open>st\<close>, \<open>stores\<close>, \<open>bytes\<close>, \<open>cstr\<close>), results, counted loops.
  \<^item> \<open>Lib_String\<close>, \<open>Lib_Itoa\<close>, \<open>Lib_Memory\<close> (lib.c): each routine equals one reference store,
    comparison or number conversion; the assembly of \<open>memcpy\<close>, \<open>memmove\<close> and \<open>memset\<close> label by label.
  \<^item> \<open>I8259\<close> (i8259.c), \<open>Rtc\<close> (rtc.c), \<open>X86_Desc\<close> (x86_desc.h, \<open>init_idt\<close>): what reaches the
    ports, and how the processor reads the packed descriptors.
  \<^item> \<open>Paging\<close> (paging.c): the address translation of the processor over the directories the code
    builds; process slots as an instance of the first-fit allocator.
  \<^item> \<open>Console\<close>, \<open>Printf\<close> (lib.c): \<open>putc\<close> refines an abstract screen of 25 lines of 80 characters;
    \<open>printf\<close> prints the expansion of its format.
  \<^item> \<open>Filesys\<close> (filesys.c): the image as a directory list and file contents; lookups and reads
    return what these lists hold.
  \<^item> \<open>Sched\<close> (sched.c), \<open>Keyboard\<close> (keyboard.c, \<open>backspacing\<close> of lib.c): rotation of the
    terminals, switching pictures, line editing, reading and writing a terminal.
  \<^item> \<open>Sys_Call\<close>, \<open>Process\<close> (sys_call.c, sys_call_jmptable.S): descriptors and the four kinds of
    files, \<open>execute\<close> and \<open>halt\<close>, the dispatcher.
  \<^item> \<open>Handlers\<close> (handlers.c), \<open>Boot\<close> (kernel.c): exception handlers and \<open>entry\<close>.
  \<^item> \<open>Protection\<close>: the steps \<open>kstep\<close> and runs \<open>kruns\<close> that interleave user code, system calls, ticks and
    keys, what is asked of programs (\<open>well_behaved\<close>), a calculus of what an operation leaves if it returns, and the invariant of the page tables.
  \<^item> \<open>Key_Bounds\<close>: the line index and the cursor stay in bounds whatever is typed, but for Tab.
  \<^item> \<open>User_Lib\<close> (ece391syscall.S, ece391support.c): the system calls as a program makes them, over an
    operating system \<open>os\<close> given by its memory, its addresses and \<open>int 0x80\<close>; the string routines.
  \<^item> \<open>User_Programs\<close> (cat, ls, hello, testprint, counter, shell), \<open>User_Syserr\<close> (ece391syserr.c),
    \<open>User_Grep\<close> (ece391grep.c), \<open>User_Pingpong\<close> (ece391pingpong.c), \<open>User_Sigtest\<close> (ece391sigtest.c): \<open>main\<close> of
    each program and its loops (of syserr, the tests and the switch that selects them).
  \<^item> \<open>Fish_Blink\<close> (fish/blink.S and the pool of structures of fish/fish.c): the linked list of blinking
    characters, routine by routine, and the plain list it refines; \<open>Fish_Time\<close>: runs of requests and
    ticks, what is on the screen after any number of ticks, and the list that bites its tail;
    \<open>Fish_Main\<close> (the rest of fish/fish.c): \<open>add_frames\<close> and \<open>main\<close>, and the film two pictures denote.
  \<^item> \<open>User_Os\<close>, \<open>User_Tests\<close>, \<open>User_Term\<close>, \<open>User_Clock\<close>: what a program observes of the kernel (\<open>uview\<close>), the laws of
    the system calls as locales, and the programs verified against these laws alone.
  \<^item> \<open>Kernel_Os\<close>: the kernel as operating system (\<open>kernel_os\<close>, \<open>kernel_good\<close>, \<open>kernel_view\<close>); it keeps the
    laws, so what was proved of the programs holds on this kernel.  \<open>User_Calls\<close>: calls within the
    interface return and keep the kernel good, along every run of a process.  \<open>Kernel_Traps\<close>: a store of
    a program through the page table, and the page fault it can raise.  \<open>Boot_Session\<close>: the state in
    which \<open>entry\<close> enters the shell is good, so the programs' theorems hold from boot on.
  \<^item> \<open>Sample_Machine\<close>, \<open>Sample_Boot\<close>, \<open>Sample_User\<close>, \<open>Sample_Fish\<close>, \<open>Sample_Session\<close>: concrete machines and processes on which the
    hypotheses of the properties hold.

  \<^bold>\<open>Interfaces.\<close>  \<open>slot_allocator\<close> (\<open>Slot_Alloc\<close>) is the contract of first-fit allocation, interpreted
  by process slots (\<open>slots\<close>) and by file descriptors (\<open>fds\<close>); \<open>stream_reader\<close> (\<open>Stream_Reader\<close>) is
  sequential reading, interpreted by files (\<open>file_stream\<close>) and by the directory (\<open>dir_stream\<close>);
  \<open>char_device\<close> (\<open>Char_Device\<close>) is a device that takes characters, interpreted by the console
  (\<open>console\<close>).  \<open>text_os\<close>, \<open>file_os\<close> and \<open>term_os\<close>, each extending the one before, are the contract
  between programs and kernel: output, files and refused calls, typed lines and arguments; they are
  interpreted by the kernel (\<open>kernel\<close>).  \<open>clock_os\<close> adds the clock and the mapped screen to \<open>file_os\<close>
  (interpretation \<open>clock\<close>, for a process that is \<open>alone\<close>: one terminal in use, so that a tick switches to
  nobody), \<open>trap_os\<close> adds to \<open>term_os\<close> that a null pointer is never mapped (interpretation \<open>trap\<close>).  The lemmas on runs of operations and on whole programs are
  proved once in the locales.

  \<^bold>\<open>Parameters.\<close>  What an input port returns (\<open>hw\<close>, with the documented behaviour of the clock chip
  as \<open>cmos\<close>), the interrupts that arrive while a loop waits, the values of uninitialised locals
  (\<open>check\<close>, \<open>x0\<close>), the addresses the linker chooses and the descriptor images of x86_desc.S
  (\<open>layout\<close>), the memory the boot loader leaves (\<open>multiboot_ok\<close>, \<open>boot_ready\<close>).  For the programs:
  the addresses of their string literals (\<open>la\<close>) and local arrays (\<open>buf\<close>, \<open>data\<close>), the scan codes
  that arrive while a read of the terminal waits (a read of the clock gets the next tick), and what happens when control leaves the program
  for another one (\<open>leave\<close>).

  \<^bold>\<open>Bounds.\<close>  Fuel appears only in the clients of \<open>stream_reader\<close> (\<open>drain\<close>), whose lemmas
  give the number of reads that is enough; all other loops are total functions or options.

  \<^bold>\<open>Kernel memory.\<close>  The directories, the page table, the control blocks, the kernel stacks and the video frames are
  fields of the state and not bytes of \<open>ram\<close>, so no store to \<open>ram\<close> changes them.  In the code a stray pointer does, and the
  model ends with an error value (\<open>Inl\<close>) where that could happen: a system call that uses an address outside the program
  pages (\<open>through\<close>, \<open>sys_vidmap\<close>), a store of user code outside its page (\<open>kernel_poke\<close>), a file that \<open>execute\<close> cannot copy to
  the 8 KB kernel stack of its caller (\<open>file_buf_fits\<close>).  Theorems that say \<open>Some (Inr x)\<close> are therefore about runs
  without such accesses, and the isolation of processes is about well-behaved programs (\<open>well_behaved\<close>), a hypothesis on the
  run.  A buffer that starts in the program page is taken to end in it.

  \<^bold>\<open>Not modelled.\<close>  boot.S and the tables of x86_desc.S (assembly before \<open>entry\<close>, parameters here);
  the assembly prologues and \<open>iret\<close> of the interrupt wrappers, of which only the dispatch is kept;
  debug.h and \<open>rtc_test\<close> (debugging aids); multiboot.h, types.h and the constants of the other headers
  appear as the numbers they stand for.  ece391emulate.c runs the programs on a Linux host, through
  system calls of Linux; it is no part of the operating system.  The screen \<open>fish\<close> draws on (\<open>vmem\<close>) is
  the page at \<open>vmem_base_addr\<close> as the program sees it; that \<open>vidmap\<close> maps this page to video memory is a
  property of its own (\<open>vidmap_maps_screen\<close>).  The kernel delivers no signals, so the handlers of sigtest are
  defined but never run.  A program that \<open>execute\<close> starts runs outside
  the view of the program that started it (\<open>leave\<close>), so the session of the shell is about commands
  that name no file; \<open>execute\<close> and \<open>halt\<close> themselves are verified on the kernel.
\<close>

section \<open>Properties of the system\<close>

subsection \<open>Memory protection\<close>

text \<open>C1: from boot on, however user code, system calls, commands of the kernel, clock ticks and key presses
  interleave, user code running in slot \<open>k\<close> reaches no physical memory but the first 4 MB and its own 4 MB
  frame: neither the kernel's frame nor the frame of any other slot.  The start is the state in
  which \<open>entry\<close> has initialised the kernel.  The run \<open>steps\<close> is any sequence of steps of well-behaved programs,
  which neither the processor nor the kernel enforces: user code stores only to its own page (not to the
  control blocks, stacks and tables in the first 4 MB and behind unchecked pointers), the buffers of its calls end in that
  page, and every executed file is linked outside the page table's, the kernel's and the video page.  A call
  that is handed an address outside the program page ends with an error value and is no step.\<close>

theorem reachable_isolation:
  assumes "boot_ready s0" and "multiboot_ok (ram s0) addr" and "boot_kernel l hw magic addr s0 = Some (Inr (True, t))"
    and "kruns hw check t steps s" and "\<forall>x\<in>set steps. well_behaved check x"
    and "cr3 s = int k + 1" and "k < 7" and "translate s v = Some (p, True, w)"
  shows "(p < 0x400000 \<or> drop_bit 22 p = of_nat (k + 2)) \<and> drop_bit 22 p \<noteq> 1 \<and>
    (\<forall>j. j < 7 \<longrightarrow> j \<noteq> k \<longrightarrow> drop_bit 22 p \<noteq> of_nat (j + 2))"
proof -
  have "pinv t" using boot_kernel_pinv [OF assms(1-3)] by (simp add: started_def)
  from reachable_pinv [OF assms(4,5) this] assms(6-8) show ?thesis by (rule pinv_isolated)
qed

theorem reachable_isolation_witness:
  "\<exists>s. translate s 0x8048000 = Some (0x848000, True, True) \<and> cr3 s = 1 \<and> drop_bit 22 (0x848000 :: u32) \<noteq> 1 \<and>
     (\<exists>t. boot_kernel sample_layout sample_chip MULTIBOOT_BOOTLOADER_MAGIC 0x1000 sample_pc = Some (Inr (True, t)) \<and>
       kruns sample_chip 0 t [(t, boot_command, s)] s \<and> well_behaved 0 (t, boot_command, s))"
proof -
  obtain t s where s: "boot_kernel sample_layout sample_chip MULTIBOOT_BOOTLOADER_MAGIC 0x1000 sample_pc = Some (Inr (True, t))"
    "cr3 s = 1" "prog_mapped 0 s" "kstep sample_chip 0 t boot_command s" "well_behaved 0 (t, boot_command, s)"
    using entry_starts_shell [OF sample_pc_ready sample_pc_multiboot sample_pc_image sample_pc_tables, of sample_layout sample_chip 0] by blast
  have tr: "translate s 0x8048000 = Some (0x848000, True, True)"
    using translate_big [of s "0x8048000" 2 CTRL_EMPTY_USR] s(2,3) by (simp add: prog_mapped_def mask_numeral)
  have kr: "kruns sample_chip 0 t [(t, boot_command, s)] s" using kruns.next_step [OF kruns.start s(4)] by simp
  have "drop_bit 22 (0x848000 :: u32) \<noteq> 1"
    using reachable_isolation [OF sample_pc_ready sample_pc_multiboot s(1) kr _ _ _ tr, of 0] s(2,5)
    by (simp del: well_behaved.simps)
  then show ?thesis using s kr tr by blast
qed

text \<open>C2: after \<open>init_paging\<close> the kernel runs with an identity mapping: the first page is absent (a
  null pointer faults), the rest of the first 4 MB is read through the page table, everything
  above is mapped with large pages, and nothing is open to user code.\<close>

theorem init_paging_identity:
  assumes "PTE_base s AND 0xFFFFF000 = PTE_base s"
  shows "translate (init_paging s) v =
    (if unat v < 2 ^ 12 then None
     else if unat v < 2 ^ 22 then Some (v, False, False)
     else Some (v, False, True))"
  using assms by (rule kernel_identity_map)

theorem init_paging_identity_witness: "translate (init_paging sample) 0xB8000 = Some (0xB8000, False, False)"
  using init_paging_identity [of sample "0xB8000"] by simp

text \<open>C3: \<open>n\<close> calls of \<open>new_pde\<close> hand out the free process slots in ascending order, each once, and
  -1 once they are used up.\<close>

theorem process_slots_first_fit:
  assumes "slots_inv s" and "run_alloc (alloc_slot v) n s = (rs, s')"
  shows "rs = map Some (take n (free_slots slot_used 0 7 s)) @ replicate (n - length (free_slots slot_used 0 7 s)) None"
  using assms by (rule slots.run_alloc_results)

theorem process_slots_first_fit_witness:
  "fst (run_alloc (alloc_slot 0x8048000) 8 sample) = [Some 1, Some 2, Some 3, Some 4, Some 5, Some 6, None, None]"
proof -
  have u: "slot_used sample 0" "i \<in> {1..<7} \<Longrightarrow> \<not> slot_used sample i" for i
    using sample_used [of i] by (auto simp: slot_used_def)
  have "free_slots slot_used 0 7 sample = [1, 2, 3, 4, 5, 6]"
    by (simp add: free_slots_def upt_rec u)
  then show ?thesis
    using process_slots_first_fit [OF sample_std(2) prod.collapse [symmetric], of "0x8048000" 8] by (simp add: eval_nat_numeral)
qed

subsection \<open>Programs on the kernel\<close>

text \<open>C4: progress and preservation of the system call interface.  From a good state, after any number of
  calls and of stores to its own page, a process that makes a call within the interface (a buffer in
  its page, an open descriptor, a name that ends within 32 bytes, a line that will be typed, or
  anything the kernel refuses) gets an answer, and the kernel is good again: its descriptor table,
  file system, page tables, terminal and arguments are well formed.\<close>

theorem user_calls_return:
  assumes "kernel_good k w0" and "(user_step hw check ex x0 leave k)\<^sup>*\<^sup>* w0 w" and "may_call k w n b c d"
  shows "\<exists>v w'. kernel_int80 hw check ex x0 leave n b c d w = Some (Inr (v, w')) \<and> kernel_good k w'"
  using user_steps_good [OF assms(2,1)] assms(3) by (rule may_call_returns)

theorem user_calls_return_witness:
  "\<exists>v w'. kernel_int80 sample_chip 0 (\<lambda>s. None) 0 (\<lambda>out w. None) 6 2 0 0 (sample_user [] [], []) = Some (Inr (v, w')) \<and> kernel_good 0 w'"
proof -
  have "kernel_good 0 (sample_user [] [], [])" by (rule sample_user_good) simp_all
  from user_calls_return [OF this rtranclp.rtrancl_refl, of 6 2 0 0 sample_chip 0 "\<lambda>s. None" 0 "\<lambda>out w. None"] show ?thesis
    by (simp add: may_call_def)
qed

text \<open>C5: \<open>open\<close> and \<open>close\<close> refine the abstract descriptor table a process sees: \<open>open\<close> takes the lowest free
  descriptor for the named file, -1 when the table is full or the name unknown; \<open>close\<close> frees a
  descriptor above 1, and refuses all others; nothing else the process sees changes.\<close>

theorem open_close_refine:
  assumes "kernel_good k w" and "prog_addr a" and "cstr (ram (fst w)) (User k, prog_off a) name" and "length name \<le> 31"
  shows "\<exists>w' w''. kernel_int80 hw check ex x0 leave 5 a 0 0 w = Some (Inr (fst (v_open name (kernel_view k w)), w')) \<and>
    kernel_view k w' = snd (v_open name (kernel_view k w)) \<and>
    kernel_int80 hw check ex x0 leave 6 fd 0 0 w' = Some (Inr (fst (v_close fd (kernel_view k w')), w'')) \<and>
    kernel_view k w'' = snd (v_close fd (kernel_view k w')) \<and> ram (fst w'') (User k) = ram (fst w) (User k) \<and> kernel_good k w''"
proof -
  obtain w' where w': "kernel_int80 hw check ex x0 leave 5 a 0 0 w = Some (Inr (fst (v_open name (kernel_view k w)), w'))"
    "kernel_good k w'" "ram (fst w') (User k) = ram (fst w) (User k)" "kernel_view k w' = snd (v_open name (kernel_view k w))"
    using kernel.call_open [where hw = hw and check = check and ex = ex and ?x0.0 = x0 and leave = leave, OF assms(1,2), of name] assms(3,4) by auto
  then show ?thesis using kernel.call_close [where hw = hw and check = check and ex = ex and ?x0.0 = x0 and leave = leave and fd = fd, OF w'(2)] by auto
qed

theorem open_close_refine_witness:
  "\<exists>w' w''. kernel_int80 sample_chip 0 (\<lambda>s. None) 0 (\<lambda>out w. None) 5 (lit_addr ls_lits (lit ''.'')) 0 0 (sample_user ls_lits [], []) = Some (Inr (2, w')) \<and>
     kernel_int80 sample_chip 0 (\<lambda>s. None) 0 (\<lambda>out w. None) 6 2 0 0 w' = Some (Inr (0, w''))"
proof -
  let ?w = "(sample_user ls_lits [], [])" and ?a = "lit_addr ls_lits (lit ''.'')"
  have g: "kernel_good 0 ?w" by (rule sample_user_good) simp_all
  have "lit ''.'' \<in> set ls_lits" by (simp add: ls_lits_def)
  then have l: "prog_addr ?a" "cstr (ram (fst ?w)) (User 0, prog_off ?a) (lit ''.'')"
    using sample_loaded [OF short_program_lits(2), of "[]" "[]"] by (auto simp: loaded_def has_lits_def)
  have "lit ''.'' = [46]" by (simp add: lit_def)
  then have "v_open (lit ''.'') (kernel_view 0 ?w) = (2, (kernel_view 0 ?w)\<lparr>v_fds := (v_fds (kernel_view 0 ?w))(2 := Some Lists)\<rparr>)"
    using v_open_found [of "kernel_view 0 ?w" "lit ''.''" Lists 2] by (simp add: sample_user_view)
  then show ?thesis
    using open_close_refine [OF g l, of sample_chip 0 "\<lambda>s. None" 0 "\<lambda>out w. None" 2] by (fastforce simp: v_close_def lit_def)
qed

text \<open>C6: the tests of the repository's test program pass on this kernel: when \<open>0\<close> is chosen, \<open>syserr\<close> runs its eight
  tests of bad descriptors, exhausted descriptors, missing names, unopened descriptors, bad pointers
  for \<open>vidmap\<close>, the wrong direction on the terminal and bad call numbers; each prints its \<open>PASS\<close> line,
  and the last line is \<open>Overall Tests: PASS\<close>; when one of \<open>1\<close> to \<open>8\<close> is chosen, that test alone passes.  The result is 0, and
  the memory of the program is unchanged.  This is about the tests and the switch that selects them; the read of
  the answer before the switch overruns the array of \<open>main\<close> and is no part of it.\<close>

theorem syserr_passes:
  assumes "kernel_good k w" and "has_lits (User k) prog_off prog_addr la (set syserr_lits) (ram (fst w))" and "prog_addr buf"
    and "sys_clean (kernel_view k w)"
  shows "(\<exists>w'. syserr_select (kernel_os hw check ex x0 leave) la regs buf 0x30 w = Some (Inr (0, w')) \<and> kernel_good k w' \<and>
      ram (fst w') (User k) = ram (fst w) (User k) \<and>
      kernel_view k w' = (kernel_view k w)\<lparr>v_screen := shown (0x0A # line_lit ''Overall Tests: PASS'' @ [0])
        (fold shown (map (\<lambda>name. pass_line name @ [0]) syserr_names) (v_screen (kernel_view k w)))\<rparr>) \<and>
    (\<forall>n<8. \<exists>w'. syserr_select (kernel_os hw check ex x0 leave) la regs buf (0x31 + of_nat n) w = Some (Inr (0, w')) \<and> kernel_good k w' \<and>
      ram (fst w') (User k) = ram (fst w) (User k) \<and>
      kernel_view k w' = (kernel_view k w)\<lparr>v_screen := shown (pass_line (syserr_names ! n) @ [0]) (v_screen (kernel_view k w))\<rparr>)"
proof -
  have l: "{lit ''.'', lit ''helloo'', lit ''shel'', [], 0x0A # line_lit ''Overall Tests: PASS''} \<subseteq> set syserr_lits"
    "pass_line ` set syserr_names \<subseteq> set syserr_lits" by (auto simp: syserr_lits_def)
  show ?thesis
    using kernel.syserr_all_pass [where la = la and hw = hw and check = check and ex = ex and ?x0.0 = x0 and leave = leave and regs = regs,
        OF assms(1,3,4) _ l]
      kernel.syserr_one_passes [where la = la and hw = hw and check = check and ex = ex and ?x0.0 = x0 and leave = leave and regs = regs,
        OF assms(1,3,4) _ _ l(2)] l(1) assms(2)
    by (simp add: kernel.says_def)
qed

theorem syserr_passes_witness:
  "\<exists>w'. syserr_select (kernel_os sample_chip 0 (\<lambda>s. None) 0 (\<lambda>out w. None)) (lit_addr syserr_lits) (0, 0, 0) 0x8200000 0x30
     (sample_user syserr_lits [], []) = Some (Inr (0, w'))"
proof -
  let ?w = "(sample_user syserr_lits [], [])"
  have g: "kernel_good 0 ?w" by (rule sample_user_good) (simp_all add: typed_lines)
  have c: "sys_clean (kernel_view 0 ?w)" by (simp add: sys_clean_def sample_user_view lit_def)
  have l: "has_lits (User 0) prog_off prog_addr (lit_addr syserr_lits) (set syserr_lits) (ram (fst ?w))"
    using sample_loaded [OF short_program_lits(6), of "[]" "[]"] by (simp add: loaded_def)
  from syserr_passes [OF g l _ c, of "0x8200000" sample_chip 0 "\<lambda>s. None" 0 "\<lambda>out w. None" "(0, 0, 0)"]
  show ?thesis by (auto simp: prog_addr_def)
qed

text \<open>C7: \<open>cat\<close> prints the file its argument names: all its bytes in order, in pieces of 1024, each written at
  once, and ends with status 0.  (A write sends one byte more than the piece, the \<open>es\<close>, and rubs it
  out: see \<open>shown\<close>.)\<close>

theorem cat_prints_file:
  assumes "kernel_good k w" and "prog_addr buf" and "v_arg (kernel_view k w) = Some name"
    and "v_disk (kernel_view k w) name = Some (Reads xs)" "length xs < 2 ^ 31"
    and "2 \<le> i" "i < 8" "v_fds (kernel_view k w) i = None" "\<And>j. 2 \<le> j \<Longrightarrow> j < i \<Longrightarrow> v_fds (kernel_view k w) j \<noteq> None"
  shows "\<exists>w' es. cat_main (kernel_os hw check ex x0 leave) la buf w = Some (Inr (0, w')) \<and> length es = length (chunks 1024 xs) \<and>
    concat (chunks 1024 xs) = xs \<and>
    kernel_view k w' = (kernel_view k w)\<lparr>v_screen := fold shown (map2 (\<lambda>c e. c @ [e]) (chunks 1024 xs) es) (v_screen (kernel_view k w)),
      v_fds := (v_fds (kernel_view k w))(i := Some (Reads []))\<rparr>"
  using kernel.cat_prints [OF assms, of hw check ex x0 leave la] concat_chunks [of 1024 xs] by auto

theorem cat_prints_file_witness:
  "\<exists>w' e. cat_main (kernel_os sample_chip 0 (\<lambda>s. None) 0 (\<lambda>out w. None)) (lit_addr cat_lits) 0x8100000 (sample_user cat_lits (lit ''frame''), []) = Some (Inr (0, w')) \<and>
     v_screen (kernel_view 0 w') = shown (frame_text @ [e]) (v_screen (kernel_view 0 (sample_user cat_lits (lit ''frame''), [])))"
proof -
  let ?w = "(sample_user cat_lits (lit ''frame''), [])"
  have g: "kernel_good 0 ?w" by (rule sample_user_good) (simp_all add: lit_def)
  have a: "v_arg (kernel_view 0 ?w) = Some (lit ''frame'')" by (subst sample_user_arg) (simp_all add: lit_def)
  have d: "v_disk (kernel_view 0 ?w) (lit ''frame'') = Some (Reads frame_text)" by (simp add: sample_user_view lit_def)
  have c: "chunks 1024 frame_text = [frame_text]" "length frame_text < 2 ^ 31" by (simp_all add: chunks.simps frame_text_def)
  obtain w' es where w': "cat_main (kernel_os sample_chip 0 (\<lambda>s. None) 0 (\<lambda>out w. None)) (lit_addr cat_lits) 0x8100000 ?w = Some (Inr (0, w'))"
    "length es = 1" "kernel_view 0 w' = (kernel_view 0 ?w)\<lparr>v_screen := fold shown (map2 (\<lambda>c e. c @ [e]) [frame_text] es) (v_screen (kernel_view 0 ?w)),
      v_fds := (v_fds (kernel_view 0 ?w))(2 := Some (Reads []))\<rparr>"
    using cat_prints_file [OF g _ a d c(2), of "0x8100000" 2 sample_chip 0 "\<lambda>s. None" 0 "\<lambda>out w. None" "lit_addr cat_lits"]
    by (auto simp: prog_addr_def sample_user_view(1) c(1))
  then obtain e where "es = [e]" by (auto simp: length_Suc_conv)
  then show ?thesis using w' by auto
qed

text \<open>\<open>cat\<close> complains: with no argument (or one of more than 30 characters) it prints a message and ends with
  status 3, with the name of a missing file it prints another and ends with status 2; no descriptor
  stays open.\<close>

lemma cat_reports_errors:
  assumes "kernel_good k w" and "loaded k la buf cat_lits w"
    and "v_arg (kernel_view k w) = None \<or> v_arg (kernel_view k w) = Some name \<and> v_disk (kernel_view k w) name = None"
  shows "\<exists>w'. cat_main (kernel_os hw check ex x0 leave) la buf w = Some (Inr (if v_arg (kernel_view k w) = None then 3 else 2, w')) \<and>
    kernel_good k w' \<and> kernel_view k w' = (kernel_view k w)\<lparr>v_screen :=
      shown (line_lit (if v_arg (kernel_view k w) = None then ''could not read arguments'' else ''file not found'') @ [0]) (v_screen (kernel_view k w))\<rparr>"
proof -
  have l: "prog_addr buf" "has_lits (User k) prog_off prog_addr la (set cat_lits) (mem_of (kernel_os hw check ex x0 leave) w)"
    "apart prog_off la (set cat_lits) buf 1024" using assms(2) by (simp_all add: loaded_def)
  have "{line_lit ''could not read arguments'', line_lit ''file not found''} \<subseteq> set cat_lits" by (simp add: cat_lits_def)
  from kernel.cat_complains [OF assms(1) l this assms(3)] show ?thesis by (auto simp only: if_distrib)
qed

text \<open>C8: \<open>ls\<close> prints the directory: for every entry of the file system, in order, the name in its field of 32
  bytes and a line end, and ends with status 0.\<close>

theorem ls_lists_directory:
  assumes "kernel_good k w" and "loaded k la buf ls_lits w" and "v_disk (kernel_view k w) (lit ''.'') = Some Lists"
    and "2 \<le> i" "i < 8" "v_fds (kernel_view k w) i = None" "\<And>j. 2 \<le> j \<Longrightarrow> j < i \<Longrightarrow> v_fds (kernel_view k w) j \<noteq> None"
    and "v_dir (kernel_view k w) = v_names (kernel_view k w)"
  shows "\<exists>w' es. ls_main (kernel_os hw check ex x0 leave) la buf w = Some (Inr (0, w')) \<and> kernel_good k w' \<and>
    length es = length (v_names (kernel_view k w)) \<and>
    kernel_view k w' = (kernel_view k w)\<lparr>v_screen :=
      fold shown (map2 (\<lambda>nm e. pad32 nm @ [0x0A, e]) (v_names (kernel_view k w)) es) (v_screen (kernel_view k w)),
      v_fds := (v_fds (kernel_view k w))(i := Some Lists)\<rparr>"
proof -
  have l: "prog_addr buf" "has_lits (User k) prog_off prog_addr la (set ls_lits) (mem_of (kernel_os hw check ex x0 leave) w)"
    "lit ''.'' \<in> set ls_lits" using assms(2) by (simp_all add: loaded_def ls_lits_def)
  have "v\<lparr>v_screen := x, v_fds := y, v_dir := v_names v\<rparr> = v\<lparr>v_screen := x, v_fds := y\<rparr>" if "v_dir v = v_names v" for v :: uview and x y
    using that by simp
  with kernel.ls_prints [OF assms(1) l assms(3-8)] assms(8) show ?thesis by auto
qed

theorem ls_lists_directory_witness:
  "\<exists>w' es. ls_main (kernel_os sample_chip 0 (\<lambda>s. None) 0 (\<lambda>out w. None)) (lit_addr ls_lits) 0x8100000 (sample_user ls_lits [], []) = Some (Inr (0, w')) \<and> length es = 3 \<and>
     v_screen (kernel_view 0 w') = fold shown (map2 (\<lambda>nm e. pad32 nm @ [0x0A, e]) [lit ''.'', lit ''frame'', lit ''prog''] es)
       (v_screen (kernel_view 0 (sample_user ls_lits [], [])))"
proof -
  let ?w = "(sample_user ls_lits [], [])"
  have g: "kernel_good 0 ?w" by (rule sample_user_good) simp_all
  have d: "v_disk (kernel_view 0 ?w) (lit ''.'') = Some Lists" by (simp add: sample_user_view lit_def)
  have e: "v_names (kernel_view 0 ?w) = [lit ''.'', lit ''frame'', lit ''prog'']" "v_dir (kernel_view 0 ?w) = v_names (kernel_view 0 ?w)"
    by (simp_all add: sample_user_view lit_def)
  obtain w' es where "ls_main (kernel_os sample_chip 0 (\<lambda>s. None) 0 (\<lambda>out w. None)) (lit_addr ls_lits) 0x8100000 ?w = Some (Inr (0, w'))"
    "length es = length (v_names (kernel_view 0 ?w))" "kernel_view 0 w' = (kernel_view 0 ?w)\<lparr>v_screen :=
      fold shown (map2 (\<lambda>nm e. pad32 nm @ [0x0A, e]) (v_names (kernel_view 0 ?w)) es) (v_screen (kernel_view 0 ?w)),
      v_fds := (v_fds (kernel_view 0 ?w))(2 := Some Lists)\<rparr>"
    using ls_lists_directory [OF g sample_loaded [OF short_program_lits(2)] d, of 2 sample_chip 0 "\<lambda>s. None" 0 "\<lambda>out w. None"] e(2)
    by (auto simp: sample_user_view(1))
  then show ?thesis unfolding e(1) by (intro exI [of _ w'] exI [of _ es]) simp
qed

text \<open>C9: \<open>grep\<close> finds the lines of a file that contain the string: for any file of lines of at most 1023
  characters, whatever its length, \<open>do_one_file\<close> reads it through its buffer of 1024 bytes and
  prints the name, a colon and the line for exactly those lines, in order, and leaves the
  descriptors as they were.  (The byte after the buffer must not be a line end when it starts: the
  code looks at it before it has written it.)\<close>

theorem grep_finds_lines:
  assumes "kernel_good k w" and "array_at prog_off prog_addr data 1025" and "z \<noteq> []" "hd z < 0x80"
    and "str_at (User k) prog_off prog_addr data 1025 (ram (fst w)) s z" and "str_at (User k) prog_off prog_addr data 1025 (ram (fst w)) fname nm"
    and "\<forall>xs\<in>{[0x3A], [0x0A]}. str_at (User k) prog_off prog_addr data 1025 (ram (fst w)) (la xs) xs"
    and "ram (fst w) (User k) (prog_off data + 1024) \<noteq> 0x0A" and "length nm \<le> 31"
    and "v_disk (kernel_view k w) nm = Some (Reads (text_of ls t))" and "\<forall>l\<in>set (ls @ [t]). plain_text l \<and> length l \<le> 1023"
    and "2 \<le> i" "i < 8" "v_fds (kernel_view k w) i = None" "\<And>j. 2 \<le> j \<Longrightarrow> j < i \<Longrightarrow> v_fds (kernel_view k w) j \<noteq> None"
  shows "\<exists>w'. do_one_file (kernel_os hw check ex x0 leave) la data s fname w = Some (Inr (0, w')) \<and> kernel_good k w' \<and>
    kernel_view k w' = (kernel_view k w)\<lparr>v_screen := fold shown (concat (map (report z nm) (ls @ [t]))) (v_screen (kernel_view k w))\<rparr>"
proof -
  have "list_all plain_text (ls @ [t])" "\<forall>l\<in>set (ls @ [t]). length l \<le> 1023" using assms(11) by (simp_all add: list_all_iff)
  from kernel.do_one_file_spec [where hw = hw and check = check and ex = ex and ?x0.0 = x0 and leave = leave and la = la and s = s and fname = fname,
      OF assms(2-4,12-15,1) _ _ assms(9,10) this] assms(5-8)
  show ?thesis by (auto simp: kernel.outs_def ld_def)
qed

theorem grep_finds_lines_witness:
  "\<exists>w'. do_one_file (kernel_os sample_chip 0 (\<lambda>s. None) 0 (\<lambda>out w. None)) (lit_addr [[0x3A], [0x0A], lit ''ell'', lit ''frame'']) 0x8100000
     (lit_addr [[0x3A], [0x0A], lit ''ell'', lit ''frame''] (lit ''ell'')) (lit_addr [[0x3A], [0x0A], lit ''ell'', lit ''frame''] (lit ''frame''))
     (sample_user [[0x3A], [0x0A], lit ''ell'', lit ''frame''] [], []) = Some (Inr (0, w')) \<and>
     v_screen (kernel_view 0 w') = fold shown [lit ''frame'' @ [0], [0x3A, 0], frame_text @ [0], [0x0A, 0]]
       (v_screen (kernel_view 0 (sample_user [[0x3A], [0x0A], lit ''ell'', lit ''frame''] [], [])))"
proof -
  let ?L = "[[0x3A], [0x0A], lit ''ell'', lit ''frame'']"
  let ?w = "(sample_user ?L [], [])"
  have g: "kernel_good 0 ?w" by (rule sample_user_good) simp_all
  have L: "short_lits ?L" by code_simp
  have st: "str_at (User 0) prog_off prog_addr 0x8100000 1025 (ram (fst ?w)) (lit_addr ?L xs) xs" if "xs \<in> set ?L" for xs
    using sample_str [OF L that, of "[]" "[]"] .
  have d: "v_disk (kernel_view 0 ?w) (lit ''frame'') = Some (Reads (text_of [] frame_text))" by (simp add: sample_user_view lit_def)
  have r: "report (lit ''ell'') (lit ''frame'') frame_text = [lit ''frame'' @ [0], [0x3A, 0], frame_text @ [0], [0x0A, 0]]" by code_simp
  have p: "\<forall>l\<in>set ([] @ [frame_text]). plain_text l \<and> length l \<le> 1023" by code_simp
  have n: "lit ''ell'' \<noteq> []" "hd (lit ''ell'') < 0x80" "length (lit ''frame'') \<le> 31" by code_simp+
  have nl: "ram (fst ?w) (User 0) (prog_off 0x8100000 + 1024) \<noteq> 0x0A"
    by (simp add: sample_user_fields user_ram_blocks lit_image_def prog_off_def)
  from grep_finds_lines [OF g sample_array n(1,2) st st _ nl n(3) d p, where la = "lit_addr ?L" and i = 2 and hw = sample_chip and check = 0 and ex = "\<lambda>s. None" and ?x0.0 = 0 and leave = "\<lambda>out w. None"] st
  show ?thesis by (auto simp: sample_user_view r)
qed

text \<open>C10: a session of the shell.  For every line before \<open>exit\<close> the shell prints its prompt, the line is echoed,
  and a command that names no file is answered with \<open>no such command\<close>; an empty line is ignored;
  \<open>exit\<close> ends the shell with status 0.  The kernel's \<open>execute\<close> is called for every command and leaves
  everything the shell sees but the argument string as it was.\<close>

theorem shell_session_on_kernel:
  assumes "kernel_good k w" and "loaded k la buf shell_lits w" and "v_keys (kernel_view k w) = cmds @ lit ''exit'' # ls"
    and "\<And>l. l \<in> set cmds \<Longrightarrow> l = [] \<or> no_command (kernel_view k w) l \<and> l \<noteq> lit ''exit''"
  shows "\<exists>w' y. shell_main (kernel_os hw check ex x0 leave) la buf w = Some (Inr (0, w')) \<and> kernel_good k w' \<and>
    kernel_view k w' = (kernel_view k w)\<lparr>v_screen := fold screen_put (lit ''exit'' @ [0x0A]) (shown (lit ''391OS> '' @ [0])
        (fold shell_turn cmds (shown (line_lit ''Starting 391 Shell'' @ [0]) (v_screen (kernel_view k w))))),
      v_keys := ls, v_arg := y\<rparr>"
proof -
  have l: "prog_addr buf" "has_lits (User k) prog_off prog_addr la (set shell_lits) (mem_of (kernel_os hw check ex x0 leave) w)"
    "apart prog_off la (set shell_lits) buf 1024" using assms(2) by (simp_all add: loaded_def)
  have "{line_lit ''Starting 391 Shell'', lit ''391OS> '', lit ''exit'', line_lit ''no such command''} \<subseteq> set shell_lits" by (simp add: shell_lits_def)
  from kernel.shell_main_session [OF assms(1) l(1) assms(3) l(2,3) this assms(4)] show ?thesis by simp
qed

theorem shell_session_on_kernel_witness:
  "\<exists>w'. shell_main (kernel_os sample_chip 0 (\<lambda>s. None) 0 (\<lambda>out w. None)) (lit_addr shell_lits) 0x8100000
     (sample_user shell_lits [], [[0x1F, 0x1C], [0x12, 0x2D, 0x17, 0x14, 0x1C]]) = Some (Inr (0, w'))"
proof -
  let ?w = "(sample_user shell_lits [], [[0x1F, 0x1C], [0x12, 0x2D, 0x17, 0x14, 0x1C]])"
  have g: "kernel_good 0 ?w" by (rule sample_user_good) (simp_all add: typed_lines)
  have k: "v_keys (kernel_view 0 ?w) = [lit ''s''] @ lit ''exit'' # []" using typed_lines(5,6) by (simp add: sample_user_view)
  have "no_command (kernel_view 0 ?w) (lit ''s'')" by (simp add: no_command_def sample_user_view lit_def)
  then show ?thesis
    using shell_session_on_kernel [OF g sample_loaded [OF short_program_lits(5)] k, of sample_chip 0 "\<lambda>s. None" 0 "\<lambda>out w. None"]
    by (auto simp: lit_def)
qed

text \<open>C11: from power-on to the end of a session.  Booted by a multiboot loader from a file system whose \<open>shell\<close> is a
  program image with the shell's string literals, the kernel enters the shell in a state in which
  everything above applies: on a blank screen the shell starts, answers every line that is typed and
  leaves with status 0 on \<open>exit\<close>, and the screen shows the session line by line.\<close>

theorem boot_to_session:
  fixes s :: "'a boot_scheme"
  assumes "boot_ready s" and "multiboot_ok (ram s) addr" and "boot_image addr s inode c"
    and "length (proc_esp s) = 3" "length (proc_ebp s) = 3"
    and "cold (with_modules addr s)" and "good_disk (with_modules addr s)"
    and "image_has c la shell_lits" and "prog_addr buf" and "apart prog_off la (set shell_lits) buf 1024"
    and "\<forall>scs\<in>set ks. typed_line scs" and "map (typed \<circ> butlast) ks = cmds @ lit ''exit'' # ls"
    and "\<And>l. l \<in> set cmds \<Longrightarrow> l = [] \<or> length l < 20 \<and> 0x20 \<notin> set l \<and> disk_view (with_modules addr s) l = None \<and> l \<noteq> lit ''exit''"
  shows "\<exists>s' w'. entry l hw check MULTIBOOT_BOOTLOADER_MAGIC addr s = Some (Inr (Shell (Enter (elf_entry c) 0x83FFFFC), s')) \<and>
    shell_main (kernel_os hw check ex x0 leave) la buf (on_call s', ks) = Some (Inr (0, w')) \<and> kernel_good 0 w' \<and>
    v_screen (kernel_view 0 w') = fold screen_put (lit ''exit'' @ [0x0A]) (shown (lit ''391OS> '' @ [0])
      (fold shell_turn cmds (shown (line_lit ''Starting 391 Shell'' @ [0]) (replicate 2000 0x20, 0))))"
  using boot_session [OF assms] .

theorem boot_to_session_witness:
  "\<exists>s' w'. entry sample_layout sample_chip 0 MULTIBOOT_BOOTLOADER_MAGIC 0x1000 session_pc = Some (Inr (Shell (Enter (elf_entry shell_image) 0x83FFFFC), s')) \<and>
     shell_main (kernel_os sample_chip 0 (\<lambda>s. None) 0 (\<lambda>out w. None)) lit_place 0x8100000
       (on_call s', [[0x1F, 0x1C], [0x12, 0x2D, 0x17, 0x14, 0x1C]]) = Some (Inr (0, w'))"
proof -
  let ?ks = "[[0x1F, 0x1C], [0x12, 0x2D, 0x17, 0x14, 0x1C]] :: u8 list list"
  have t: "\<forall>scs\<in>set ?ks. typed_line scs" by (simp add: typed_lines)
  have k: "map (typed \<circ> butlast) ?ks = [lit ''s''] @ lit ''exit'' # []" using typed_lines(5,6) by simp
  have d: "disk_view (with_modules 0x1000 session_pc) (lit ''s'') = None"
    unfolding session_modules disk_view_def session_dirents by (simp add: lookup_name_def lit_def)
  have c: "l = [] \<or> length l < 20 \<and> 0x20 \<notin> set l \<and> disk_view (with_modules 0x1000 session_pc) l = None \<and> l \<noteq> lit ''exit''"
    if "l \<in> set [lit ''s'']" for l using that d by (auto simp: lit_def)
  have p: "prog_addr 0x8100000" by (simp add: prog_addr_def)
  show ?thesis
    using boot_to_session [OF session_ready session_multiboot session_image session_tables _ _ session_lits p session_apart t k c,
        of sample_layout sample_chip 0 "\<lambda>s. None" 0 "\<lambda>out w. None"] session_cold session_disk
    unfolding session_modules by blast
qed

text \<open>The program \<open>counter\<close> never counts on this kernel: a line it reads keeps its line end, so a choice is at least two
  characters long and is answered with \<open>Wrong Choice!\<close>, as is the empty line.\<close>

lemma counter_never_counts:
  assumes "kernel_good k w" and "loaded k la buf counter_lits w" and "v_keys (kernel_view k w) = l # ls"
  shows "\<exists>w'. counter_main (kernel_os hw check ex x0 leave) la buf w = Some (Inr (0, w')) \<and> kernel_good k w' \<and>
    kernel_view k w' = (kernel_view k w)\<lparr>v_screen := shown (line_lit ''Wrong Choice!'' @ [0]) (fold screen_put (l @ [0x0A])
      (shown (line_lit ''Enter the Test Number: (0): 100, (1): 10000, (2): 100000'' @ [0]) (v_screen (kernel_view k w)))), v_keys := ls\<rparr>"
proof -
  have l: "prog_addr buf" "has_lits (User k) prog_off prog_addr la (set counter_lits) (mem_of (kernel_os hw check ex x0 leave) w)"
    "apart prog_off la (set counter_lits) buf 1024" using assms(2) by (simp_all add: loaded_def)
  have "{line_lit ''Enter the Test Number: (0): 100, (1): 10000, (2): 100000'', line_lit ''Wrong Choice!''} \<subseteq> set counter_lits" by (simp add: counter_lits_def)
  from kernel.counter_refuses [OF assms(1) l(1) assms(3) l(2,3) this] show ?thesis .
qed

text \<open>C12: \<open>sigtest\<close> cannot succeed on this kernel: its handlers are refused (with argument 1 it asks for two),
  it greets, reads a line, and then writes through its null pointer; the processor raises a page
  fault, since the first page is never present, and the kernel prints its message and spins.\<close>

theorem sigtest_faults:
  assumes "kernel_good k w" and "loaded k la buf sigtest_lits w" and "prog_addr (y_badbuf y)"
    and "v_arg (kernel_view k w) = Some x" and "v_keys (kernel_view k w) = l # ls"
    and "null_at (ram (fst w)) (User k, prog_off (y_badbuf y))" and "\<forall>i<4. 1024 \<le> unat (prog_off (y_badbuf y) + of_nat i - prog_off buf)"
  shows "\<exists>w'. sigtest_main (kernel_os hw check ex x0 leave) (kernel_poke hw check ex x0) la y buf w = Some (Inr (None, w')) \<and>
    v_screen (kernel_view k w') = fold screen_put (l @ [0x0A] @ line_lit ''pretty boi'')
      (fold shown (install_text x @ [lit ''Hi, what's your name? '' @ [0]]) (v_screen (kernel_view k w)))"
proof -
  have l: "prog_addr buf" "has_lits (User k) prog_off prog_addr la (set sigtest_lits) (mem_of (kernel_os hw check ex x0 leave) w)"
    "apart prog_off la (set sigtest_lits) buf 1024" using assms(2) by (simp_all add: loaded_def)
  have n: "null_at (mem_of (kernel_os hw check ex x0 leave) w) (User k, prog_off (y_badbuf y))" using assms(6) by simp
  have "{line_lit ''Installing signal handlers'', lit ''Hi, what's your name? ''} \<subseteq> set sigtest_lits" by (simp add: sigtest_lits_def)
  from trap.sigtest_stops [OF assms(1) l(1) assms(3-5) l(2,3) this n assms(7)] show ?thesis .
qed

theorem sigtest_faults_witness:
  "\<exists>w'. sigtest_main (kernel_os sample_chip 0 (\<lambda>s. None) 0 (\<lambda>out w. None)) (kernel_poke sample_chip 0 (\<lambda>s. None) 0) (lit_addr sigtest_lits)
     \<lparr>y_charbuf = 0x8100500, y_badbuf = 0x8100400, y_segfault = 0x8048100, y_alarm = 0x8048200\<rparr> 0x8100000
     (sample_user sigtest_lits [0x31], [[0x0B, 0x1C]]) = Some (Inr (None, w'))"
proof -
  let ?w = "(sample_user sigtest_lits [0x31], [[0x0B, 0x1C]])"
  let ?y = "\<lparr>y_charbuf = 0x8100500, y_badbuf = 0x8100400, y_segfault = 0x8048100, y_alarm = 0x8048200 :: u32\<rparr>"
  have g: "kernel_good 0 ?w" by (rule sample_user_good) (simp_all add: typed_lines)
  have k: "v_keys (kernel_view 0 ?w) = lit ''0'' # []" using typed_lines(4) by (simp add: sample_user_view)
  have a: "v_arg (kernel_view 0 ?w) = Some [0x31]" by (subst sample_user_arg) simp_all
  have s: "short_lits sigtest_lits" by (simp add: short_lits_def sigtest_lits_def line_lit_def lit_def)
  have four: "i = 0 \<or> i = 1 \<or> i = 2 \<or> i = 3" if "i < 4" for i :: nat using that by arith
  have n: "null_at (ram (fst ?w)) (User 0, prog_off (y_badbuf ?y))"
    by (auto simp: null_at_def ld_def sample_user_fields user_ram_blocks lit_image_def prog_off_def sigtest_lits_def Let_def dest!: four)
  have f: "\<forall>i<4. 1024 \<le> unat (prog_off (y_badbuf ?y) + of_nat i - prog_off 0x8100000)"
    by (auto simp: prog_off_def dest!: four)
  show ?thesis
    using sigtest_faults [OF g sample_loaded [OF s] _ a k n f, of sample_chip 0 "\<lambda>s. None" 0 "\<lambda>out w. None"]
    by (auto simp: prog_addr_def)
qed

text \<open>C13: \<open>fish\<close> plays its film on this kernel: it maps the screen, opens the clock, makes a blink of every place
  where one of its two pictures is not blank, and then lets the blinks go on at every tick of the clock
  while it adds one, synchronises two and tries to remove one; it ends with status 0, its descriptors
  closed, and list and screen are what \<open>fish_show\<close> computes from the two files.\<close>

theorem fish_shows_pictures:
  assumes "kernel_good k w" "alone k (fst w)" and "fish_placed k la x w"
    and "v_disk (kernel_view k w) (lit ''rtc'') = Some Ticks" "v_disk (kernel_view k w) (lit ''frame0.txt'') = Some (Reads xs)"
      "v_disk (kernel_view k w) (lit ''frame1.txt'') = Some (Reads ys)"
    and "\<And>j. 2 \<le> j \<Longrightarrow> j < 5 \<Longrightarrow> v_fds (kernel_view k w) j = None"
    and "\<forall>b\<in>set (fish_blinks xs ys). b_location b \<noteq> 0" and "mp1_list_head f = None"
  shows "\<exists>w' f'. fish_main (kernel_os hw check ex x0 leave) la x u u' w f = Some (Inr (0, w', f')) \<and>
    kernel_good k w' \<and> kernel_view k w' = kernel_view k w \<and>
    blinks f' (fst (fish_show xs ys (vmem f))) \<and> vmem f' = snd (fish_show xs ys (vmem f))"
proof -
  have p: "{lit ''rtc'', lit ''frame0.txt'', lit ''frame1.txt''} \<subseteq> set fish_lits" by (simp add: fish_lits_def)
  show ?thesis
    using clock.fish_runs [where hw = hw and check = check and ex = ex and ?x0.0 = x0 and leave = leave and u = u and u' = u' and la = la and x = x,
        OF conjI [OF assms(1,2)] _ _ _ _ _ _ _ p _ _ _ assms(4-9)] assms(3)
    unfolding fish_placed_def by auto
qed

theorem fish_shows_pictures_witness:
  "\<exists>w' f'. fish_main (kernel_os sample_chip 0 (\<lambda>s. None) 0 (\<lambda>out w. None)) (lit_addr fish_lits) fish_args zero_blink zero_blink (fish_user, []) fish_begin =
     Some (Inr (0, w', f')) \<and> blinks f' (fst (fish_show picture0 picture1 (vmem fish_begin)))"
proof -
  have pl: "fish_placed 0 (lit_addr fish_lits) fish_args (fish_user, [])"
    using fish_has_lits fish_apart by (simp add: fish_placed_def fish_args_def prog_addr_def prog_off_def)
  have fit: "\<forall>b\<in>set (fish_blinks picture0 picture1). b_location b \<noteq> 0"
    by code_simp
  show ?thesis
    using fish_shows_pictures [OF fish_user_good(1) _ pl fish_user_view(2-4) _ fit fish_begin_blinks(2),
        of sample_chip 0 "\<lambda>s. None" 0 "\<lambda>out w. None" zero_blink zero_blink] fish_user_good(2) by (auto simp: fish_user_view(1))
qed

text \<open>C14: \<open>pingpong\<close> never ends: after \<open>main\<close> has opened the clock, every round of its loop shows the letter
  of the round at every place between the walls, out and back, one line for each tick, and the letters
  run through the alphabet over and over.  The one string literal of the program is \<open>rtc\<close>.\<close>

theorem pingpong_bounces:
  assumes "kernel_good k w" "alone k (fst w)" and "prog_addr buf" "prog_addr ga" "prog_addr ra"
    and "has_lits (User k) prog_off prog_addr la {lit ''rtc''} (ram (fst w))" and "apart prog_off la {lit ''rtc''} buf 81"
    and "\<And>i. i < 4 \<Longrightarrow> 81 \<le> unat (prog_off ra + of_nat i - prog_off buf)"
    and "v_disk (kernel_view k w) (lit ''rtc'') = Some Ticks" "v_fds (kernel_view k w) 2 = None"
  shows "\<exists>w1. pp_start (kernel_os hw check ex x0 leave) la ra buf w = Some (Inr (2, w1)) \<and>
    pingpong_main (kernel_os hw check ex x0 leave) la ra ga buf w = None \<and>
    (\<forall>n. \<exists>w'. pp_rounds (kernel_os hw check ex x0 leave) 2 ga buf n 0x41 w1 = Some (Inr (pp_letter n, w')) \<and> kernel_good k w' \<and>
       v_screen (kernel_view k w') = fold shown (map (\<lambda>l. l @ [0]) (pp_lines n)) (v_screen (kernel_view k w)))"
proof -
  have "lit ''rtc'' \<in> {lit ''rtc''}" by simp
  from clock.pingpong_forever [where hw = hw and check = check and ex = ex and ?x0.0 = x0 and leave = leave,
      OF conjI [OF assms(1,2)] assms(3-5) _ this assms(7-10)] assms(6) show ?thesis by fastforce
qed

theorem pingpong_bounces_witness:
  "pingpong_main (kernel_os sample_chip 0 (\<lambda>s. None) 0 (\<lambda>out w. None)) (lit_addr fish_lits) 0x8100100 0x8100104 0x8100000 (fish_user, []) = None"
proof -
  have far: "81 \<le> unat (prog_off 0x8100100 + of_nat i - prog_off 0x8100000)" if "i < 4" for i
  proof -
    have "i = 0 \<or> i = 1 \<or> i = 2 \<or> i = 3" using that by arith
    then show ?thesis by (elim disjE) (simp_all add: prog_off_def)
  qed
  have "lit ''rtc'' \<in> set fish_lits" by (simp add: fish_lits_def)
  then have l: "has_lits (User 0) prog_off prog_addr (lit_addr fish_lits) {lit ''rtc''} (ram (fst (fish_user, [])))"
    "apart prog_off (lit_addr fish_lits) {lit ''rtc''} 0x8100000 81"
    using fish_has_lits fish_apart(2) unfolding has_lits_def apart_def by blast+
  from pingpong_bounces [OF fish_user_good(1) _ _ _ _ l far fish_user_view(2), of "0x8100104" sample_chip 0 "\<lambda>s. None" 0 "\<lambda>out w. None"]
    fish_user_good(2) show ?thesis by (simp add: prog_addr_def fish_user_view(1)) blast
qed

subsection \<open>Blinking characters\<close>

text \<open>C15: the linked list of blinks behaves as a list: whatever is asked of it (add, remove, find, synchronise, a
  clock tick, in any order, no blink at location 0), every call returns, gives the answer the list
  gives, and leaves the chain of pointers through the pool of structures, and the screen, as the list
  has them.\<close>

theorem blink_list_refines:
  assumes "blinks f bs" and "\<forall>q\<in>set qs. proper q"
  shows "\<exists>f'. serve_all qs f = Some (Inr (fst (l_serve_all qs (bs, vmem f)), f')) \<and>
     blinks f' (fst (snd (l_serve_all qs (bs, vmem f)))) \<and> vmem f' = snd (snd (l_serve_all qs (bs, vmem f)))"
  using serve_all_blinks [OF assms] .

theorem blink_list_refines_witness:
  "\<exists>f'. serve_all [Ioctl 0 im_blink 0, Tick, Ioctl 540 zero_blink 1, Ioctl 540 zero_blink 1] fish_begin = Some (Inr ([0, 0, 0, - 1], f')) \<and> blinks f' []"
proof -
  let ?qs = "[Ioctl 0 im_blink 0, Tick, Ioctl 540 zero_blink 1, Ioctl 540 zero_blink 1]"
  have p: "\<forall>q\<in>set ?qs. proper q" by (simp add: proper_def im_blink_def)
  have "fst (l_serve_all ?qs ([], v)) = [0, 0, 0, - 1]" "fst (snd (l_serve_all ?qs ([], v))) = []" for v
    by (simp_all add: l_serve_def l_add_def l_remove_def l_find_def l_tick_def im_blink_def fresh_blink_def zero_blink_def)
  then show ?thesis using blink_list_refines [OF fish_begin_blinks(1) p] by auto
qed

text \<open>C16: a blink shows its two characters in turn: once it is added at a free place, its place on the screen has
  after \<open>t\<close> clock ticks the first character for \<open>on_length\<close> ticks, then the second for \<open>off_length\<close>
  ticks, and so on, whatever the other blinks do.\<close>

theorem blink_alternates:
  assumes "blinks f bs" and "b_location b \<noteq> 0" "b_location b < 2000" "length bs < 2000" and "times_ok b"
    and "\<forall>a\<in>set bs. b_location a \<noteq> b_location b"
  shows "\<exists>f' f''. mp1_ioctl_add b f = (0, f') \<and> tasklets t f' = Some f'' \<and>
    vmem f'' (2 * ucast (b_location b)) =
      (if t mod (unat (b_on_length b) + unat (b_off_length b)) < unat (b_on_length b) then b_on_char b else b_off_char b)"
  using blink_period [OF assms] .

theorem blink_alternates_witness:
  "\<exists>f' f''. mp1_ioctl_add im_blink fish_begin = (0, f') \<and> tasklets 20 f' = Some f'' \<and> vmem f'' 1080 = 0x4D"
  using blink_alternates [OF fish_begin_blinks(1), of im_blink 20] by (simp add: im_blink_def times_ok_def)

text \<open>C17: a blink at location 0 is the exception: its structure still looks free, so the next blink at 0 takes
  it again and becomes its own successor; from then on the clock handler never returns.\<close>

theorem blinks_at_zero_hang:
  assumes "blinks f bs" and "length bs < 2000" and "b_location b = 0" "b_location c = 0"
  shows "mp1_rtc_tasklet (snd (mp1_ioctl_add c (snd (mp1_ioctl_add b f)))) = None"
  using zero_location_hangs [OF assms] .

theorem blinks_at_zero_hang_witness:
  "mp1_rtc_tasklet (snd (mp1_ioctl_add zero_blink (snd (mp1_ioctl_add zero_blink fish_begin)))) = None"
  using blinks_at_zero_hang [OF fish_begin_blinks(1)] by (simp add: zero_blink_def)

subsection \<open>Booting and interrupts\<close>

text \<open>C18: booted by a multiboot loader whose first module is a file system with the program \<open>shell\<close>,
  the kernel returns from its initialisation with exactly the keyboard, cascade and clock lines
  open, a blank screen, the descriptor tables loaded and the protection invariant in force, and
  then enters the shell in slot 0 with its image loaded and an empty argument string.\<close>

theorem boot_enters_shell:
  assumes "boot_ready s" and "multiboot_ok (ram s) addr" and "boot_image addr s inode c"
    and "length (proc_esp s) = 3" and "length (proc_ebp s) = 3"
  shows "\<exists>t s'. boot_kernel l hw MULTIBOOT_BOOTLOADER_MAGIC addr s = Some (Inr (True, t)) \<and> started l s t \<and>
    entry l hw check MULTIBOOT_BOOTLOADER_MAGIC addr s = Some (Inr (Shell (Enter (elf_entry c) 0x83FFFFC), s')) \<and>
    cr3 s' = 1 \<and> prog_mapped 0 s' \<and> proc s' = [1, 0, 0, 0, 0, 0, 0, 0] \<and> proc_active s' = [0, - 1, - 1] \<and>
    (\<forall>n<length c. ld (ram s') (User 0, 0x48000) (of_nat n) = c ! n) \<and> cstr (ram s') args_p []"
  using entry_starts_shell [OF assms, of l hw check] by blast

theorem boot_enters_shell_witness:
  "\<exists>s'. entry sample_layout sample_chip 0 MULTIBOOT_BOOTLOADER_MAGIC 0x1000 sample_pc = Some (Inr (Shell (Enter 0x8048000 0x83FFFFC), s')) \<and>
     ld (ram s') (User 0, 0x48000) 0 = 0x7F"
proof -
  have "0 < length prog_image" "prog_image ! 0 = 0x7F" by (simp_all add: prog_image_def)
  then show ?thesis
    using boot_enters_shell [OF sample_pc_ready sample_pc_multiboot sample_pc_image sample_pc_tables, of sample_layout sample_chip 0]
    by (fastforce simp: sample_exec(3))
qed

text \<open>C19: started by anything else, \<open>entry\<close> clears the screen, reports the magic number in hexadecimal
  and returns; it starts no program.\<close>

theorem boot_rejects_magic:
  assumes "console_ok s" and "magic \<noteq> MULTIBOOT_BOOTLOADER_MAGIC"
  shows "\<exists>s'. entry l hw check magic addr s = Some (Inr (Returned, s')) \<and>
    screen_of s' = fold screen_put (lit ''Invalid magic number: 0x'' @ hex_text True magic @ [0x0A]) (replicate 2000 0x20, 0) \<and>
    proc s' = proc s \<and> pcbs s' = pcbs s"
  using entry_bad_magic [OF assms] .

theorem boot_rejects_magic_witness: "\<exists>s'. entry sample_layout sample_chip 0 0x1BADB002 0 sample_pc = Some (Inr (Returned, s')) \<and> proc s' = replicate 8 0"
  using boot_rejects_magic [of sample_pc "0x1BADB002" sample_layout sample_chip 0 0] sample_pc_ready
  by (auto simp: boot_ready_def)

text \<open>C20: through the table \<open>init_idt\<close> builds, every exception and device vector leads to its handler (the 19
  exceptions of the processor in order, the keyboard at 0x21 and the clock at 0x28, where \<open>i8259_init\<close> puts lines 1 and 8, and
  the system calls at 0x80), and user code can raise no vector but that of the system calls: any other \<open>int\<close> instruction ends
  in the general-protection handler.\<close>

theorem interrupt_gates:
  assumes "length tbl = 256" and "i < 256" and "inj at"
  shows "take_gate at (init_idt at tbl) i = Some (vector_handler i) \<and>
    int_instr at (init_idt at tbl) 3 i = Some (if i = 128 then Sys_call_h else General_protection_h) \<and>
    map (take_gate at (init_idt at tbl)) [0..<19] = map Some [Divide_error_h, Debug_h, Nmi_h, Int3_h, Overflow_h, Bounds_h, Invalid_op_h,
      Device_not_available_h, Double_fault_h, Coprocesseur_segment_overrun_h, Invalid_tss_h, Segment_no_present_h, Stack_segment_h,
      General_protection_h, Page_fault_h, None_h, Coprocessor_error_h, Alignement_check_h, Machine_check_h] \<and>
    map (take_gate at (init_idt at tbl)) [0x21, 0x28, 0x80] = map Some [Keyboard_handler_h, Periodic_interrupt_handler_h, Sys_call_h]"
proof -
  have g: "take_gate at (init_idt at tbl) j = Some (vector_handler j)" if "j < 256" for j using init_idt_dispatch [OF assms(1) that assms(3)] by blast
  then have "map (take_gate at (init_idt at tbl)) [0..<19] = map (\<lambda>j. Some (vector_handler j)) [0..<19]" by (intro map_cong) simp_all
  then show ?thesis using init_idt_dispatch [OF assms] g by (simp add: upt_rec vector_handler_def)
qed

theorem interrupt_gates_witness:
  "take_gate handler_addr (init_idt handler_addr (replicate 256 blank_gate)) 14 = Some Page_fault_h \<and>
   int_instr handler_addr (init_idt handler_addr (replicate 256 blank_gate)) 3 14 = Some General_protection_h"
  using interrupt_gates [of "replicate 256 blank_gate" 14 handler_addr] handler_addr_inj by (simp add: vector_handler_def)

text \<open>C21: the handler of an exception prints its message and spins; it never returns to the code that
  raised it, and nothing but the visible screen, the cursor (with the port accesses that move it) and the buffers of
  \<open>printf\<close> changes: interrupts stay as they were, and so do paging, processes, schedule and keyboard.\<close>

theorem exceptions_stop:
  assumes "console_ok s" and "exception_message h = Some msg"
  shows "\<exists>s'. run_handler hw ex irqs check x0 regs h s = Some (Inr (Spin, s')) \<and>
    screen_of s' = fold screen_put (line_lit msg) (screen_of s) \<and>
    s' = s\<lparr>ram := ram s', screen_x := screen_x s', screen_y := screen_y s', frames := frames s', scr_buf := scr_buf s', io := io s'\<rparr> \<and>
    (\<forall>b. b \<notin> print_blocks \<longrightarrow> ram s' b = ram s b) \<and> (\<forall>f. f \<noteq> video_frame s \<longrightarrow> frames s' f = frames s f) \<and>
    (\<forall>n. n \<noteq> nat (bg_term s) \<longrightarrow> scr_buf s' ! n = scr_buf s ! n) \<and> (\<exists>os. io s' = io s @ os)"
proof -
  obtain s' where s': "run_handler hw ex irqs check x0 regs h s = Some (Inr (Spin, s'))" "kprints (line_lit msg) s s'"
    using exception_stops [OF assms] by blast
  have p: "printed s s'" using s'(2) by (auto simp: printed_def)
  obtain m where "repaint (s\<lparr>ram := m\<rparr>) s'" using s'(2) by (auto simp: kprints_def)
  from repaint_fields(11,12) [OF this] this have "\<forall>f. f \<noteq> video_frame s \<longrightarrow> frames s' f = frames s f"
    "\<forall>n. n \<noteq> nat (bg_term s) \<longrightarrow> scr_buf s' ! n = scr_buf s ! n" "\<exists>os. io s' = io s @ os"
    by (auto simp: video_frame_def page_frame_def repaint_def)
  with printed_frame [OF p] printed_ram [OF p] s' show ?thesis by (auto simp: kprints_def)
qed

theorem exceptions_stop_witness:
  "\<exists>s'. run_handler sample_chip (\<lambda>s. None) [] 0 0 (0, 0, 0, 0) Int3_h sample = Some (Inr (Spin, s')) \<and> snd (screen_of s') = 80"
  using exceptions_stop [OF sample_kbd(1), of Int3_h "''int3''" sample_chip "\<lambda>s. None" "[]" 0 0 "(0, 0, 0, 0)"]
  by (auto simp: line_lit_def lit_def screen_of_def screen_put_def)

subsection \<open>The file system\<close>

text \<open>C22: \<open>read_data\<close> returns the number of bytes and stores exactly the slice of the file that
  starts at the offset, cut at the end of the file, whatever blocks the file lies in.\<close>

theorem read_data_is_slice:
  assumes "fs_ok s" and "fst buf \<noteq> fst (bbp s)" and "inode < N s"
  shows "read_data m s inode off buf len =
    (let r = take (unat len) (drop (unat off) (content m s inode)) in (of_nat (length r), stores m buf r))"
  using assms by (rule read_data_slice)

theorem read_data_is_slice_witness:
  "read_data sample_ram sample 0 1 (User 0, 0) 100 = (4, stores sample_ram (User 0, 0) [101, 108, 108, 111])"
  using read_data_is_slice [of sample "(User 0, 0)" 0 sample_ram 1 100] sample_fs(1) by (simp add: sample_content frame_text_def)

text \<open>A program that calls \<open>read\<close> on an open file until it returns 0 receives exactly the bytes
  of the file from the position of the descriptor on, for every buffer size.\<close>

lemma read_until_eof:
  assumes "file_good a i buf n s" and "length (file_rest a i s) < fuel"
  shows "fst (drain (file_rd i buf n) fuel s) = file_rest a i s"
  using assms by (rule file_stream.drain_all)

text \<open>Reading the directory until \<open>dir_read\<close> returns 0 lists the name of every entry once, in
  order, each padded to 32 bytes.\<close>

lemma directory_listing:
  assumes "dir_good buff (m, s)" and "dir_index s = 0" and "unat (num_de s) < fuel"
  shows "fst (drain (dir_rd buff) fuel (m, s)) = map pad32 (map fst (dirents m s))"
  using dir_stream.drain_all [OF assms(1), of fuel] assms(2,3) by (simp add: dir_rest_def dir_names_def dirents_def)

text \<open>C23: \<open>read_dentry_by_name\<close> finds the first directory entry of the given name, copies it, and
  returns the size of its file; it returns -1 and changes nothing when there is none.\<close>

theorem lookup_by_name:
  assumes "fs_ok s" and "fst dentry \<noteq> fst (bbp s)" and "fst dentry \<noteq> fst fname"
    and "cstr m fname name" and "length name \<le> 31" and "num_de s \<noteq> 0"
  shows "case lookup_name name (dirents m s) of
      None \<Rightarrow> read_dentry_by_name m s check fname dentry = Some (- 1, m)
    | Some d \<Rightarrow> \<exists>m'. read_dentry_by_name m s check fname dentry = Some (file_size m s (snd (snd d)), m') \<and>
         dentry_is m' dentry d \<and> (\<forall>b. b \<noteq> fst dentry \<longrightarrow> m' b = m b)"
  using assms by (rule read_dentry_by_name_spec)

theorem lookup_by_name_witness:
  "\<exists>m'. read_dentry_by_name sample_ram sample 0 (disk, 192) open_dentry = Some (28, m') \<and>
     dentry_is m' open_dentry ([112, 114, 111, 103], 2, 1)"
  using lookup_by_name [OF sample_fs(1) _ _ sample_string, of open_dentry 0] by (auto simp: lookup_name_def sample_dirents sample_sizes)

subsection \<open>Descriptors\<close>

text \<open>\<open>n\<close> calls of \<open>open\<close> on a file that exists hand out the free descriptors of the process from
  2 to 7 in ascending order, each once, and -1 once they are used up.\<close>

lemma descriptors_first_fit:
  assumes "in_process s a" and "openable p d s" and "run_alloc (open_fd check p) n s = (rs, s')"
  shows "rs = map Some (take n (free_slots (fd_used a) 2 8 s)) @ replicate (n - length (free_slots (fd_used a) 2 8 s)) None"
  by (rule fds.run_alloc_results [of a p d s check n rs s']) (use assms in \<open>simp_all add: fd_inv_def\<close>)

text \<open>Closing a descriptor makes it the one the next \<open>open\<close> returns when every lower one is in
  use.\<close>

lemma close_then_open:
  assumes "in_process s a" and "openable p d s" and "2 \<le> i" "i < 8" "fd_used a s i"
    and "\<forall>j. 2 \<le> j \<longrightarrow> j < i \<longrightarrow> fd_used a s j"
  shows "fst (open_fd check p (close_fd i s)) = Some i"
  by (rule fds.alloc_after_release [of a p d s i check _ "snd (open_fd check p (close_fd i s))"])
    (use assms in \<open>simp_all add: fd_inv_def\<close>)

subsection \<open>Processes\<close>

text \<open>C24: \<open>execute\<close> on a command that names an executable starts it in the first free slot: the
  processor continues at the entry point of the file on the program's stack, the whole file lies
  at its load address in the slot's own frame, the arguments wait in \<open>args\<close>, the child's control
  block remembers the caller's stack, and the invariants of directories and slots hold.  No memory but
  the slot's frame and the locals of \<open>execute\<close> changes, and no part of the state but those of paging,
  slots, schedule and control blocks.  The file has to fit on the caller's kernel stack, where \<open>execute\<close> keeps a copy
  (\<open>file_buf_fits\<close>, a part of \<open>exec_file\<close>): at most about 7 KB.\<close>

theorem execute_runs_program:
  fixes s :: "'a kernel_scheme"
  assumes "command_line (ram s) command name k arg" and "fst command \<notin> exec_blocks" and "exec_fs s"
    and "exec_file s name inode c" and "elf c" and "unat (drop_bit 22 (elf_entry c)) = 32"
    and "dir_inv s" "dir_std s" "slots_inv s" "table_ok s"
    and "i < 7" "\<not> slot_used s i" "\<forall>j<i. slot_used s j"
    and "length (pcb_fd (pcbs s (pcb_loc i))) = 8" and "fst (bbp s) \<noteq> User i"
  shows "\<exists>s'. execute check command s = Some (Inr (Enter (elf_entry c) 0x83FFFFC, s')) \<and>
    cr3 s' = int i + 1 \<and> proc s' = (proc s)[i := 1] \<and> proc_active s' = (proc_active s)[nat (active_term s) := int i] \<and>
    (\<forall>n<length c. ld (ram s') (User i, 0x48000) (of_nat n) = c ! n) \<and> cstr (ram s') args_p arg \<and>
    pcbs s' = (pcbs s)(pcb_loc i := child_pcb (esp s) (ebp s) (int i) (pcbs s (pcb_loc i))) \<and>
    prog_mapped i s' \<and> dir_inv s' \<and> dir_std s' \<and> slots_inv s' \<and>
    (\<forall>b. b \<notin> exec_blocks \<longrightarrow> b \<noteq> User i \<longrightarrow> ram s' b = ram s b) \<and> unstart s' = unstart s"
  using execute_starts [OF assms(1-12) _ assms(14,15), of check] assms(13) execute_frame by blast

theorem execute_runs_program_witness:
  "\<exists>s'. execute 0 (User 0, 0x100) sample = Some (Inr (Enter 0x8048000 0x83FFFFC, s')) \<and> cr3 s' = 2 \<and> cstr (ram s') args_p [97, 98]"
proof -
  have "\<not> slot_used sample 1" "\<forall>j<1. slot_used sample j" using sample_used [of 1] by (simp_all add: slot_used_def)
  from execute_runs_program [OF sample_cmd _ sample_fs(2) sample_exec(1,2) _ sample_dir_inv sample_std(1-3) _ this, of 0]
  show ?thesis by (auto simp: exec_blocks_def sample_exec(3) sample_pcb_def)
qed



text \<open>C26: when a program that \<open>execute\<close> started ends with \<open>halt\<close>, its parent continues on exactly
  the stack it called \<open>execute\<close> on, in its own address space, as the process of its terminal, and
  the slot is free again; in between the child may do anything that keeps the two control
  blocks, the directories and the tables.\<close>

theorem execute_halt_roundtrip:
  fixes s :: "'a kernel_scheme"
  assumes "dir_std s" and "prog_mapped k s" and "slots_inv s" and "table_ok s"
    and "0 < k" "k < 7" "j < 7" "j \<noteq> k"
    and "length (pcb_fd (pcbs s (pcb_loc k))) = 8"
    and "fs_ok s" "fst (bbp s) \<noteq> User k" "inode < N s"
    and "cr3 s = int j + 1" and "esp s AND 0xFFFE000 = pcb_vaddr (int j)"
    and "pcb_proc_id (pcbs s (pcb_loc j)) = int j" and "proc_active s ! nat (active_term s) = int j"
    and "start_process inode fsize v_addr (int k) s = Inr (out, s')"
    and "PDE r = PDE s'" "cr3 r = cr3 s'" "pcb_proc_id (pcbs r (pcb_loc j)) = int j"
      "pcbs r (pcb_loc k) = pcbs s' (pcb_loc k)" "proc r = proc s'" "proc_active r = proc_active s'"
      "active_term r = active_term s'" "length (proc_esp r) = 3" "length (proc_ebp r) = 3"
      "esp r AND 0xFFFE000 = tss_esp0 s' AND 0xFFFE000"
  shows "\<exists>r'. halt status r = Inr (Usr_end, r') \<and> esp r' = esp s \<and> ebp r' = ebp s \<and> cr3 r' = cr3 s \<and>
    proc_active r' = proc_active s \<and> proc r' = (proc s)[k := 0]"
  using assms by (rule start_halt)

theorem execute_halt_roundtrip_witness:
  "\<exists>s' r'. start_process 1 28 0x8048000 1 sample = Inr (Enter 0x8048000 0x83FFFFC, s') \<and>
     halt 0 (s'\<lparr>esp := tss_esp0 s'\<rparr>) = Inr (Usr_end, r') \<and> esp r' = esp sample \<and> cr3 r' = cr3 sample"
proof -
  have h: "prog_mapped 1 sample" "length (pcb_fd (pcbs sample (pcb_loc 1))) = 8" "pcb_loc 0 \<noteq> pcb_loc 1"
    by (simp_all add: prog_mapped_def sample_PDE_def sample_pcb_def pcb_loc_def)
  obtain s' where s': "start_process 1 28 0x8048000 (int 1) sample = Inr (Enter 0x8048000 0x83FFFFC, s')"
    "proc_esp s' = proc_esp sample" "proc_ebp s' = proc_ebp sample"
    "pcbs s' = (pcbs sample)(pcb_loc 1 := child_pcb (esp sample) (ebp sample) (int 1) (pcbs sample (pcb_loc 1)))"
    using start_process_spec [OF sample_std(1) h(1) _ sample_std(3) h(2) sample_fs(1), of 1 28 "0x8048000"] by auto
  have "\<exists>r'. halt 0 (s'\<lparr>esp := tss_esp0 s'\<rparr>) = Inr (Usr_end, r') \<and> esp r' = esp sample \<and> ebp r' = ebp sample \<and> cr3 r' = cr3 sample \<and>
    proc_active r' = proc_active sample \<and> proc r' = (proc sample)[1 := 0]"
    by (rule execute_halt_roundtrip [OF sample_std(1) h(1) sample_std(2,3) _ _ _ _ h(2) sample_fs(1) _ _ _ _ _ _ s'(1), of 0])
      (use h s' in \<open>simp_all add: pcb_vaddr_def sample_pcb_def\<close>)
  then show ?thesis using s'(1) by auto
qed

subsection \<open>Other system calls\<close>

text \<open>The dispatcher answers every call number outside 1 to 10 with -1, with interrupts on again and
  nothing else changed.\<close>

lemma unknown_system_call:
  assumes "sint (eax - 1) < 0 \<or> 9 < sint (eax - 1)"
  shows "sys_call hw irqs check eax ebx ecx edx s = Some (Inr (Ret (- 1), sti (cli s)))"
  using assms by (auto simp: sys_call_def sys_error_def Let_def)

text \<open>C27: \<open>getargs\<close> hands over the first word of the argument string, cut at the caller's length; it
  returns -1 without arguments and for a word of more than 30 characters.  What is overwritten is the
  buffer up to the length of the whole argument string, whatever length the caller gave.\<close>

theorem getargs_hands_over_word:
  fixes s :: "'a kernel_scheme"
  assumes "cstr (ram s) args_p arg" and "fst buf \<noteq> fst args_p" and "0 \<le> nbytes"
  shows "if arg = [] \<or> hd arg = 0x0A then getargs buf nbytes s = Some (- 1, s)
    else if 30 < length (arg_word nbytes arg) then
      getargs buf nbytes s = Some (- 1, s\<lparr>ram := stores (ram s) buf (take 31 (arg_word nbytes arg))\<rparr>)
    else \<exists>ys. getargs buf nbytes s = Some (0, s\<lparr>ram := stores (ram s) buf ys\<rparr>) \<and> length ys = length arg + 1 \<and>
      cstr (stores (ram s) buf ys) buf (arg_word nbytes arg)"
  using assms by (rule getargs_spec)

theorem getargs_hands_over_word_witness:
  "\<exists>m. getargs (User 0, 0) 32 (sample\<lparr>ram := stores sample_ram args_p [97, 98, 32, 99, 0]\<rparr>) =
      Some (0, sample\<lparr>ram := m\<rparr>) \<and> cstr m (User 0, 0) [97, 98]"
proof -
  have "cstr (stores sample_ram args_p ([97, 98, 32, 99] @ [0])) args_p [97, 98, 32, 99]" by (rule cstr_stores) simp_all
  with getargs_hands_over_word [of "sample\<lparr>ram := stores sample_ram args_p [97, 98, 32, 99, 0]\<rparr>" "[97, 98, 32, 99]" "(User 0, 0)" 32]
  show ?thesis by (auto simp: arg_word_def)
qed

text \<open>C28: when a process calls \<open>vidmap\<close> with an address in its own program page, it reads and writes the video
  memory through the page at 0x3001000, that address holds 0x3001000, the invariant of the directories holds, and nothing but
  these four bytes, one entry of the process's directory and one of the page table changes.\<close>

theorem vidmap_maps_screen:
  fixes s :: "'a kernel_scheme"
  assumes "in_process s a" and "pcb_proc_id (pcbs s a) = int k" "k < 7" and "cr3 s = int k + 1"
    and "dir_inv s" and "prog_mapped k s" and "prog_addr addr"
  shows "\<exists>s'. sys_vidmap addr s = Inr (0, s') \<and> dir_inv s' \<and>
    (\<forall>v. drop_bit 12 v = 0x3001 \<longrightarrow> translate s' v = Some (0xB8000 OR (v AND 0xFFF), True, True)) \<and>
    s' = s\<lparr>PTE := (PTE s)(1 := 0xB8007), PDE := (PDE s)(k + 1 := (PDE s (k + 1))(12 := PTE_base s OR CTRL_VIDEO_USR)),
      ram := st32 (ram s) (User k, prog_off addr) 0x3001000\<rparr>"
  using sys_vidmap_spec [OF assms] by blast

theorem vidmap_maps_screen_witness:
  "\<exists>s'. sys_vidmap 0x8049000 sample = Inr (0, s') \<and> translate s' 0x3001002 = Some (0xB8002, True, True)"
proof -
  have "prog_mapped 0 sample" by (simp add: prog_mapped_def sample_PDE_def)
  then show ?thesis using vidmap_maps_screen [OF sample_process, of 0 "0x8049000"] sample_dir_inv
    by (auto simp: sample_pcb_def prog_addr_def dest: spec [of _ "0x3001002"])
qed

subsection \<open>The screen\<close>

text \<open>C29: \<open>putc\<close> refines the abstract screen, a text of 25 lines of 80 cells and a cursor: an ordinary
  character is written at the cursor and advances it, a line end starts the next line, the last
  line scrolls; it never faults, touches only the current video frame and the buffer of the
  running terminal, and the video memory keeps showing the buffer.\<close>

theorem putc_refines_screen:
  assumes "console_ok s"
  shows "\<exists>s'. putc c s = Inr s' \<and> console_ok s' \<and> screen_of s' = screen_put c (screen_of s) \<and>
    repaint s s' \<and> (video_shows s \<longrightarrow> video_shows s')"
  using putc_spec [OF assms] by blast

theorem putc_refines_screen_witness:
  "\<exists>s'. putc 65 sample = Inr s' \<and> screen_of s' = ((replicate 2000 0x20)[0 := 65], 1) \<and> video_shows s'"
  using putc_refines_screen [OF sample_kbd(1), of 65] sample_shows by (auto simp: screen_of_def screen_put_def)

text \<open>\<open>puts\<close> prints the characters of its string in order and returns their number.\<close>

lemma puts_prints_string:
  assumes "console_ok s" and "cstr m p xs"
  shows "\<exists>s'. puts m p s = Some (Inr (of_nat (length xs), s')) \<and> console_ok s' \<and>
    screen_of s' = fold screen_put xs (screen_of s) \<and> (video_shows s \<longrightarrow> video_shows s')"
  using console.emit [OF assms(1), of xs] puts_emit [OF assms(2), of s] by (auto simp: screen_step_def)

text \<open>C30: \<open>printf\<close> returns the length of its format and prints exactly the text the format and its
  arguments denote: plain characters, \<open>%%\<close>, \<open>%u\<close>, \<open>%d\<close>, \<open>%x\<close> with \<open>#\<close> for eight digits,
  \<open>%c\<close> and \<open>%s\<close>; outside its buffer memory is unchanged.\<close>

theorem printf_expands:
  assumes "fst f \<noteq> fst conv_buf" and "cstr m f fmt" and "expand fmt bs = Some out" and "list_all2 (arg_ok m) args bs" and "console_ok k"
  shows "\<exists>m' k'. printf m f args k = Some (Inr (of_nat (length fmt), m', k')) \<and> prints out k k' \<and>
    (\<forall>b. b \<noteq> fst conv_buf \<longrightarrow> m' b = m b)"
  using printf_expand [OF assms] .

theorem printf_expands_witness:
  "\<exists>m' k'. printf (stores sample_ram rodata (lit ''%d:%#x'' @ [0])) rodata [Num (- 7), Num 255] sample = Some (Inr (6, m', k')) \<and>
     snd (screen_of k') = 11 \<and> fst (screen_of k') ! 0 = 0x2D \<and> fst (screen_of k') ! 10 = 0x46"
proof -
  let ?m = "stores sample_ram rodata (lit ''%d:%#x'' @ [0])"
  have c: "cstr ?m rodata (lit ''%d:%#x'')" by (intro cstr_stores) (simp_all add: lit_def)
  have d: "itoa_string 10 7 = [0x37]" "itoa_string 16 255 = [0x46, 0x46]"
    by (simp_all add: rdigits.simps itoa_string_def lookup_def)
  have t: "signed_text (- 7) = [0x2D, 0x37]" "hex_text True 255 = [0x30, 0x30, 0x30, 0x30, 0x30, 0x30, 0x46, 0x46]"
    by (simp_all add: signed_text_def hex_text_def d) (simp add: eval_nat_numeral)
  have e: "expand (lit ''%d:%#x'') [FNum (- 7), FNum 255] = Some (lit ''-7:000000FF'')"
    by (simp add: lit_def conv_text_def t)
  have "list_all2 (arg_ok ?m) [Num (- 7), Num 255] [FNum (- 7), FNum 255]" by (simp add: arg_ok_def)
  from printf_expands [OF _ c e this sample_kbd(1)] show ?thesis
    by (auto simp: prints_def lit_def screen_of_def screen_put_def nth_list_update)
qed

subsection \<open>Scheduling and terminals\<close>

text \<open>C31: with two or more terminals every initialised terminal gets the processor within three clock
  ticks, in the address space of its process, on exactly the stack and at exactly the cursor it
  had when it last lost the processor.\<close>

theorem scheduler_fair:
  assumes "sched_ok s" and "\<not> fake_sti s" and "2 \<le> n_init s" and "0 \<le> j" "j < 3" and "term_init s ! nat j = 1"
  shows "\<exists>k\<in>{1, 2, 3}. \<exists>s'. ticks k s = Some (Inr s') \<and> bg_term s' = j \<and> cr3 s' = proc_active s ! nat j + 1 \<and>
    (esp s', ebp s', screen_x s', screen_y s') = term_context s j"
  using assms by (rule ticks_reach)

theorem scheduler_fair_witness:
  "\<exists>k\<in>{1, 2, 3}. \<exists>s'. ticks k sample = Some (Inr s') \<and> bg_term s' = 1 \<and> cr3 s' = 2 \<and> esp s' = 0x7FFDF00"
  using scheduler_fair [OF sample_std(4), of 1] by (auto simp: n_init_def term_context_def)

text \<open>C32: the scheduler's search for the next terminal returns exactly when some terminal is
  initialised.\<close>

theorem next_term_returns_iff:
  assumes "length ti = 3" and "0 \<le> b" "b < 3"
  shows "(\<exists>r. next_term ti b = Some r) \<longleftrightarrow> 1 \<in> set ti"
proof
  assume "1 \<in> set ti"
  then show "\<exists>r. next_term ti b = Some r" using next_term_rr [OF assms] by blast
next
  assume "\<exists>r. next_term ti b = Some r"
  then show "1 \<in> set ti" using next_term_returns assms by blast
qed

theorem next_term_returns_iff_witness: "next_term [0, 0, 0] 1 = None \<and> next_term [0, 1, 0] 1 \<noteq> None"
  using next_term_returns_iff [of "[0, 0, 0]" 1] next_term_returns_iff [of "[0, 1, 0]" 1] by auto

text \<open>C33: switching to a terminal that was started before shows that terminal's picture, runs its
  process, changes the saved context of no terminal, and keeps the picture of every terminal if the shown terminal is
  the scheduled one.  If another terminal is scheduled when the switch comes, the shown screen is not saved
  (sched.c:69): the terminal that was shown is left with the picture last saved for it, and only the others keep theirs.\<close>

theorem switch_keeps_pictures:
  assumes "sched_ok s" and "saved_mapped s" and "0 \<le> num" "num < 3" "term_init s ! nat num \<noteq> 0"
  shows "\<exists>s'. switchTerm ex num s = Some (Inr s') \<and> active_term s' = num \<and> bg_term s' = num \<and>
    cr3 s' = proc_active s ! nat num + 1 \<and> sched_ok s' \<and> screens_mapped s' \<and>
    (\<forall>t. 0 \<le> t \<longrightarrow> t < 3 \<longrightarrow> term_context s' t = term_context s t \<and>
      picture s' t = (if t = active_term s \<and> active_term s \<noteq> bg_term s then frames s (of_nat (nat (1 + t))) else picture s t))"
  by (rule switchTerm_shown [OF assms, of ex]) blast

theorem switch_keeps_pictures_witness:
  "\<exists>s'. switchTerm (\<lambda>s. None) 1 sample = Some (Inr s') \<and> active_term s' = 1 \<and> picture s' 0 = blank_page"
proof -
  have "saved_mapped sample" by (simp add: saved_mapped_def page_frame_def sample_PTE_def)
  from switch_keeps_pictures [OF sample_std(4) this, of 1 "\<lambda>s. None"] show ?thesis
    by (fastforce simp: picture_def)
qed

subsection \<open>The keyboard\<close>

text \<open>C34: \<open>read\<close> on the terminal returns the line that was typed: the characters of the keys pressed, in
  order, and the line end, in the caller's buffer, their number as the result, the same characters
  on the screen, and an empty line buffer for the next call; key releases in between do not
  matter.\<close>

theorem read_terminal_returns_line:
  assumes "kbd_ok s" and "no_modifiers s" and "\<not> fflag s"
    and "\<forall>sc\<in>set scs. plain_key sc \<or> release sc" and "0x0A \<notin> set (typed scs)" "0 \<notin> set (typed scs)"
    and "plain_key enter" "key_char enter = 0x0A" and "length (typed scs) < 127"
    and "0 \<in> set (drop 128 (kbuf s ! act s))" and "0 \<le> nbytes" "nbytes \<le> 1024"
  shows "\<exists>m' s'. read_terminal (map (key_irq ex x0) (scs @ [enter])) m buf1 nbytes s =
      Some (Inr (int (length (typed scs) + 1), m', s')) \<and>
    bytes m' buf1 (length (typed scs) + 1) = typed scs @ [0x0A] \<and>
    kbd_ok s' \<and> line s' = [] \<and> \<not> fflag s' \<and> (\<forall>b. b \<noteq> fst buf1 \<longrightarrow> m' b = m b) \<and>
    screen_of s' = fold screen_put (typed scs @ [0x0A]) (screen_of s)"
proof -
  obtain m' s' zs where r: "read_terminal (map (key_irq ex x0) (scs @ [enter])) m buf1 nbytes s =
      Some (Inr (int (length (typed scs) + 1), m', s'))" "kbd_ok s'" "line s' = []" "\<not> fflag s'"
    "screen_of s' = fold screen_put (typed scs @ [0x0A]) (screen_of s)"
    and m: "m' = stores m buf1 (typed scs @ [0x0A] @ zs)" "length (typed scs @ [0x0A] @ zs) \<le> 1024"
    using read_terminal_line [OF assms, of ex x0 m buf1] by blast
  have "bytes m' buf1 (length (typed scs) + 1) = typed scs @ [0x0A]"
    using bytes_stores_take [of "typed scs @ [0x0A] @ zs" "length (typed scs) + 1" m buf1] m by simp
  moreover have "\<forall>b. b \<noteq> fst buf1 \<longrightarrow> m' b = m b" by (auto simp: m(1) stores_def)
  ultimately show ?thesis using r by blast
qed

theorem read_terminal_returns_line_witness:
  "\<exists>m' s'. read_terminal (map (key_irq (\<lambda>s. None) 0) [0x26, 0xA6, 0x1F, 0x1C]) sample_ram (User 0, 0) 128 sample =
      Some (Inr (3, m', s')) \<and> bytes m' (User 0, 0) 3 = [108, 115, 10]"
proof -
  have t: "typed [0x26, 0xA6, 0x1F] = [108, 115]" "plain_key 0x1C" "key_char 0x1C = 0x0A"
    "\<forall>sc\<in>set [0x26, 0xA6, 0x1F]. plain_key sc \<or> release sc"
    by (simp_all add: typed_def plain_key_def key_char_def kbd_def release_def)
  have z: "0 \<in> set (drop 128 (kbuf sample ! act sample))" by simp
  show ?thesis
    using read_terminal_returns_line [OF sample_kbd(2,3) _ t(4) _ _ t(2,3) _ z, of 128 "\<lambda>s. None" 0 sample_ram "(User 0, 0)"]
    by (auto simp: t(1) numeral_3_eq_3)
qed

text \<open>Writing to the terminal prints the bytes of the buffer: the code prints one byte too many and
  then takes the last one back, so the screen is that of \<open>n + 1\<close> characters with the last
  rubbed out (but for \<open>n = 1023\<close>, where the extra byte stays).  Nothing but the screen, the port log
  and the line buffer changes.\<close>

lemma write_terminal_prints:
  assumes "kbd_ok s"
  shows "\<exists>s'. write_terminal m buf1 (int n) s = Inr (int n, s') \<and> kbd_ok s' \<and>
    screen_of s' = (if n = 1023 then fold screen_put (bytes m buf1 1024) (screen_of s)
      else screen_rub (fold screen_put (bytes m buf1 (Suc n)) (screen_of s))) \<and>
    line s' = [] \<and> (video_shows s \<longrightarrow> video_shows s') \<and> term_step s s'"
  using write_terminal_spec [OF assms, of m buf1 n] by (auto simp: shown_def)

text \<open>Backspace removes exactly the last character of the line being typed and the cell before the
  cursor; it never faults, and video memory and buffer stay in agreement.\<close>

lemma backspace_erases_last:
  assumes "kbd_ok s" and "physical \<longrightarrow> line s \<noteq> []"
  shows "\<exists>s'. backspacing physical s = Inr s' \<and> kbd_ok s' \<and> screen_of s' = screen_rub (screen_of s) \<and>
    line s' = butlast (line s) \<and> (video_shows s \<longrightarrow> video_shows s')"
  using backspacing_spec [OF assms] by blast

text \<open>C35: whatever keys are pressed and released (letters, symbols, Shift, Caps Lock, Ctrl, Ctrl-L, Backspace,
  Enter), the handler returns, the index of the line stays between 0 and 127 in a row of 1024 bytes
  and the cursor stays on the screen of 80 by 25.  Tab, Alt and the codes outside the key table are
  left out: see the next theorem and the findings.\<close>

theorem line_index_bounded:
  assumes "kbd_ok s" and "\<not> alt_on s" and "safe_keys (ctrl_on s) scs"
  shows "\<exists>s'. run_irqs (map (key_irq ex x0) scs) s = Some (Inr s') \<and> 0 \<le> buf_index s' ! nat (active_term s) \<and>
    buf_index s' ! nat (active_term s) \<le> 127 \<and> length (kbuf s' ! nat (active_term s)) = 1024 \<and>
    0 \<le> screen_x s' \<and> screen_x s' < 80 \<and> 0 \<le> screen_y s' \<and> screen_y s' < 25"
proof -
  obtain s' where s': "run_irqs (map (key_irq ex x0) scs) s = Some (Inr s')" "kbd_ok s'" "active_term s' = active_term s"
    using safe_keys_run [OF assms, of ex x0] by blast
  then show ?thesis using kbd_okD [OF s'(2)] by (auto simp: console_ok_def)
qed

theorem line_index_bounded_witness:
  "\<exists>s'. run_irqs (map (key_irq (\<lambda>s. None) 0) (0x1D # 0x26 # 0x9D # replicate 200 0x1E)) sample = Some (Inr s') \<and> buf_index s' ! 0 \<le> 127"
proof -
  have "safe_keys False (replicate n 0x1E)" for n by (induction n) (simp_all add: safe_key_def ctrl_after_def)
  then have "safe_keys False (0x1D # 0x26 # 0x9D # replicate 200 0x1E)" by (simp add: safe_key_def ctrl_after_def)
  then show ?thesis
    using line_index_bounded [of sample "0x1D # 0x26 # 0x9D # replicate 200 0x1E" "\<lambda>s. None" 0] sample_kbd by (auto simp: no_modifiers_def)
qed

text \<open>Tab has no such bound: the four blanks of a Tab are stored without a test, so 257 Tabs in a row write
  past the end of the line buffer whatever was typed before.\<close>

lemma tabs_overrun_line:
  assumes "kbd_ok s" and "257 \<le> n"
  shows "run_irqs (replicate n (key_irq ex x0 0x0F)) s = Some (Inl (Bad_index ''buf'' 1024))"
  using assms kbd_okD [OF assms(1)] by (intro tabs_overrun) (auto simp: row_ok_def kbd_ok_def)

subsection \<open>Devices\<close>

text \<open>C36: asking for \<open>2 ^ k\<close> Hz programs the clock chip to interrupt \<open>2 ^ k\<close> times a second, with
  the periodic interrupt on; the chip is the documented index/data register file.\<close>

theorem rtc_write_programs_rate:
  assumes "cmos r0 hw" and "1 \<le> k" "k \<le> 10"
  shows "rtc_hz (snd (cmos_regs r0 (io (rtc_write hw (push_bit k 1) s)))) = 2 ^ k \<and>
    bit (snd (cmos_regs r0 (io (rtc_write hw (push_bit k 1) s))) 0x0B) 6"
  using rtc_write_frequency [OF assms] by blast

theorem rtc_write_programs_rate_witness:
  "rtc_hz (snd (cmos_regs (\<lambda>i. 0x26) (io (rtc_write sample_chip (push_bit 5 1) sample)))) = 32"
  using rtc_write_programs_rate [of "\<lambda>i. 0x26" sample_chip 5 sample] by (simp add: cmos_def sample_chip_def)

text \<open>\<open>enable_irq\<close> unmasks exactly the given interrupt line, on either chip, and keeps the masks the
  chips were last sent equal to the kernel's copies.\<close>

lemma enable_irq_unmasks:
  assumes "irq < 16" and "n < 16"
  shows "(irq_masked (enable_irq (of_nat irq) s) n \<longleftrightarrow> irq_masked s n \<and> n \<noteq> irq) \<and>
    (pic_synced s \<longrightarrow> pic_synced (enable_irq (of_nat irq) s))"
  using enable_irq_masked [OF assms] enable_irq_synced by blast

text \<open>C37: \<open>disable_irq\<close> masks exactly the given line on the master chip; on the slave chip it instead
  unmasks every other line and masks the given one only if it was masked before.\<close>

theorem disable_irq_masks:
  assumes "irq < 16" and "n < 16"
  shows "irq_masked (disable_irq (of_nat irq) s) n \<longleftrightarrow>
    (if irq < 8 then irq_masked s n \<or> n = irq else irq_masked s n \<and> (n < 8 \<or> n = irq))"
  using disable_irq_master [of irq n s] disable_irq_slave [of irq n s] assms by simp

theorem disable_irq_masks_witness:
  "irq_masked (i8259_init sample) 9 \<and> \<not> irq_masked (disable_irq 8 (i8259_init sample)) 9"
  using disable_irq_masks [of 8 9 "i8259_init sample"] i8259_init_masks [of 9 sample] by simp

text \<open>\<open>send_eoi\<close> sends the specific end-of-interrupt of a master line to the master, and for a slave
  line first its own number to the slave and then line 2 to the master.\<close>

lemma send_eoi_acknowledges:
  assumes "irq < 16"
  shows "io (send_eoi (of_nat irq) s) = io s @ (if irq < 8 then [Out 0x20 (of_nat (0x60 + irq))]
     else [Out 0xA0 (of_nat (0x60 + (irq - 8))), Out 0x20 0x62])"
proof -
  have e: "irq \<in> set [0..<16]" using assms by simp
  have "\<forall>i\<in>set [0..<16]. (ucast (0x60 OR (of_nat (i mod 8) :: u32)) :: u8) = of_nat (0x60 + i mod 8)"
    by (simp add: upt_rec)
  then have u: "(ucast (0x60 OR (of_nat (irq mod 8) :: u32)) :: u8) = of_nat (0x60 + irq mod 8)" using e by blast
  show ?thesis
  proof (cases "irq < 8")
    case True
    then have "(of_nat irq :: u32) < 8" by (simp add: word_less_nat_alt unat_u32_of_nat)
    then show ?thesis using True u by (simp add: send_eoi_master)
  next
    case False
    have "(8 :: u32) \<le> of_nat irq" using False assms by (simp add: word_le_nat_alt unat_u32_of_nat)
    moreover have m: "irq - 8 = irq mod 8" using False assms by presburger
    moreover have "(of_nat irq :: u32) - 8 = of_nat (irq - 8)" using False by (simp add: of_nat_diff)
    ultimately show ?thesis using False u by (simp add: send_eoi_slave)
  qed
qed

subsection \<open>Library routines\<close>

text \<open>C38: \<open>memcpy\<close>, which copies bytes up to an aligned address, then double words, then the rest, is a
  plain byte copy for regions that do not overlap, whatever their alignment.\<close>

theorem memcpy_copies:
  assumes "fsep d s (unat n)"
  shows "memcpy m d s n = fwrite m d (fbytes m s (unat n))"
  using assms by (rule memcpy_fwrite)

theorem memcpy_copies_witness: "memcpy disk_image 0x101 12288 5 0x101 = 72"
proof -
  have "\<forall>i\<in>set [0..<5]. \<forall>j\<in>set [0..<5]. (0x101 :: u32) + of_nat i \<noteq> 12288 + of_nat j" by (simp add: upt_rec)
  then have "fsep 0x101 12288 (unat (5 :: u32))" by (simp add: fsep_def)
  from memcpy_copies [OF this, of disk_image] show ?thesis by (simp add: fwrite_def fbytes_def upt_rec disk_image_def)
qed

text \<open>C39: \<open>memmove\<close> is a plain byte copy of the old contents also when the regions overlap; it leaves the
  direction flag set when it copied backwards.\<close>

theorem memmove_copies:
  assumes "unat s + unat n \<le> 2 ^ 32" and "unat d + unat n \<le> 2 ^ 32"
  shows "memmove m d s n = (fwrite m d (fbytes m s (unat n)), s < d)"
  using assms by (rule memmove_fwrite)

theorem memmove_copies_witness: "fst (memmove disk_image 12289 12288 5) 12290 = 101"
  using memmove_copies [of 12288 5 12289 disk_image] by (simp add: fwrite_def fbytes_def upt_rec disk_image_def)

text \<open>C40: for radix 2 to 36, \<open>itoa\<close> returns, writes at most 33 bytes, and the string it writes denotes the
  number in that radix.\<close>

theorem itoa_roundtrip:
  assumes "2 \<le> unat radix" and "unat radix \<le> 36"
  shows "\<exists>m' str. itoa m val buf radix = Some (Inr m') \<and> cstr m' buf str \<and> length str \<le> 32 \<and>
    from_radix (unat radix) str = unat val \<and> m' = stores m buf (str @ [0])"
proof -
  let ?str = "itoa_string (unat radix) (unat val)"
  have "length ?str \<le> 32" using itoa_string_length [OF assms(1)] unat_u32_lt [of val] by simp
  moreover from this have "cstr (stores m buf (?str @ [0])) buf ?str" using itoa_string_no_nul [OF assms] by (intro cstr_stores) simp_all
  ultimately show ?thesis using itoa_stores [OF assms] itoa_string_value [OF assms] by blast
qed

theorem itoa_roundtrip_witness:
  "\<exists>m' str. itoa sample_ram 255 (User 0, 0) 16 = Some (Inr m') \<and> cstr m' (User 0, 0) str \<and> from_radix 16 str = 255"
  using itoa_roundtrip [of 16 sample_ram 255 "(User 0, 0)"] by auto

end
